(* ===== verification/Veil_Prelude.thy ===== *)
theory Veil_Prelude
  imports Main "HOL-Library.Word" "HOL-Library.AList"
begin

text \<open>
  What every component of the development shares: bytes, the error classes of
  packages/crypto/src/errors.ts, results of code that may throw, JavaScript's \<open>Map\<close> as an
  insertion-ordered association list, UTF-8, and decimal rendering of numbers, with the
  lemmas the component theories use.
\<close>

section \<open>Collections of facts\<close>

named_theorems wire_simps \<open>equations of the byte writer and reader\<close>
named_theorems prim_defs \<open>definitions of the wrappers over the cryptographic library\<close>

section \<open>Bytes and strings\<close>

unbundle bit_operations_syntax

type_synonym byte = "8 word"
type_synonym bytes = "byte list"

text \<open>
  A JavaScript string is a list of characters; the code points 0 to 255 are modelled, which
  covers every string the code builds itself (labels, addresses, base64url, hex, JSON keys).
  UTF-8 writes a code point below 128 as one byte and one from 128 to 255 as two.
\<close>

definition utf8_char :: "char \<Rightarrow> bytes" where
  "utf8_char c = (let n = of_char c :: nat in
     if n < 128 then [word_of_nat n]
     else [word_of_nat (192 + n div 64), word_of_nat (128 + n mod 64)])"

definition utf8_encode :: "string \<Rightarrow> bytes" where
  "utf8_encode s = concat (map utf8_char s)"

lemma unat_byte_less [simp]: "unat (b :: byte) < 256"
proof -
  have "(unsigned b :: nat) < 2 ^ LENGTH(8)" by (rule unsigned_less)
  then show ?thesis by simp
qed

lemma utf8_byte_cancel: "m < 256 \<Longrightarrow> n < 256 \<Longrightarrow> (word_of_nat m :: byte) = word_of_nat n \<longleftrightarrow> m = n"
  by (auto dest: arg_cong[of _ _ unat] simp: unat_of_nat)

lemma utf8_char_cancel:
  assumes "utf8_char a @ xs = utf8_char b @ ys"
  shows "a = b \<and> xs = ys"
proof -
  have lt: "of_char a < (256 :: nat)" "of_char b < (256 :: nat)" by simp_all
  have "of_char a = (of_char b :: nat) \<and> xs = ys"
  proof -
    have code: "x = y \<and> xs = ys" if "x < 256" "y < 256"
      "(if x < 128 then [word_of_nat x] else [word_of_nat (192 + x div 64), word_of_nat (128 + x mod 64) :: byte]) @ xs =
       (if y < 128 then [word_of_nat y] else [word_of_nat (192 + y div 64), word_of_nat (128 + y mod 64)]) @ ys" for x y :: nat
    proof -
      have d: "192 + z div 64 < 256" "128 + z mod 64 < 256" if "z < 256" for z :: nat
        using that by (auto simp: div_less_iff_less_mult)
      have "x = y" if "x div 64 = y div 64" "x mod 64 = y mod 64"
        using that by (metis div_mult_mod_eq)
      with that show ?thesis
        by (auto simp: utf8_byte_cancel d simp del: of_nat_add of_nat_numeral split: if_splits)
    qed
    show ?thesis by (rule code[OF lt]) (use assms in \<open>simp add: utf8_char_def Let_def\<close>)
  qed
  then show ?thesis by simp
qed

lemma utf8_encode_inj [simp]: "utf8_encode s = utf8_encode t \<longleftrightarrow> s = t"
proof
  show "utf8_encode s = utf8_encode t \<Longrightarrow> s = t"
  proof (induction s arbitrary: t)
    case Nil
    then show ?case by (cases t) (auto simp: utf8_encode_def utf8_char_def Let_def split: if_splits)
  next
    case (Cons c s)
    show ?case
    proof (cases t)
      case Nil
      with Cons.prems show ?thesis by (auto simp: utf8_encode_def utf8_char_def Let_def split: if_splits)
    next
      case (Cons d u)
      with Cons.prems have "utf8_char c @ utf8_encode s = utf8_char d @ utf8_encode u"
        by (simp add: utf8_encode_def)
      from utf8_char_cancel[OF this] Cons.IH Cons show ?thesis by simp
    qed
  qed
qed simp

text \<open>\<open>Uint8Array.slice(i, j)\<close> copies the bytes from \<open>i\<close> up to \<open>j\<close>.\<close>

definition slice :: "nat \<Rightarrow> nat \<Rightarrow> 'a list \<Rightarrow> 'a list" where
  "slice i j xs = take (j - i) (drop i xs)"

text \<open>\<open>wipe\<close> overwrites a buffer with zeros; its length is unchanged.\<close>

definition zeroed :: "bytes \<Rightarrow> bytes" where
  "zeroed b = replicate (length b) 0"

section \<open>Numbers written in a base\<close>

text \<open>The \<open>k\<close> least significant digits of \<open>v\<close> in base \<open>b\<close>, most significant first.\<close>

fun base_digits :: "nat \<Rightarrow> nat \<Rightarrow> nat \<Rightarrow> nat list" where
  "base_digits b 0 v = []"
| "base_digits b (Suc k) v = base_digits b k (v div b) @ [v mod b]"

definition base_value :: "nat \<Rightarrow> nat list \<Rightarrow> nat" where
  "base_value b ds = foldl (\<lambda>a d. a * b + d) 0 ds"

lemma length_base_digits [simp]: "length (base_digits b k v) = k"
  by (induction b k v rule: base_digits.induct) auto

lemma base_digits_less: "0 < b \<Longrightarrow> d \<in> set (base_digits b k v) \<Longrightarrow> d < b"
  by (induction b k v rule: base_digits.induct) auto

lemma base_value_snoc [simp]: "base_value b (ds @ [d]) = base_value b ds * b + d"
  by (simp add: base_value_def)

lemma base_value_Nil [simp]: "base_value b [] = 0"
  by (simp add: base_value_def)

lemma base_value_digits: "base_value b (base_digits b k v) = v mod b ^ k"
proof (induction b k v rule: base_digits.induct)
  case (2 b k v)
  have "v mod b ^ Suc k = b * (v div b mod b ^ k) + v mod b"
    by (simp add: mod_mult2_eq)
  with 2 show ?case by (simp add: mult.commute)
qed simp

lemma base_digits_value:
  "\<forall>d \<in> set ds. d < b \<Longrightarrow> base_digits b (length ds) (base_value b ds) = ds"
  by (induction ds rule: rev_induct) auto

lemma base_value_less: "\<forall>d \<in> set ds. d < b \<Longrightarrow> base_value b ds < b ^ length ds"
proof (induction ds rule: rev_induct)
  case (snoc d ds)
  then have "base_value b ds < b ^ length ds" and "d < b" by auto
  then have "base_value b ds * b + d < (base_value b ds + 1) * b" by simp
  also have "\<dots> \<le> b ^ length ds * b"
    using \<open>base_value b ds < b ^ length ds\<close> by (intro mult_right_mono) auto
  finally show ?case by (simp add: mult.commute)
qed simp

lemma base_digits_inj:
  assumes "base_digits b k v = base_digits b k w" and "v < b ^ k" and "w < b ^ k"
  shows "v = w"
proof -
  from assms(1) have "v mod b ^ k = w mod b ^ k"
    by (metis base_value_digits)
  with assms(2,3) show ?thesis by simp
qed

text \<open>\<open>String(n)\<close> of a non-negative integer: its decimal digits.\<close>

definition digit_char :: "nat \<Rightarrow> char" where
  "digit_char d = ''0123456789'' ! d"

fun decimal :: "nat \<Rightarrow> string" where
  "decimal n = (if n < 10 then [digit_char n] else decimal (n div 10) @ [digit_char (n mod 10)])"

declare decimal.simps [simp del]

definition undecimal :: "string \<Rightarrow> nat" where
  "undecimal s = base_value 10 (map (\<lambda>c. of_char c - 48) s)"

lemma less_10_cases:
  assumes "(d :: nat) < 10"
  obtains "d = 0" | "d = 1" | "d = 2" | "d = 3" | "d = 4" | "d = 5" | "d = 6" | "d = 7" | "d = 8" | "d = 9"
  using assms by (auto simp: less_Suc_eq numeral_eq_Suc)

lemma of_char_digit_char: "d < 10 \<Longrightarrow> of_char (digit_char d) = 48 + d"
  by (erule less_10_cases) (simp_all add: digit_char_def)

lemma undecimal_decimal [simp]: "undecimal (decimal n) = n"
proof (induction n rule: decimal.induct)
  case (1 n)
  show ?case
  proof (cases "n < 10")
    case True
    then show ?thesis
      by (simp add: decimal.simps[of n] undecimal_def base_value_def of_char_digit_char)
  next
    case False
    with 1 have "undecimal (decimal (n div 10)) = n div 10" by simp
    with False show ?thesis
      by (simp add: decimal.simps[of n] undecimal_def of_char_digit_char)
  qed
qed

lemma decimal_inj [simp]: "decimal m = decimal n \<longleftrightarrow> m = n"
  by (metis undecimal_decimal)

lemma decimal_digits: "c \<in> set (decimal n) \<Longrightarrow> \<exists>d < 10. c = digit_char d"
proof (induction n rule: decimal.induct)
  case (1 n)
  then show ?case
    by (subst (asm) (2) decimal.simps) (auto split: if_splits intro: exI[of _ "n mod 10"])
qed

section \<open>String comparison\<close>

text \<open>\<open>a < b\<close> on strings: the first differing code unit decides, a proper prefix is smaller.\<close>

fun js_less :: "string \<Rightarrow> string \<Rightarrow> bool" where
  "js_less [] bs = (bs \<noteq> [])"
| "js_less (a # as) [] = False"
| "js_less (a # as) (b # bs) = (if a = b then js_less as bs else (of_char a :: nat) < of_char b)"

lemma js_less_irrefl: "\<not> js_less a a"
  by (induction a) auto

lemma js_less_trans: "js_less a b \<Longrightarrow> js_less b c \<Longrightarrow> js_less a c"
proof (induction a b arbitrary: c rule: js_less.induct)
  case (1 bs)
  then show ?case by (cases bs; cases c) auto
next
  case (3 a as b bs)
  then show ?case by (cases c) (auto split: if_splits)
qed simp

lemma js_less_total: "js_less a b \<or> a = b \<or> js_less b a"
proof (induction a b rule: js_less.induct)
  case (3 a as b bs)
  have "a = b \<or> (of_char a :: nat) < of_char b \<or> (of_char b :: nat) < of_char a"
    by (metis of_char_eq_iff linorder_less_linear)
  with 3 show ?case by auto
qed auto

text \<open>\<open>parts.join(sep)\<close>.\<close>

fun js_join :: "string \<Rightarrow> string list \<Rightarrow> string" where
  "js_join sep [] = ''''"
| "js_join sep [x] = x"
| "js_join sep (x # xs) = x @ sep @ js_join sep xs"

lemma length_decimal: "n < 10 ^ Suc k \<Longrightarrow> length (decimal n) \<le> Suc k"
proof (induction k arbitrary: n)
  case 0
  then show ?case by (simp add: decimal.simps[of n])
next
  case (Suc k)
  then have "n div 10 < 10 ^ Suc k" by (simp add: div_less_iff_less_mult)
  with Suc.IH[OF this] show ?case by (subst decimal.simps) simp
qed

section \<open>Errors and results\<close>

text \<open>
  The classes of errors.ts, without their message texts, plus the plain \<open>Error\<close> of the
  application layer. \<open>IdentityChangedError\<close> carries the two fingerprints.
\<close>

datatype error =
    MalformedInputError
  | AuthenticationError
  | UntrustedBundleError
  | IdentityChangedError string string
  | SessionStateError
  | ReplayError
  | VaultLockedError
  | OtherError

text \<open>\<open>instanceof SessionStateError\<close>: ReplayError extends it.\<close>

fun is_session_state_error :: "error \<Rightarrow> bool" where
  "is_session_state_error SessionStateError = True"
| "is_session_state_error ReplayError = True"
| "is_session_state_error _ = False"

type_synonym 'a result = "error + 'a"

text \<open>Sequencing: an exception stops the computation.\<close>

definition rbind :: "'a result \<Rightarrow> ('a \<Rightarrow> 'b result) \<Rightarrow> 'b result" where
  "rbind r f = (case r of Inl e \<Rightarrow> Inl e | Inr x \<Rightarrow> f x)"

definition guard :: "bool \<Rightarrow> error \<Rightarrow> unit result" where
  "guard b e = (if b then Inr () else Inl e)"

lemma rbind_Inl [simp]: "rbind (Inl e) f = Inl e"
  by (simp add: rbind_def)

lemma rbind_Inr [simp]: "rbind (Inr x) f = f x"
  by (simp add: rbind_def)

lemma rbind_eq_Inr: "rbind r f = Inr y \<longleftrightarrow> (\<exists>x. r = Inr x \<and> f x = Inr y)"
  by (cases r) auto

lemma rbind_eq_Inl: "rbind r f = Inl e \<longleftrightarrow> r = Inl e \<or> (\<exists>x. r = Inr x \<and> f x = Inl e)"
  by (cases r) auto

lemma rbind_assoc: "rbind (rbind r f) g = rbind r (\<lambda>x. rbind (f x) g)"
  by (cases r) auto

lemma rbind_cong [fundef_cong]:
  "r = r' \<Longrightarrow> (\<And>x. r' = Inr x \<Longrightarrow> f x = f' x) \<Longrightarrow> rbind r f = rbind r' f'"
  by (cases r') auto

lemma guard_simps [simp]: "guard True e = Inr ()" "guard False e = Inl e"
  by (simp_all add: guard_def)

lemma guard_eq_Inr [simp]: "guard b e = Inr u \<longleftrightarrow> b"
  by (simp add: guard_def)

lemma guard_eq_Inl: "guard b e = Inl e' \<longleftrightarrow> \<not> b \<and> e' = e"
  by (auto simp: guard_def)

section \<open>JavaScript maps\<close>

text \<open>
  A \<open>Map\<close> iterates in insertion order and \<open>set\<close> on a present key keeps its place, which is
  what \<^theory_text>\<open>AList.update\<close> does on an association list. \<open>size\<close> is the length.
\<close>

type_synonym ('k, 'v) jsmap = "('k \<times> 'v) list"

abbreviation js_get :: "('k, 'v) jsmap \<Rightarrow> 'k \<Rightarrow> 'v option" where
  "js_get m k \<equiv> map_of m k"

abbreviation js_set :: "'k \<Rightarrow> 'v \<Rightarrow> ('k, 'v) jsmap \<Rightarrow> ('k, 'v) jsmap" where
  "js_set k v m \<equiv> AList.update k v m"

abbreviation js_delete :: "'k \<Rightarrow> ('k, 'v) jsmap \<Rightarrow> ('k, 'v) jsmap" where
  "js_delete k m \<equiv> AList.delete k m"

abbreviation js_keys :: "('k, 'v) jsmap \<Rightarrow> 'k list" where
  "js_keys m \<equiv> map fst m"

definition js_ok :: "('k, 'v) jsmap \<Rightarrow> bool" where
  "js_ok m \<longleftrightarrow> distinct (js_keys m)"

lemma js_ok_Nil [simp]: "js_ok []"
  by (simp add: js_ok_def)

lemma js_ok_set [simp]: "js_ok m \<Longrightarrow> js_ok (js_set k v m)"
  by (simp add: js_ok_def distinct_update)

lemma js_ok_delete [simp]: "js_ok m \<Longrightarrow> js_ok (js_delete k m)"
  by (simp add: js_ok_def distinct_delete)

lemma js_ok_filter [simp]: "js_ok m \<Longrightarrow> js_ok (filter P m)"
  by (simp add: js_ok_def distinct_map_filter)

lemma js_get_set [simp]: "js_get (js_set k v m) k' = (if k' = k then Some v else js_get m k')"
  by (simp add: update_conv')

lemma js_get_delete [simp]: "js_get (js_delete k m) k' = (if k' = k then None else js_get m k')"
  by (simp add: delete_conv')

lemma js_get_None_iff: "js_get m k = None \<longleftrightarrow> k \<notin> set (js_keys m)"
  by (induction m) auto

lemma js_size_set: "length (js_set k v m) = (if k \<in> set (js_keys m) then length m else Suc (length m))"
  by (induction m) auto

lemma js_size_set_le: "length (js_set k v m) \<le> Suc (length m)"
  by (simp add: js_size_set)

lemma js_size_delete_le: "length (js_delete k m) \<le> length m"
  by (simp add: AList.delete_eq)

lemma js_size_delete: "js_ok m \<Longrightarrow> k \<in> set (js_keys m) \<Longrightarrow> length (js_delete k m) = length m - 1"
proof (induction m)
  case (Cons p m)
  show ?case
  proof (cases "fst p = k")
    case True
    then have "js_delete k m = m"
      using Cons.prems(1) by (auto simp: js_ok_def intro: delete_idem)
    with True show ?thesis by (cases p) simp
  next
    case False
    then have k: "k \<in> set (js_keys m)" using Cons.prems(2) by auto
    then have "length (js_delete k m) = length m - 1"
      using Cons by (simp add: js_ok_def)
    moreover from k have "length m \<noteq> 0" by auto
    ultimately show ?thesis using False by (cases p) auto
  qed
qed simp

lemma js_keys_delete: "fst ` set (js_delete k m) = fst ` set m - {k}"
  by (induction m) auto

lemma js_keys_set: "fst ` set (js_set k v m) = insert k (fst ` set m)"
  by (induction m) auto

lemma js_get_filter:
  "js_ok m \<Longrightarrow> js_get (filter P m) k = (case js_get m k of None \<Rightarrow> None
     | Some v \<Rightarrow> if P (k, v) then Some v else None)"
proof (induction m)
  case (Cons p m)
  obtain a b where p: "p = (a, b)" by (cases p)
  have IH: "js_get (filter P m) k = (case js_get m k of None \<Rightarrow> None
     | Some v \<Rightarrow> if P (k, v) then Some v else None)"
    using Cons by (simp add: js_ok_def)
  show ?case
  proof (cases "a = k")
    case True
    then have "js_get m k = None" using Cons.prems p by (auto simp: js_ok_def js_get_None_iff)
    with IH True p show ?thesis by simp
  next
    case False
    with IH p show ?thesis by simp
  qed
qed simp

end
