(* ===== verification/Veil_Wire.thy ===== *)
theory Veil_Wire
  imports Veil_Prelude
begin

text \<open>
  The binary codec of packages/crypto/src/wire.ts: the \<open>Writer\<close> and \<open>Reader\<close> classes, hex,
  base32 and \<open>concat\<close>. The codec's contract (what is written is read back, nothing else is
  accepted, and encodings are self-delimiting) is the locale \<open>wire_codec\<close>, interpreted here on
  the integer and length-prefixed fields and in later theories on whole messages.
\<close>

section \<open>Writer\<close>

text \<open>The chunks pushed so far and their total length (class Writer).\<close>

record writer =
  chunks :: "bytes list"
  wlength :: nat

definition new_writer :: writer where
  "new_writer = \<lparr>chunks = [], wlength = 0\<rparr>"

definition w_push :: "bytes \<Rightarrow> writer \<Rightarrow> writer" where
  "w_push c w = w\<lparr>chunks := chunks w @ [c], wlength := wlength w + length c\<rparr>"

text \<open>\<open>DataView.setUint32\<close> and \<open>setBigUint64\<close> with littleEndian false: big-endian bytes.\<close>

definition be_bytes :: "nat \<Rightarrow> nat \<Rightarrow> bytes" where
  "be_bytes k v = map word_of_nat (base_digits 256 k v)"

definition be_value :: "bytes \<Rightarrow> nat" where
  "be_value bs = base_value 256 (map unat bs)"

definition w_u8 :: "int \<Rightarrow> writer \<Rightarrow> writer result" where
  "w_u8 v w = (if v < 0 \<or> v > 0xff then Inl MalformedInputError
     else Inr (w_push [word_of_int v] w))"

definition w_u32 :: "int \<Rightarrow> writer \<Rightarrow> writer result" where
  "w_u32 v w = (if v < 0 \<or> v > 0xffffffff then Inl MalformedInputError
     else Inr (w_push (be_bytes 4 (nat v)) w))"

definition w_u64 :: "int \<Rightarrow> writer \<Rightarrow> writer result" where
  "w_u64 v w = (if v < 0 \<or> v > 0xffffffffffffffff then Inl MalformedInputError
     else Inr (w_push (be_bytes 8 (nat v)) w))"

definition w_fixed :: "bytes \<Rightarrow> writer \<Rightarrow> writer result" where
  "w_fixed b w = Inr (w_push b w)"

definition w_bytes :: "bytes \<Rightarrow> writer \<Rightarrow> writer result" where
  "w_bytes v w = rbind (w_u32 (int (length v)) w) (\<lambda>w. Inr (w_push v w))"

text \<open>\<open>out.set(chunk, offset)\<close> for each chunk, with the running offset.\<close>

fun blit :: "bytes \<Rightarrow> nat \<Rightarrow> bytes list \<Rightarrow> bytes" where
  "blit out off [] = out"
| "blit out off (c # cs) =
     blit (take off out @ c @ drop (off + length c) out) (off + length c) cs"

definition w_finish :: "writer \<Rightarrow> bytes" where
  "w_finish w = blit (replicate (wlength w) 0) 0 (chunks w)"

definition concat_bytes :: "bytes list \<Rightarrow> bytes" where
  "concat_bytes parts = blit (replicate (sum_list (map length parts)) 0) 0 parts"

text \<open>A fluent chain \<open>new Writer().a(..).b(..).finish()\<close>: the calls in order.\<close>

fun w_chain :: "(writer \<Rightarrow> writer result) list \<Rightarrow> writer \<Rightarrow> writer result" where
  "w_chain [] w = Inr w"
| "w_chain (s # ss) w = rbind (s w) (w_chain ss)"

definition w_run :: "(writer \<Rightarrow> writer result) list \<Rightarrow> bytes result" where
  "w_run ss = rbind (w_chain ss new_writer) (\<lambda>w. Inr (w_finish w))"

section \<open>Reader\<close>

record reader =
  rbuf :: bytes
  roff :: nat

definition new_reader :: "bytes \<Rightarrow> reader" where
  "new_reader b = \<lparr>rbuf = b, roff = 0\<rparr>"

definition r_take :: "int \<Rightarrow> reader \<Rightarrow> (bytes \<times> reader) result" where
  "r_take n r = (if n < 0 \<or> int (roff r) + n > int (length (rbuf r)) then Inl MalformedInputError
     else Inr (slice (roff r) (roff r + nat n) (rbuf r), r\<lparr>roff := roff r + nat n\<rparr>))"

definition r_u8 :: "reader \<Rightarrow> (nat \<times> reader) result" where
  "r_u8 r = rbind (r_take 1 r) (\<lambda>(b, r). Inr (unat (hd b), r))"

definition r_u32 :: "reader \<Rightarrow> (nat \<times> reader) result" where
  "r_u32 r = rbind (r_take 4 r) (\<lambda>(b, r). Inr (be_value b, r))"

definition r_u64 :: "reader \<Rightarrow> (nat \<times> reader) result" where
  "r_u64 r = rbind (r_take 8 r) (\<lambda>(b, r). Inr (be_value b, r))"

definition r_fixed :: "nat \<Rightarrow> reader \<Rightarrow> (bytes \<times> reader) result" where
  "r_fixed n r = r_take (int n) r"

definition r_bytes :: "reader \<Rightarrow> (bytes \<times> reader) result" where
  "r_bytes r = rbind (r_u32 r) (\<lambda>(n, r). r_take (int n) r)"

definition r_end :: "reader \<Rightarrow> unit result" where
  "r_end r = guard (roff r = length (rbuf r)) MalformedInputError"

section \<open>Hexadecimal\<close>

definition hex_digit :: "nat \<Rightarrow> char" where
  "hex_digit d = ''0123456789abcdef'' ! d"

text \<open>\<open>byte.toString(16)\<close>: one digit below 16, two from 16 on.\<close>

definition to_string16 :: "byte \<Rightarrow> string" where
  "to_string16 b = (if unat b < 16 then [hex_digit (unat b)]
     else [hex_digit (unat b div 16), hex_digit (unat b mod 16)])"

definition pad_start :: "nat \<Rightarrow> char \<Rightarrow> string \<Rightarrow> string" where
  "pad_start n c s = replicate (n - length s) c @ s"

definition toHex :: "bytes \<Rightarrow> string" where
  "toHex bs = concat (map (\<lambda>b. pad_start 2 CHR ''0'' (to_string16 b)) bs)"

text \<open>
  \<open>Number.parseInt(s, 16)\<close>: leading white space is skipped, then an optional sign, an optional
  \<open>0x\<close>, and the longest run of hexadecimal digits; \<open>NaN\<close> (None) when there is no digit.
  What follows the digits is ignored.
\<close>

definition hex_value :: "char \<Rightarrow> nat option" where
  "hex_value c = (let n = of_char c in
     if 48 \<le> n \<and> n \<le> 57 then Some (n - 48)
     else if 97 \<le> n \<and> n \<le> 102 then Some (n - 87)
     else if 65 \<le> n \<and> n \<le> 70 then Some (n - 55)
     else None)"

definition is_js_space :: "char \<Rightarrow> bool" where
  "is_js_space c = (let n = of_char c :: nat in (9 \<le> n \<and> n \<le> 13) \<or> n = 32 \<or> n = 160)"

definition parse_digits16 :: "string \<Rightarrow> int option" where
  "parse_digits16 s = (case takeWhile (\<lambda>d. d \<noteq> None) (map hex_value s) of
      [] \<Rightarrow> None | ds \<Rightarrow> Some (int (base_value 16 (map the ds))))"

definition strip_0x :: "string \<Rightarrow> string" where
  "strip_0x s = (case s of
      z # x # t \<Rightarrow> if z = CHR ''0'' \<and> (x = CHR ''x'' \<or> x = CHR ''X'') then t else s
    | _ \<Rightarrow> s)"

definition parse_int16 :: "string \<Rightarrow> int option" where
  "parse_int16 s = (case dropWhile is_js_space s of
      [] \<Rightarrow> None
    | c # t \<Rightarrow>
        if c = CHR ''-'' then map_option uminus (parse_digits16 (strip_0x t))
        else if c = CHR ''+'' then parse_digits16 (strip_0x t)
        else parse_digits16 (strip_0x (c # t)))"

fun fromHex_loop :: "string \<Rightarrow> bytes result" where
  "fromHex_loop (a # b # s) = (case parse_int16 [a, b] of
      None \<Rightarrow> Inl MalformedInputError
    | Some v \<Rightarrow> rbind (fromHex_loop s) (\<lambda>bs. Inr (word_of_int v # bs)))"
| "fromHex_loop _ = Inr []"

definition fromHex :: "string \<Rightarrow> bytes result" where
  "fromHex hex = (if odd (length hex) then Inl MalformedInputError else fromHex_loop hex)"

section \<open>Base32\<close>

definition base32_alphabet :: string where
  "base32_alphabet = ''abcdefghijkmnpqrstuvwxyz23456789''"

text \<open>
  The inner loop: while at least five bits are pending, append the character for the top five.
  \<open>value\<close> is a 32-bit integer and \<open>>>>\<close> an unsigned shift.
\<close>

function base32_flush :: "nat \<Rightarrow> 32 word \<Rightarrow> string \<Rightarrow> nat \<times> string" where
  "base32_flush bits val out =
     (if 5 \<le> bits
      then base32_flush (bits - 5) val
             (out @ [base32_alphabet ! unat (drop_bit (bits - 5) val AND 31)])
      else (bits, out))"
  by pat_completeness auto
termination
  by (relation "measure (\<lambda>(bits, val, out). bits)") auto

declare base32_flush.simps [simp del]

fun base32_loop :: "bytes \<Rightarrow> nat \<Rightarrow> 32 word \<Rightarrow> string \<Rightarrow> nat \<times> 32 word \<times> string" where
  "base32_loop [] bits val out = (bits, val, out)"
| "base32_loop (b # bs) bits val out =
     (let val = push_bit 8 val OR ucast b;
          (bits, out) = base32_flush (bits + 8) val out
      in base32_loop bs bits val out)"

definition toBase32 :: "bytes \<Rightarrow> string" where
  "toBase32 bs = (case base32_loop bs 0 0 '''' of (bits, val, out) \<Rightarrow>
     if bits > 0 then out @ [base32_alphabet ! unat (push_bit (5 - bits) val AND 31)] else out)"

section \<open>Facts about the writer\<close>

definition w_out :: "writer \<Rightarrow> bytes" where
  "w_out w = concat (chunks w)"

text \<open>The class invariant: \<open>length\<close> counts the bytes of the chunks.\<close>

definition writer_ok :: "writer \<Rightarrow> bool" where
  "writer_ok w \<longleftrightarrow> wlength w = length (w_out w)"

lemma length_be_bytes [simp]: "length (be_bytes k v) = k"
  by (simp add: be_bytes_def)

lemma be_value_be_bytes: "be_value (be_bytes k v) = v mod 256 ^ k"
proof -
  have "map unat (be_bytes k v) = base_digits 256 k v"
    unfolding be_bytes_def map_map
    by (rule map_idI) (auto simp: unat_of_nat dest: base_digits_less[rotated])
  then show ?thesis by (simp add: be_value_def base_value_digits)
qed

lemma be_bytes_be_value: "be_bytes (length bs) (be_value bs) = bs"
proof -
  have "\<forall>d \<in> set (map unat bs). d < 256"
    by auto
  then have "base_digits 256 (length bs) (be_value bs) = map unat bs"
    using base_digits_value[of "map unat bs" 256] by (simp add: be_value_def)
  then show ?thesis by (simp add: be_bytes_def map_idI)
qed

lemma be_value_Cons: "be_value (b # bs) = unat b * 256 ^ length bs + be_value bs"
proof (induction bs rule: rev_induct)
  case (snoc c bs)
  have "be_value (b # bs @ [c]) = be_value (b # bs) * 256 + unat c"
    by (simp add: be_value_def flip: append_Cons)
  moreover have "be_value (bs @ [c]) = be_value bs * 256 + unat c"
    by (simp add: be_value_def)
  ultimately show ?case using snoc by (simp add: algebra_simps)
qed (simp add: be_value_def base_value_def)

lemma be_value_less: "be_value bs < 256 ^ length bs"
  using base_value_less[of "map unat bs" 256] by (simp add: be_value_def)

lemma be_bytes_inj: "be_bytes k v = be_bytes k w \<Longrightarrow> v < 256 ^ k \<Longrightarrow> w < 256 ^ k \<Longrightarrow> v = w"
  by (metis be_value_be_bytes mod_less)

lemma blit_append:
  "off + sum_list (map length cs) = length out \<Longrightarrow> blit out off cs = take off out @ concat cs"
proof (induction cs arbitrary: out off)
  case (Cons c cs)
  have "blit out off (c # cs)
      = take (off + length c) (take off out @ c @ drop (off + length c) out) @ concat cs"
    using Cons.prems by (simp add: Cons.IH)
  with Cons.prems show ?case by simp
qed simp

lemma concat_bytes_concat [simp]: "concat_bytes ps = concat ps"
  by (simp add: concat_bytes_def blit_append)

lemma w_finish_out [wire_simps]: "writer_ok w \<Longrightarrow> w_finish w = w_out w"
  by (simp add: w_finish_def writer_ok_def w_out_def blit_append length_concat)

lemma new_writer_ok [simp, wire_simps]: "writer_ok new_writer" "w_out new_writer = []"
  by (simp_all add: writer_ok_def new_writer_def w_out_def)

lemma w_push_ok [simp, wire_simps]:
  "writer_ok (w_push c w) = writer_ok w" "w_out (w_push c w) = w_out w @ c"
  by (simp_all add: writer_ok_def w_push_def w_out_def)

text \<open>
  A step of a chain either appends its image or, when its value does not fit the field, throws
  MalformedInputError and nothing else.
\<close>

definition writes :: "(writer \<Rightarrow> writer result) \<Rightarrow> bool \<times> bytes \<Rightarrow> bool" where
  "writes s pb \<longleftrightarrow> (\<forall>w. writer_ok w \<longrightarrow>
     (if fst pb then \<exists>w'. s w = Inr w' \<and> writer_ok w' \<and> w_out w' = w_out w @ snd pb
      else s w = Inl MalformedInputError))"

definition fits_u32 :: "int \<Rightarrow> bool" where
  "fits_u32 v \<longleftrightarrow> 0 \<le> v \<and> v \<le> 0xffffffff"

definition fits_len :: "bytes \<Rightarrow> bool" where
  "fits_len b \<longleftrightarrow> length b \<le> 0xffffffff"

definition image_bytes :: "bytes \<Rightarrow> bytes" where
  "image_bytes b = be_bytes 4 (length b) @ b"

lemma writes_u8 [wire_simps]: "writes (w_u8 v) (0 \<le> v \<and> v \<le> 0xff, [word_of_int v])"
  by (auto simp: writes_def w_u8_def)

lemma writes_u32 [wire_simps]: "writes (w_u32 v) (fits_u32 v, be_bytes 4 (nat v))"
  by (auto simp: writes_def w_u32_def fits_u32_def)

lemma writes_u64 [wire_simps]:
  "writes (w_u64 v) (0 \<le> v \<and> v \<le> 0xffffffffffffffff, be_bytes 8 (nat v))"
  by (auto simp: writes_def w_u64_def)

lemma writes_fixed [wire_simps]: "writes (w_fixed b) (True, b)"
  by (auto simp: writes_def w_fixed_def)

lemma writes_bytes [wire_simps]: "writes (w_bytes b) (fits_len b, image_bytes b)"
  by (auto simp: writes_def w_bytes_def w_u32_def fits_len_def image_bytes_def)

lemma w_chain_writes:
  assumes "list_all2 writes ss pbs" and "writer_ok w"
  shows "if \<forall>p \<in> set pbs. fst p
    then \<exists>w'. w_chain ss w = Inr w' \<and> writer_ok w' \<and> w_out w' = w_out w @ concat (map snd pbs)
    else w_chain ss w = Inl MalformedInputError"
  using assms
proof (induction ss pbs arbitrary: w rule: list_all2_induct)
  case (Cons s ss p pbs)
  show ?case
  proof (cases "fst p")
    case True
    with Cons obtain w' where w': "s w = Inr w'" "writer_ok w'" "w_out w' = w_out w @ snd p"
      by (auto simp: writes_def)
    with Cons.IH[OF w'(2)] True show ?thesis by (auto split: if_splits)
  next
    case False
    with Cons show ?thesis by (auto simp: writes_def)
  qed
qed simp

text \<open>The normal form of a writer chain: its images in order, or the one error it can throw.\<close>

lemma w_run_writes:
  assumes "list_all2 writes ss pbs"
  shows "w_run ss = (if \<forall>p \<in> set pbs. fst p then Inr (concat (map snd pbs))
     else Inl MalformedInputError)"
  using w_chain_writes[OF assms new_writer_ok(1)]
  by (auto simp: w_run_def w_finish_out split: if_splits)

section \<open>Facts about the reader\<close>

definition r_rest :: "reader \<Rightarrow> bytes" where
  "r_rest r = drop (roff r) (rbuf r)"

definition reader_ok :: "reader \<Rightarrow> bool" where
  "reader_ok r \<longleftrightarrow> roff r \<le> length (rbuf r)"

definition r_advance :: "nat \<Rightarrow> reader \<Rightarrow> reader" where
  "r_advance n r = r\<lparr>roff := roff r + n\<rparr>"

lemma new_reader_ok [simp]: "reader_ok (new_reader b)" "r_rest (new_reader b) = b"
  by (simp_all add: reader_ok_def new_reader_def r_rest_def)

lemma r_take_rest:
  "reader_ok r \<Longrightarrow> r_take (int n) r = (if n \<le> length (r_rest r)
     then Inr (take n (r_rest r), r_advance n r) else Inl MalformedInputError)"
  by (auto simp: reader_ok_def r_take_def r_rest_def slice_def r_advance_def)

lemma r_advance_ok [simp]:
  "n \<le> length (r_rest r) \<Longrightarrow> reader_ok r \<Longrightarrow> reader_ok (r_advance n r)"
  "r_rest (r_advance n r) = drop n (r_rest r)"
  by (auto simp: reader_ok_def r_rest_def r_advance_def add.commute)

lemma r_end_rest: "reader_ok r \<Longrightarrow> r_end r = guard (r_rest r = []) MalformedInputError"
  by (auto simp: r_end_def r_rest_def reader_ok_def guard_def)

text \<open>
  The reader never looks outside its buffer: a read either consumes exactly the bytes it
  returns or throws MalformedInputError, and it throws exactly when too few bytes are left.
\<close>

lemma r_take_total:
  assumes "reader_ok r"
  shows "r_take n r = Inl MalformedInputError \<longleftrightarrow> n < 0 \<or> length (r_rest r) < nat n"
  using assms by (auto simp: reader_ok_def r_take_def r_rest_def)

section \<open>The codec contract\<close>

text \<open>Decoding a whole message: \<open>new Reader(bytes)\<close>, one read, \<open>reader.end()\<close>.\<close>

definition scan_whole :: "(reader \<Rightarrow> ('a \<times> reader) result) \<Rightarrow> bytes \<Rightarrow> 'a result" where
  "scan_whole scan b = rbind (scan (new_reader b)) (\<lambda>(x, r). rbind (r_end r) (\<lambda>_. Inr x))"

locale wire_codec =
  fixes emit :: "'a \<Rightarrow> writer \<Rightarrow> writer result"
    and scan :: "reader \<Rightarrow> ('a \<times> reader) result"
    and fits :: "'a \<Rightarrow> bool"
    and image :: "'a \<Rightarrow> bytes"
  assumes emit_image: "fits x \<Longrightarrow> writes (emit x) (True, image x)"
    and scan_image: "fits x \<Longrightarrow> reader_ok r \<Longrightarrow> r_rest r = image x @ ys \<Longrightarrow>
      \<exists>r'. scan r = Inr (x, r') \<and> reader_ok r' \<and> r_rest r' = ys"
    and scan_sound: "reader_ok r \<Longrightarrow> scan r = Inr (x, r') \<Longrightarrow>
      fits x \<and> reader_ok r' \<and> r_rest r = image x @ r_rest r'"
    and scan_error: "reader_ok r \<Longrightarrow> scan r = Inl e \<Longrightarrow> e = MalformedInputError"
begin

lemma self_delimiting:
  assumes "fits x" and "fits y" and "image x @ xs = image y @ ys"
  shows "x = y \<and> xs = ys"
proof -
  let ?r = "new_reader (image x @ xs)"
  have "r_rest ?r = image x @ xs" and "r_rest ?r = image y @ ys"
    using assms(3) by simp_all
  then obtain r1 r2 where "scan ?r = Inr (x, r1)" "r_rest r1 = xs"
    and "scan ?r = Inr (y, r2)" "r_rest r2 = ys"
    using scan_image[OF assms(1) new_reader_ok(1)] scan_image[OF assms(2) new_reader_ok(1)]
    by metis
  then show ?thesis by simp
qed

lemma image_inj: "fits x \<Longrightarrow> fits y \<Longrightarrow> image x = image y \<Longrightarrow> x = y"
  using self_delimiting[of x y "[]" "[]"] by simp

lemma whole_iff: "scan_whole scan b = Inr x \<longleftrightarrow> fits x \<and> b = image x"
proof
  assume "scan_whole scan b = Inr x"
  then obtain r where r: "scan (new_reader b) = Inr (x, r)" "r_end r = Inr ()"
    by (auto simp: scan_whole_def rbind_eq_Inr)
  from scan_sound[OF _ r(1)] r(2) show "fits x \<and> b = image x"
    by (auto simp: r_end_rest)
next
  assume "fits x \<and> b = image x"
  with scan_image[of x "new_reader b" "[]"]
  obtain r where "scan (new_reader b) = Inr (x, r)" "reader_ok r" "r_rest r = []" by auto
  then show "scan_whole scan b = Inr x" by (simp add: scan_whole_def r_end_rest)
qed

lemma whole_error: "scan_whole scan b = Inl e \<Longrightarrow> e = MalformedInputError"
proof -
  assume e: "scan_whole scan b = Inl e"
  show ?thesis
  proof (cases "scan (new_reader b)")
    case (Inl e')
    with e show ?thesis using scan_error[OF new_reader_ok(1)] by (auto simp: scan_whole_def)
  next
    case (Inr p)
    with e show ?thesis by (auto simp: scan_whole_def r_end_def guard_def split: if_splits prod.splits)
  qed
qed

lemma roundtrip: "fits x \<Longrightarrow> w_run [emit x] = Inr b \<Longrightarrow> scan_whole scan b = Inr x"
  using w_run_writes[of "[emit x]" "[(True, image x)]"] emit_image[of x]
  by (simp add: whole_iff)

end

text \<open>Fields whose writer checks the range and throws on a value that does not fit.\<close>

locale checked_codec = wire_codec +
  assumes emit_unfit: "\<not> fits x \<Longrightarrow> writes (emit x) (False, image x)"
begin

lemma emit_writes: "writes (emit x) (fits x, image x)"
  using emit_image emit_unfit by (cases "fits x") auto

lemma run_iff: "w_run [emit x] = Inr b \<longleftrightarrow> fits x \<and> b = image x"
  using w_run_writes[of "[emit x]" "[(fits x, image x)]"] emit_writes[of x] by auto

end

subsection \<open>Fields\<close>

interpretation u8c: checked_codec "\<lambda>n. w_u8 (int n)" r_u8 "\<lambda>n. n \<le> 0xff" "\<lambda>n. [word_of_nat n]"
proof unfold_locales
  fix n :: nat
  show "n \<le> 255 \<Longrightarrow> writes (w_u8 (int n)) (True, [word_of_nat n])"
    by (auto simp: writes_def w_u8_def)
  show "\<not> n \<le> 255 \<Longrightarrow> writes (w_u8 (int n)) (False, [word_of_nat n])"
    by (auto simp: writes_def w_u8_def)
next
  fix n :: nat and r ys
  assume "n \<le> 255" "reader_ok r" "r_rest r = [word_of_nat n] @ ys"
  then show "\<exists>r'. r_u8 r = Inr (n, r') \<and> reader_ok r' \<and> r_rest r' = ys"
    using r_take_rest[of r 1] by (auto simp: r_u8_def unat_of_nat)
next
  fix n :: nat and r r'
  assume "reader_ok r" "r_u8 r = Inr (n, r')"
  then show "n \<le> 255 \<and> reader_ok r' \<and> r_rest r = [word_of_nat n] @ r_rest r'"
    using r_take_rest[of r 1] unat_byte_less[of "hd (r_rest r)"]
    by (cases "r_rest r") (auto simp: r_u8_def rbind_eq_Inr less_Suc_eq_le[symmetric] split: if_splits)
next
  fix r e
  assume "reader_ok r" "r_u8 r = Inl e"
  then show "e = MalformedInputError"
    using r_take_rest[of r 1] by (auto simp: r_u8_def rbind_eq_Inl split: if_splits)
qed

lemma r_be_laws:
  assumes "reader_ok r"
  shows "v < 256 ^ k \<Longrightarrow> r_rest r = be_bytes k v @ ys \<Longrightarrow>
      rbind (r_take (int k) r) (\<lambda>(b, r). Inr (be_value b, r)) = Inr (v, r_advance k r)"
    and "rbind (r_take (int k) r) (\<lambda>(b, r). Inr (be_value b, r)) = Inr (v, r') \<Longrightarrow>
      v < 256 ^ k \<and> reader_ok r' \<and> r_rest r = be_bytes k v @ r_rest r'"
    and "rbind (r_take (int k) r) (\<lambda>(b, r). Inr (be_value b, r)) = Inl e \<Longrightarrow>
      e = MalformedInputError"
proof -
  show "v < 256 ^ k \<Longrightarrow> r_rest r = be_bytes k v @ ys \<Longrightarrow>
      rbind (r_take (int k) r) (\<lambda>(b, r). Inr (be_value b, r)) = Inr (v, r_advance k r)"
    using assms by (simp add: r_take_rest be_value_be_bytes)
  assume a: "rbind (r_take (int k) r) (\<lambda>(b, r). Inr (be_value b, r)) = Inr (v, r')"
  then have k: "k \<le> length (r_rest r)" "v = be_value (take k (r_rest r))" "r' = r_advance k r"
    using assms by (auto simp: r_take_rest rbind_eq_Inr split: if_splits)
  then have "v < 256 ^ k" using be_value_less[of "take k (r_rest r)"] by simp
  moreover have "length (take k (r_rest r)) = k" using k(1) by simp
  then have "be_bytes k v = take k (r_rest r)"
    using be_bytes_be_value[of "take k (r_rest r)"] unfolding k(2) by metis
  then have "r_rest r = be_bytes k v @ r_rest r'" unfolding k(3) by simp
  moreover have "reader_ok r'" unfolding k(3) using k(1) assms by (rule r_advance_ok)
  ultimately show "v < 256 ^ k \<and> reader_ok r' \<and> r_rest r = be_bytes k v @ r_rest r'"
    by blast
next
  show "rbind (r_take (int k) r) (\<lambda>(b, r). Inr (be_value b, r)) = Inl e \<Longrightarrow> e = MalformedInputError"
    using assms by (auto simp: r_take_rest rbind_eq_Inl split: if_splits)
qed

interpretation u32c: checked_codec "\<lambda>n. w_u32 (int n)" r_u32 "\<lambda>n. n \<le> 0xffffffff" "be_bytes 4"
proof unfold_locales
  fix n :: nat
  show "n \<le> 0xffffffff \<Longrightarrow> writes (w_u32 (int n)) (True, be_bytes 4 n)"
    by (auto simp: writes_def w_u32_def)
  show "\<not> n \<le> 0xffffffff \<Longrightarrow> writes (w_u32 (int n)) (False, be_bytes 4 n)"
    by (auto simp: writes_def w_u32_def)
next
  fix n :: nat and r ys
  assume a: "n \<le> 0xffffffff" "reader_ok r" "r_rest r = be_bytes 4 n @ ys"
  show "\<exists>r'. r_u32 r = Inr (n, r') \<and> reader_ok r' \<and> r_rest r' = ys"
  proof -
    have "n < 256 ^ 4" using a(1) by simp
    from r_be_laws(1)[OF a(2) this a(3)] have "r_u32 r = Inr (n, r_advance 4 r)"
      by (simp add: r_u32_def)
    moreover have "reader_ok (r_advance 4 r)" and "r_rest (r_advance 4 r) = ys"
      using a(2,3) by simp_all
    ultimately show ?thesis by blast
  qed
next
  fix n :: nat and r r'
  assume "reader_ok r" "r_u32 r = Inr (n, r')"
  then show "n \<le> 0xffffffff \<and> reader_ok r' \<and> r_rest r = be_bytes 4 n @ r_rest r'"
    using r_be_laws(2)[of r 4 n r'] by (auto simp: r_u32_def)
next
  fix r e
  assume "reader_ok r" "r_u32 r = Inl e"
  then show "e = MalformedInputError" using r_be_laws(3)[of r 4 e] by (simp add: r_u32_def)
qed

interpretation u64c: checked_codec "\<lambda>n. w_u64 (int n)" r_u64 "\<lambda>n. n \<le> 0xffffffffffffffff" "be_bytes 8"
proof unfold_locales
  fix n :: nat
  show "n \<le> 0xffffffffffffffff \<Longrightarrow> writes (w_u64 (int n)) (True, be_bytes 8 n)"
    by (auto simp: writes_def w_u64_def)
  show "\<not> n \<le> 0xffffffffffffffff \<Longrightarrow> writes (w_u64 (int n)) (False, be_bytes 8 n)"
    by (auto simp: writes_def w_u64_def)
next
  fix n :: nat and r ys
  assume a: "n \<le> 0xffffffffffffffff" "reader_ok r" "r_rest r = be_bytes 8 n @ ys"
  show "\<exists>r'. r_u64 r = Inr (n, r') \<and> reader_ok r' \<and> r_rest r' = ys"
  proof -
    have "n < 256 ^ 8" using a(1) by simp
    from r_be_laws(1)[OF a(2) this a(3)] have "r_u64 r = Inr (n, r_advance 8 r)"
      by (simp add: r_u64_def)
    moreover have "reader_ok (r_advance 8 r)" and "r_rest (r_advance 8 r) = ys"
      using a(2,3) by simp_all
    ultimately show ?thesis by blast
  qed
next
  fix n :: nat and r r'
  assume "reader_ok r" "r_u64 r = Inr (n, r')"
  then show "n \<le> 0xffffffffffffffff \<and> reader_ok r' \<and> r_rest r = be_bytes 8 n @ r_rest r'"
    using r_be_laws(2)[of r 8 n r'] by (auto simp: r_u64_def)
next
  fix r e
  assume "reader_ok r" "r_u64 r = Inl e"
  then show "e = MalformedInputError" using r_be_laws(3)[of r 8 e] by (simp add: r_u64_def)
qed

interpretation fixedc: wire_codec w_fixed "r_fixed n" "\<lambda>b. length b = n" "\<lambda>b. b" for n
proof unfold_locales
  fix b :: bytes
  show "writes (w_fixed b) (True, b)" by (rule writes_fixed)
next
  fix b r ys
  assume "length b = n" "reader_ok r" "r_rest r = b @ ys"
  then show "\<exists>r'. r_fixed n r = Inr (b, r') \<and> reader_ok r' \<and> r_rest r' = ys"
    by (auto simp: r_fixed_def r_take_rest)
next
  fix b r r'
  assume "reader_ok r" "r_fixed n r = Inr (b, r')"
  then show "length b = n \<and> reader_ok r' \<and> r_rest r = b @ r_rest r'"
    by (auto simp: r_fixed_def r_take_rest split: if_splits)
next
  fix r e
  assume "reader_ok r" "r_fixed n r = Inl e"
  then show "e = MalformedInputError" by (auto simp: r_fixed_def r_take_rest split: if_splits)
qed

interpretation bytesc: checked_codec w_bytes r_bytes fits_len image_bytes
proof unfold_locales
  fix b
  show "fits_len b \<Longrightarrow> writes (w_bytes b) (True, image_bytes b)"
    and "\<not> fits_len b \<Longrightarrow> writes (w_bytes b) (False, image_bytes b)"
    using writes_bytes[of b] by simp_all
next
  fix b r ys
  assume a: "fits_len b" "reader_ok r" "r_rest r = image_bytes b @ ys"
  then obtain r1 where r1: "r_u32 r = Inr (length b, r1)" "reader_ok r1" "r_rest r1 = b @ ys"
    using u32c.scan_image[of "length b" r "b @ ys"] by (auto simp: fits_len_def image_bytes_def)
  then show "\<exists>r'. r_bytes r = Inr (b, r') \<and> reader_ok r' \<and> r_rest r' = ys"
    by (auto simp: r_bytes_def r_take_rest)
next
  fix b r r'
  assume a: "reader_ok r" "r_bytes r = Inr (b, r')"
  then obtain n r1 where r1: "r_u32 r = Inr (n, r1)" "r_take (int n) r1 = Inr (b, r')"
    by (auto simp: r_bytes_def rbind_eq_Inr)
  note s = u32c.scan_sound[OF a(1) r1(1)]
  from s r1(2) show "fits_len b \<and> reader_ok r' \<and> r_rest r = image_bytes b @ r_rest r'"
    by (auto simp: r_take_rest fits_len_def image_bytes_def split: if_splits)
next
  fix r e
  assume a: "reader_ok r" "r_bytes r = Inl e"
  show "e = MalformedInputError"
  proof (cases "r_u32 r")
    case (Inl e')
    with a show ?thesis using u32c.scan_error[OF a(1)] by (auto simp: r_bytes_def)
  next
    case (Inr p)
    then obtain n r1 where p: "r_u32 r = Inr (n, r1)" by (cases p) auto
    with a u32c.scan_sound[OF a(1) p] show ?thesis
      by (auto simp: r_bytes_def r_take_rest split: if_splits)
  qed
qed

subsection \<open>Sequences of fields\<close>

definition emit_pair ::
  "('a \<Rightarrow> writer \<Rightarrow> writer result) \<Rightarrow> ('b \<Rightarrow> writer \<Rightarrow> writer result) \<Rightarrow>
   'a \<times> 'b \<Rightarrow> writer \<Rightarrow> writer result" where
  "emit_pair e1 e2 = (\<lambda>(x, y) w. rbind (e1 x w) (e2 y))"

definition scan_pair ::
  "(reader \<Rightarrow> ('a \<times> reader) result) \<Rightarrow> (reader \<Rightarrow> ('b \<times> reader) result) \<Rightarrow>
   reader \<Rightarrow> (('a \<times> 'b) \<times> reader) result" where
  "scan_pair s1 s2 r = rbind (s1 r) (\<lambda>(x, r). rbind (s2 r) (\<lambda>(y, r). Inr ((x, y), r)))"

definition scan_map ::
  "('a \<Rightarrow> 'b) \<Rightarrow> (reader \<Rightarrow> ('a \<times> reader) result) \<Rightarrow> reader \<Rightarrow> ('b \<times> reader) result" where
  "scan_map g s r = rbind (s r) (\<lambda>(x, r). Inr (g x, r))"

locale codec_pair = one: wire_codec e1 s1 f1 i1 + two: wire_codec e2 s2 f2 i2
  for e1 :: "'a \<Rightarrow> writer \<Rightarrow> writer result" and s1 f1 i1
    and e2 :: "'b \<Rightarrow> writer \<Rightarrow> writer result" and s2 f2 i2

sublocale codec_pair \<subseteq> both: wire_codec "emit_pair e1 e2" "scan_pair s1 s2"
  "\<lambda>(x, y). f1 x \<and> f2 y" "\<lambda>(x, y). i1 x @ i2 y"
proof unfold_locales
  fix xy
  assume f: "case xy of (x, y) \<Rightarrow> f1 x \<and> f2 y"
  obtain x y where xy: "xy = (x, y)" by (cases xy)
  have w: "writes (e1 x) (True, i1 x)" "writes (e2 y) (True, i2 y)"
    using f one.emit_image two.emit_image by (simp_all add: xy)
  show "writes (emit_pair e1 e2 xy) (True, case xy of (x, y) \<Rightarrow> i1 x @ i2 y)"
    unfolding writes_def
  proof (intro allI impI)
    fix w assume ok: "writer_ok w"
    obtain w1 where w1: "e1 x w = Inr w1" "writer_ok w1" "w_out w1 = w_out w @ i1 x"
      using w(1) ok by (auto simp: writes_def)
    obtain w2 where "e2 y w1 = Inr w2" "writer_ok w2" "w_out w2 = w_out w1 @ i2 y"
      using w(2) w1(2) by (auto simp: writes_def)
    with w1 show "if fst (True, case xy of (x, y) \<Rightarrow> i1 x @ i2 y)
       then \<exists>w'. emit_pair e1 e2 xy w = Inr w' \<and> writer_ok w' \<and>
         w_out w' = w_out w @ snd (True, case xy of (x, y) \<Rightarrow> i1 x @ i2 y)
       else emit_pair e1 e2 xy w = Inl MalformedInputError"
      by (simp add: emit_pair_def xy)
  qed
next
  fix xy r ys
  assume a: "case xy of (x, y) \<Rightarrow> f1 x \<and> f2 y" "reader_ok r"
    "r_rest r = (case xy of (x, y) \<Rightarrow> i1 x @ i2 y) @ ys"
  obtain x y where xy: "xy = (x, y)" by (cases xy)
  obtain r1 where r1: "s1 r = Inr (x, r1)" "reader_ok r1" "r_rest r1 = i2 y @ ys"
    using one.scan_image[of x r "i2 y @ ys"] a by (auto simp: xy)
  then obtain r2 where "s2 r1 = Inr (y, r2)" "reader_ok r2" "r_rest r2 = ys"
    using two.scan_image[of y r1 ys] a by (auto simp: xy)
  with r1 show "\<exists>r'. scan_pair s1 s2 r = Inr (xy, r') \<and> reader_ok r' \<and> r_rest r' = ys"
    by (simp add: scan_pair_def xy)
next
  fix xy r r'
  assume a: "reader_ok r" "scan_pair s1 s2 r = Inr (xy, r')"
  then obtain x y r1 where x: "s1 r = Inr (x, r1)" and y: "s2 r1 = Inr (y, r')" and xy: "xy = (x, y)"
    by (auto simp: scan_pair_def rbind_eq_Inr)
  from one.scan_sound[OF a(1) x] two.scan_sound[OF _ y]
  show "(case xy of (x, y) \<Rightarrow> f1 x \<and> f2 y) \<and> reader_ok r' \<and>
    r_rest r = (case xy of (x, y) \<Rightarrow> i1 x @ i2 y) @ r_rest r'"
    by (auto simp: xy)
next
  fix r e
  assume a: "reader_ok r" "scan_pair s1 s2 r = Inl e"
  show "e = MalformedInputError"
  proof (cases "s1 r")
    case (Inl e')
    with a one.scan_error[OF a(1)] show ?thesis by (auto simp: scan_pair_def)
  next
    case (Inr p)
    then obtain x r1 where x: "s1 r = Inr (x, r1)" by (cases p) auto
    with one.scan_sound[OF a(1) x] have "reader_ok r1" by blast
    with a x two.scan_error show ?thesis by (auto simp: scan_pair_def rbind_eq_Inl)
  qed
qed

text \<open>A record read from its fields: the codec of the fields through a bijection.\<close>

locale codec_record = base: wire_codec e s f i
  for e :: "'a \<Rightarrow> writer \<Rightarrow> writer result" and s f i +
  fixes make :: "'a \<Rightarrow> 'b" and fields :: "'b \<Rightarrow> 'a"
  assumes make_fields: "make (fields y) = y" and fields_make: "fields (make x) = x"

sublocale codec_record \<subseteq> rec: wire_codec "\<lambda>y. e (fields y)" "scan_map make s"
  "\<lambda>y. f (fields y)" "\<lambda>y. i (fields y)"
proof unfold_locales
  fix y assume "f (fields y)"
  then show "writes (e (fields y)) (True, i (fields y))" by (rule base.emit_image)
next
  fix y r ys
  assume "f (fields y)" "reader_ok r" "r_rest r = i (fields y) @ ys"
  from base.scan_image[OF this]
  show "\<exists>r'. scan_map make s r = Inr (y, r') \<and> reader_ok r' \<and> r_rest r' = ys"
    by (auto simp: scan_map_def make_fields)
next
  fix y r r'
  assume a: "reader_ok r" "scan_map make s r = Inr (y, r')"
  then obtain x where "s r = Inr (x, r')" "y = make x"
    by (auto simp: scan_map_def rbind_eq_Inr)
  with base.scan_sound[OF a(1)] show "f (fields y) \<and> reader_ok r' \<and> r_rest r = i (fields y) @ r_rest r'"
    by (auto simp: fields_make)
next
  fix r e
  assume "reader_ok r" "scan_map make s r = Inl e"
  then show "e = MalformedInputError"
    using base.scan_error by (auto simp: scan_map_def rbind_eq_Inl)
qed

text \<open>A format tag in front: read, compared, then the message proper.\<close>

definition emit_tagged :: "bytes \<Rightarrow> ('a \<Rightarrow> writer \<Rightarrow> writer result) \<Rightarrow> 'a \<Rightarrow> writer \<Rightarrow> writer result" where
  "emit_tagged tag e x w = rbind (w_fixed tag w) (e x)"

definition scan_tagged :: "bytes \<Rightarrow> (reader \<Rightarrow> ('a \<times> reader) result) \<Rightarrow> reader \<Rightarrow> ('a \<times> reader) result" where
  "scan_tagged tag s r = rbind (r_fixed (length tag) r)
     (\<lambda>(t, r). if t \<noteq> tag then Inl MalformedInputError else s r)"

locale codec_tagged = base: wire_codec e s f i
  for e :: "'a \<Rightarrow> writer \<Rightarrow> writer result" and s f i +
  fixes tag :: bytes

sublocale codec_tagged \<subseteq> tagged: wire_codec "emit_tagged tag e" "scan_tagged tag s" f "\<lambda>x. tag @ i x"
proof unfold_locales
  fix x assume "f x"
  then have "writes (e x) (True, i x)" by (rule base.emit_image)
  then have "\<exists>w'. e x (w_push tag w) = Inr w' \<and> writer_ok w' \<and> w_out w' = w_out w @ tag @ i x"
    if "writer_ok w" for w
    using that by (auto simp: writes_def dest: spec[of _ "w_push tag w"])
  then show "writes (emit_tagged tag e x) (True, tag @ i x)"
    by (simp add: writes_def emit_tagged_def w_fixed_def)
next
  fix x r ys
  assume a: "f x" "reader_ok r" "r_rest r = (tag @ i x) @ ys"
  then obtain r1 where "r_fixed (length tag) r = Inr (tag, r1)" "reader_ok r1" "r_rest r1 = i x @ ys"
    using fixedc.scan_image[of tag "length tag" r "i x @ ys"] by auto
  then show "\<exists>r'. scan_tagged tag s r = Inr (x, r') \<and> reader_ok r' \<and> r_rest r' = ys"
    using base.scan_image[OF a(1), of r1 ys] by (simp add: scan_tagged_def)
next
  fix x r r'
  assume a: "reader_ok r" "scan_tagged tag s r = Inr (x, r')"
  then obtain r1 where r1: "r_fixed (length tag) r = Inr (tag, r1)" "s r1 = Inr (x, r')"
    by (auto simp: scan_tagged_def rbind_eq_Inr split: if_splits)
  with fixedc.scan_sound[OF a(1) r1(1)] base.scan_sound[OF _ r1(2)]
  show "f x \<and> reader_ok r' \<and> r_rest r = (tag @ i x) @ r_rest r'" by auto
next
  fix r e
  assume a: "reader_ok r" "scan_tagged tag s r = Inl e"
  show "e = MalformedInputError"
  proof (cases "r_fixed (length tag) r")
    case (Inl e')
    with a show ?thesis using fixedc.scan_error[OF a(1)] by (auto simp: scan_tagged_def)
  next
    case (Inr p)
    then obtain t r1 where p: "r_fixed (length tag) r = Inr (t, r1)" by (cases p) auto
    with a fixedc.scan_sound[OF a(1) p] base.scan_error[of r1 e] show ?thesis
      by (auto simp: scan_tagged_def split: if_splits)
  qed
qed

section \<open>Hexadecimal and base32\<close>

lemma less_16_cases:
  assumes "(d :: nat) < 16"
  obtains "d = 0" | "d = 1" | "d = 2" | "d = 3" | "d = 4" | "d = 5" | "d = 6" | "d = 7" | "d = 8" |
    "d = 9" | "d = 10" | "d = 11" | "d = 12" | "d = 13" | "d = 14" | "d = 15"
  using assms by (auto simp: less_Suc_eq numeral_eq_Suc)

lemma hex_value_digit: "d < 16 \<Longrightarrow> hex_value (hex_digit d) = Some d"
  by (erule less_16_cases) (simp_all add: hex_value_def hex_digit_def)

lemma hex_digit_plain:
  assumes "d < 16"
  shows "\<not> is_js_space (hex_digit d)" "hex_digit d \<noteq> CHR ''-''" "hex_digit d \<noteq> CHR ''+''"
    "hex_digit d \<noteq> CHR ''x''" "hex_digit d \<noteq> CHR ''X''"
  using assms by (cases rule: less_16_cases[OF assms]; simp add: is_js_space_def hex_digit_def)+

lemma hex_pair: "pad_start 2 CHR ''0'' (to_string16 b) = [hex_digit (unat b div 16), hex_digit (unat b mod 16)]"
proof (cases "unat b < 16")
  case True
  then have "unat b div 16 = 0" "unat b mod 16 = unat b" by simp_all
  with True show ?thesis by (simp add: pad_start_def to_string16_def hex_digit_def)
qed (simp add: pad_start_def to_string16_def)

lemma toHex_simps:
  "toHex [] = ''''"
  "toHex (b # bs) = hex_digit (unat b div 16) # hex_digit (unat b mod 16) # toHex bs"
  by (simp_all add: toHex_def hex_pair)

lemma length_toHex: "length (toHex bs) = 2 * length bs"
  by (induction bs) (auto simp: toHex_simps)

lemma parse_int16_pair:
  assumes "a < 16" "b < 16"
  shows "parse_int16 [hex_digit a, hex_digit b] = Some (int (a * 16 + b))"
  using assms hex_digit_plain[OF assms(1)] hex_digit_plain[OF assms(2)]
  by (simp add: parse_int16_def strip_0x_def parse_digits16_def hex_value_digit base_value_def)

text \<open>Hexadecimal round trip.\<close>

lemma fromHex_toHex: "fromHex (toHex bs) = Inr bs"
proof -
  have "fromHex_loop (toHex bs) = Inr bs"
  proof (induction bs)
    case (Cons b bs)
    have "unat b div 16 < 16" using unat_byte_less[of b] by (simp add: div_less_iff_less_mult)
    moreover have "unat b mod 16 < 16" by simp
    ultimately have "parse_int16 [hex_digit (unat b div 16), hex_digit (unat b mod 16)] = Some (int (unat b))"
      by (simp only: parse_int16_pair) simp
    with Cons show ?case by (simp add: toHex_simps)
  qed (simp add: toHex_simps)
  then show ?thesis by (simp add: fromHex_def length_toHex)
qed

lemma toHex_inj [simp]: "toHex a = toHex b \<longleftrightarrow> a = b"
  by (metis fromHex_toHex sum.inject(2))

text \<open>
  Base32 is the base-32 expansion of the big-endian number, padded with zero bits to a whole
  number of characters: the specification the shift loop refines.
\<close>

definition base32_spec :: "bytes \<Rightarrow> string" where
  "base32_spec bs = (let n = 8 * length bs; k = (n + 4) div 5 in
     map (\<lambda>d. base32_alphabet ! d) (base_digits 32 k (be_value bs * 2 ^ (5 * k - n))))"

lemma drop_bit_digit:
  fixes v :: "32 word"
  assumes v: "v = word_of_nat n" and b: "b \<le> 27"
  shows "unat (drop_bit b v AND 31) = (n div 2 ^ b) mod 32"
proof -
  have "unat (drop_bit b v AND 31) = (unat v div 2 ^ b) mod 32"
  proof -
    have "drop_bit b v AND 31 = take_bit 5 (drop_bit b v)"
      by (simp add: take_bit_eq_mask mask_eq_exp_minus_1)
    then have "unat (drop_bit b v AND 31) = take_bit 5 (unat (drop_bit b v))"
      by (simp only: unsigned_take_bit_eq)
    also have "\<dots> = take_bit 5 (drop_bit b (unat v))"
      by (simp add: unat_drop_bit_eq)
    finally show ?thesis by (simp only: drop_bit_eq_div take_bit_eq_mod) simp
  qed
  also have "unat v = n mod 2 ^ 32" by (simp add: v unat_of_nat)
  also have "(n mod 2 ^ 32 div 2 ^ b) mod 32 = (n div 2 ^ b) mod 32"
  proof -
    have "take_bit 5 (drop_bit b (take_bit 32 n)) = take_bit 5 (drop_bit b n)"
      using b by (simp add: drop_bit_take_bit)
    then show ?thesis by (simp add: drop_bit_eq_div take_bit_eq_mod)
  qed
  finally show ?thesis .
qed

definition base32_digits :: "nat \<Rightarrow> nat \<Rightarrow> string" where
  "base32_digits k n = map (\<lambda>d. base32_alphabet ! d) (base_digits 32 k n)"

lemma base32_digits_Suc:
  "base32_digits (Suc k) n = base32_digits k (n div 32) @ [base32_alphabet ! (n mod 32)]"
  by (simp add: base32_digits_def)

lemma base32_flush_spec:
  assumes "val = word_of_nat n" and "bits \<le> 32" and "out = base32_digits k (n div 2 ^ bits)"
  shows "base32_flush bits val out =
    (bits mod 5, base32_digits (k + bits div 5) (n div 2 ^ (bits mod 5)))"
  using assms
proof (induction bits val out arbitrary: k rule: base32_flush.induct)
  case (1 bits v out)
  show ?case
  proof (cases "5 \<le> bits")
    case True
    let ?b = "bits - 5"
    have "n div 2 ^ bits = n div 2 ^ ?b div 32"
    proof -
      have "(2 :: nat) ^ bits = 2 ^ ?b * 32"
        using True power_add[of "2 :: nat" ?b 5] by simp
      then show ?thesis by (simp add: div_mult2_eq)
    qed
    moreover have "unat (drop_bit ?b v AND 31) = (n div 2 ^ ?b) mod 32"
      using 1(2,3) by (intro drop_bit_digit) auto
    ultimately have out: "out @ [base32_alphabet ! unat (drop_bit ?b v AND 31)]
        = base32_digits (Suc k) (n div 2 ^ ?b)"
      using 1(4) by (simp add: base32_digits_Suc)
    have "base32_flush ?b v (out @ [base32_alphabet ! unat (drop_bit ?b v AND 31)])
        = (?b mod 5, base32_digits (Suc k + ?b div 5) (n div 2 ^ (?b mod 5)))"
      using "1.IH"[OF True 1(2) _ out] 1(3) by simp
    moreover have m: "?b mod 5 = bits mod 5" and d: "Suc k + ?b div 5 = k + bits div 5"
      using True by (auto simp: le_mod_geq le_div_geq)
    ultimately show ?thesis using True
      unfolding m d by (simp only: base32_flush.simps[of bits v out] if_True)
  next
    case False
    with 1(4) show ?thesis by (simp add: base32_flush.simps[of bits])
  qed
qed

lemma push_or_byte:
  assumes "v = (word_of_nat n :: 32 word)"
  shows "push_bit 8 v OR ucast (b :: byte) = word_of_nat (n * 256 + unat b)"
proof -
  have "push_bit 8 v OR ucast b = push_bit 8 v + ucast b"
    by (rule disjunctive_add [symmetric]) (auto simp: bit_simps dest: bit_imp_le_length)
  also have "\<dots> = word_of_nat (n * 256 + unat b)"
    by (simp add: assms push_bit_eq_mult unsigned_ucast_eq)
  finally show ?thesis .
qed

lemma base32_loop_spec:
  assumes "val = word_of_nat n" and "bits < 5" and "out = base32_digits k (n div 2 ^ bits)"
    and "5 * k + bits = 8 * l"
  shows "\<exists>bits' k'. base32_loop bs bits val out =
      (bits', word_of_nat (n * 256 ^ length bs + be_value bs),
       base32_digits k' ((n * 256 ^ length bs + be_value bs) div 2 ^ bits'))
    \<and> bits' < 5 \<and> 5 * k' + bits' = 8 * (l + length bs)"
  using assms
proof (induction bs arbitrary: bits val out n k l)
  case Nil
  then show ?case by (auto simp: be_value_def)
next
  case (Cons b bs)
  let ?n = "n * 256 + unat b"
  have v: "push_bit 8 val OR ucast b = word_of_nat ?n"
    using Cons.prems(1) by (rule push_or_byte)
  have "?n div 2 ^ (bits + 8) = ?n div 256 div 2 ^ bits"
    by (simp add: power_add mult.commute[of _ 256] div_mult2_eq)
  then have "?n div 2 ^ (bits + 8) = n div 2 ^ bits" by simp
  with Cons.prems(3) have out: "out = base32_digits k (?n div 2 ^ (bits + 8))" by simp
  have fl: "base32_flush (bits + 8) (word_of_nat ?n) out =
      ((bits + 8) mod 5, base32_digits (k + (bits + 8) div 5) (?n div 2 ^ ((bits + 8) mod 5)))"
    using Cons.prems(2) by (intro base32_flush_spec[OF refl _ out]) simp
  have "5 * (k + (bits + 8) div 5) + (bits + 8) mod 5 = 8 * (l + 1)"
    using Cons.prems(4) by simp
  moreover have "(bits + 8) mod 5 < 5" by simp
  ultimately obtain bits' k' where r:
    "base32_loop bs ((bits + 8) mod 5) (word_of_nat ?n)
       (base32_digits (k + (bits + 8) div 5) (?n div 2 ^ ((bits + 8) mod 5))) =
      (bits', word_of_nat (?n * 256 ^ length bs + be_value bs),
       base32_digits k' ((?n * 256 ^ length bs + be_value bs) div 2 ^ bits'))"
    and r2: "bits' < 5" and r3: "5 * k' + bits' = 8 * (l + 1 + length bs)"
    using Cons.IH[OF refl _ refl] by blast
  have N: "?n * 256 ^ length bs + be_value bs = n * 256 ^ length (b # bs) + be_value (b # bs)"
    by (simp add: be_value_Cons algebra_simps)
  have step: "base32_loop (b # bs) bits val out = base32_loop bs ((bits + 8) mod 5) (word_of_nat ?n)
      (base32_digits (k + (bits + 8) div 5) (?n div 2 ^ ((bits + 8) mod 5)))"
    by (simp only: base32_loop.simps Let_def v fl prod.case)
  have "5 * k' + bits' = 8 * (l + length (b # bs))" using r3 by simp
  with r r2 show ?case unfolding step N by blast
qed

text \<open>The shift loop computes the base-32 expansion.\<close>

lemma toBase32_spec: "toBase32 bs = base32_spec bs"
proof -
  obtain bits k where loop: "base32_loop bs 0 0 '''' = (bits, word_of_nat (be_value bs),
       base32_digits k (be_value bs div 2 ^ bits))"
    and bits: "bits < 5" "5 * k + bits = 8 * length bs"
    using base32_loop_spec[of 0 0 0 "''''" 0 0 bs] by (auto simp: base32_digits_def)
  show ?thesis
  proof (cases "bits = 0")
    case True
    then have "(8 * length bs + 4) div 5 = k" using bits by simp
    then show ?thesis
      using True bits by (simp add: toBase32_def loop base32_spec_def base32_digits_def Let_def)
  next
    case False
    let ?v = "be_value bs" and ?p = "5 - bits"
    have k: "(8 * length bs + 4) div 5 = Suc k" and p: "5 * Suc k - 8 * length bs = ?p"
      using bits False by auto
    have "push_bit ?p (word_of_nat ?v :: 32 word) = word_of_nat (?v * 2 ^ ?p)"
      by (simp add: push_bit_eq_mult)
    from drop_bit_digit[OF this, of 0]
    have d: "unat (push_bit ?p (word_of_nat ?v :: 32 word) AND 31) = ?v * 2 ^ ?p mod 32"
      by simp
    have "?v * 2 ^ ?p div 32 = ?v div 2 ^ bits"
    proof -
      have "(32 :: nat) = 2 ^ ?p * 2 ^ bits" using bits(1) by (simp flip: power_add)
      then have "?v * 2 ^ ?p div 32 = ?v * 2 ^ ?p div (2 ^ ?p * 2 ^ bits)" by simp
      then show ?thesis by (simp only: div_mult2_eq) simp
    qed
    then have dig: "base32_digits (Suc k) (?v * 2 ^ ?p) =
        base32_digits k (?v div 2 ^ bits) @ [base32_alphabet ! (?v * 2 ^ ?p mod 32)]"
      by (simp only: base32_digits_Suc)
    have "base32_spec bs = base32_digits (Suc k) (?v * 2 ^ ?p)"
      by (simp only: base32_spec_def Let_def k p base32_digits_def)
    moreover have "toBase32 bs = base32_digits k (?v div 2 ^ bits) @ [base32_alphabet ! (?v * 2 ^ ?p mod 32)]"
      using False by (simp add: toBase32_def loop d)
    ultimately show ?thesis using dig by simp
  qed
qed

lemma base32_alphabet_inj: "i < 32 \<Longrightarrow> j < 32 \<Longrightarrow> base32_alphabet ! i = base32_alphabet ! j \<Longrightarrow> i = j"
proof -
  have "distinct base32_alphabet" by (simp add: base32_alphabet_def)
  then show "i < 32 \<Longrightarrow> j < 32 \<Longrightarrow> base32_alphabet ! i = base32_alphabet ! j \<Longrightarrow> i = j"
    by (simp add: nth_eq_iff_index_eq base32_alphabet_def)
qed

lemma length_toBase32: "length (toBase32 bs) = (8 * length bs + 4) div 5"
  by (simp add: toBase32_spec base32_spec_def Let_def)

text \<open>Two byte strings of one length never share a base32 text.\<close>

lemma toBase32_inj:
  assumes "toBase32 a = toBase32 b" and "length a = length b"
  shows "a = b"
proof -
  let ?k = "(8 * length a + 4) div 5" and ?p = "2 ^ (5 * ((8 * length a + 4) div 5) - 8 * length a) :: nat"
  have "map (\<lambda>d. base32_alphabet ! d) (base_digits 32 ?k (be_value a * ?p)) =
      map (\<lambda>d. base32_alphabet ! d) (base_digits 32 ?k (be_value b * ?p))"
    using assms by (simp add: toBase32_spec base32_spec_def Let_def)
  then have "base_digits 32 ?k (be_value a * ?p) = base_digits 32 ?k (be_value b * ?p)"
    by (rule map_inj_on) (auto intro!: inj_onI base32_alphabet_inj dest: base_digits_less[rotated])
  moreover have bound: "be_value x * ?p < 32 ^ ?k" if "length x = length a" for x
  proof -
    have "be_value x < 2 ^ (8 * length a)"
      using be_value_less[of x] that by (simp add: power_mult)
    then have "be_value x * ?p < 2 ^ (8 * length a) * ?p" by simp
    also have "\<dots> = 2 ^ (5 * ?k)" by (simp flip: power_add)
    finally show ?thesis by (simp add: power_mult)
  qed
  ultimately have "be_value a * ?p = be_value b * ?p"
    using assms(2) by (intro base_digits_inj[of 32 ?k]) auto
  then have "be_value a = be_value b" by simp
  then show ?thesis using assms(2) be_bytes_be_value by metis
qed

end
