(* ===== verification/Veil_Primitives.thy ===== *)
theory Veil_Primitives
  imports Veil_Wire
begin

text \<open>
  packages/crypto/src/primitives.ts and kdf.ts. The cryptographic library (the noble packages)
  is not part of the repository: it is the argument \<open>N\<close>, a record of functions, of every
  definition that calls it. What the code relies on in it is stated as named predicates
  (\<open>x25519_agrees\<close>, \<open>aead_correct\<close>, ...), which properties take as hypotheses. Random bytes are
  arguments: a function that draws a key takes the bytes drawn.
\<close>

section \<open>The cryptographic library\<close>

text \<open>
  \<open>None\<close> is an exception of the library: X25519 rejects a low-order public key, the AEAD a bad
  tag, Ed25519 a malformed key, ML-KEM a malformed key. Key generation and encapsulation take
  the randomness they draw.
\<close>

record noble =
  x25519_public :: "bytes \<Rightarrow> bytes"
  x25519_shared :: "bytes \<Rightarrow> bytes \<Rightarrow> bytes option"
  ed25519_public :: "bytes \<Rightarrow> bytes"
  ed25519_sign :: "bytes \<Rightarrow> bytes \<Rightarrow> bytes"
  ed25519_verify :: "bytes \<Rightarrow> bytes \<Rightarrow> bytes \<Rightarrow> bool option"
  mlkem_keygen :: "bytes \<Rightarrow> bytes \<times> bytes"
  mlkem_encaps :: "bytes \<Rightarrow> bytes \<Rightarrow> (bytes \<times> bytes) option"
  mlkem_decaps :: "bytes \<Rightarrow> bytes \<Rightarrow> bytes option"
  xchacha_encrypt :: "bytes \<Rightarrow> bytes \<Rightarrow> bytes \<Rightarrow> bytes \<Rightarrow> bytes"
  xchacha_decrypt :: "bytes \<Rightarrow> bytes \<Rightarrow> bytes \<Rightarrow> bytes \<Rightarrow> bytes option"
  sha256 :: "bytes \<Rightarrow> bytes"
  sha512 :: "bytes \<Rightarrow> bytes"
  hmac_sha512 :: "bytes \<Rightarrow> bytes \<Rightarrow> bytes"
  hkdf_sha512 :: "bytes \<Rightarrow> bytes \<Rightarrow> bytes \<Rightarrow> nat \<Rightarrow> bytes"
  argon2id :: "bytes \<Rightarrow> bytes \<Rightarrow> int \<Rightarrow> int \<Rightarrow> int \<Rightarrow> nat \<Rightarrow> bytes"

text \<open>Documented behaviour of the library, one predicate per primitive.\<close>

definition x25519_agrees :: "noble \<Rightarrow> bool" where
  "x25519_agrees N \<longleftrightarrow> (\<forall>a b. length a = 32 \<longrightarrow> length b = 32 \<longrightarrow>
     x25519_shared N a (x25519_public N b) = x25519_shared N b (x25519_public N a))"

definition x25519_sized :: "noble \<Rightarrow> bool" where
  "x25519_sized N \<longleftrightarrow> (\<forall>a. length a = 32 \<longrightarrow> length (x25519_public N a) = 32)"

text \<open>The scalar is clamped: a public key is rejected for every secret or for none.\<close>

definition x25519_uniform :: "noble \<Rightarrow> bool" where
  "x25519_uniform N \<longleftrightarrow> (\<forall>a b p. length a = 32 \<longrightarrow> length b = 32 \<longrightarrow>
     (x25519_shared N a p = None) = (x25519_shared N b p = None))"

lemma x25519_uniformD:
  assumes "x25519_uniform N" "length a = 32" "length b = 32"
  shows "(x25519_shared N a p = None) = (x25519_shared N b p = None)"
  using assms(1)[unfolded x25519_uniform_def, THEN spec, THEN spec, THEN spec, of a b p] assms(2,3) by simp

text \<open>A public key the library computed is never rejected.\<close>

definition x25519_honest :: "noble \<Rightarrow> bool" where
  "x25519_honest N \<longleftrightarrow> (\<forall>a b. length a = 32 \<longrightarrow> length b = 32 \<longrightarrow>
     x25519_shared N a (x25519_public N b) \<noteq> None)"

definition ed25519_correct :: "noble \<Rightarrow> bool" where
  "ed25519_correct N \<longleftrightarrow> (\<forall>sk m. length sk = 32 \<longrightarrow>
     ed25519_verify N (ed25519_sign N m sk) m (ed25519_public N sk) = Some True)"

definition ed25519_sized :: "noble \<Rightarrow> bool" where
  "ed25519_sized N \<longleftrightarrow> (\<forall>sk m. length sk = 32 \<longrightarrow>
     length (ed25519_public N sk) = 32 \<and> length (ed25519_sign N m sk) = 64)"

definition mlkem_correct :: "noble \<Rightarrow> bool" where
  "mlkem_correct N \<longleftrightarrow> (\<forall>seed coins pk sk. mlkem_keygen N seed = (pk, sk) \<longrightarrow>
     (\<exists>ct ss. mlkem_encaps N pk coins = Some (ct, ss) \<and> mlkem_decaps N ct sk = Some ss))"

definition mlkem_sized :: "noble \<Rightarrow> bool" where
  "mlkem_sized N \<longleftrightarrow> (\<forall>seed pk sk. mlkem_keygen N seed = (pk, sk) \<longrightarrow>
       length pk = 1568 \<and> length sk = 3168) \<and>
     (\<forall>pk coins ct ss. mlkem_encaps N pk coins = Some (ct, ss) \<longrightarrow> length ct = 1568)"

definition aead_correct :: "noble \<Rightarrow> bool" where
  "aead_correct N \<longleftrightarrow> (\<forall>k n ad pt. length k = 32 \<longrightarrow> length n = 24 \<longrightarrow>
     xchacha_decrypt N k n ad (xchacha_encrypt N k n ad pt) = Some pt \<and>
     length (xchacha_encrypt N k n ad pt) = length pt + 16)"

text \<open>HKDF with a 64-byte hash gives at most 255 blocks.\<close>

definition hkdf_sized :: "noble \<Rightarrow> bool" where
  "hkdf_sized N \<longleftrightarrow> (\<forall>ikm salt info n. n \<le> 255 * 64 \<longrightarrow> length (hkdf_sha512 N ikm salt info n) = n)"

definition hash_sized :: "noble \<Rightarrow> bool" where
  "hash_sized N \<longleftrightarrow> (\<forall>b. length (sha256 N b) = 32 \<and> length (sha512 N b) = 64) \<and>
     (\<forall>k b. length (hmac_sha512 N k b) = 64)"

text \<open>All of it together.\<close>

definition library_ok :: "noble \<Rightarrow> bool" where
  "library_ok N \<longleftrightarrow> x25519_agrees N \<and> x25519_sized N \<and> x25519_uniform N \<and> ed25519_correct N \<and>
     ed25519_sized N \<and> mlkem_correct N \<and> mlkem_sized N \<and> aead_correct N \<and> hkdf_sized N \<and> hash_sized N \<and>
     x25519_honest N"

lemma library_okD:
  assumes "library_ok N"
  shows "x25519_agrees N" "x25519_sized N" "x25519_uniform N" "ed25519_correct N" "ed25519_sized N"
    "mlkem_correct N" "mlkem_sized N" "aead_correct N" "hkdf_sized N" "hash_sized N" "x25519_honest N"
  using assms by (simp_all add: library_ok_def)

section \<open>Sizes\<close>

abbreviation X25519_PUBLIC_LEN :: nat where "X25519_PUBLIC_LEN \<equiv> 32"
abbreviation X25519_SECRET_LEN :: nat where "X25519_SECRET_LEN \<equiv> 32"
abbreviation ED25519_PUBLIC_LEN :: nat where "ED25519_PUBLIC_LEN \<equiv> 32"
abbreviation ED25519_SECRET_LEN :: nat where "ED25519_SECRET_LEN \<equiv> 32"
abbreviation ED25519_SIGNATURE_LEN :: nat where "ED25519_SIGNATURE_LEN \<equiv> 64"
abbreviation MLKEM_PUBLIC_LEN :: nat where "MLKEM_PUBLIC_LEN \<equiv> 1568"
abbreviation MLKEM_SECRET_LEN :: nat where "MLKEM_SECRET_LEN \<equiv> 3168"
abbreviation MLKEM_CIPHERTEXT_LEN :: nat where "MLKEM_CIPHERTEXT_LEN \<equiv> 1568"
abbreviation AEAD_KEY_LEN :: nat where "AEAD_KEY_LEN \<equiv> 32"
abbreviation AEAD_NONCE_LEN :: nat where "AEAD_NONCE_LEN \<equiv> 24"
abbreviation AEAD_TAG_LEN :: nat where "AEAD_TAG_LEN \<equiv> 16"
abbreviation SHARED_SECRET_LEN :: nat where "SHARED_SECRET_LEN \<equiv> 32"

section \<open>Memory hygiene and comparison\<close>

text \<open>
  \<open>constantTimeEqual\<close>: the accumulated difference \<open>diff |= a[i] ^ b[i]\<close> over equal lengths.
\<close>

fun ct_diff :: "bytes \<Rightarrow> bytes \<Rightarrow> byte \<Rightarrow> byte" where
  "ct_diff (a # as) (b # bs) diff = ct_diff as bs (diff OR (a XOR b))"
| "ct_diff _ _ diff = diff"

definition constantTimeEqual :: "bytes \<Rightarrow> bytes \<Rightarrow> bool" where
  "constantTimeEqual a b = (if length a \<noteq> length b then False else ct_diff a b 0 = 0)"

definition expectLength :: "bytes \<Rightarrow> nat \<Rightarrow> unit result" where
  "expectLength v expected = guard (length v = expected) MalformedInputError"

section \<open>Hashing and key derivation\<close>

definition hash512 :: "noble \<Rightarrow> bytes list \<Rightarrow> bytes" where
  "hash512 N parts = sha512 N (concat parts)"

definition hash256 :: "noble \<Rightarrow> bytes list \<Rightarrow> bytes" where
  "hash256 N parts = sha256 N (concat parts)"

definition mac :: "noble \<Rightarrow> bytes \<Rightarrow> bytes list \<Rightarrow> bytes" where
  "mac N key parts = hmac_sha512 N key (concat parts)"

definition kdf :: "noble \<Rightarrow> bytes \<Rightarrow> bytes \<Rightarrow> bytes \<Rightarrow> nat \<Rightarrow> bytes" where
  "kdf N ikm salt info len = hkdf_sha512 N ikm salt info len"

definition passphraseKdf :: "noble \<Rightarrow> bytes \<Rightarrow> bytes \<Rightarrow> int \<Rightarrow> int \<Rightarrow> int \<Rightarrow> nat \<Rightarrow> bytes" where
  "passphraseKdf N passphrase salt memoryKiB iterations parallelism len =
     argon2id N passphrase salt memoryKiB iterations parallelism len"

section \<open>X25519\<close>

text \<open>
  A key pair object. \<open>skbuf\<close> names the buffer that holds the secret key, so that two objects
  sharing it can be told from two equal ones: \<open>wipe\<close> on the buffer reaches every holder.
\<close>

record keypair =
  publicKey :: bytes
  secretKey :: bytes
  skbuf :: nat

text \<open>What a key generation draws: the random secret, and the name of its new buffer.\<close>

type_synonym fresh = "bytes \<times> nat"

definition generateDhKeyPair :: "noble \<Rightarrow> fresh \<Rightarrow> keypair" where
  "generateDhKeyPair N f =
     \<lparr>publicKey = x25519_public N (fst f), secretKey = fst f, skbuf = snd f\<rparr>"

definition dhPublicKey :: "noble \<Rightarrow> bytes \<Rightarrow> bytes result" where
  "dhPublicKey N sk = rbind (expectLength sk X25519_SECRET_LEN) (\<lambda>_. Inr (x25519_public N sk))"

definition dh :: "noble \<Rightarrow> bytes \<Rightarrow> bytes \<Rightarrow> bytes result" where
  "dh N sk peer =
     rbind (expectLength sk X25519_SECRET_LEN) (\<lambda>_.
     rbind (expectLength peer X25519_PUBLIC_LEN) (\<lambda>_.
     case x25519_shared N sk peer of Some s \<Rightarrow> Inr s | None \<Rightarrow> Inl MalformedInputError))"

section \<open>Ed25519\<close>

definition generateSigningKeyPair :: "noble \<Rightarrow> fresh \<Rightarrow> keypair" where
  "generateSigningKeyPair N f =
     \<lparr>publicKey = ed25519_public N (fst f), secretKey = fst f, skbuf = snd f\<rparr>"

definition signingPublicKeyOf :: "noble \<Rightarrow> bytes \<Rightarrow> bytes result" where
  "signingPublicKeyOf N sk =
     rbind (expectLength sk ED25519_SECRET_LEN) (\<lambda>_. Inr (ed25519_public N sk))"

definition sign :: "noble \<Rightarrow> bytes \<Rightarrow> bytes \<Rightarrow> bytes result" where
  "sign N sk message =
     rbind (expectLength sk ED25519_SECRET_LEN) (\<lambda>_. Inr (ed25519_sign N message sk))"

definition verify :: "noble \<Rightarrow> bytes \<Rightarrow> bytes \<Rightarrow> bytes \<Rightarrow> bool" where
  "verify N pk message signature =
     (if length pk \<noteq> ED25519_PUBLIC_LEN then False
      else if length signature \<noteq> ED25519_SIGNATURE_LEN then False
      else case ed25519_verify N signature message pk of Some b \<Rightarrow> b | None \<Rightarrow> False)"

section \<open>ML-KEM-1024\<close>

definition generateKemKeyPair :: "noble \<Rightarrow> fresh \<Rightarrow> keypair" where
  "generateKemKeyPair N f = (case mlkem_keygen N (fst f) of (pk, sk) \<Rightarrow>
     \<lparr>publicKey = pk, secretKey = sk, skbuf = snd f\<rparr>)"

definition kemEncapsulate :: "noble \<Rightarrow> bytes \<Rightarrow> bytes \<Rightarrow> (bytes \<times> bytes) result" where
  "kemEncapsulate N coins pk =
     rbind (expectLength pk MLKEM_PUBLIC_LEN) (\<lambda>_.
     case mlkem_encaps N pk coins of Some cs \<Rightarrow> Inr cs | None \<Rightarrow> Inl OtherError)"

definition kemDecapsulate :: "noble \<Rightarrow> bytes \<Rightarrow> bytes \<Rightarrow> bytes result" where
  "kemDecapsulate N ciphertext sk =
     rbind (expectLength ciphertext MLKEM_CIPHERTEXT_LEN) (\<lambda>_.
     rbind (expectLength sk MLKEM_SECRET_LEN) (\<lambda>_.
     case mlkem_decaps N ciphertext sk of Some s \<Rightarrow> Inr s | None \<Rightarrow> Inl OtherError))"

section \<open>AEAD\<close>

definition aeadEncrypt :: "noble \<Rightarrow> bytes \<Rightarrow> bytes \<Rightarrow> bytes \<Rightarrow> bytes \<Rightarrow> bytes result" where
  "aeadEncrypt N key nonce plaintext ad =
     rbind (expectLength key AEAD_KEY_LEN) (\<lambda>_.
     rbind (expectLength nonce AEAD_NONCE_LEN) (\<lambda>_.
     Inr (xchacha_encrypt N key nonce ad plaintext)))"

definition aeadDecrypt :: "noble \<Rightarrow> bytes \<Rightarrow> bytes \<Rightarrow> bytes \<Rightarrow> bytes \<Rightarrow> bytes result" where
  "aeadDecrypt N key nonce ciphertext ad =
     rbind (expectLength key AEAD_KEY_LEN) (\<lambda>_.
     rbind (expectLength nonce AEAD_NONCE_LEN) (\<lambda>_.
     if length ciphertext < AEAD_TAG_LEN then Inl MalformedInputError
     else case xchacha_decrypt N key nonce ad ciphertext of
         Some pt \<Rightarrow> Inr pt | None \<Rightarrow> Inl AuthenticationError))"

section \<open>Domain-separation labels (kdf.ts)\<close>

definition label :: "string \<Rightarrow> bytes" where
  "label name = utf8_encode (''Veil/v1/'' @ name)"

definition LABEL_handshake :: bytes where "LABEL_handshake = label ''PQXDH''"
definition LABEL_rootChain :: bytes where "LABEL_rootChain = label ''RootChain''"
definition LABEL_messageKey :: bytes where "LABEL_messageKey = label ''MessageKey''"
definition LABEL_sealedSender :: bytes where "LABEL_sealedSender = label ''SealedSender''"
definition LABEL_callSecret :: bytes where "LABEL_callSecret = label ''CallSecret''"
definition LABEL_sframeSender :: bytes where "LABEL_sframeSender = label ''SFrameSender''"
definition LABEL_sframeFrame :: bytes where "LABEL_sframeFrame = label ''SFrameFrame''"
definition LABEL_callSas :: bytes where "LABEL_callSas = label ''CallSAS''"
definition LABEL_vaultKek :: bytes where "LABEL_vaultKek = label ''VaultKEK''"
definition LABEL_vaultRecord :: bytes where "LABEL_vaultRecord = label ''VaultRecord''"

definition CHAIN_MESSAGE_KEY_SEED :: bytes where "CHAIN_MESSAGE_KEY_SEED = [1]"
definition CHAIN_NEXT_KEY_SEED :: bytes where "CHAIN_NEXT_KEY_SEED = [2]"
definition HANDSHAKE_PREFIX :: bytes where "HANDSHAKE_PREFIX = replicate 32 0xff"

section \<open>Facts about the wrappers\<close>

lemma xor_zero_iff: "(a :: byte) XOR b = 0 \<longleftrightarrow> a = b"
proof
  assume "a XOR b = 0"
  then have "(a XOR b) XOR b = b" by simp
  then show "a = b" by (simp add: xor.assoc)
qed simp

lemma ct_diff_zero: "length a = length b \<Longrightarrow> ct_diff a b d = 0 \<longleftrightarrow> d = 0 \<and> a = b"
  by (induction a b d rule: ct_diff.induct) (auto simp: or_eq_0_iff xor_zero_iff)

lemma constantTimeEqual_iff [simp]: "constantTimeEqual a b \<longleftrightarrow> a = b"
  by (auto simp: constantTimeEqual_def ct_diff_zero)

lemma expectLength_iff [simp]: "expectLength v n = Inr u \<longleftrightarrow> length v = n"
  by (simp add: expectLength_def)

lemma dh_eq_Inr:
  "dh N sk pk = Inr s \<longleftrightarrow> length sk = 32 \<and> length pk = 32 \<and> x25519_shared N sk pk = Some s"
  by (auto simp: dh_def rbind_eq_Inr split: option.splits)

lemma dh_error: "dh N sk pk = Inl e \<Longrightarrow> e = MalformedInputError"
  by (auto simp: dh_def rbind_eq_Inl expectLength_def guard_eq_Inl split: option.splits)

lemma dh_agrees:
  assumes "x25519_agrees N" "x25519_sized N" "length a = 32" "length b = 32"
  shows "dh N a (x25519_public N b) = dh N b (x25519_public N a)"
  using assms by (simp add: dh_def expectLength_def x25519_agrees_def x25519_sized_def)

lemma sign_Inr: "sign N sk m = Inr s \<longleftrightarrow> length sk = 32 \<and> s = ed25519_sign N m sk"
  by (auto simp: sign_def rbind_eq_Inr)

lemma verify_sign:
  assumes "ed25519_correct N" "ed25519_sized N" "length sk = 32"
  shows "verify N (ed25519_public N sk) m (ed25519_sign N m sk)"
  using assms by (simp add: verify_def ed25519_correct_def ed25519_sized_def)

lemma aead_eq_Inr:
  "aeadEncrypt N k n pt ad = Inr c \<longleftrightarrow> length k = 32 \<and> length n = 24 \<and> c = xchacha_encrypt N k n ad pt"
  "aeadDecrypt N k n c ad = Inr pt \<longleftrightarrow> length k = 32 \<and> length n = 24 \<and> 16 \<le> length c \<and>
     xchacha_decrypt N k n ad c = Some pt"
  by (auto simp: aeadEncrypt_def aeadDecrypt_def rbind_eq_Inr split: option.splits)

lemma aead_roundtrip:
  assumes "aead_correct N" and "aeadEncrypt N k n pt ad = Inr c"
  shows "aeadDecrypt N k n c ad = Inr pt"
  using assms by (auto simp: aead_eq_Inr aead_correct_def)

lemma aeadDecrypt_error:
  "aeadDecrypt N k n c ad = Inl e \<Longrightarrow> e = MalformedInputError \<or> e = AuthenticationError"
  by (auto simp: aeadDecrypt_def rbind_eq_Inl expectLength_def guard_eq_Inl
      split: option.splits if_splits)

lemma length_kdf: "hkdf_sized N \<Longrightarrow> n \<le> 255 * 64 \<Longrightarrow> length (kdf N ikm salt info n) = n"
  by (simp add: kdf_def hkdf_sized_def)

end
