(* ===== verification/Veil_Identity.thy ===== *)
theory Veil_Identity
  imports Veil_Primitives
begin

text \<open>
  Identities, prekeys and bundles: packages/crypto/src/identity.ts. Key identifiers are
  integers, because a relay may hand out any number: the \<open>u32\<close> field of the signing transcript
  is what rejects a negative or oversized one.
\<close>

record public_identity =
  signingPublicKey :: bytes
  exchangePublicKey :: bytes
  exchangeKeySignature :: bytes

record private_identity =
  signing :: keypair
  exchange :: keypair
  bindingSignature :: bytes

text \<open>SignedPreKey and SignedKemPreKey have the same three fields.\<close>

record signed_prekey =
  spk_id :: int
  spk_public :: bytes
  spk_signature :: bytes

text \<open>OneTimePreKey and OneTimeKemPreKey.\<close>

record one_time_prekey =
  otk_id :: int
  otk_public :: bytes

record prekey_bundle =
  identity :: public_identity
  signedPreKey :: signed_prekey
  signedKemPreKey :: signed_prekey
  oneTimePreKey :: "one_time_prekey option"
  oneTimeKemPreKey :: "one_time_prekey option"

definition SIG_CONTEXT_EXCHANGE :: int where "SIG_CONTEXT_EXCHANGE = 1"
definition SIG_CONTEXT_SIGNED_PREKEY :: int where "SIG_CONTEXT_SIGNED_PREKEY = 2"
definition SIG_CONTEXT_KEM_PREKEY :: int where "SIG_CONTEXT_KEM_PREKEY = 3"

lemmas sig_contexts = SIG_CONTEXT_EXCHANGE_def SIG_CONTEXT_SIGNED_PREKEY_def SIG_CONTEXT_KEM_PREKEY_def

definition signingTranscript :: "int \<Rightarrow> bytes \<Rightarrow> int \<Rightarrow> bytes \<Rightarrow> bytes result" where
  "signingTranscript context signingKey kid key = w_run
     [w_fixed (utf8_encode ''Veil/v1/KeyBinding''), w_u8 context, w_bytes signingKey,
      w_u32 kid, w_bytes key]"

section \<open>Identity creation\<close>

text \<open>The two key generations draw \<open>f1\<close> (Ed25519) and \<open>f2\<close> (X25519).\<close>

definition createIdentity :: "noble \<Rightarrow> fresh \<Rightarrow> fresh \<Rightarrow> private_identity result" where
  "createIdentity N f1 f2 = (let sg = generateSigningKeyPair N f1; ex = generateDhKeyPair N f2 in
     rbind (signingTranscript SIG_CONTEXT_EXCHANGE (publicKey sg) 0 (publicKey ex)) (\<lambda>t.
     rbind (sign N (secretKey sg) t) (\<lambda>s.
     Inr \<lparr>signing = sg, exchange = ex, bindingSignature = s\<rparr>)))"

definition publicIdentityOf :: "private_identity \<Rightarrow> public_identity" where
  "publicIdentityOf i = \<lparr>signingPublicKey = publicKey (signing i),
     exchangePublicKey = publicKey (exchange i), exchangeKeySignature = bindingSignature i\<rparr>"

definition verifyIdentityBinding :: "noble \<Rightarrow> public_identity \<Rightarrow> bool result" where
  "verifyIdentityBinding N i =
     (if length (signingPublicKey i) \<noteq> ED25519_PUBLIC_LEN then Inr False
      else if length (exchangePublicKey i) \<noteq> X25519_PUBLIC_LEN then Inr False
      else rbind (signingTranscript SIG_CONTEXT_EXCHANGE (signingPublicKey i) 0 (exchangePublicKey i))
        (\<lambda>t. Inr (verify N (signingPublicKey i) t (exchangeKeySignature i))))"

definition restoreIdentity :: "noble \<Rightarrow> fresh \<Rightarrow> fresh \<Rightarrow> bytes \<Rightarrow> private_identity result" where
  "restoreIdentity N signingSecret exchangeSecret signature =
     rbind (signingPublicKeyOf N (fst signingSecret)) (\<lambda>spk.
     rbind (dhPublicKey N (fst exchangeSecret)) (\<lambda>xpk.
     let i = \<lparr>signing = \<lparr>publicKey = spk, secretKey = fst signingSecret, skbuf = snd signingSecret\<rparr>,
              exchange = \<lparr>publicKey = xpk, secretKey = fst exchangeSecret, skbuf = snd exchangeSecret\<rparr>,
              bindingSignature = signature\<rparr>
     in rbind (verifyIdentityBinding N (publicIdentityOf i)) (\<lambda>ok.
        if \<not> ok then Inl UntrustedBundleError else Inr i)))"

section \<open>Prekey generation\<close>

definition createSignedPreKey ::
  "noble \<Rightarrow> fresh \<Rightarrow> private_identity \<Rightarrow> int \<Rightarrow> (signed_prekey \<times> keypair) result" where
  "createSignedPreKey N f i kid = (let pair = generateDhKeyPair N f in
     rbind (signingTranscript SIG_CONTEXT_SIGNED_PREKEY (publicKey (signing i)) kid (publicKey pair)) (\<lambda>t.
     rbind (sign N (secretKey (signing i)) t) (\<lambda>s.
     Inr (\<lparr>spk_id = kid, spk_public = publicKey pair, spk_signature = s\<rparr>, pair))))"

definition createSignedKemPreKey ::
  "noble \<Rightarrow> fresh \<Rightarrow> private_identity \<Rightarrow> int \<Rightarrow> (signed_prekey \<times> keypair) result" where
  "createSignedKemPreKey N f i kid = (let pair = generateKemKeyPair N f in
     rbind (signingTranscript SIG_CONTEXT_KEM_PREKEY (publicKey (signing i)) kid (publicKey pair)) (\<lambda>t.
     rbind (sign N (secretKey (signing i)) t) (\<lambda>s.
     Inr (\<lparr>spk_id = kid, spk_public = publicKey pair, spk_signature = s\<rparr>, pair))))"

text \<open>The \<open>i\<close>-th iteration draws \<open>fs i\<close>.\<close>

definition createOneTimePreKeys ::
  "noble \<Rightarrow> (nat \<Rightarrow> fresh) \<Rightarrow> int \<Rightarrow> nat \<Rightarrow> (one_time_prekey \<times> keypair) list" where
  "createOneTimePreKeys N fs startId count = map (\<lambda>i. let pair = generateDhKeyPair N (fs i) in
     (\<lparr>otk_id = startId + int i, otk_public = publicKey pair\<rparr>, pair)) [0..<count]"

definition createOneTimeKemPreKeys ::
  "noble \<Rightarrow> (nat \<Rightarrow> fresh) \<Rightarrow> int \<Rightarrow> nat \<Rightarrow> (one_time_prekey \<times> keypair) list" where
  "createOneTimeKemPreKeys N fs startId count = map (\<lambda>i. let pair = generateKemKeyPair N (fs i) in
     (\<lparr>otk_id = startId + int i, otk_public = publicKey pair\<rparr>, pair)) [0..<count]"

section \<open>Verification\<close>

definition verifyPreKeyBundle :: "noble \<Rightarrow> prekey_bundle \<Rightarrow> unit result" where
  "verifyPreKeyBundle N bundle =
     rbind (verifyIdentityBinding N (identity bundle)) (\<lambda>ok.
     rbind (guard ok UntrustedBundleError) (\<lambda>_.
     let signingKey = signingPublicKey (identity bundle);
         spk = signedPreKey bundle; kem = signedKemPreKey bundle in
     rbind (guard (length (spk_public spk) = X25519_PUBLIC_LEN) MalformedInputError) (\<lambda>_.
     rbind (signingTranscript SIG_CONTEXT_SIGNED_PREKEY signingKey (spk_id spk) (spk_public spk)) (\<lambda>t.
     rbind (guard (verify N signingKey t (spk_signature spk)) UntrustedBundleError) (\<lambda>_.
     rbind (guard (length (spk_public kem) = MLKEM_PUBLIC_LEN) MalformedInputError) (\<lambda>_.
     rbind (signingTranscript SIG_CONTEXT_KEM_PREKEY signingKey (spk_id kem) (spk_public kem)) (\<lambda>t.
     rbind (guard (verify N signingKey t (spk_signature kem)) UntrustedBundleError) (\<lambda>_.
     rbind (guard (case oneTimePreKey bundle of None \<Rightarrow> True
               | Some k \<Rightarrow> length (otk_public k) = X25519_PUBLIC_LEN) MalformedInputError) (\<lambda>_.
     guard (case oneTimeKemPreKey bundle of None \<Rightarrow> True
               | Some k \<Rightarrow> length (otk_public k) = MLKEM_PUBLIC_LEN) MalformedInputError)))))))))"

section \<open>Addresses\<close>

definition ADDRESS_BYTES :: nat where "ADDRESS_BYTES = 16"

text \<open>The overload on a raw signing key, and the one on an identity.\<close>

definition addressOfKey :: "noble \<Rightarrow> bytes \<Rightarrow> string result" where
  "addressOfKey N signingKey =
     (if length signingKey \<noteq> ED25519_PUBLIC_LEN then Inl MalformedInputError
      else let digest = hash256 N [utf8_encode ''Veil/v1/Address'', signingKey]
           in Inr (toBase32 (slice 0 ADDRESS_BYTES digest)))"

definition addressOf :: "noble \<Rightarrow> public_identity \<Rightarrow> string result" where
  "addressOf N i = addressOfKey N (signingPublicKey i)"

definition addressMatches :: "noble \<Rightarrow> string \<Rightarrow> public_identity \<Rightarrow> bool result" where
  "addressMatches N address i = rbind (addressOf N i) (\<lambda>expected.
     Inr (constantTimeEqual (utf8_encode expected) (utf8_encode address)))"

section \<open>Transcripts\<close>

lemma signingTranscript_eq:
  "signingTranscript c sk kid k =
     (if 0 \<le> c \<and> c \<le> 0xff \<and> fits_len sk \<and> fits_u32 kid \<and> fits_len k
      then Inr (utf8_encode ''Veil/v1/KeyBinding'' @ word_of_int c # image_bytes sk @
        be_bytes 4 (nat kid) @ image_bytes k)
      else Inl MalformedInputError)"
  using w_run_writes[of "[w_fixed (utf8_encode ''Veil/v1/KeyBinding''), w_u8 c, w_bytes sk, w_u32 kid, w_bytes k]"
     "[(True, utf8_encode ''Veil/v1/KeyBinding''), (0 \<le> c \<and> c \<le> 0xff, [word_of_int c]),
       (fits_len sk, image_bytes sk), (fits_u32 kid, be_bytes 4 (nat kid)), (fits_len k, image_bytes k)]"]
  by (simp add: signingTranscript_def writes_u8 writes_u32 writes_fixed writes_bytes)

lemma u32_image_inj:
  "fits_u32 a \<Longrightarrow> fits_u32 b \<Longrightarrow> be_bytes 4 (nat a) @ xs = be_bytes 4 (nat b) @ ys \<Longrightarrow> a = b \<and> xs = ys"
proof -
  assume a: "fits_u32 a" and b: "fits_u32 b"
    and eq: "be_bytes 4 (nat a) @ xs = be_bytes 4 (nat b) @ ys"
  from a have na: "nat a \<le> 0xffffffff" unfolding fits_u32_def by linarith
  from b have nb: "nat b \<le> 0xffffffff" unfolding fits_u32_def by linarith
  have "nat a = nat b" and xy: "xs = ys" using u32c.self_delimiting[OF na nb eq] by blast+
  moreover have "0 \<le> a" "0 \<le> b" using a b by (simp_all add: fits_u32_def)
  ultimately show "a = b \<and> xs = ys" using eq_nat_nat_iff by blast
qed

lemma u8_image_inj:
  assumes "0 \<le> a" "a \<le> 0xff" "0 \<le> b" "b \<le> 0xff" "word_of_int a = (word_of_int b :: byte)"
  shows "a = b"
proof -
  have "uint (word_of_int a :: byte) = uint (word_of_int b :: byte)" using assms(5) by simp
  then have "a mod 256 = b mod 256" by (simp add: uint_word_of_int)
  with assms show ?thesis by simp
qed

text \<open>
  Domain separation: two signing transcripts are equal only when the context, the signing key,
  the identifier and the key are. A signature over one kind of key cannot pass for another.
\<close>

lemma signingTranscript_inj_lemma:
  assumes "signingTranscript c sk kid k = Inr t" and "signingTranscript c' sk' kid' k' = Inr t"
  shows "c = c' \<and> sk = sk' \<and> kid = kid' \<and> k = k'"
proof -
  let ?rest = "\<lambda>sk kid k. image_bytes sk @ be_bytes 4 (nat kid) @ image_bytes k"
  from assms have f: "0 \<le> c" "c \<le> 0xff" "fits_len sk" "fits_u32 kid" "fits_len k"
      "0 \<le> c'" "c' \<le> 0xff" "fits_len sk'" "fits_u32 kid'" "fits_len k'"
    and c: "word_of_int c = (word_of_int c' :: byte)" and r: "?rest sk kid k = ?rest sk' kid' k'"
    by (auto simp: signingTranscript_eq split: if_splits)
  from bytesc.self_delimiting[OF f(3,8) r]
  have sk: "sk = sk'" and r2: "be_bytes 4 (nat kid) @ image_bytes k = be_bytes 4 (nat kid') @ image_bytes k'"
    by auto
  from u32_image_inj[OF f(4,9) r2] have "kid = kid'" "image_bytes k = image_bytes k'" by auto
  with sk c f show ?thesis using bytesc.image_inj u8_image_inj by blast
qed

lemma fits_len_32 [simp]: "length b = 32 \<Longrightarrow> fits_len b" "length b = 1568 \<Longrightarrow> fits_len b"
  by (simp_all add: fits_len_def)

lemma verifyIdentityBinding_total: "\<exists>b. verifyIdentityBinding N i = Inr b"
  by (auto simp: verifyIdentityBinding_def signingTranscript_eq fits_u32_def SIG_CONTEXT_EXCHANGE_def)

lemma verifyIdentityBinding_iff:
  "verifyIdentityBinding N i = Inr True \<longleftrightarrow>
     length (signingPublicKey i) = 32 \<and> length (exchangePublicKey i) = 32 \<and>
     (\<exists>t. signingTranscript SIG_CONTEXT_EXCHANGE (signingPublicKey i) 0 (exchangePublicKey i) = Inr t \<and>
       verify N (signingPublicKey i) t (exchangeKeySignature i))"
  by (auto simp: verifyIdentityBinding_def rbind_eq_Inr)

text \<open>A bundle is accepted exactly when every signature and every length is right.\<close>

lemma verifyPreKeyBundle_iff_lemma:
  "verifyPreKeyBundle N b = Inr () \<longleftrightarrow>
     verifyIdentityBinding N (identity b) = Inr True \<and>
     length (spk_public (signedPreKey b)) = 32 \<and>
     length (spk_public (signedKemPreKey b)) = 1568 \<and>
     (\<exists>t. signingTranscript SIG_CONTEXT_SIGNED_PREKEY (signingPublicKey (identity b))
        (spk_id (signedPreKey b)) (spk_public (signedPreKey b)) = Inr t \<and>
        verify N (signingPublicKey (identity b)) t (spk_signature (signedPreKey b))) \<and>
     (\<exists>t. signingTranscript SIG_CONTEXT_KEM_PREKEY (signingPublicKey (identity b))
        (spk_id (signedKemPreKey b)) (spk_public (signedKemPreKey b)) = Inr t \<and>
        verify N (signingPublicKey (identity b)) t (spk_signature (signedKemPreKey b))) \<and>
     (\<forall>k. oneTimePreKey b = Some k \<longrightarrow> length (otk_public k) = 32) \<and>
     (\<forall>k. oneTimeKemPreKey b = Some k \<longrightarrow> length (otk_public k) = 1568)"
  by (auto simp: verifyPreKeyBundle_def rbind_eq_Inr Let_def split: option.splits)

end
