(* ===== verification/Veil_Pqxdh.thy ===== *)
theory Veil_Pqxdh
  imports Veil_Identity
begin

text \<open>
  The hybrid key agreement of packages/crypto/src/pqxdh.ts: both sides of the handshake, the
  transcript they derive the root secret under and the associated data of the session. The
  random draws of the initiator (the ephemeral secret, the encapsulation coins) are arguments;
  the wiping of the intermediate secrets, which are local buffers, has no observable effect.
\<close>

section \<open>Data\<close>

record handshake_key_ids =
  signedPreKeyId :: int
  signedKemPreKeyId :: int
  oneTimePreKeyId :: "int option"
  oneTimeKemPreKeyId :: "int option"

record initiator_handshake =
  rootSecret :: bytes
  hs_ephemeralPublicKey :: bytes
  hs_kemCiphertext :: bytes
  hs_keyIds :: handshake_key_ids
  hs_associatedData :: bytes

record responder_input =
  ri_initiatorIdentity :: public_identity
  ri_ephemeralPublicKey :: bytes
  ri_kemCiphertext :: bytes
  ri_keyIds :: handshake_key_ids
  ri_signedPreKeySecret :: bytes
  ri_signedKemPreKeySecret :: bytes
  ri_oneTimePreKeySecret :: "bytes option"
  ri_oneTimeKemPreKeySecret :: "bytes option"

section \<open>Transcripts and key derivation\<close>

definition associatedData :: "public_identity \<Rightarrow> public_identity \<Rightarrow> bytes result" where
  "associatedData initiator responder = w_run
     [w_fixed (utf8_encode ''Veil/v1/AD''),
      w_bytes (signingPublicKey initiator), w_bytes (exchangePublicKey initiator),
      w_bytes (signingPublicKey responder), w_bytes (exchangePublicKey responder)]"

definition handshakeTranscript ::
  "public_identity \<Rightarrow> public_identity \<Rightarrow> bytes \<Rightarrow> bytes \<Rightarrow> handshake_key_ids \<Rightarrow> bytes result" where
  "handshakeTranscript initiator responder ephemeral kemCiphertext ids = w_run
     [w_fixed (utf8_encode ''Veil/v1/PQXDH/Transcript''),
      w_bytes (signingPublicKey initiator), w_bytes (exchangePublicKey initiator),
      w_bytes (signingPublicKey responder), w_bytes (exchangePublicKey responder),
      w_bytes ephemeral, w_bytes kemCiphertext,
      w_u32 (signedPreKeyId ids), w_u32 (signedKemPreKeyId ids),
      w_u8 (if oneTimePreKeyId ids = None then 0 else 1),
      w_u32 (case oneTimePreKeyId ids of None \<Rightarrow> 0 | Some i \<Rightarrow> i),
      w_u8 (if oneTimeKemPreKeyId ids = None then 0 else 1),
      w_u32 (case oneTimeKemPreKeyId ids of None \<Rightarrow> 0 | Some i \<Rightarrow> i)]"

definition deriveRootSecret :: "noble \<Rightarrow> bytes list \<Rightarrow> bytes \<Rightarrow> bytes" where
  "deriveRootSecret N secrets transcript =
     kdf N (concat_bytes (HANDSHAKE_PREFIX # secrets)) transcript LABEL_handshake SHARED_SECRET_LEN"

text \<open>\<open>dh4 ? [dh1, dh2, dh3, dh4, kemSecret] : [dh1, dh2, dh3, kemSecret]\<close>.\<close>

definition secret_list :: "bytes \<Rightarrow> bytes \<Rightarrow> bytes \<Rightarrow> bytes option \<Rightarrow> bytes \<Rightarrow> bytes list" where
  "secret_list dh1 dh2 dh3 dh4 kem = (case dh4 of Some d \<Rightarrow> [dh1, dh2, dh3, d, kem]
     | None \<Rightarrow> [dh1, dh2, dh3, kem])"

definition dh_optional :: "noble \<Rightarrow> (bytes \<times> bytes) option \<Rightarrow> bytes option result" where
  "dh_optional N k = (case k of None \<Rightarrow> Inr None
     | Some (sk, pk) \<Rightarrow> rbind (dh N sk pk) (\<lambda>d. Inr (Some d)))"

section \<open>The two sides\<close>

definition initiateHandshake ::
  "noble \<Rightarrow> fresh \<Rightarrow> bytes \<Rightarrow> private_identity \<Rightarrow> prekey_bundle \<Rightarrow> initiator_handshake result" where
  "initiateHandshake N f coins self bundle =
     rbind (verifyPreKeyBundle N bundle) (\<lambda>_.
     let selfPublic = publicIdentityOf self;
         ephemeral = generateDhKeyPair N f;
         kemTarget = (case oneTimeKemPreKey bundle of Some k \<Rightarrow> otk_public k
           | None \<Rightarrow> spk_public (signedKemPreKey bundle)) in
     rbind (kemEncapsulate N coins kemTarget) (\<lambda>(ct, kemSecret).
     rbind (dh N (secretKey (exchange self)) (spk_public (signedPreKey bundle))) (\<lambda>dh1.
     rbind (dh N (secretKey ephemeral) (exchangePublicKey (identity bundle))) (\<lambda>dh2.
     rbind (dh N (secretKey ephemeral) (spk_public (signedPreKey bundle))) (\<lambda>dh3.
     rbind (dh_optional N (map_option (\<lambda>k. (secretKey ephemeral, otk_public k)) (oneTimePreKey bundle))) (\<lambda>dh4.
     let ids = \<lparr>signedPreKeyId = spk_id (signedPreKey bundle),
                signedKemPreKeyId = spk_id (signedKemPreKey bundle),
                oneTimePreKeyId = map_option otk_id (oneTimePreKey bundle),
                oneTimeKemPreKeyId = map_option otk_id (oneTimeKemPreKey bundle)\<rparr> in
     rbind (handshakeTranscript selfPublic (identity bundle) (publicKey ephemeral) ct ids) (\<lambda>t.
     rbind (associatedData selfPublic (identity bundle)) (\<lambda>ad.
     Inr \<lparr>rootSecret = deriveRootSecret N (secret_list dh1 dh2 dh3 dh4 kemSecret) t,
          hs_ephemeralPublicKey = publicKey ephemeral, hs_kemCiphertext = ct,
          hs_keyIds = ids, hs_associatedData = ad\<rparr>))))))))"

definition respondToHandshake ::
  "noble \<Rightarrow> private_identity \<Rightarrow> responder_input \<Rightarrow> (bytes \<times> bytes) result" where
  "respondToHandshake N self input =
     (let selfPublic = publicIdentityOf self; ids = ri_keyIds input in
     rbind (guard ((oneTimePreKeyId ids \<noteq> None) = (ri_oneTimePreKeySecret input \<noteq> None))
       MalformedInputError) (\<lambda>_.
     rbind (guard ((oneTimeKemPreKeyId ids \<noteq> None) = (ri_oneTimeKemPreKeySecret input \<noteq> None))
       MalformedInputError) (\<lambda>_.
     let kemSecretKey = (case ri_oneTimeKemPreKeySecret input of Some k \<Rightarrow> k
           | None \<Rightarrow> ri_signedKemPreKeySecret input) in
     rbind (kemDecapsulate N (ri_kemCiphertext input) kemSecretKey) (\<lambda>kemSecret.
     rbind (dh N (ri_signedPreKeySecret input) (exchangePublicKey (ri_initiatorIdentity input))) (\<lambda>dh1.
     rbind (dh N (secretKey (exchange self)) (ri_ephemeralPublicKey input)) (\<lambda>dh2.
     rbind (dh N (ri_signedPreKeySecret input) (ri_ephemeralPublicKey input)) (\<lambda>dh3.
     rbind (dh_optional N (map_option (\<lambda>sk. (sk, ri_ephemeralPublicKey input))
       (ri_oneTimePreKeySecret input))) (\<lambda>dh4.
     rbind (handshakeTranscript (ri_initiatorIdentity input) selfPublic (ri_ephemeralPublicKey input)
       (ri_kemCiphertext input) ids) (\<lambda>t.
     rbind (associatedData (ri_initiatorIdentity input) selfPublic) (\<lambda>ad.
     Inr (deriveRootSecret N (secret_list dh1 dh2 dh3 dh4 kemSecret) t, ad)))))))))))"

section \<open>Transcripts are injective\<close>

lemma associatedData_eq:
  "associatedData i r = (if fits_len (signingPublicKey i) \<and> fits_len (exchangePublicKey i) \<and>
       fits_len (signingPublicKey r) \<and> fits_len (exchangePublicKey r)
     then Inr (utf8_encode ''Veil/v1/AD'' @ image_bytes (signingPublicKey i) @
       image_bytes (exchangePublicKey i) @ image_bytes (signingPublicKey r) @
       image_bytes (exchangePublicKey r))
     else Inl MalformedInputError)"
  using w_run_writes[of "[w_fixed (utf8_encode ''Veil/v1/AD''),
      w_bytes (signingPublicKey i), w_bytes (exchangePublicKey i),
      w_bytes (signingPublicKey r), w_bytes (exchangePublicKey r)]"
     "[(True, utf8_encode ''Veil/v1/AD''),
       (fits_len (signingPublicKey i), image_bytes (signingPublicKey i)),
       (fits_len (exchangePublicKey i), image_bytes (exchangePublicKey i)),
       (fits_len (signingPublicKey r), image_bytes (signingPublicKey r)),
       (fits_len (exchangePublicKey r), image_bytes (exchangePublicKey r))]"]
  by (simp add: associatedData_def writes_fixed writes_bytes)

lemma bytes_image_cancel:
  "fits_len a \<Longrightarrow> fits_len b \<Longrightarrow> image_bytes a @ xs = image_bytes b @ ys \<longleftrightarrow> a = b \<and> xs = ys"
  using bytesc.self_delimiting[of a b xs ys] by blast

lemma u32_image_cancel:
  "fits_u32 a \<Longrightarrow> fits_u32 b \<Longrightarrow> be_bytes 4 (nat a) @ xs = be_bytes 4 (nat b) @ ys \<longleftrightarrow> a = b \<and> xs = ys"
  using u32_image_inj[of a b xs ys] by blast

lemma bytes_image_cancel0:
  "fits_len a \<Longrightarrow> fits_len b \<Longrightarrow> image_bytes a = image_bytes b \<longleftrightarrow> a = b"
  using bytesc.image_inj[of a b] by blast

lemma u32_image_cancel0:
  "fits_u32 a \<Longrightarrow> fits_u32 b \<Longrightarrow> be_bytes 4 (nat a) = be_bytes 4 (nat b) \<longleftrightarrow> a = b"
  using u32_image_inj[of a b "[]" "[]"] by auto

text \<open>The associated data names the two identities, in order.\<close>

lemma associatedData_inj:
  assumes "associatedData i r = Inr d" and "associatedData i' r' = Inr d"
  shows "signingPublicKey i = signingPublicKey i' \<and> exchangePublicKey i = exchangePublicKey i' \<and>
    signingPublicKey r = signingPublicKey r' \<and> exchangePublicKey r = exchangePublicKey r'"
proof -
  from assms have "fits_len (signingPublicKey i)" "fits_len (exchangePublicKey i)"
      "fits_len (signingPublicKey r)" "fits_len (exchangePublicKey r)"
      "fits_len (signingPublicKey i')" "fits_len (exchangePublicKey i')"
      "fits_len (signingPublicKey r')" "fits_len (exchangePublicKey r')"
    and "image_bytes (signingPublicKey i) @ image_bytes (exchangePublicKey i) @
       image_bytes (signingPublicKey r) @ image_bytes (exchangePublicKey r) =
      image_bytes (signingPublicKey i') @ image_bytes (exchangePublicKey i') @
       image_bytes (signingPublicKey r') @ image_bytes (exchangePublicKey r')"
    by (auto simp: associatedData_eq split: if_splits)
  then show ?thesis by (simp add: bytes_image_cancel bytes_image_cancel0)
qed

abbreviation or_zero :: "int option \<Rightarrow> int" where
  "or_zero x \<equiv> (case x of None \<Rightarrow> 0 | Some i \<Rightarrow> i)"

definition ids_fit :: "handshake_key_ids \<Rightarrow> bool" where
  "ids_fit ids \<longleftrightarrow> fits_u32 (signedPreKeyId ids) \<and> fits_u32 (signedKemPreKeyId ids) \<and>
     fits_u32 (or_zero (oneTimePreKeyId ids)) \<and> fits_u32 (or_zero (oneTimeKemPreKeyId ids))"

definition image_ids :: "handshake_key_ids \<Rightarrow> bytes" where
  "image_ids ids = be_bytes 4 (nat (signedPreKeyId ids)) @ be_bytes 4 (nat (signedKemPreKeyId ids)) @
     [if oneTimePreKeyId ids = None then 0 else 1] @ be_bytes 4 (nat (or_zero (oneTimePreKeyId ids))) @
     [if oneTimeKemPreKeyId ids = None then 0 else 1] @ be_bytes 4 (nat (or_zero (oneTimeKemPreKeyId ids)))"

lemma writes_flag: "writes (w_u8 (if b then 0 else 1)) (True, [if b then 0 else 1])"
  using writes_u8[of 0] writes_u8[of 1] by (cases b) auto

lemma handshakeTranscript_eq:
  "handshakeTranscript i r e ct ids =
     (if fits_len (signingPublicKey i) \<and> fits_len (exchangePublicKey i) \<and>
       fits_len (signingPublicKey r) \<and> fits_len (exchangePublicKey r) \<and> fits_len e \<and> fits_len ct \<and> ids_fit ids
     then Inr (utf8_encode ''Veil/v1/PQXDH/Transcript'' @ image_bytes (signingPublicKey i) @
       image_bytes (exchangePublicKey i) @ image_bytes (signingPublicKey r) @
       image_bytes (exchangePublicKey r) @ image_bytes e @ image_bytes ct @ image_ids ids)
     else Inl MalformedInputError)"
  using w_run_writes[of "[w_fixed (utf8_encode ''Veil/v1/PQXDH/Transcript''),
      w_bytes (signingPublicKey i), w_bytes (exchangePublicKey i),
      w_bytes (signingPublicKey r), w_bytes (exchangePublicKey r), w_bytes e, w_bytes ct,
      w_u32 (signedPreKeyId ids), w_u32 (signedKemPreKeyId ids),
      w_u8 (if oneTimePreKeyId ids = None then 0 else 1), w_u32 (or_zero (oneTimePreKeyId ids)),
      w_u8 (if oneTimeKemPreKeyId ids = None then 0 else 1), w_u32 (or_zero (oneTimeKemPreKeyId ids))]"
     "[(True, utf8_encode ''Veil/v1/PQXDH/Transcript''),
       (fits_len (signingPublicKey i), image_bytes (signingPublicKey i)),
       (fits_len (exchangePublicKey i), image_bytes (exchangePublicKey i)),
       (fits_len (signingPublicKey r), image_bytes (signingPublicKey r)),
       (fits_len (exchangePublicKey r), image_bytes (exchangePublicKey r)),
       (fits_len e, image_bytes e), (fits_len ct, image_bytes ct),
       (fits_u32 (signedPreKeyId ids), be_bytes 4 (nat (signedPreKeyId ids))),
       (fits_u32 (signedKemPreKeyId ids), be_bytes 4 (nat (signedKemPreKeyId ids))),
       (True, [if oneTimePreKeyId ids = None then 0 else 1]),
       (fits_u32 (or_zero (oneTimePreKeyId ids)), be_bytes 4 (nat (or_zero (oneTimePreKeyId ids)))),
       (True, [if oneTimeKemPreKeyId ids = None then 0 else 1]),
       (fits_u32 (or_zero (oneTimeKemPreKeyId ids)), be_bytes 4 (nat (or_zero (oneTimeKemPreKeyId ids))))]"]
  by (simp add: handshakeTranscript_def ids_fit_def image_ids_def writes_fixed writes_bytes writes_u32 writes_flag
      del: zero_neq_one one_neq_zero)

lemma image_ids_inj:
  assumes "ids_fit a" and "ids_fit b" and "image_ids a = image_ids b"
  shows "a = b"
proof -
  have flag: "(if p then 0 else 1 :: byte) = (if q then 0 else 1) \<longleftrightarrow> p = q" for p q by simp
  from assms have f: "fits_u32 (signedPreKeyId a)" "fits_u32 (signedPreKeyId b)"
    "fits_u32 (signedKemPreKeyId a)" "fits_u32 (signedKemPreKeyId b)"
    "fits_u32 (or_zero (oneTimePreKeyId a))" "fits_u32 (or_zero (oneTimePreKeyId b))"
    "fits_u32 (or_zero (oneTimeKemPreKeyId a))" "fits_u32 (or_zero (oneTimeKemPreKeyId b))"
    by (simp_all only: ids_fit_def)
  have "signedPreKeyId a = signedPreKeyId b \<and> signedKemPreKeyId a = signedKemPreKeyId b \<and>
    (oneTimePreKeyId a = None) = (oneTimePreKeyId b = None) \<and>
    or_zero (oneTimePreKeyId a) = or_zero (oneTimePreKeyId b) \<and>
    (oneTimeKemPreKeyId a = None) = (oneTimeKemPreKeyId b = None) \<and>
    or_zero (oneTimeKemPreKeyId a) = or_zero (oneTimeKemPreKeyId b)"
    using assms(3) unfolding image_ids_def
    by (simp only: u32_image_cancel[OF f(1,2)] u32_image_cancel[OF f(3,4)] u32_image_cancel[OF f(5,6)]
        u32_image_cancel0[OF f(7,8)] append_Cons append_Nil list.inject flag)
  then show ?thesis
    by (cases a; cases b; cases "oneTimePreKeyId a"; cases "oneTimePreKeyId b";
        cases "oneTimeKemPreKeyId a"; cases "oneTimeKemPreKeyId b") auto
qed

lemma handshakeTranscript_inj_lemma:
  assumes "handshakeTranscript i r e ct ids = Inr t" and "handshakeTranscript i' r' e' ct' ids' = Inr t"
  shows "signingPublicKey i = signingPublicKey i' \<and> exchangePublicKey i = exchangePublicKey i' \<and>
    signingPublicKey r = signingPublicKey r' \<and> exchangePublicKey r = exchangePublicKey r' \<and>
    e = e' \<and> ct = ct' \<and> ids = ids'"
proof -
  from assms have f: "fits_len (signingPublicKey i)" "fits_len (signingPublicKey i')"
      "fits_len (exchangePublicKey i)" "fits_len (exchangePublicKey i')"
      "fits_len (signingPublicKey r)" "fits_len (signingPublicKey r')"
      "fits_len (exchangePublicKey r)" "fits_len (exchangePublicKey r')"
      "fits_len e" "fits_len e'" "fits_len ct" "fits_len ct'" "ids_fit ids" "ids_fit ids'"
    and eq: "image_bytes (signingPublicKey i) @ image_bytes (exchangePublicKey i) @
       image_bytes (signingPublicKey r) @ image_bytes (exchangePublicKey r) @ image_bytes e @
       image_bytes ct @ image_ids ids =
      image_bytes (signingPublicKey i') @ image_bytes (exchangePublicKey i') @
       image_bytes (signingPublicKey r') @ image_bytes (exchangePublicKey r') @ image_bytes e' @
       image_bytes ct' @ image_ids ids'"
    by (auto simp: handshakeTranscript_eq split: if_splits)
  from eq show ?thesis
    by (simp add: bytes_image_cancel f image_ids_inj[OF f(13,14)])
qed

section \<open>Agreement\<close>

text \<open>A key pair whose halves belong together.\<close>

definition dh_pair :: "noble \<Rightarrow> keypair \<Rightarrow> bool" where
  "dh_pair N k \<longleftrightarrow> length (secretKey k) = 32 \<and> publicKey k = x25519_public N (secretKey k)"

definition kem_pair :: "noble \<Rightarrow> keypair \<Rightarrow> bool" where
  "kem_pair N k \<longleftrightarrow> (\<exists>seed. mlkem_keygen N seed = (publicKey k, secretKey k))"

lemma generate_pairs [simp]:
  "length (fst f) = 32 \<Longrightarrow> dh_pair N (generateDhKeyPair N f)"
  "kem_pair N (generateKemKeyPair N f)"
  by (auto simp: dh_pair_def kem_pair_def generateDhKeyPair_def generateKemKeyPair_def split: prod.splits)

text \<open>The responder's prekey secrets are those of the bundle the initiator used.\<close>

definition secrets_match ::
  "noble \<Rightarrow> private_identity \<Rightarrow> keypair \<Rightarrow> keypair \<Rightarrow> keypair option \<Rightarrow> keypair option \<Rightarrow> prekey_bundle \<Rightarrow> bool" where
  "secrets_match N self spk kem otk okem bundle \<longleftrightarrow>
     identity bundle = publicIdentityOf self \<and> dh_pair N (exchange self) \<and>
     dh_pair N spk \<and> spk_public (signedPreKey bundle) = publicKey spk \<and>
     kem_pair N kem \<and> spk_public (signedKemPreKey bundle) = publicKey kem \<and>
     rel_option (\<lambda>k p. dh_pair N k \<and> otk_public p = publicKey k) otk (oneTimePreKey bundle) \<and>
     rel_option (\<lambda>k p. kem_pair N k \<and> otk_public p = publicKey k) okem (oneTimeKemPreKey bundle)"

definition responder_input_of ::
  "private_identity \<Rightarrow> initiator_handshake \<Rightarrow> keypair \<Rightarrow> keypair \<Rightarrow> keypair option \<Rightarrow> keypair option \<Rightarrow> responder_input" where
  "responder_input_of initiator h spk kem otk okem =
     \<lparr>ri_initiatorIdentity = publicIdentityOf initiator,
      ri_ephemeralPublicKey = hs_ephemeralPublicKey h, ri_kemCiphertext = hs_kemCiphertext h,
      ri_keyIds = hs_keyIds h, ri_signedPreKeySecret = secretKey spk,
      ri_signedKemPreKeySecret = secretKey kem,
      ri_oneTimePreKeySecret = map_option secretKey otk,
      ri_oneTimeKemPreKeySecret = map_option secretKey okem\<rparr>"

lemma kem_agrees:
  assumes "mlkem_correct N" "mlkem_sized N" "kem_pair N k"
    and "kemEncapsulate N coins (publicKey k) = Inr (ct, ss)"
  shows "kemDecapsulate N ct (secretKey k) = Inr ss"
proof -
  from assms(3) obtain seed where s: "mlkem_keygen N seed = (publicKey k, secretKey k)"
    by (auto simp: kem_pair_def)
  from assms(4) have e: "mlkem_encaps N (publicKey k) coins = Some (ct, ss)"
    by (auto simp: kemEncapsulate_def rbind_eq_Inr split: option.splits)
  obtain ct' ss' where "mlkem_encaps N (publicKey k) coins = Some (ct', ss')"
      and d: "mlkem_decaps N ct' (secretKey k) = Some ss'"
    using assms(1) s unfolding mlkem_correct_def by blast
  with e have "ct' = ct" "ss' = ss" by auto
  moreover have "length ct = 1568" "length (secretKey k) = 3168"
    using assms(2) e s unfolding mlkem_sized_def by blast+
  ultimately show ?thesis using d by (simp add: kemDecapsulate_def expectLength_def)
qed

lemma dh_pairs_agree:
  assumes "x25519_agrees N" "x25519_sized N" "dh_pair N a" "dh_pair N b"
  shows "dh N (secretKey a) (publicKey b) = dh N (secretKey b) (publicKey a)"
  using dh_agrees[OF assms(1,2)] assms(3,4) by (simp add: dh_pair_def)

text \<open>Both sides compute the same root secret and associated data.\<close>

lemma handshake_agreement_lemma:
  assumes lib: "x25519_agrees N" "x25519_sized N" "mlkem_correct N" "mlkem_sized N"
    and a: "dh_pair N (exchange initiator)" and f: "length (fst f) = 32"
    and m: "secrets_match N responder spk kem otk okem bundle"
    and h: "initiateHandshake N f coins initiator bundle = Inr h"
  shows "respondToHandshake N responder (responder_input_of initiator h spk kem otk okem) =
    Inr (rootSecret h, hs_associatedData h)"
proof -
  let ?e = "generateDhKeyPair N f"
  note e = generate_pairs(1)[OF f, of N]
  from m have pairs: "dh_pair N (exchange responder)" "dh_pair N spk" "kem_pair N kem"
    and pub: "spk_public (signedPreKey bundle) = publicKey spk"
      "spk_public (signedKemPreKey bundle) = publicKey kem" "identity bundle = publicIdentityOf responder"
    and otk: "rel_option (\<lambda>k p. dh_pair N k \<and> otk_public p = publicKey k) otk (oneTimePreKey bundle)"
    and okem: "rel_option (\<lambda>k p. kem_pair N k \<and> otk_public p = publicKey k) okem (oneTimeKemPreKey bundle)"
    by (auto simp: secrets_match_def)
  note ag = dh_pairs_agree[OF lib(1,2)]
  let ?kem = "case okem of Some k \<Rightarrow> k | None \<Rightarrow> kem"
  have kt: "(case oneTimeKemPreKey bundle of Some k \<Rightarrow> otk_public k
           | None \<Rightarrow> spk_public (signedKemPreKey bundle)) = publicKey ?kem"
    and kp: "kem_pair N ?kem"
    using okem pub pairs by (cases okem; cases "oneTimeKemPreKey bundle"; simp)+
  have d4: "dh_optional N (map_option (\<lambda>k. (secretKey ?e, otk_public k)) (oneTimePreKey bundle)) =
      dh_optional N (map_option (\<lambda>sk. (sk, publicKey ?e)) (map_option secretKey otk))"
    using otk ag[OF e] by (cases otk; cases "oneTimePreKey bundle") (auto simp: dh_optional_def)
  have present: "(map_option otk_id (oneTimePreKey bundle) \<noteq> None) = (map_option secretKey otk \<noteq> None)"
    "(map_option otk_id (oneTimeKemPreKey bundle) \<noteq> None) = (map_option secretKey okem \<noteq> None)"
    using otk okem by (cases otk; cases "oneTimePreKey bundle"; cases okem; cases "oneTimeKemPreKey bundle"; simp)+
  from h obtain ct ks' where enc: "kemEncapsulate N coins (publicKey ?kem) = Inr (ct, ks')"
    unfolding initiateHandshake_def Let_def kt by (auto simp: rbind_eq_Inr)
  note dec = kem_agrees[OF lib(3,4) kp enc]
  have dec': "okem = Some k \<Longrightarrow> kemDecapsulate N ct (secretKey k) = Inr ks'"
    "okem = None \<Longrightarrow> kemDecapsulate N ct (secretKey kem) = Inr ks'" for k
    using dec by simp_all
  have xk: "exchangePublicKey (publicIdentityOf p) = publicKey (exchange p)" for p
    by (simp add: publicIdentityOf_def)
  show ?thesis using h present
    by (auto simp: rbind_eq_Inr initiateHandshake_def respondToHandshake_def responder_input_of_def Let_def
        kt xk pub ag[OF a pairs(2)] ag[OF e pairs(1)] ag[OF e pairs(2)] d4 enc dec')
qed

end
