(* ===== verification/Veil_Ratchet.thy ===== *)
theory Veil_Ratchet
  imports Veil_Pqxdh
begin

text \<open>
  The Double Ratchet of packages/crypto/src/doubleRatchet.ts. An operation that may throw
  returns a result and the state it leaves, so that what it mutated before throwing shows.
  The keypair of a DH step is drawn from an argument. The ghost field \<open>retired\<close> lists the
  buffers of ratchet secrets that the code has overwritten with zeros: the caller may hold
  the same buffer (the responder's first ratchet pair is the prekey store's own object).
\<close>

definition MAX_SKIP_PER_CHAIN :: nat where "MAX_SKIP_PER_CHAIN = 1000"
definition MAX_SKIPPED_KEYS :: nat where "MAX_SKIPPED_KEYS = 2000"

record ratchet_header =
  ratchetPublicKey :: bytes
  previousChainLength :: nat
  messageNumber :: nat

record skipped_key =
  sk_sequence :: nat
  sk_messageKey :: bytes

record ratchet_state =
  rootKey :: bytes
  sending :: keypair
  receiving :: "bytes option"
  sendingChainKey :: "bytes option"
  receivingChainKey :: "bytes option"
  sentCount :: nat
  receivedCount :: nat
  previousSentCount :: nat
  skipped :: "(string, skipped_key) jsmap"
  skippedSequence :: nat
  rs_associatedData :: bytes
  retired :: "nat list"

record ratchet_message =
  rm_header :: ratchet_header
  rm_ciphertext :: bytes

section \<open>Key schedule\<close>

definition advanceRootChain :: "noble \<Rightarrow> bytes \<Rightarrow> bytes \<Rightarrow> bytes \<times> bytes" where
  "advanceRootChain N root dhOutput =
     (let derived = kdf N dhOutput root LABEL_rootChain (SHARED_SECRET_LEN * 2)
      in (slice 0 SHARED_SECRET_LEN derived, drop SHARED_SECRET_LEN derived))"

text \<open>The message key and the next chain key.\<close>

definition advanceChain :: "noble \<Rightarrow> bytes \<Rightarrow> bytes \<times> bytes" where
  "advanceChain N chainKey =
     (slice 0 SHARED_SECRET_LEN (mac N chainKey [CHAIN_MESSAGE_KEY_SEED]),
      slice 0 SHARED_SECRET_LEN (mac N chainKey [CHAIN_NEXT_KEY_SEED]))"

definition deriveMessageKeys :: "noble \<Rightarrow> bytes \<Rightarrow> bytes \<times> bytes" where
  "deriveMessageKeys N messageKey =
     (let derived = kdf N messageKey [] LABEL_messageKey (AEAD_KEY_LEN + AEAD_NONCE_LEN)
      in (slice 0 AEAD_KEY_LEN derived, drop AEAD_KEY_LEN derived))"

section \<open>Header encoding\<close>

definition encodeHeader :: "ratchet_header \<Rightarrow> bytes result" where
  "encodeHeader h = w_run [w_fixed (ratchetPublicKey h), w_u32 (int (previousChainLength h)),
     w_u32 (int (messageNumber h))]"

definition decodeHeader :: "bytes \<Rightarrow> ratchet_header result" where
  "decodeHeader b =
     rbind (r_fixed 32 (new_reader b)) (\<lambda>(k, r).
     rbind (r_u32 r) (\<lambda>(p, r).
     rbind (r_u32 r) (\<lambda>(n, r).
     rbind (r_end r) (\<lambda>_.
     Inr \<lparr>ratchetPublicKey = k, previousChainLength = p, messageNumber = n\<rparr>))))"

definition aeadAssociatedData :: "ratchet_state \<Rightarrow> ratchet_header \<Rightarrow> bytes result" where
  "aeadAssociatedData st h = rbind (encodeHeader h) (\<lambda>e. Inr (concat_bytes [rs_associatedData st, e]))"

section \<open>Initialisation\<close>

definition initialiseInitiator ::
  "noble \<Rightarrow> fresh \<Rightarrow> bytes \<Rightarrow> bytes \<Rightarrow> bytes \<Rightarrow> ratchet_state result" where
  "initialiseInitiator N f secret peer ad =
     (let pair = generateDhKeyPair N f in
      rbind (dh N (secretKey pair) peer) (\<lambda>dhOutput.
      case advanceRootChain N secret dhOutput of (root, chain) \<Rightarrow>
      Inr \<lparr>rootKey = root, sending = pair, receiving = Some peer, sendingChainKey = Some chain,
        receivingChainKey = None, sentCount = 0, receivedCount = 0, previousSentCount = 0,
        skipped = [], skippedSequence = 0, rs_associatedData = ad, retired = []\<rparr>))"

definition initialiseResponder :: "bytes \<Rightarrow> keypair \<Rightarrow> bytes \<Rightarrow> ratchet_state" where
  "initialiseResponder secret signedPreKeyPair ad =
     \<lparr>rootKey = secret, sending = signedPreKeyPair, receiving = None, sendingChainKey = None,
       receivingChainKey = None, sentCount = 0, receivedCount = 0, previousSentCount = 0,
       skipped = [], skippedSequence = 0, rs_associatedData = ad, retired = []\<rparr>"

section \<open>Sending\<close>

definition ratchetEncrypt ::
  "noble \<Rightarrow> ratchet_state \<Rightarrow> bytes \<Rightarrow> ratchet_message result \<times> ratchet_state" where
  "ratchetEncrypt N st plaintext =
     (case sendingChainKey st of None \<Rightarrow> (Inl SessionStateError, st)
      | Some ck \<Rightarrow>
        (case advanceChain N ck of (messageKey, nextChainKey) \<Rightarrow>
         let st1 = st\<lparr>sendingChainKey := Some nextChainKey\<rparr>;
             h = \<lparr>ratchetPublicKey = publicKey (sending st1),
                  previousChainLength = previousSentCount st1, messageNumber = sentCount st1\<rparr>;
             st2 = st1\<lparr>sentCount := sentCount st1 + 1\<rparr> in
         case deriveMessageKeys N messageKey of (key, nonce) \<Rightarrow>
         (rbind (aeadAssociatedData st2 h) (\<lambda>ad.
          rbind (aeadEncrypt N key nonce plaintext ad) (\<lambda>c.
          Inr \<lparr>rm_header = h, rm_ciphertext = c\<rparr>)), st2)))"

section \<open>Receiving\<close>

definition skippedKeyId :: "bytes \<Rightarrow> nat \<Rightarrow> string" where
  "skippedKeyId pk n = toHex pk @ '':'' @ decimal n"

text \<open>The scan for the oldest entry; \<open>None\<close> is \<open>POSITIVE_INFINITY\<close> with no id.\<close>

definition oldest_step ::
  "(nat \<times> string) option \<Rightarrow> string \<times> skipped_key \<Rightarrow> (nat \<times> string) option" where
  "oldest_step best e = (case best of
       None \<Rightarrow> Some (sk_sequence (snd e), fst e)
     | Some (s, i) \<Rightarrow> if sk_sequence (snd e) < s then Some (sk_sequence (snd e), fst e) else best)"

definition oldest :: "(string, skipped_key) jsmap \<Rightarrow> (nat \<times> string) option" where
  "oldest m = foldl oldest_step None m"

definition evict_oldest :: "(string, skipped_key) jsmap \<Rightarrow> (string, skipped_key) jsmap" where
  "evict_oldest m = (case oldest m of None \<Rightarrow> m | Some (s, i) \<Rightarrow> js_delete i m)"

definition rememberSkipped :: "ratchet_state \<Rightarrow> bytes \<Rightarrow> nat \<Rightarrow> bytes \<Rightarrow> ratchet_state" where
  "rememberSkipped st pk n messageKey =
     (let m = (if length (skipped st) \<ge> MAX_SKIPPED_KEYS then evict_oldest (skipped st) else skipped st)
      in st\<lparr>skipped := js_set (skippedKeyId pk n)
              \<lparr>sk_sequence = skippedSequence st, sk_messageKey = messageKey\<rparr> m,
            skippedSequence := skippedSequence st + 1\<rparr>)"

text \<open>One turn of the while loop of skipReceivingKeys, and the loop.\<close>

definition skip_step :: "noble \<Rightarrow> bytes \<Rightarrow> bytes \<Rightarrow> ratchet_state \<Rightarrow> ratchet_state" where
  "skip_step N ck pk st = (case advanceChain N ck of (messageKey, nextChainKey) \<Rightarrow>
     let st1 = rememberSkipped (st\<lparr>receivingChainKey := Some nextChainKey\<rparr>) pk (receivedCount st) messageKey
     in st1\<lparr>receivedCount := receivedCount st1 + 1\<rparr>)"

lemma rememberSkipped_fields [simp]:
  "rootKey (rememberSkipped st pk n k) = rootKey st"
  "sending (rememberSkipped st pk n k) = sending st"
  "receiving (rememberSkipped st pk n k) = receiving st"
  "sendingChainKey (rememberSkipped st pk n k) = sendingChainKey st"
  "receivingChainKey (rememberSkipped st pk n k) = receivingChainKey st"
  "sentCount (rememberSkipped st pk n k) = sentCount st"
  "receivedCount (rememberSkipped st pk n k) = receivedCount st"
  "previousSentCount (rememberSkipped st pk n k) = previousSentCount st"
  "rs_associatedData (rememberSkipped st pk n k) = rs_associatedData st"
  "retired (rememberSkipped st pk n k) = retired st"
  "skippedSequence (rememberSkipped st pk n k) = Suc (skippedSequence st)"
  by (simp_all add: rememberSkipped_def Let_def)

lemma skip_step_fields [simp]:
  "rootKey (skip_step N ck pk st) = rootKey st"
  "sending (skip_step N ck pk st) = sending st"
  "receiving (skip_step N ck pk st) = receiving st"
  "sendingChainKey (skip_step N ck pk st) = sendingChainKey st"
  "receivingChainKey (skip_step N ck pk st) = Some (snd (advanceChain N ck))"
  "sentCount (skip_step N ck pk st) = sentCount st"
  "receivedCount (skip_step N ck pk st) = Suc (receivedCount st)"
  "previousSentCount (skip_step N ck pk st) = previousSentCount st"
  "rs_associatedData (skip_step N ck pk st) = rs_associatedData st"
  "retired (skip_step N ck pk st) = retired st"
  by (simp_all add: skip_step_def Let_def split: prod.splits)

function skip_loop :: "noble \<Rightarrow> nat \<Rightarrow> ratchet_state \<Rightarrow> ratchet_state" where
  "skip_loop N until st = (if receivedCount st < until then
     (case (receivingChainKey st, receiving st) of
        (Some ck, Some pk) \<Rightarrow> skip_loop N until (skip_step N ck pk st)
      | _ \<Rightarrow> st) else st)"
  by pat_completeness auto
termination
  by (relation "measure (\<lambda>(N, until, st). until - receivedCount st)") auto

declare skip_loop.simps [simp del]

definition skipReceivingKeys :: "noble \<Rightarrow> ratchet_state \<Rightarrow> nat \<Rightarrow> unit result \<times> ratchet_state" where
  "skipReceivingKeys N st until =
     (if receivingChainKey st = None \<or> receiving st = None then (Inr (), st)
      else if until < receivedCount st then (Inr (), st)
      else if until - receivedCount st > MAX_SKIP_PER_CHAIN then (Inl SessionStateError, st)
      else (Inr (), skip_loop N until st))"

text \<open>
  The two key agreements of the step: the first, on the current key, before anything changes;
  the second on the pair drawn from \<open>f\<close>, after the old secret has been wiped.
\<close>

definition performDhRatchet ::
  "noble \<Rightarrow> fresh \<Rightarrow> ratchet_state \<Rightarrow> ratchet_header \<Rightarrow> unit result \<times> ratchet_state" where
  "performDhRatchet N f st h =
     (case dh N (secretKey (sending st)) (ratchetPublicKey h) of Inl e \<Rightarrow> (Inl e, st)
      | Inr receivingDh \<Rightarrow>
     (case skipReceivingKeys N st (previousChainLength h) of (Inl e, st1) \<Rightarrow> (Inl e, st1)
      | (Inr _, st1) \<Rightarrow>
       let st2 = st1\<lparr>previousSentCount := sentCount st1, sentCount := 0, receivedCount := 0,
                 receiving := Some (ratchetPublicKey h)\<rparr> in
       (case advanceRootChain N (rootKey st2) receivingDh of (root, chain) \<Rightarrow>
        let st3 = st2\<lparr>rootKey := root, receivingChainKey := Some chain\<rparr>;
            st4 = st3\<lparr>retired := skbuf (sending st3) # retired st3,
                      sending := generateDhKeyPair N f\<rparr> in
        (case dh N (secretKey (sending st4)) (ratchetPublicKey h) of Inl e \<Rightarrow> (Inl e, st4)
         | Inr sendingDh \<Rightarrow>
           (case advanceRootChain N (rootKey st4) sendingDh of (root, chain) \<Rightarrow>
             (Inr (), st4\<lparr>rootKey := root, sendingChainKey := Some chain\<rparr>))))))"

definition tryDecryptWithSkipped ::
  "noble \<Rightarrow> ratchet_state \<Rightarrow> ratchet_message \<Rightarrow> bytes option result \<times> ratchet_state" where
  "tryDecryptWithSkipped N st m =
     (let kid = skippedKeyId (ratchetPublicKey (rm_header m)) (messageNumber (rm_header m)) in
      case js_get (skipped st) kid of None \<Rightarrow> (Inr None, st)
      | Some entry \<Rightarrow>
        (case deriveMessageKeys N (sk_messageKey entry) of (key, nonce) \<Rightarrow>
         case rbind (aeadAssociatedData st (rm_header m)) (aeadDecrypt N key nonce (rm_ciphertext m)) of
           Inl e \<Rightarrow> (Inl e, st)
         | Inr plaintext \<Rightarrow> (Inr (Some plaintext), st\<lparr>skipped := js_delete kid (skipped st)\<rparr>)))"

text \<open>Step 3 of ratchetDecrypt: catch up, derive this message's key, commit on success.\<close>

definition decrypt_in_chain ::
  "noble \<Rightarrow> ratchet_state \<Rightarrow> ratchet_message \<Rightarrow> bytes result \<times> ratchet_state" where
  "decrypt_in_chain N st m =
     (case skipReceivingKeys N st (messageNumber (rm_header m)) of (Inl e, st1) \<Rightarrow> (Inl e, st1)
      | (Inr _, st1) \<Rightarrow>
     (case receivingChainKey st1 of None \<Rightarrow> (Inl SessionStateError, st1)
      | Some ck \<Rightarrow>
      if messageNumber (rm_header m) \<noteq> receivedCount st1 then (Inl SessionStateError, st1)
      else
       (case advanceChain N ck of (messageKey, nextChainKey) \<Rightarrow>
        case deriveMessageKeys N messageKey of (key, nonce) \<Rightarrow>
        case rbind (aeadAssociatedData st1 (rm_header m)) (aeadDecrypt N key nonce (rm_ciphertext m)) of
          Inl e \<Rightarrow> (Inl e, st1)
        | Inr plaintext \<Rightarrow>
          (Inr plaintext, st1\<lparr>receivingChainKey := Some nextChainKey, receivedCount := receivedCount st1 + 1\<rparr>))))"

definition is_new_ratchet_key :: "ratchet_state \<Rightarrow> ratchet_message \<Rightarrow> bool" where
  "is_new_ratchet_key st m = (case receiving st of None \<Rightarrow> True
     | Some pk \<Rightarrow> toHex pk \<noteq> toHex (ratchetPublicKey (rm_header m)))"

definition ratchetDecrypt ::
  "noble \<Rightarrow> fresh \<Rightarrow> ratchet_state \<Rightarrow> ratchet_message \<Rightarrow> bytes result \<times> ratchet_state" where
  "ratchetDecrypt N f st m =
     (if length (ratchetPublicKey (rm_header m)) \<noteq> 32 then (Inl MalformedInputError, st)
      else case tryDecryptWithSkipped N st m of
        (Inl e, st1) \<Rightarrow> (Inl e, st1)
      | (Inr (Some plaintext), st1) \<Rightarrow> (Inr plaintext, st1)
      | (Inr None, st1) \<Rightarrow>
        if is_new_ratchet_key st1 m then
          (case performDhRatchet N f st1 (rm_header m) of (Inl e, st2) \<Rightarrow> (Inl e, st2)
           | (Inr _, st2) \<Rightarrow> decrypt_in_chain N st2 m)
        else decrypt_in_chain N st1 m)"

definition destroyRatchet :: "ratchet_state \<Rightarrow> ratchet_state" where
  "destroyRatchet st = st\<lparr>rootKey := zeroed (rootKey st),
     sending := (sending st)\<lparr>secretKey := zeroed (secretKey (sending st))\<rparr>,
     sendingChainKey := map_option zeroed (sendingChainKey st),
     receivingChainKey := map_option zeroed (receivingChainKey st),
     skipped := [], retired := skbuf (sending st) # retired st\<rparr>"

section \<open>Skipped-key identifiers\<close>

lemma hex_digit_no_colon: "d < 16 \<Longrightarrow> hex_digit d \<noteq> CHR '':''"
  by (erule less_16_cases) (simp_all add: hex_digit_def)

lemma toHex_no_colon: "c \<in> set (toHex b) \<Longrightarrow> c \<noteq> CHR '':''"
proof (induction b)
  case (Cons x b)
  have "unat x div 16 < 16" using unat_byte_less[of x] by (simp add: div_less_iff_less_mult)
  then have "hex_digit (unat x div 16) \<noteq> CHR '':''" "hex_digit (unat x mod 16) \<noteq> CHR '':''"
    by (simp_all add: hex_digit_no_colon)
  with Cons show ?case by (auto simp: toHex_simps)
qed (simp add: toHex_simps)

lemma skippedKeyId_inj [simp]: "skippedKeyId pk n = skippedKeyId pk' n' \<longleftrightarrow> pk = pk' \<and> n = n'"
proof
  assume eq: "skippedKeyId pk n = skippedKeyId pk' n'"
  have split: "takeWhile (\<lambda>c. c \<noteq> CHR '':'') (skippedKeyId pk n) = toHex pk" for pk n
    using toHex_no_colon by (simp add: skippedKeyId_def takeWhile_append2)
  from eq split have "toHex pk = toHex pk'" by metis
  with eq show "pk = pk' \<and> n = n'" by (simp add: skippedKeyId_def)
qed simp

section \<open>The bounded cache of skipped keys\<close>

lemma oldest_fold:
  "case foldl oldest_step best m of
     None \<Rightarrow> best = None \<and> m = []
   | Some (s, i) \<Rightarrow> (best = Some (s, i) \<or> (\<exists>e. (i, e) \<in> set m \<and> sk_sequence e = s)) \<and>
       (\<forall>b. best = Some b \<longrightarrow> s \<le> fst b) \<and> (\<forall>(j, e) \<in> set m. s \<le> sk_sequence e)"
proof (induction m arbitrary: best)
  case Nil
  then show ?case by (cases best) auto
next
  case (Cons p m)
  obtain j e where p: "p = (j, e)" by (cases p)
  let ?b = "oldest_step best p"
  obtain s' i' where b: "?b = Some (s', i')"
    by (cases ?b) (auto simp: oldest_step_def p split: option.splits prod.splits if_splits)
  have b1: "best = Some (s', i') \<or> (i' = j \<and> s' = sk_sequence e)"
    using b by (cases best) (auto simp: oldest_step_def p split: if_splits)
  have b2: "s' \<le> sk_sequence e" "\<And>x. best = Some x \<Longrightarrow> s' \<le> fst x"
    using b by (cases best; auto simp: oldest_step_def p split: if_splits)+
  have step: "foldl oldest_step best (p # m) = foldl oldest_step (Some (s', i')) m"
    using b by simp
  obtain s i where r: "foldl oldest_step (Some (s', i')) m = Some (s, i)"
    using Cons.IH[of "Some (s', i')"] by (auto split: option.splits)
  with Cons.IH[of "Some (s', i')"]
  have ih: "(s, i) = (s', i') \<or> (\<exists>e. (i, e) \<in> set m \<and> sk_sequence e = s)"
    "s \<le> s'" "\<forall>(j, e) \<in> set m. s \<le> sk_sequence e" by auto
  have "best = Some (s, i) \<or> (\<exists>e. (i, e) \<in> set (p # m) \<and> sk_sequence e = s)"
    using ih(1) b1 p by auto
  moreover have "\<forall>x. best = Some x \<longrightarrow> s \<le> fst x" using ih(2) b2(2) le_trans by blast
  moreover have "\<forall>(j, e) \<in> set (p # m). s \<le> sk_sequence e" using ih(2,3) b2(1) p by auto
  ultimately show ?case using step r by simp
qed

text \<open>The scan finds an entry whose sequence number is minimal.\<close>

lemma oldest_None_iff: "oldest m = None \<longleftrightarrow> m = []"
  using oldest_fold[of None m] by (auto simp: oldest_def split: option.splits)

lemma oldest_Some:
  assumes "oldest m = Some (s, i)"
  shows "\<exists>e. (i, e) \<in> set m \<and> sk_sequence e = s" and "(j, e) \<in> set m \<Longrightarrow> s \<le> sk_sequence e"
  using oldest_fold[of None m] assms by (auto simp: oldest_def)

lemma evict_oldest_length:
  assumes "js_ok m" and "m \<noteq> []"
  shows "length (evict_oldest m) = length m - 1"
proof -
  obtain s i where o: "oldest m = Some (s, i)"
    using assms(2) oldest_None_iff[of m] by (cases "oldest m") auto
  then have "i \<in> set (js_keys m)" using oldest_Some(1)[OF o] by force
  then show ?thesis using o assms(1) by (simp add: evict_oldest_def js_size_delete)
qed

lemma evict_oldest_ok [simp]: "js_ok m \<Longrightarrow> js_ok (evict_oldest m)"
  by (auto simp: evict_oldest_def split: option.splits)

lemma evict_oldest_subset: "set (evict_oldest m) \<subseteq> set m"
  by (auto simp: evict_oldest_def AList.delete_eq split: option.splits)

text \<open>
  The invariant of a ratchet state: the cache is a map of at most MAX_SKIPPED_KEYS entries,
  each older than the next sequence number, and a receiving chain belongs to a known key.
\<close>

definition ratchet_ok :: "ratchet_state \<Rightarrow> bool" where
  "ratchet_ok st \<longleftrightarrow> js_ok (skipped st) \<and> length (skipped st) \<le> MAX_SKIPPED_KEYS \<and>
     (\<forall>(i, e) \<in> set (skipped st). sk_sequence e < skippedSequence st) \<and>
     (receivingChainKey st \<noteq> None \<longrightarrow> receiving st \<noteq> None)"

lemma set_js_set: "set (js_set k v m) \<subseteq> insert (k, v) (set m)"
  by (induction m) auto

lemma rememberSkipped_ok:
  assumes "ratchet_ok st"
  shows "ratchet_ok (rememberSkipped st pk n k)"
proof -
  let ?m = "if length (skipped st) \<ge> MAX_SKIPPED_KEYS then evict_oldest (skipped st) else skipped st"
  let ?e = "\<lparr>sk_sequence = skippedSequence st, sk_messageKey = k\<rparr>"
  have ok: "js_ok (skipped st)" "length (skipped st) \<le> MAX_SKIPPED_KEYS"
    "\<forall>(i, e) \<in> set (skipped st). sk_sequence e < skippedSequence st"
    using assms by (auto simp: ratchet_ok_def)
  have m: "js_ok ?m" "length ?m < MAX_SKIPPED_KEYS" "set ?m \<subseteq> set (skipped st)"
    using ok evict_oldest_length[of "skipped st"] evict_oldest_subset[of "skipped st"]
    by (cases "skipped st = []"; auto simp: MAX_SKIPPED_KEYS_def)+
  have "length (js_set (skippedKeyId pk n) ?e ?m) \<le> MAX_SKIPPED_KEYS"
    using m(2) js_size_set_le[of "skippedKeyId pk n" ?e ?m] by linarith
  moreover have "\<forall>(i, e) \<in> set (js_set (skippedKeyId pk n) ?e ?m). sk_sequence e < Suc (skippedSequence st)"
    using set_js_set[of "skippedKeyId pk n" ?e ?m] m(3) ok(3) by fastforce
  ultimately show ?thesis
    using assms m(1) by (simp add: ratchet_ok_def rememberSkipped_def Let_def)
qed

lemma ratchet_ok_cong:
  "skipped st' = skipped st \<Longrightarrow> skippedSequence st' = skippedSequence st \<Longrightarrow> receiving st' \<noteq> None \<Longrightarrow>
   ratchet_ok st \<Longrightarrow> ratchet_ok st'"
  by (simp add: ratchet_ok_def)

lemma skip_step_ok:
  assumes "ratchet_ok st" and "receiving st \<noteq> None"
  shows "ratchet_ok (skip_step N ck pk st)"
proof -
  let ?st = "rememberSkipped (st\<lparr>receivingChainKey := Some (snd (advanceChain N ck))\<rparr>) pk (receivedCount st)
      (fst (advanceChain N ck))"
  have "ratchet_ok ?st"
    by (rule rememberSkipped_ok, rule ratchet_ok_cong[OF _ _ _ assms(1)]) (simp_all add: assms(2))
  then show ?thesis
    by (auto simp: skip_step_def Let_def ratchet_ok_def split: prod.splits)
qed

text \<open>What every turn of the loop keeps, the loop keeps.\<close>

lemma skip_loop_invariant:
  assumes "P st"
    and "\<And>st ck pk. P st \<Longrightarrow> receivingChainKey st = Some ck \<Longrightarrow> receiving st = Some pk \<Longrightarrow>
      receivedCount st < until \<Longrightarrow> P (skip_step N ck pk st)"
  shows "P (skip_loop N until st)"
  using assms
proof (induction N until st rule: skip_loop.induct)
  case (1 N until st)
  show ?case
    by (subst skip_loop.simps) (auto intro!: 1 split: option.splits)
qed

lemma skip_loop_ok: "ratchet_ok st \<Longrightarrow> ratchet_ok (skip_loop N until st)"
  by (rule skip_loop_invariant) (auto intro: skip_step_ok)

lemma skip_loop_frame:
  "rootKey (skip_loop N until st) = rootKey st \<and> sending (skip_loop N until st) = sending st \<and>
   receiving (skip_loop N until st) = receiving st \<and>
   sendingChainKey (skip_loop N until st) = sendingChainKey st \<and>
   sentCount (skip_loop N until st) = sentCount st \<and>
   previousSentCount (skip_loop N until st) = previousSentCount st \<and>
   rs_associatedData (skip_loop N until st) = rs_associatedData st \<and>
   retired (skip_loop N until st) = retired st \<and>
   (receivingChainKey st \<noteq> None \<longrightarrow> receivingChainKey (skip_loop N until st) \<noteq> None)"
  by (rule skip_loop_invariant) auto

lemma skip_loop_count:
  "receivingChainKey st \<noteq> None \<Longrightarrow> receiving st \<noteq> None \<Longrightarrow> receivedCount st \<le> until \<Longrightarrow>
   receivedCount (skip_loop N until st) = until"
proof (induction N until st rule: skip_loop.induct)
  case (1 N until st)
  then obtain ck pk where k: "receivingChainKey st = Some ck" "receiving st = Some pk" by auto
  with 1 show ?case
    by (subst skip_loop.simps) auto
qed

lemma skipReceivingKeys_ok:
  "ratchet_ok st \<Longrightarrow> ratchet_ok (snd (skipReceivingKeys N st until))"
  by (simp add: skipReceivingKeys_def skip_loop_ok)

lemma skipReceivingKeys_error:
  "skipReceivingKeys N st until = (Inl e, st') \<Longrightarrow> st' = st \<and> e = SessionStateError"
  by (auto simp: skipReceivingKeys_def split: if_splits)

lemma skipReceivingKeys_frame:
  assumes "skipReceivingKeys N st until = (r, st')"
  shows "rootKey st' = rootKey st" "sending st' = sending st" "receiving st' = receiving st"
    "sendingChainKey st' = sendingChainKey st" "sentCount st' = sentCount st"
    "previousSentCount st' = previousSentCount st" "rs_associatedData st' = rs_associatedData st"
    "retired st' = retired st"
  using assms skip_loop_frame[of N until st] by (auto simp: skipReceivingKeys_def split: if_splits)

lemma performDhRatchet_ok:
  assumes "ratchet_ok st"
  shows "ratchet_ok (snd (performDhRatchet N f st h))"
proof (cases "skipReceivingKeys N st (previousChainLength h)")
  case (Pair r st1)
  then have ok: "ratchet_ok st1"
    using skipReceivingKeys_ok[OF assms, of N "previousChainLength h"] by simp
  have "ratchet_ok st'" if "skipped st' = skipped st1" "skippedSequence st' = skippedSequence st1"
    "receiving st' \<noteq> None" for st'
    using ratchet_ok_cong[OF that ok] .
  then show ?thesis using assms ok Pair
    by (auto simp: performDhRatchet_def Let_def split: sum.splits prod.splits)
qed

lemma decrypt_in_chain_ok:
  assumes "ratchet_ok st"
  shows "ratchet_ok (snd (decrypt_in_chain N st m))"
proof (cases "skipReceivingKeys N st (messageNumber (rm_header m))")
  case (Pair r st1)
  then have "ratchet_ok st1"
    using skipReceivingKeys_ok[OF assms, of N "messageNumber (rm_header m)"] by simp
  then show ?thesis using Pair
    by (auto simp: decrypt_in_chain_def ratchet_ok_def split: sum.splits prod.splits option.splits)
qed

lemma tryDecryptWithSkipped_ok:
  assumes "ratchet_ok st"
  shows "ratchet_ok (snd (tryDecryptWithSkipped N st m))"
proof -
  have "ratchet_ok (st\<lparr>skipped := js_delete i (skipped st)\<rparr>)" for i
    using assms js_size_delete_le[of i "skipped st"]
    by (auto simp: ratchet_ok_def AList.delete_eq intro: le_trans[OF length_filter_le])
  with assms show ?thesis
    by (simp add: tryDecryptWithSkipped_def Let_def split: option.split prod.split sum.split)
qed

lemma ratchetDecrypt_ok:
  assumes "ratchet_ok st"
  shows "ratchet_ok (snd (ratchetDecrypt N f st m))"
proof -
  obtain r st1 where t: "tryDecryptWithSkipped N st m = (r, st1)" by (cases "tryDecryptWithSkipped N st m")
  then have ok1: "ratchet_ok st1" using tryDecryptWithSkipped_ok[OF assms, of N m] by simp
  obtain r2 st2 where p: "performDhRatchet N f st1 (rm_header m) = (r2, st2)"
    by (cases "performDhRatchet N f st1 (rm_header m)")
  then have ok2: "ratchet_ok st2" using performDhRatchet_ok[OF ok1, of N f "rm_header m"] by simp
  show ?thesis
    using assms ok1 ok2 decrypt_in_chain_ok
    by (auto simp: ratchetDecrypt_def t p split: sum.splits option.splits)
qed

lemma ratchetEncrypt_ok: "ratchet_ok st \<Longrightarrow> ratchet_ok (snd (ratchetEncrypt N st p))"
  by (auto simp: ratchetEncrypt_def ratchet_ok_def Let_def split: option.splits prod.splits)

section \<open>Chains of keys\<close>

text \<open>The abstract chain: the \<open>n\<close>-th chain key from a start, and the message key it gives.\<close>

definition chain_key :: "noble \<Rightarrow> bytes \<Rightarrow> nat \<Rightarrow> bytes" where
  "chain_key N ck n = ((\<lambda>k. snd (advanceChain N k)) ^^ n) ck"

definition message_key :: "noble \<Rightarrow> bytes \<Rightarrow> nat \<Rightarrow> bytes" where
  "message_key N ck n = fst (advanceChain N (chain_key N ck n))"

lemma chain_key_0 [simp]: "chain_key N ck 0 = ck"
  by (simp add: chain_key_def)

lemma chain_key_Suc: "chain_key N ck (Suc n) = snd (advanceChain N (chain_key N ck n))"
  by (simp add: chain_key_def)

lemma advanceChain_chain_key:
  "advanceChain N (chain_key N ck n) = (message_key N ck n, chain_key N ck (Suc n))"
  by (simp add: message_key_def chain_key_Suc)

text \<open>The message number \<open>n\<close> of the chain \<open>ck\<close> under the key \<open>pk\<close>, with associated data \<open>ad\<close>.\<close>

definition chain_message ::
  "noble \<Rightarrow> bytes \<Rightarrow> bytes \<Rightarrow> bytes \<Rightarrow> nat \<Rightarrow> nat \<Rightarrow> bytes \<Rightarrow> ratchet_message result" where
  "chain_message N ad pk ck prev n plaintext =
     (let h = \<lparr>ratchetPublicKey = pk, previousChainLength = prev, messageNumber = n\<rparr> in
      case deriveMessageKeys N (message_key N ck n) of (key, nonce) \<Rightarrow>
      rbind (encodeHeader h) (\<lambda>e.
      rbind (aeadEncrypt N key nonce plaintext (ad @ e)) (\<lambda>c.
      Inr \<lparr>rm_header = h, rm_ciphertext = c\<rparr>)))"

text \<open>A sender on the chain: its next message is the one of its count.\<close>

definition on_chain :: "noble \<Rightarrow> bytes \<Rightarrow> ratchet_state \<Rightarrow> bool" where
  "on_chain N ck st \<longleftrightarrow> sendingChainKey st = Some (chain_key N ck (sentCount st))"

lemma ratchetEncrypt_on_chain:
  assumes "on_chain N ck st"
  shows "ratchetEncrypt N st p =
    (chain_message N (rs_associatedData st) (publicKey (sending st)) ck (previousSentCount st) (sentCount st) p,
     st\<lparr>sendingChainKey := Some (chain_key N ck (Suc (sentCount st))), sentCount := Suc (sentCount st)\<rparr>)"
  using assms
  by (simp add: ratchetEncrypt_def on_chain_def advanceChain_chain_key chain_message_def
      aeadAssociatedData_def rbind_assoc Let_def split: prod.split)

text \<open>A receiver on the chain: it holds the key of its count, and the skipped keys of the chain.\<close>

definition in_chain :: "noble \<Rightarrow> bytes \<Rightarrow> bytes \<Rightarrow> ratchet_state \<Rightarrow> bool" where
  "in_chain N pk ck st \<longleftrightarrow> receiving st = Some pk \<and>
     receivingChainKey st = Some (chain_key N ck (receivedCount st)) \<and>
     (\<forall>n e. js_get (skipped st) (skippedKeyId pk n) = Some e \<longrightarrow>
        n < receivedCount st \<and> sk_messageKey e = message_key N ck n)"

definition holds_key :: "bytes \<Rightarrow> nat \<Rightarrow> ratchet_state \<Rightarrow> bool" where
  "holds_key pk n st \<longleftrightarrow> js_get (skipped st) (skippedKeyId pk n) \<noteq> None"

lemma evict_oldest_get:
  "js_get (evict_oldest m) k = Some e \<Longrightarrow> js_get m k = Some e"
  by (auto simp: evict_oldest_def split: option.splits if_splits)

lemma skip_step_in_chain:
  assumes "in_chain N pk ck st" and "receivingChainKey st = Some k" and "receiving st = Some q"
  shows "in_chain N pk ck (skip_step N k q st)"
proof -
  have k: "k = chain_key N ck (receivedCount st)" "q = pk" using assms by (auto simp: in_chain_def)
  have "n < Suc (receivedCount st) \<and> sk_messageKey e = message_key N ck n"
    if "js_get (skipped (skip_step N k q st)) (skippedKeyId pk n) = Some e" for n e
  proof (cases "n = receivedCount st")
    case True
    with that show ?thesis
      by (auto simp: skip_step_def rememberSkipped_def Let_def k advanceChain_chain_key)
  next
    case False
    with that have "js_get (skipped st) (skippedKeyId pk n) = Some e"
      by (auto simp: skip_step_def rememberSkipped_def Let_def k advanceChain_chain_key
          split: if_splits dest: evict_oldest_get)
    with assms(1) show ?thesis by (auto simp: in_chain_def less_Suc_eq)
  qed
  then show ?thesis using assms(1) k
    by (auto simp: in_chain_def advanceChain_chain_key)
qed

lemma skip_loop_in_chain: "in_chain N pk ck st \<Longrightarrow> in_chain N pk ck (skip_loop N until st)"
  by (rule skip_loop_invariant) (auto intro: skip_step_in_chain)

text \<open>
  With room in the cache, catching up to \<open>n\<close> keeps every key held before, adds the keys of the
  numbers passed over, and nothing else.
\<close>

definition cache_room :: "nat \<Rightarrow> ratchet_state \<Rightarrow> bool" where
  "cache_room b st \<longleftrightarrow> length (skipped st) \<le> b + receivedCount st"

lemma skip_step_room:
  assumes "cache_room b st" and "b + receivedCount st < MAX_SKIPPED_KEYS"
  shows "cache_room b (skip_step N k q st)"
    and "holds_key pk n (skip_step N k q st) \<longleftrightarrow>
      holds_key pk n st \<or> (pk = q \<and> n = receivedCount st)"
  using assms js_size_set_le[of "skippedKeyId q (receivedCount st)"
    "\<lparr>sk_sequence = skippedSequence st, sk_messageKey = fst (advanceChain N k)\<rparr>" "skipped st"]
  by (auto simp: cache_room_def holds_key_def skip_step_def rememberSkipped_def Let_def split: prod.split)

lemma skip_loop_room:
  assumes "cache_room b st" and "b + until \<le> MAX_SKIPPED_KEYS"
    and "receiving st = Some q" and "receivingChainKey st \<noteq> None"
  shows "cache_room b (skip_loop N until st) \<and> (holds_key pk n (skip_loop N until st) \<longleftrightarrow>
    holds_key pk n st \<or> (pk = q \<and> receivedCount st \<le> n \<and> n < until))"
  using assms
proof (induction N until st rule: skip_loop.induct)
  case (1 N until st)
  show ?case
  proof (cases "receivedCount st < until")
    case True
    obtain k where k: "receivingChainKey st = Some k" using 1 by auto
    let ?st = "skip_step N k q st"
    have room: "b + receivedCount st < MAX_SKIPPED_KEYS" using True 1(3) by linarith
    have "cache_room b (skip_loop N until ?st) \<and> (holds_key pk n (skip_loop N until ?st) \<longleftrightarrow>
        holds_key pk n ?st \<or> (pk = q \<and> receivedCount ?st \<le> n \<and> n < until))"
      using 1(1)[OF True refl k 1(4)] skip_step_room(1)[OF 1(2) room] 1(3,4) by simp
    moreover have "skip_loop N until st = skip_loop N until ?st"
      using True k 1(4) by (subst skip_loop.simps) simp
    ultimately show ?thesis
      using skip_step_room(2)[OF 1(2) room, of pk n N k q] True by (auto simp: less_eq_Suc_le)
  next
    case False
    then show ?thesis using 1(2) by (subst (1 2) skip_loop.simps) auto
  qed
qed

section \<open>Delivery within a chain\<close>

text \<open>The numbers of the chain the receiver can still decrypt.\<close>

definition deliverable :: "bytes \<Rightarrow> ratchet_state \<Rightarrow> nat set" where
  "deliverable pk st = {k. holds_key pk k st \<or> receivedCount st \<le> k}"

lemma chain_message_fields:
  assumes "chain_message N ad pk ck prev n p = Inr m"
  shows "rm_header m = \<lparr>ratchetPublicKey = pk, previousChainLength = prev, messageNumber = n\<rparr>"
  using assms by (auto simp: chain_message_def Let_def rbind_eq_Inr split: prod.splits)

lemma chain_message_decrypt:
  assumes "aead_correct N" and "chain_message N ad pk ck prev n p = Inr m"
    and "deriveMessageKeys N (message_key N ck n) = (key, nonce)" and "rs_associatedData st = ad"
  shows "rbind (aeadAssociatedData st (rm_header m)) (aeadDecrypt N key nonce (rm_ciphertext m)) = Inr p"
proof -
  from assms(2,3) obtain e c where
    "encodeHeader \<lparr>ratchetPublicKey = pk, previousChainLength = prev, messageNumber = n\<rparr> = Inr e"
    "aeadEncrypt N key nonce p (ad @ e) = Inr c" "rm_ciphertext m = c"
    by (auto simp: chain_message_def Let_def rbind_eq_Inr)
  with chain_message_fields[OF assms(2)] assms(4) aead_roundtrip[OF assms(1)] show ?thesis
    by (simp add: aeadAssociatedData_def)
qed

lemma decrypt_in_chain_delivers:
  assumes lib: "aead_correct N" and c: "in_chain N pk ck st" and ad: "rs_associatedData st = ad"
    and m: "chain_message N ad pk ck prev n p = Inr m"
    and n: "receivedCount st \<le> n" "n - receivedCount st \<le> MAX_SKIP_PER_CHAIN"
  shows "decrypt_in_chain N st m = (Inr p, (skip_loop N n st)
    \<lparr>receivingChainKey := Some (chain_key N ck (Suc n)), receivedCount := Suc n\<rparr>)"
proof -
  let ?st = "skip_loop N n st"
  have cn: "receivingChainKey st = Some (chain_key N ck (receivedCount st))" "receiving st = Some pk"
    using c by (auto simp: in_chain_def)
  have count: "receivedCount ?st = n" using skip_loop_count[of st n N] cn n(1) by simp
  have c': "in_chain N pk ck ?st" using c by (rule skip_loop_in_chain)
  then have k: "receivingChainKey ?st = Some (chain_key N ck n)" using count by (simp add: in_chain_def)
  have ad': "rs_associatedData ?st = ad" using skip_loop_frame[of N n st] ad by simp
  obtain key nonce where kn: "deriveMessageKeys N (message_key N ck n) = (key, nonce)"
    by (cases "deriveMessageKeys N (message_key N ck n)")
  have "skipReceivingKeys N st n = (Inr (), ?st)"
    using cn n by (simp add: skipReceivingKeys_def)
  then show ?thesis
    using chain_message_fields[OF m] chain_message_decrypt[OF lib m kn ad'] k count kn
    by (simp add: decrypt_in_chain_def advanceChain_chain_key)
qed

lemma tryDecryptWithSkipped_delivers:
  assumes lib: "aead_correct N" and c: "in_chain N pk ck st" and ad: "rs_associatedData st = ad"
    and m: "chain_message N ad pk ck prev n p = Inr m" and h: "holds_key pk n st"
  shows "tryDecryptWithSkipped N st m =
    (Inr (Some p), st\<lparr>skipped := js_delete (skippedKeyId pk n) (skipped st)\<rparr>)"
proof -
  obtain e where e: "js_get (skipped st) (skippedKeyId pk n) = Some e"
    using h by (auto simp: holds_key_def)
  then have k: "sk_messageKey e = message_key N ck n" using c by (auto simp: in_chain_def)
  obtain key nonce where kn: "deriveMessageKeys N (message_key N ck n) = (key, nonce)"
    by (cases "deriveMessageKeys N (message_key N ck n)")
  show ?thesis
    using chain_message_fields[OF m] chain_message_decrypt[OF lib m kn ad] k e kn
    by (simp add: tryDecryptWithSkipped_def)
qed

lemma tryDecryptWithSkipped_absent:
  "\<not> holds_key (ratchetPublicKey (rm_header m)) (messageNumber (rm_header m)) st \<Longrightarrow>
   tryDecryptWithSkipped N st m = (Inr None, st)"
  by (simp add: tryDecryptWithSkipped_def holds_key_def)

text \<open>What receiving within a chain leaves alone: the sending side and the root key.\<close>

definition sending_side :: "ratchet_state \<Rightarrow> bytes \<times> keypair \<times> bytes option \<times> nat \<times> nat \<times> bytes" where
  "sending_side st = (rootKey st, sending st, sendingChainKey st, sentCount st, previousSentCount st,
     rs_associatedData st)"

lemma sending_side_AD: "sending_side st' = sending_side st \<Longrightarrow> rs_associatedData st' = rs_associatedData st"
  by (simp add: sending_side_def)

text \<open>
  One delivery: a message of the chain that is still deliverable, at most MAX_SKIP_PER_CHAIN
  ahead and within the cache, decrypts to its plaintext, and exactly its number leaves the
  deliverable ones.
\<close>

lemma deliver_one:
  assumes lib: "aead_correct N" and c: "in_chain N pk ck st"
    and m: "chain_message N (rs_associatedData st) pk ck prev n p = Inr m" and pk: "length pk = 32"
    and n: "n \<in> deliverable pk st" "n \<le> receivedCount st + MAX_SKIP_PER_CHAIN"
    and room: "cache_room b st" "b + n \<le> MAX_SKIPPED_KEYS"
  shows "\<exists>st'. ratchetDecrypt N f st m = (Inr p, st') \<and> in_chain N pk ck st' \<and> cache_room b st' \<and>
    sending_side st' = sending_side st \<and> receivedCount st \<le> receivedCount st' \<and>
    deliverable pk st' = deliverable pk st - {n}"
proof (cases "holds_key pk n st")
  case True
  let ?st = "st\<lparr>skipped := js_delete (skippedKeyId pk n) (skipped st)\<rparr>"
  have "ratchetDecrypt N f st m = (Inr p, ?st)"
    using tryDecryptWithSkipped_delivers[OF lib c refl m True] chain_message_fields[OF m] pk
    by (simp add: ratchetDecrypt_def)
  moreover have "in_chain N pk ck ?st" using c by (auto simp: in_chain_def split: if_splits)
  moreover have "cache_room b ?st"
    using room(1) js_size_delete_le[of "skippedKeyId pk n" "skipped st"]
    unfolding cache_room_def by simp
  moreover have "n < receivedCount st" using True c by (auto simp: in_chain_def holds_key_def)
  then have "deliverable pk ?st = deliverable pk st - {n}"
    by (auto simp: deliverable_def holds_key_def)
  ultimately show ?thesis by (intro exI[of _ ?st]) (simp add: sending_side_def)
next
  case False
  then have le: "receivedCount st \<le> n" using n(1) by (simp add: deliverable_def)
  let ?sl = "skip_loop N n st"
  let ?st = "?sl\<lparr>receivingChainKey := Some (chain_key N ck (Suc n)), receivedCount := Suc n\<rparr>"
  have cn: "receivingChainKey st \<noteq> None" "receiving st = Some pk" using c by (auto simp: in_chain_def)
  have "\<not> is_new_ratchet_key st m" using cn(2) chain_message_fields[OF m]
    by (simp add: is_new_ratchet_key_def)
  then have "ratchetDecrypt N f st m = (Inr p, ?st)"
    using tryDecryptWithSkipped_absent[of m st N] False chain_message_fields[OF m] pk
      decrypt_in_chain_delivers[OF lib c refl m le] n(2)
    by (simp add: ratchetDecrypt_def)
  moreover have "in_chain N pk ck ?st"
    using skip_loop_in_chain[OF c, of n] skip_loop_count[of st n N] cn le
    by (auto simp: in_chain_def less_Suc_eq)
  moreover have held: "cache_room b ?sl \<and> (holds_key pk k ?sl \<longleftrightarrow>
      holds_key pk k st \<or> (receivedCount st \<le> k \<and> k < n))" for k
    using skip_loop_room[OF room(1,2) cn(2,1), of N pk k] by simp
  then have "cache_room b ?sl" by blast
  then have "cache_room b ?st"
    using skip_loop_count[of st n N] cn le by (simp add: cache_room_def)
  moreover have "deliverable pk ?st = deliverable pk st - {n}"
    using held False le by (auto simp: deliverable_def holds_key_def)
  moreover have "sending_side ?st = sending_side st"
    using skip_loop_frame[of N n st] by (simp add: sending_side_def)
  ultimately show ?thesis using le by (intro exI[of _ ?st]) simp
qed

text \<open>A number no longer deliverable is refused, whatever the ciphertext, and nothing changes.\<close>

lemma replay_refused_lemma:
  assumes c: "in_chain N pk ck st" and pk: "length pk = 32"
    and h: "ratchetPublicKey (rm_header m) = pk" "messageNumber (rm_header m) \<notin> deliverable pk st"
  shows "ratchetDecrypt N f st m = (Inl SessionStateError, st)"
proof -
  have cn: "receivingChainKey st \<noteq> None" "receiving st = Some pk" using c by (auto simp: in_chain_def)
  have n: "messageNumber (rm_header m) < receivedCount st"
    "\<not> holds_key (ratchetPublicKey (rm_header m)) (messageNumber (rm_header m)) st"
    using h by (auto simp: deliverable_def)
  have "\<not> is_new_ratchet_key st m" using cn(2) h(1) by (simp add: is_new_ratchet_key_def)
  moreover have "skipReceivingKeys N st (messageNumber (rm_header m)) = (Inr (), st)"
    using n(1) by (auto simp: skipReceivingKeys_def)
  ultimately show ?thesis
    using tryDecryptWithSkipped_absent[OF n(2), of N] n(1) h(1) pk cn(1)
    by (auto simp: ratchetDecrypt_def decrypt_in_chain_def)
qed

section \<open>Runs\<close>

text \<open>A sender encrypts a list of plaintexts; a receiver decrypts messages, drawing \<open>fs i\<close>.\<close>

fun send_all ::
  "noble \<Rightarrow> ratchet_state \<Rightarrow> bytes list \<Rightarrow> ratchet_message result list \<times> ratchet_state" where
  "send_all N st [] = ([], st)"
| "send_all N st (p # ps) = (case ratchetEncrypt N st p of (m, st') \<Rightarrow>
     case send_all N st' ps of (ms, st'') \<Rightarrow> (m # ms, st''))"

fun receive_all ::
  "noble \<Rightarrow> fresh \<Rightarrow> ratchet_state \<Rightarrow> ratchet_message list \<Rightarrow> bytes result list \<times> ratchet_state" where
  "receive_all N f st [] = ([], st)"
| "receive_all N f st (m # ms) = (case ratchetDecrypt N f st m of (p, st') \<Rightarrow>
     case receive_all N f st' ms of (ps, st'') \<Rightarrow> (p # ps, st''))"

lemma send_all_chain:
  assumes "on_chain N ck st"
  shows "length (fst (send_all N st ps)) = length ps \<and> (\<forall>i < length ps. fst (send_all N st ps) ! i =
      chain_message N (rs_associatedData st) (publicKey (sending st)) ck (previousSentCount st)
        (sentCount st + i) (ps ! i)) \<and>
    snd (send_all N st ps) = st\<lparr>sendingChainKey := Some (chain_key N ck (sentCount st + length ps)),
      sentCount := sentCount st + length ps\<rparr>"
  using assms
proof (induction ps arbitrary: st)
  case (Cons p ps)
  let ?st = "st\<lparr>sendingChainKey := Some (chain_key N ck (Suc (sentCount st))), sentCount := Suc (sentCount st)\<rparr>"
  have "on_chain N ck ?st" by (simp add: on_chain_def)
  from Cons.IH[OF this] show ?case
    using ratchetEncrypt_on_chain[OF Cons.prems, of p]
    by (auto simp: nth_Cons' split: prod.splits)
next
  case Nil
  then have "st = st\<lparr>sendingChainKey := Some (chain_key N ck (sentCount st)), sentCount := sentCount st\<rparr>"
    by (simp add: on_chain_def)
  then show ?case by simp
qed

lemma receive_all_chain:
  assumes "aead_correct N" and "in_chain N pk ck st" and "length pk = 32" and "rs_associatedData st = ad"
    and "list_all2 (\<lambda>m (n, p). chain_message N ad pk ck prev n p = Inr m) ms nps"
    and "distinct (map fst nps)" and "set (map fst nps) \<subseteq> deliverable pk st"
    and "\<forall>n \<in> set (map fst nps). n \<le> MAX_SKIP_PER_CHAIN"
    and "cache_room b st" and "b \<le> MAX_SKIP_PER_CHAIN"
  shows "\<exists>st'. receive_all N f st ms = (map (\<lambda>(n, p). Inr p) nps, st') \<and> in_chain N pk ck st' \<and>
    sending_side st' = sending_side st"
  using assms
proof (induction ms arbitrary: st nps)
  case (Cons m ms)
  then obtain n p nps' where nps: "nps = (n, p) # nps'"
    and m: "chain_message N (rs_associatedData st) pk ck prev n p = Inr m"
    and ms: "list_all2 (\<lambda>m (n, p). chain_message N ad pk ck prev n p = Inr m) ms nps'"
    by (cases nps) auto
  have "b + n \<le> MAX_SKIPPED_KEYS" "n \<le> receivedCount st + MAX_SKIP_PER_CHAIN" "n \<in> deliverable pk st"
    using Cons.prems nps by (auto simp: MAX_SKIPPED_KEYS_def MAX_SKIP_PER_CHAIN_def)
  from deliver_one[OF Cons.prems(1,2) m Cons.prems(3) this(3,2) Cons.prems(9) this(1), of f]
  obtain st' where st': "ratchetDecrypt N f st m = (Inr p, st')" "in_chain N pk ck st'" "cache_room b st'"
      "sending_side st' = sending_side st" "deliverable pk st' = deliverable pk st - {n}"
    by auto
  have "\<exists>st''. receive_all N f st' ms = (map (\<lambda>(n, p). Inr p) nps', st'') \<and> in_chain N pk ck st'' \<and>
    sending_side st'' = sending_side st'"
    using Cons.prems nps st' sending_side_AD[OF st'(4)] by (intro Cons.IH[OF _ _ _ _ ms]) auto
  with st'(1,4) nps show ?case by auto
qed auto

section \<open>The DH step\<close>

lemma holds_key_skip_loop:
  assumes "receiving st \<noteq> Some pk" and "\<not> holds_key pk n st"
  shows "\<not> holds_key pk n (skip_loop N until st)"
proof -
  have "receiving (skip_loop N until st) \<noteq> Some pk \<and> \<not> holds_key pk n (skip_loop N until st)"
  proof (rule skip_loop_invariant)
    fix st ck q
    assume a: "receiving st \<noteq> Some pk \<and> \<not> holds_key pk n st" "receiving st = Some q"
    then have "q \<noteq> pk" by auto
    moreover have "js_get (evict_oldest (skipped st)) (skippedKeyId pk n) = None"
      using a(1) evict_oldest_get[of "skipped st" "skippedKeyId pk n"]
      by (cases "js_get (evict_oldest (skipped st)) (skippedKeyId pk n)") (auto simp: holds_key_def)
    ultimately show "receiving (skip_step N ck q st) \<noteq> Some pk \<and> \<not> holds_key pk n (skip_step N ck q st)"
      using a by (auto simp: holds_key_def skip_step_def rememberSkipped_def Let_def split: prod.splits)
  qed (use assms in auto)
  then show ?thesis ..
qed

text \<open>
  The step is atomic: if it throws, nothing has changed. The second key agreement cannot fail,
  because the library rejects a public key for every secret or for none.
\<close>

lemma performDhRatchet_atomic_lemma:
  assumes u: "x25519_uniform N" and f: "length (fst f) = 32"
    and e: "performDhRatchet N f st h = (Inl e, st')"
  shows "st' = st"
proof (cases "dh N (secretKey (sending st)) (ratchetPublicKey h)")
  case (Inl e')
  with e show ?thesis by (simp add: performDhRatchet_def)
next
  case (Inr d)
  then have s: "length (secretKey (sending st)) = 32" "length (ratchetPublicKey h) = 32"
    "x25519_shared N (secretKey (sending st)) (ratchetPublicKey h) \<noteq> None" by (auto simp: dh_eq_Inr)
  then have "x25519_shared N (fst f) (ratchetPublicKey h) \<noteq> None"
    using x25519_uniformD[OF u s(1) f] by simp
  with s(2) f obtain d2 where d2: "dh N (secretKey (generateDhKeyPair N f)) (ratchetPublicKey h) = Inr d2"
    by (auto simp: dh_eq_Inr generateDhKeyPair_def)
  obtain r st1 where sk: "skipReceivingKeys N st (previousChainLength h) = (r, st1)"
    by (cases "skipReceivingKeys N st (previousChainLength h)")
  show ?thesis
  proof (cases r)
    case (Inl e')
    with e Inr sk skipReceivingKeys_error show ?thesis by (auto simp: performDhRatchet_def)
  next
    case (Inr u')
    with e \<open>dh N _ _ = Inr d\<close> sk d2 show ?thesis
      by (simp add: performDhRatchet_def Let_def split: prod.splits)
  qed
qed

text \<open>A receiver that will derive the chain \<open>ck\<close> and the root \<open>root\<close> on seeing the key \<open>pk\<close>.\<close>

definition expects :: "noble \<Rightarrow> bytes \<Rightarrow> bytes \<Rightarrow> bytes \<Rightarrow> ratchet_state \<Rightarrow> bool" where
  "expects N pk ck root st \<longleftrightarrow>
     (\<exists>d. dh N (secretKey (sending st)) pk = Inr d \<and> advanceRootChain N (rootKey st) d = (root, ck)) \<and>
     receiving st \<noteq> Some pk \<and> (\<forall>n. \<not> holds_key pk n st)"

text \<open>
  Accepting a new ratchet key: the receiver is on the expected chain and has drawn a pair of its
  own, whose chain the sender will in turn expect.
\<close>

lemma performDhRatchet_accepts:
  assumes x: "expects N pk ck root r"
    and h: "ratchetPublicKey h = pk" "skipReceivingKeys N r (previousChainLength h) = (Inr (), r1)"
    and d2: "dh N (fst f) pk = Inr d2" "advanceRootChain N root d2 = (root2, ck2)"
  shows "\<exists>r'. performDhRatchet N f r h = (Inr (), r') \<and> in_chain N pk ck r' \<and> receivedCount r' = 0 \<and>
    skipped r' = skipped r1 \<and> on_chain N ck2 r' \<and>
    sending_side r' = (root2, generateDhKeyPair N f, Some ck2, 0, sentCount r, rs_associatedData r) \<and>
    deliverable pk r' = UNIV"
proof -
  from x obtain d where d: "dh N (secretKey (sending r)) pk = Inr d"
    "advanceRootChain N (rootKey r) d = (root, ck)" by (auto simp: expects_def)
  note fr = skipReceivingKeys_frame[OF h(2)]
  have absent: "\<not> holds_key pk n r1" for n
    using x h(2) holds_key_skip_loop[of r pk n N "previousChainLength h"]
    by (auto simp: expects_def skipReceivingKeys_def split: if_splits)
  then have none: "js_get (skipped r1) (skippedKeyId pk n) = None" for n
    by (simp add: holds_key_def)
  show ?thesis using h d d2 fr none
    by (auto simp: performDhRatchet_def Let_def in_chain_def on_chain_def sending_side_def
        deliverable_def generateDhKeyPair_def)
qed

lemma first_delivery:
  assumes lib: "aead_correct N" and x: "expects N pk ck root r" and pk: "length pk = 32"
    and m: "chain_message N (rs_associatedData r) pk ck prev n p = Inr m"
    and skip: "skipReceivingKeys N r prev = (Inr (), r1)" and n: "n \<le> MAX_SKIP_PER_CHAIN"
    and room: "length (skipped r1) \<le> MAX_SKIP_PER_CHAIN"
    and d2: "dh N (fst f) pk = Inr d2" "advanceRootChain N root d2 = (root2, ck2)"
  shows "\<exists>st'. ratchetDecrypt N f r m = (Inr p, st') \<and> in_chain N pk ck st' \<and>
    cache_room MAX_SKIP_PER_CHAIN st' \<and> deliverable pk st' = UNIV - {n} \<and>
    sending_side st' = (root2, generateDhKeyPair N f, Some ck2, 0, sentCount r, rs_associatedData r)"
proof -
  note hd = chain_message_fields[OF m]
  obtain r' where r': "performDhRatchet N f r (rm_header m) = (Inr (), r')" "in_chain N pk ck r'"
    "receivedCount r' = 0" "skipped r' = skipped r1" "deliverable pk r' = UNIV"
    "sending_side r' = (root2, generateDhKeyPair N f, Some ck2, 0, sentCount r, rs_associatedData r)"
    using performDhRatchet_accepts[OF x _ _ d2, of "rm_header m" r1] hd skip by auto
  have ad: "rs_associatedData r' = rs_associatedData r" using r'(6) by (simp add: sending_side_def)
  have new: "is_new_ratchet_key r m" "\<not> is_new_ratchet_key r' m"
    using x r'(2) hd by (auto simp: is_new_ratchet_key_def expects_def in_chain_def split: option.splits)
  have absent: "tryDecryptWithSkipped N r m = (Inr None, r)" "tryDecryptWithSkipped N r' m = (Inr None, r')"
    using x r' hd by (auto intro!: tryDecryptWithSkipped_absent simp: expects_def in_chain_def holds_key_def)
  have same: "ratchetDecrypt N f r m = ratchetDecrypt N f r' m"
    using new absent r'(1) hd pk by (simp add: ratchetDecrypt_def)
  have m': "chain_message N (rs_associatedData r') pk ck prev n p = Inr m" using m ad by simp
  have "n \<in> deliverable pk r'" "n \<le> receivedCount r' + MAX_SKIP_PER_CHAIN"
    "cache_room MAX_SKIP_PER_CHAIN r'" "MAX_SKIP_PER_CHAIN + n \<le> MAX_SKIPPED_KEYS"
    using r' n room by (auto simp: cache_room_def MAX_SKIP_PER_CHAIN_def MAX_SKIPPED_KEYS_def)
  from deliver_one[OF lib r'(2) m' pk this, of f] same r'(5,6) show ?thesis by auto
qed

text \<open>
  A flight: the messages of one sending chain, at most MAX_SKIP_PER_CHAIN + 1 of them,
  delivered in any order with any losses, all decrypt, the first one to arrive turning the
  receiver's ratchet.
\<close>

lemma flight:
  assumes lib: "aead_correct N" and s: "on_chain N ck s" "sentCount s = 0"
    and pk: "length (publicKey (sending s)) = 32"
    and ad: "rs_associatedData s = rs_associatedData r"
    and x: "expects N (publicKey (sending s)) ck root r"
    and skip: "skipReceivingKeys N r (previousSentCount s) = (Inr (), r1)"
    and room: "length (skipped r1) \<le> MAX_SKIP_PER_CHAIN"
    and d2: "dh N (fst f) (publicKey (sending s)) = Inr d2" "advanceRootChain N root d2 = (root2, ck2)"
    and sent: "list_all2 (\<lambda>m i. i < length ps \<and> fst (send_all N s ps) ! i = Inr m) ms ns"
    and ns: "distinct ns" "ns \<noteq> []" "\<forall>n \<in> set ns. n \<le> MAX_SKIP_PER_CHAIN"
  shows "\<exists>st'. receive_all N f r ms = (map (\<lambda>n. Inr (ps ! n)) ns, st') \<and>
    in_chain N (publicKey (sending s)) ck st' \<and>
    sending_side st' = (root2, generateDhKeyPair N f, Some ck2, 0, sentCount r, rs_associatedData r)"
proof -
  let ?pk = "publicKey (sending s)" and ?prev = "previousSentCount s"
  have msg: "list_all2 (\<lambda>m i. chain_message N (rs_associatedData r) ?pk ck ?prev i (ps ! i) = Inr m) ms ns"
    using sent by (rule list_all2_mono) (use send_all_chain[OF s(1), of ps] s(2) ad in auto)
  then obtain m ms' n ns' where l: "ms = m # ms'" "ns = n # ns'"
    and m: "chain_message N (rs_associatedData r) ?pk ck ?prev n (ps ! n) = Inr m"
    and ms': "list_all2 (\<lambda>m i. chain_message N (rs_associatedData r) ?pk ck ?prev i (ps ! i) = Inr m) ms' ns'"
    using ns(2) by (cases ms; cases ns) auto
  obtain st' where st': "ratchetDecrypt N f r m = (Inr (ps ! n), st')" "in_chain N ?pk ck st'"
    "cache_room MAX_SKIP_PER_CHAIN st'" "deliverable ?pk st' = UNIV - {n}"
    "sending_side st' = (root2, generateDhKeyPair N f, Some ck2, 0, sentCount r, rs_associatedData r)"
    using first_delivery[OF lib x pk m skip _ room d2] ns(3) l by auto
  have ad': "rs_associatedData st' = rs_associatedData r" using st'(5) by (simp add: sending_side_def)
  let ?nps = "map (\<lambda>i. (i, ps ! i)) ns'"
  have "list_all2 (\<lambda>m (i, p). chain_message N (rs_associatedData r) ?pk ck ?prev i p = Inr m) ms' ?nps"
    using ms' by (simp add: list_all2_conv_all_nth)
  then obtain st'' where "receive_all N f st' ms' = (map (\<lambda>(n, p). Inr p) ?nps, st'')"
      "in_chain N ?pk ck st''" "sending_side st'' = sending_side st'"
    using receive_all_chain[OF lib st'(2) pk ad', of ?prev ms' ?nps MAX_SKIP_PER_CHAIN f] ns l st'(3,4)
    by (auto simp: o_def)
  with st' l show ?thesis by (auto simp: o_def)
qed

lemma initial_expects:
  assumes a: "initialiseInitiator N f secret (publicKey spk) ad = Inr a"
    and lib: "x25519_agrees N" "x25519_sized N" "length (fst f) = 32" "dh_pair N spk"
  shows "on_chain N (the (sendingChainKey a)) a \<and> sentCount a = 0 \<and> previousSentCount a = 0 \<and>
    sending a = generateDhKeyPair N f \<and> rs_associatedData a = ad \<and>
    expects N (publicKey (sending a)) (the (sendingChainKey a)) (rootKey a) (initialiseResponder secret spk ad)"
proof -
  have "dh N (fst f) (publicKey spk) = dh N (secretKey spk) (publicKey (generateDhKeyPair N f))"
    using dh_pairs_agree[OF lib(1,2) generate_pairs(1)[OF lib(3)] lib(4)]
    by (simp add: generateDhKeyPair_def)
  moreover obtain d where d: "dh N (secretKey (generateDhKeyPair N f)) (publicKey spk) = Inr d"
    using a by (auto simp: initialiseInitiator_def Let_def rbind_eq_Inr)
  moreover obtain root chain where "advanceRootChain N secret d = (root, chain)"
    by (cases "advanceRootChain N secret d")
  ultimately show ?thesis using a
    by (auto simp: initialiseInitiator_def initialiseResponder_def expects_def on_chain_def holds_key_def
        Let_def generateDhKeyPair_def)
qed

text \<open>The turn: once the receiver has stepped, its own chain is the one the sender expects.\<close>

lemma turn_expects:
  assumes lib: "x25519_agrees N" "x25519_sized N" and f: "length (fst f) = 32"
    and s: "dh_pair N (sending s)" "rootKey s = root"
    and d2: "dh N (fst f) (publicKey (sending s)) = Inr d2" "advanceRootChain N root d2 = (root2, ck2)"
    and fresh: "receiving s \<noteq> Some (publicKey (generateDhKeyPair N f))"
      "\<forall>n. \<not> holds_key (publicKey (generateDhKeyPair N f)) n s"
  shows "expects N (publicKey (generateDhKeyPair N f)) ck2 root2 s"
proof -
  have "dh N (secretKey (sending s)) (publicKey (generateDhKeyPair N f)) = Inr d2"
    using dh_pairs_agree[OF lib generate_pairs(1)[OF f] s(1)] d2(1) by (simp add: generateDhKeyPair_def)
  with s(2) d2(2) fresh show ?thesis by (auto simp: expects_def)
qed

text \<open>
  A message under a new, acceptable ratchet key turns the ratchet whether or not it
  authenticates.
\<close>

lemma unauthenticated_turn:
  assumes "length (ratchetPublicKey (rm_header m)) = 32"
    and "\<not> holds_key (ratchetPublicKey (rm_header m)) (messageNumber (rm_header m)) st"
    and "receiving st \<noteq> Some (ratchetPublicKey (rm_header m))"
    and "performDhRatchet N f st (rm_header m) = (Inr (), st1)"
    and "ratchetDecrypt N f st m = (r, st')"
  shows "rootKey st' = rootKey st1 \<and> sending st' = generateDhKeyPair N f \<and>
    receiving st' = Some (ratchetPublicKey (rm_header m)) \<and> skbuf (sending st) \<in> set (retired st') \<and>
    sentCount st' = 0 \<and> previousSentCount st' = sentCount st"
proof -
  have new: "is_new_ratchet_key st m" using assms(3) by (auto simp: is_new_ratchet_key_def split: option.split)
  have r: "ratchetDecrypt N f st m = decrypt_in_chain N st1 m"
    using assms(1,4) tryDecryptWithSkipped_absent[OF assms(2), of N] new by (simp add: ratchetDecrypt_def)
  obtain r0 st0 where s0: "skipReceivingKeys N st (previousChainLength (rm_header m)) = (r0, st0)"
    by (cases "skipReceivingKeys N st (previousChainLength (rm_header m))")
  have one: "sending st1 = generateDhKeyPair N f" "receiving st1 = Some (ratchetPublicKey (rm_header m))"
    "skbuf (sending st) \<in> set (retired st1)" "sentCount st1 = 0" "previousSentCount st1 = sentCount st"
    using assms(4) s0 skipReceivingKeys_frame[OF s0]
    by (auto simp: performDhRatchet_def Let_def split: sum.splits prod.splits)
  obtain r2 st2 where s2: "skipReceivingKeys N st1 (messageNumber (rm_header m)) = (r2, st2)"
    by (cases "skipReceivingKeys N st1 (messageNumber (rm_header m))")
  have "rootKey st' = rootKey st2 \<and> sending st' = sending st2 \<and> receiving st' = receiving st2 \<and>
      retired st' = retired st2 \<and> sentCount st' = sentCount st2 \<and> previousSentCount st' = previousSentCount st2"
    using assms(5) r s2 by (auto simp: decrypt_in_chain_def split: sum.splits prod.splits option.splits if_splits)
  with one skipReceivingKeys_frame[OF s2] show ?thesis by simp
qed

section \<open>The header codec\<close>

interpretation counts_codec: codec_pair "\<lambda>n. w_u32 (int n)" r_u32 "\<lambda>n. n \<le> 0xffffffff" "be_bytes 4"
    "\<lambda>n. w_u32 (int n)" r_u32 "\<lambda>n. n \<le> 0xffffffff" "be_bytes 4"
  by unfold_locales

interpretation header_fields_codec: codec_pair w_fixed "r_fixed 32" "\<lambda>b. length b = 32" "\<lambda>b. b"
    "emit_pair (\<lambda>n. w_u32 (int n)) (\<lambda>n. w_u32 (int n))" "scan_pair r_u32 r_u32"
    "\<lambda>(p, n). p \<le> 0xffffffff \<and> n \<le> 0xffffffff" "\<lambda>(p, n). be_bytes 4 p @ be_bytes 4 n"
  by unfold_locales

definition header_fields :: "ratchet_header \<Rightarrow> bytes \<times> nat \<times> nat" where
  "header_fields h = (ratchetPublicKey h, previousChainLength h, messageNumber h)"

definition make_header :: "bytes \<times> nat \<times> nat \<Rightarrow> ratchet_header" where
  "make_header = (\<lambda>(k, p, n). \<lparr>ratchetPublicKey = k, previousChainLength = p, messageNumber = n\<rparr>)"

interpretation header_codec: codec_record
    "emit_pair w_fixed (emit_pair (\<lambda>n. w_u32 (int n)) (\<lambda>n. w_u32 (int n)))"
    "scan_pair (r_fixed 32) (scan_pair r_u32 r_u32)"
    "\<lambda>(k, c). length k = 32 \<and> (case c of (p, n) \<Rightarrow> p \<le> 0xffffffff \<and> n \<le> 0xffffffff)"
    "\<lambda>(k, c). k @ (case c of (p, n) \<Rightarrow> be_bytes 4 p @ be_bytes 4 n)"
    make_header header_fields
  by unfold_locales (auto simp: header_fields_def make_header_def)

lemma w_run_pair:
  "w_run [emit_pair e1 (emit_pair e2 e3) (x, y, z)] = w_run [e1 x, e2 y, e3 z]"
  by (simp add: w_run_def emit_pair_def rbind_assoc)

lemma encodeHeader_emit:
  "encodeHeader h = w_run [emit_pair w_fixed (emit_pair (\<lambda>n. w_u32 (int n)) (\<lambda>n. w_u32 (int n))) (header_fields h)]"
  by (simp only: header_fields_def w_run_pair encodeHeader_def)

lemma decodeHeader_scan:
  "decodeHeader b = scan_whole (scan_map make_header (scan_pair (r_fixed 32) (scan_pair r_u32 r_u32))) b"
  by (simp add: decodeHeader_def scan_whole_def scan_map_def scan_pair_def rbind_assoc make_header_def
      case_prod_unfold)

lemma decodeHeader_iff_lemma:
  "decodeHeader b = Inr h \<longleftrightarrow> length (ratchetPublicKey h) = 32 \<and> encodeHeader h = Inr b"
proof -
  have "encodeHeader h = Inr b \<longleftrightarrow> previousChainLength h \<le> 0xffffffff \<and> messageNumber h \<le> 0xffffffff \<and>
      b = ratchetPublicKey h @ be_bytes 4 (previousChainLength h) @ be_bytes 4 (messageNumber h)"
    using w_run_writes[of "[w_fixed (ratchetPublicKey h), w_u32 (int (previousChainLength h)), w_u32 (int (messageNumber h))]"
      "[(True, ratchetPublicKey h), (previousChainLength h \<le> 0xffffffff, be_bytes 4 (previousChainLength h)),
        (messageNumber h \<le> 0xffffffff, be_bytes 4 (messageNumber h))]"]
      u32c.emit_writes[of "previousChainLength h"] u32c.emit_writes[of "messageNumber h"]
    by (auto simp: encodeHeader_def writes_fixed)
  then show ?thesis
    unfolding decodeHeader_scan header_codec.rec.whole_iff by (auto simp: header_fields_def)
qed

section \<open>Reachable states\<close>

text \<open>Every state a party's ratchet can be in, whatever messages arrive.\<close>

inductive ratchet_step :: "noble \<Rightarrow> ratchet_state \<Rightarrow> ratchet_state \<Rightarrow> bool" for N where
  encrypt: "ratchetEncrypt N st p = (r, st') \<Longrightarrow> ratchet_step N st st'"
| decrypt: "ratchetDecrypt N f st m = (r, st') \<Longrightarrow> ratchet_step N st st'"
| destroy: "ratchet_step N st (destroyRatchet st)"

inductive ratchet_reach :: "noble \<Rightarrow> ratchet_state \<Rightarrow> bool" for N where
  initiator: "initialiseInitiator N f secret peer ad = Inr st \<Longrightarrow> ratchet_reach N st"
| responder: "ratchet_reach N (initialiseResponder secret pair ad)"
| step: "ratchet_reach N st \<Longrightarrow> ratchet_step N st st' \<Longrightarrow> ratchet_reach N st'"

inductive_cases ratchet_stepE: "ratchet_step N st st'"

lemma initial_ok:
  "initialiseInitiator N f secret peer ad = Inr st \<Longrightarrow> ratchet_ok st"
  "ratchet_ok (initialiseResponder secret pair ad)"
  by (auto simp: initialiseInitiator_def initialiseResponder_def Let_def rbind_eq_Inr ratchet_ok_def
      case_prod_unfold)

lemma destroyRatchet_ok: "ratchet_ok st \<Longrightarrow> ratchet_ok (destroyRatchet st)"
  by (simp add: ratchet_ok_def destroyRatchet_def)

lemma ratchet_step_ok: "ratchet_step N st st' \<Longrightarrow> ratchet_ok st \<Longrightarrow> ratchet_ok st'"
  by (elim ratchet_stepE)
    (metis ratchetEncrypt_ok snd_conv, metis ratchetDecrypt_ok snd_conv, simp add: destroyRatchet_ok)

lemma ratchet_reach_ok: "ratchet_reach N st \<Longrightarrow> ratchet_ok st"
  by (induction rule: ratchet_reach.induct) (auto simp: initial_ok intro: ratchet_step_ok)

text \<open>
  One message never makes the receiver derive more than MAX_SKIP_PER_CHAIN keys in a chain:
  the count of a chain moves on by at most that many and one.
\<close>

lemma skip_bound:
  "skipReceivingKeys N st until = (r, st') \<Longrightarrow>
     receivedCount st' \<le> max (receivedCount st) (receivedCount st + MAX_SKIP_PER_CHAIN)"
  using skip_loop_count[of st until N] by (auto simp: skipReceivingKeys_def split: if_splits)

lemma decrypt_in_chain_bound:
  assumes "decrypt_in_chain N st m = (r, st')"
  shows "receivedCount st' \<le> receivedCount st + MAX_SKIP_PER_CHAIN + 1"
proof -
  obtain r1 st1 where s: "skipReceivingKeys N st (messageNumber (rm_header m)) = (r1, st1)"
    by (cases "skipReceivingKeys N st (messageNumber (rm_header m))")
  have "receivedCount st' \<le> Suc (receivedCount st1)"
    using assms s by (auto simp: decrypt_in_chain_def split: sum.splits prod.splits option.splits if_splits)
  with skip_bound[OF s] show ?thesis by simp
qed

end
