(* ===== verification/Veil_Envelope.thy ===== *)
theory Veil_Envelope
  imports Veil_Pqxdh
begin

text \<open>
  Sealed-sender envelopes, packages/crypto/src/envelope.ts: sealing a payload to a recipient's
  identity and opening it, with the sender's proof of possession.
\<close>

definition PAYLOAD_PREKEY :: nat where "PAYLOAD_PREKEY = 1"
definition PAYLOAD_RATCHET :: nat where "PAYLOAD_RATCHET = 2"

record sealed_envelope =
  recipientAddress :: string
  se_ephemeralPublicKey :: bytes
  se_ciphertext :: bytes

record opened_envelope =
  oe_senderIdentity :: public_identity
  oe_payloadKind :: nat
  oe_payload :: bytes

definition envelopeKeys :: "noble \<Rightarrow> bytes \<Rightarrow> bytes \<Rightarrow> bytes \<Rightarrow> bytes \<times> bytes" where
  "envelopeKeys N shared ephemeral recipientExchangeKey =
     (let salt = concat_bytes [ephemeral, recipientExchangeKey];
          derived = kdf N shared salt LABEL_sealedSender (AEAD_KEY_LEN + AEAD_NONCE_LEN)
      in (slice 0 AEAD_KEY_LEN derived, drop AEAD_KEY_LEN derived))"

definition senderProofTranscript :: "bytes \<Rightarrow> string \<Rightarrow> nat \<Rightarrow> bytes \<Rightarrow> bytes result" where
  "senderProofTranscript ephemeral address kind payload = w_run
     [w_fixed (utf8_encode ''Veil/v1/SenderProof''), w_bytes ephemeral,
      w_bytes (utf8_encode address), w_u8 (int kind), w_bytes payload]"

definition encode_inner :: "public_identity \<Rightarrow> bytes \<Rightarrow> nat \<Rightarrow> bytes \<Rightarrow> bytes result" where
  "encode_inner sender proof kind payload = w_run
     [w_bytes (signingPublicKey sender), w_bytes (exchangePublicKey sender),
      w_bytes (exchangeKeySignature sender), w_bytes proof, w_u8 (int kind), w_bytes payload]"

definition decode_inner :: "bytes \<Rightarrow> (public_identity \<times> bytes \<times> nat \<times> bytes) result" where
  "decode_inner inner =
     rbind (r_bytes (new_reader inner)) (\<lambda>(sk, r).
     rbind (r_bytes r) (\<lambda>(xk, r).
     rbind (r_bytes r) (\<lambda>(xs, r).
     rbind (r_bytes r) (\<lambda>(pf, r).
     rbind (r_u8 r) (\<lambda>(kind, r).
     rbind (r_bytes r) (\<lambda>(payload, r).
     rbind (r_end r) (\<lambda>_.
     Inr (\<lparr>signingPublicKey = sk, exchangePublicKey = xk, exchangeKeySignature = xs\<rparr>,
          pf, kind, payload))))))))"

text \<open>\<open>signWithIdentity\<close> is the callback of the caller; the ephemeral pair is drawn from \<open>f\<close>.\<close>

definition sealEnvelope ::
  "noble \<Rightarrow> fresh \<Rightarrow> (bytes \<Rightarrow> bytes result) \<Rightarrow> public_identity \<Rightarrow> public_identity \<Rightarrow> nat \<Rightarrow> bytes \<Rightarrow>
   sealed_envelope result" where
  "sealEnvelope N f signWithIdentity sender recipient kind payload =
     rbind (verifyIdentityBinding N recipient) (\<lambda>ok.
     rbind (guard ok MalformedInputError) (\<lambda>_.
     rbind (addressOf N recipient) (\<lambda>address.
     let ephemeral = generateDhKeyPair N f in
     rbind (dh N (secretKey ephemeral) (exchangePublicKey recipient)) (\<lambda>shared.
     case envelopeKeys N shared (publicKey ephemeral) (exchangePublicKey recipient) of (key, nonce) \<Rightarrow>
     rbind (senderProofTranscript (publicKey ephemeral) address kind payload) (\<lambda>t.
     rbind (signWithIdentity t) (\<lambda>pf.
     rbind (encode_inner sender pf kind payload) (\<lambda>inner.
     rbind (aeadEncrypt N key nonce inner []) (\<lambda>c.
     Inr \<lparr>recipientAddress = address, se_ephemeralPublicKey = publicKey ephemeral,
          se_ciphertext = c\<rparr>))))))))"

definition openEnvelope ::
  "noble \<Rightarrow> bytes \<Rightarrow> bytes \<Rightarrow> string \<Rightarrow> sealed_envelope \<Rightarrow> opened_envelope result" where
  "openEnvelope N exchangeSecret exchangePublic address envelope =
     rbind (guard (length (se_ephemeralPublicKey envelope) = X25519_PUBLIC_LEN) MalformedInputError) (\<lambda>_.
     rbind (dh N exchangeSecret (se_ephemeralPublicKey envelope)) (\<lambda>shared.
     case envelopeKeys N shared (se_ephemeralPublicKey envelope) exchangePublic of (key, nonce) \<Rightarrow>
     rbind (aeadDecrypt N key nonce (se_ciphertext envelope) []) (\<lambda>inner.
     rbind (decode_inner inner) (\<lambda>(sender, pf, kind, payload).
     rbind (verifyIdentityBinding N sender) (\<lambda>ok.
     rbind (guard ok AuthenticationError) (\<lambda>_.
     rbind (senderProofTranscript (se_ephemeralPublicKey envelope) address kind payload) (\<lambda>t.
     rbind (guard (verify N (signingPublicKey sender) t pf) AuthenticationError) (\<lambda>_.
     Inr \<lparr>oe_senderIdentity = sender, oe_payloadKind = kind, oe_payload = payload\<rparr>))))))))"

section \<open>Transcripts and the inner encoding\<close>

lemma senderProofTranscript_eq:
  "senderProofTranscript e a k p = (if fits_len e \<and> fits_len (utf8_encode a) \<and> k \<le> 0xff \<and> fits_len p
     then Inr (utf8_encode ''Veil/v1/SenderProof'' @ image_bytes e @ image_bytes (utf8_encode a) @
       [word_of_nat k] @ image_bytes p)
     else Inl MalformedInputError)"
  using w_run_writes[of "[w_fixed (utf8_encode ''Veil/v1/SenderProof''), w_bytes e,
      w_bytes (utf8_encode a), w_u8 (int k), w_bytes p]"
     "[(True, utf8_encode ''Veil/v1/SenderProof''), (fits_len e, image_bytes e),
       (fits_len (utf8_encode a), image_bytes (utf8_encode a)), (k \<le> 0xff, [word_of_nat k]),
       (fits_len p, image_bytes p)]"] u8c.emit_writes[of k]
  by (simp add: senderProofTranscript_def writes_fixed writes_bytes)

lemma u8_image_cancel:
  "a \<le> 0xff \<Longrightarrow> b \<le> 0xff \<Longrightarrow> (word_of_nat a :: byte) = word_of_nat b \<longleftrightarrow> a = b"
  using u8c.image_inj[of a b] by auto

lemma senderProofTranscript_inj_lemma:
  assumes "senderProofTranscript e a k p = Inr t" and "senderProofTranscript e' a' k' p' = Inr t"
  shows "e = e' \<and> utf8_encode a = utf8_encode a' \<and> k = k' \<and> p = p'"
proof -
  from assms have f: "fits_len e" "fits_len (utf8_encode a)" "k \<le> 0xff" "fits_len p"
      "fits_len e'" "fits_len (utf8_encode a')" "k' \<le> 0xff" "fits_len p'"
    and eq: "image_bytes e @ image_bytes (utf8_encode a) @ [word_of_nat k] @ image_bytes p =
      image_bytes e' @ image_bytes (utf8_encode a') @ [word_of_nat k'] @ image_bytes p'"
    by (auto simp: senderProofTranscript_eq split: if_splits)
  from eq show ?thesis
    by (simp add: bytes_image_cancel bytes_image_cancel0 f u8_image_cancel[OF f(3,7)])
qed

definition inner_fits :: "public_identity \<times> bytes \<times> nat \<times> bytes \<Rightarrow> bool" where
  "inner_fits = (\<lambda>(s, pf, k, p). fits_len (signingPublicKey s) \<and> fits_len (exchangePublicKey s) \<and>
     fits_len (exchangeKeySignature s) \<and> fits_len pf \<and> k \<le> 0xff \<and> fits_len p)"

lemma encode_inner_eq:
  "encode_inner s pf k p = (if inner_fits (s, pf, k, p)
     then Inr (image_bytes (signingPublicKey s) @ image_bytes (exchangePublicKey s) @
       image_bytes (exchangeKeySignature s) @ image_bytes pf @ [word_of_nat k] @ image_bytes p)
     else Inl MalformedInputError)"
  using w_run_writes[of "[w_bytes (signingPublicKey s), w_bytes (exchangePublicKey s),
      w_bytes (exchangeKeySignature s), w_bytes pf, w_u8 (int k), w_bytes p]"
     "[(fits_len (signingPublicKey s), image_bytes (signingPublicKey s)),
       (fits_len (exchangePublicKey s), image_bytes (exchangePublicKey s)),
       (fits_len (exchangeKeySignature s), image_bytes (exchangeKeySignature s)),
       (fits_len pf, image_bytes pf), (k \<le> 0xff, [word_of_nat k]), (fits_len p, image_bytes p)]"]
    u8c.emit_writes[of k]
  by (simp add: encode_inner_def inner_fits_def writes_bytes)

text \<open>The inner fields as nested pairs, and the record they make.\<close>

interpretation identity_tail_codec: codec_pair w_bytes r_bytes fits_len image_bytes w_bytes r_bytes fits_len image_bytes
  by unfold_locales

interpretation identity_triple_codec: codec_pair w_bytes r_bytes fits_len image_bytes
    "emit_pair w_bytes w_bytes" "scan_pair r_bytes r_bytes"
    "\<lambda>(x, y). fits_len x \<and> fits_len y" "\<lambda>(x, y). image_bytes x @ image_bytes y"
  by unfold_locales

definition identity_fields :: "public_identity \<Rightarrow> bytes \<times> bytes \<times> bytes" where
  "identity_fields s = (signingPublicKey s, exchangePublicKey s, exchangeKeySignature s)"

definition make_identity :: "bytes \<times> bytes \<times> bytes \<Rightarrow> public_identity" where
  "make_identity = (\<lambda>(a, b, c). \<lparr>signingPublicKey = a, exchangePublicKey = b, exchangeKeySignature = c\<rparr>)"

interpretation identity_codec: codec_record
    "emit_pair w_bytes (emit_pair w_bytes w_bytes)" "scan_pair r_bytes (scan_pair r_bytes r_bytes)"
    "\<lambda>(x, c). fits_len x \<and> (case c of (y, z) \<Rightarrow> fits_len y \<and> fits_len z)"
    "\<lambda>(x, c). image_bytes x @ (case c of (y, z) \<Rightarrow> image_bytes y @ image_bytes z)"
    make_identity identity_fields
  by unfold_locales (auto simp: make_identity_def identity_fields_def)

definition scan_inner :: "reader \<Rightarrow> ((public_identity \<times> bytes \<times> nat \<times> bytes) \<times> reader) result" where
  "scan_inner = scan_pair (scan_map make_identity (scan_pair r_bytes (scan_pair r_bytes r_bytes)))
     (scan_pair r_bytes (scan_pair r_u8 r_bytes))"

interpretation inner_kind_codec: codec_pair "\<lambda>n. w_u8 (int n)" r_u8 "\<lambda>n. n \<le> 0xff" "\<lambda>n. [word_of_nat n]"
    w_bytes r_bytes fits_len image_bytes
  by unfold_locales

interpretation inner_proof_codec: codec_pair w_bytes r_bytes fits_len image_bytes
    "emit_pair (\<lambda>n. w_u8 (int n)) w_bytes" "scan_pair r_u8 r_bytes"
    "\<lambda>(k, p). k \<le> 0xff \<and> fits_len p" "\<lambda>(k, p). [word_of_nat k] @ image_bytes p"
  by unfold_locales

interpretation inner_codec: codec_pair
    "\<lambda>s. emit_pair w_bytes (emit_pair w_bytes w_bytes) (identity_fields s)"
    "scan_map make_identity (scan_pair r_bytes (scan_pair r_bytes r_bytes))"
    "\<lambda>s. case identity_fields s of (x, c) \<Rightarrow> fits_len x \<and> (case c of (y, z) \<Rightarrow> fits_len y \<and> fits_len z)"
    "\<lambda>s. case identity_fields s of (x, c) \<Rightarrow> image_bytes x @ (case c of (y, z) \<Rightarrow> image_bytes y @ image_bytes z)"
    "emit_pair w_bytes (emit_pair (\<lambda>n. w_u8 (int n)) w_bytes)"
    "scan_pair r_bytes (scan_pair r_u8 r_bytes)"
    "\<lambda>(f, c). fits_len f \<and> (case c of (k, p) \<Rightarrow> k \<le> 0xff \<and> fits_len p)"
    "\<lambda>(f, c). image_bytes f @ (case c of (k, p) \<Rightarrow> [word_of_nat k] @ image_bytes p)"
  by unfold_locales

lemma decode_inner_scan: "decode_inner b = scan_whole scan_inner b"
  by (simp add: decode_inner_def scan_whole_def scan_inner_def scan_map_def scan_pair_def rbind_assoc
      make_identity_def case_prod_unfold)

text \<open>The inner plaintext decodes to exactly what was encoded, and nothing else decodes.\<close>

lemma decode_inner_iff: "decode_inner b = Inr (s, pf, k, p) \<longleftrightarrow> encode_inner s pf k p = Inr b"
  unfolding decode_inner_scan scan_inner_def inner_codec.both.whole_iff
  by (auto simp: encode_inner_eq inner_fits_def identity_fields_def)

section \<open>Opening what was sealed\<close>

lemma open_sealed:
  assumes lib: "x25519_agrees N" "x25519_sized N" "aead_correct N"
    and f: "length (fst f) = 32" and rk: "dh_pair N rpair" "exchangePublicKey recipient = publicKey rpair"
    and sender: "verifyIdentityBinding N sender = Inr True"
    and signed: "\<And>t s. signf t = Inr s \<Longrightarrow> verify N (signingPublicKey sender) t s"
    and seal: "sealEnvelope N f signf sender recipient kind payload = Inr env"
  shows "openEnvelope N (secretKey rpair) (publicKey rpair) (recipientAddress env) env =
    Inr \<lparr>oe_senderIdentity = sender, oe_payloadKind = kind, oe_payload = payload\<rparr>"
proof -
  let ?e = "generateDhKeyPair N f"
  let ?ks = "\<lambda>d. envelopeKeys N d (publicKey ?e) (publicKey rpair)"
  define key where "key = (\<lambda>d. fst (?ks d))"
  define nonce where "nonce = (\<lambda>d. snd (?ks d))"
  have kn: "?ks d = (key d, nonce d)" for d by (simp add: key_def nonce_def)
  from seal obtain d t s inner c where *: "addressOf N recipient = Inr (recipientAddress env)"
    "dh N (secretKey ?e) (publicKey rpair) = Inr d"
    "senderProofTranscript (publicKey ?e) (recipientAddress env) kind payload = Inr t"
    "signf t = Inr s" "encode_inner sender s kind payload = Inr inner"
    "aeadEncrypt N (key d) (nonce d) inner [] = Inr c"
    "se_ephemeralPublicKey env = publicKey ?e" "se_ciphertext env = c"
    by (auto simp: sealEnvelope_def rbind_eq_Inr Let_def rk(2) kn)
  have "dh N (secretKey rpair) (publicKey ?e) = Inr d"
    using dh_pairs_agree[OF lib(1,2) generate_pairs(1)[OF f] rk(1)] *(2) by simp
  moreover have "length (publicKey ?e) = 32"
    using lib(2) f by (simp add: x25519_sized_def generateDhKeyPair_def)
  moreover have "aeadDecrypt N (key d) (nonce d) c [] = Inr inner" using aead_roundtrip[OF lib(3) *(6)] .
  moreover have "decode_inner inner = Inr (sender, s, kind, payload)" using *(5) by (simp add: decode_inner_iff)
  ultimately show ?thesis using * sender signed[OF *(4)] kn[of d]
    by (simp add: openEnvelope_def)
qed

text \<open>An opened envelope carries a signature of the sender it names over what it delivers.\<close>

lemma opened_authentic_lemma:
  assumes "openEnvelope N sk pk address env = Inr opened"
  shows "verifyIdentityBinding N (oe_senderIdentity opened) = Inr True \<and>
    (\<exists>t pf. senderProofTranscript (se_ephemeralPublicKey env) address (oe_payloadKind opened)
        (oe_payload opened) = Inr t \<and>
      verify N (signingPublicKey (oe_senderIdentity opened)) t pf)"
  using assms by (auto simp: openEnvelope_def rbind_eq_Inr case_prod_unfold)

end
