(* ===== verification/Veil_Padding.thy ===== *)
theory Veil_Padding
  imports Veil_Wire "HOL-Library.While_Combinator"
begin

text \<open>
  Length-hiding padding, packages/crypto/src/padding.ts. Bucket sizes are integers below
  \<open>2 ^ 50\<close> for every buffer JavaScript can hold, so \<open>Math.ceil(bucket * 1.25)\<close> is exact in
  floating point and is \<open>(5 * bucket + 3) div 4\<close>.
\<close>

definition PADDING_MARKER :: byte where "PADDING_MARKER = 0x80"
definition MIN_BUCKET :: nat where "MIN_BUCKET = 128"

definition grow :: "nat \<Rightarrow> nat" where
  "grow bucket = (5 * bucket + 3) div 4"

text \<open>The while loop of \<open>bucketSize\<close>; the length is any integer, as the guard allows for.\<close>

definition bucketSize :: "int \<Rightarrow> nat result" where
  "bucketSize len = (if len < 0 then Inl MalformedInputError
     else let needed = nat len + 1 in Inr (while (\<lambda>bucket. bucket < needed) grow MIN_BUCKET))"

definition pad :: "bytes \<Rightarrow> bytes result" where
  "pad plaintext = rbind (bucketSize (int (length plaintext))) (\<lambda>size.
     let padded = blit (replicate size 0) 0 [plaintext]
     in Inr (padded[length plaintext := PADDING_MARKER]))"

text \<open>The scan from the end: the index \<open>i\<close> of the code is the predecessor of the argument.\<close>

fun unpad_loop :: "bytes \<Rightarrow> nat \<Rightarrow> bytes result" where
  "unpad_loop padded 0 = Inl MalformedInputError"
| "unpad_loop padded (Suc i) =
     (if padded ! i = 0 then unpad_loop padded i
      else if padded ! i = PADDING_MARKER then Inr (slice 0 i padded)
      else Inl MalformedInputError)"

definition unpad :: "bytes \<Rightarrow> bytes result" where
  "unpad padded = unpad_loop padded (length padded)"

section \<open>The bucket schedule\<close>

text \<open>The specification: the sizes 128, 160, 200, 250, 313, ... and the least that fits.\<close>

fun bucket_at :: "nat \<Rightarrow> nat" where
  "bucket_at 0 = 128"
| "bucket_at (Suc k) = grow (bucket_at k)"

lemma grow_less: "0 < b \<Longrightarrow> b < grow b"
  by (simp add: grow_def)

lemma bucket_at_ge: "128 \<le> bucket_at k"
  by (induction k) (auto simp: grow_def)

lemma bucket_at_strict: "strict_mono bucket_at"
proof (rule strict_mono_Suc_iff[THEN iffD2], rule allI)
  fix k show "bucket_at k < bucket_at (Suc k)"
    using grow_less[of "bucket_at k"] bucket_at_ge[of k] by simp
qed

lemma bucket_while:
  "\<exists>k. while (\<lambda>b. b < n) grow MIN_BUCKET = bucket_at k \<and> n \<le> bucket_at k \<and> (\<forall>j < k. bucket_at j < n)"
proof (rule while_rule[where P = "\<lambda>b. \<exists>k. b = bucket_at k \<and> (\<forall>j < k. bucket_at j < n)"
      and r = "measure (\<lambda>b. n - b)"])
  show "\<exists>k. MIN_BUCKET = bucket_at k \<and> (\<forall>j < k. bucket_at j < n)"
    by (intro exI[of _ 0]) (simp add: MIN_BUCKET_def)
next
  fix b assume "\<exists>k. b = bucket_at k \<and> (\<forall>j < k. bucket_at j < n)" "b < n"
  then obtain k where "b = bucket_at k" "\<forall>j < Suc k. bucket_at j < n"
    by (auto simp: less_Suc_eq)
  then show "\<exists>k. grow b = bucket_at k \<and> (\<forall>j < k. bucket_at j < n)"
    by (metis bucket_at.simps(2))
next
  fix b assume "\<exists>k. b = bucket_at k \<and> (\<forall>j < k. bucket_at j < n)" "b < n"
  then have "b < grow b" using bucket_at_ge by (metis grow_less less_le_trans zero_less_numeral)
  with \<open>b < n\<close> show "(grow b, b) \<in> measure (\<lambda>b. n - b)" by (simp add: diff_less_mono2)
qed auto

lemma bucketSize_schedule:
  "0 \<le> n \<Longrightarrow> \<exists>k. bucketSize n = Inr (bucket_at k) \<and> nat n + 1 \<le> bucket_at k \<and>
     (\<forall>j < k. bucket_at j < nat n + 1)"
  using bucket_while[of "nat n + 1"] by (auto simp: bucketSize_def Let_def)

lemma bucketSize_fits: "bucketSize n = Inr b \<Longrightarrow> 0 \<le> n \<and> nat n < b"
  using bucketSize_schedule[of n] by (cases "0 \<le> n") (auto simp: bucketSize_def)

text \<open>
  The loop with its rounds written out: \<open>while_option\<close> distinguishes a loop that ends from one
  that does not.
\<close>

lemma bucket_at_funpow: "bucket_at k = (grow ^^ k) MIN_BUCKET"
  by (induction k) (simp_all add: MIN_BUCKET_def)

lemma bucket_at_exponential: "128 * 5 ^ k \<le> bucket_at k * 4 ^ k"
proof (induction k)
  case (Suc k)
  have "5 * (128 * 5 ^ k) \<le> 5 * bucket_at k * 4 ^ k" using Suc by simp
  also have "\<dots> \<le> 4 * grow (bucket_at k) * 4 ^ k" by (rule mult_right_mono) (simp_all add: grow_def)
  finally show ?case by (simp add: mult.commute mult.left_commute)
qed simp

lemma bucket_while_option:
  assumes "n \<le> bucket_at k" and "\<forall>j < k. bucket_at j < n"
  shows "while_option (\<lambda>b. b < n) grow MIN_BUCKET = Some (bucket_at k)"
proof -
  have "while_option (\<lambda>b. b < n) grow (bucket_at j) = Some (bucket_at k)" if "j \<le> k" for j
    using that
  proof (induction j rule: inc_induct)
    case base
    then show ?case using assms(1) by (simp add: while_option_unfold)
  next
    case (step j)
    then show ?case using assms(2) by (subst while_option_unfold) simp
  qed
  from this[of 0] show ?thesis by (simp add: MIN_BUCKET_def)
qed

text \<open>C9
  The loop that picks a bucket ends, for a message of any length: it stops after a number of
  rounds that is logarithmic in the length (5/4 to the rounds but one is at most the length over
  128), with the bucket \<open>bucketSize\<close> returns, which is never more than a quarter longer than the
  message, rounded up, unless it is the smallest one.
\<close>

theorem bucket_loop_terminates:
  "\<exists>k. while_option (\<lambda>bucket. bucket < n + 1) grow MIN_BUCKET = Some ((grow ^^ k) MIN_BUCKET) \<and>
     bucketSize (int n) = Inr ((grow ^^ k) MIN_BUCKET) \<and>
     128 * 5 ^ (k - 1) \<le> max 128 n * 4 ^ (k - 1) \<and> 4 * (grow ^^ k) MIN_BUCKET \<le> max 512 (5 * n + 3)"
proof -
  obtain k where k: "bucketSize (int n) = Inr (bucket_at k)" "n + 1 \<le> bucket_at k" "\<forall>j < k. bucket_at j < n + 1"
    using bucketSize_schedule[of "int n"] by auto
  have "128 * 5 ^ (k - 1) \<le> max 128 n * 4 ^ (k - 1) \<and> 4 * bucket_at k \<le> max 512 (5 * n + 3)"
  proof (cases k)
    case (Suc j)
    then have j: "bucket_at j \<le> n" using k(3) by auto
    have "128 * 5 ^ j \<le> bucket_at j * 4 ^ j" by (rule bucket_at_exponential)
    also have "\<dots> \<le> max 128 n * 4 ^ j" using j by (intro mult_right_mono) auto
    finally show ?thesis using Suc j by (simp add: grow_def)
  qed simp
  with bucket_while_option[OF k(2,3)] k(1) show ?thesis by (auto simp: bucket_at_funpow)
qed

section \<open>Padding and unpadding\<close>

lemma pad_eq:
  assumes "bucketSize (int (length p)) = Inr b"
  shows "pad p = Inr (p @ PADDING_MARKER # replicate (b - length p - 1) 0)"
proof -
  have l: "length p < b" using bucketSize_fits[OF assms] by simp
  then have "blit (replicate b 0) 0 [p] = p @ replicate (b - length p) 0" by simp
  moreover have "replicate (b - length p) 0 = (0 :: byte) # replicate (b - length p - 1) 0"
    using l by (cases "b - length p") auto
  ultimately show ?thesis
    by (simp add: pad_def assms Let_def list_update_append)
qed

lemma unpad_loop_zeros:
  assumes "\<forall>i. length p \<le> i \<longrightarrow> i < n \<longrightarrow> q ! i = 0" and "n \<le> length q" and "length p \<le> n"
  shows "unpad_loop q n = unpad_loop q (length p)"
  using assms
proof (induction n)
  case (Suc n)
  show ?case
  proof (cases "length p = Suc n")
    case False
    with Suc show ?thesis by simp
  qed simp
qed simp

lemma unpad_append: "unpad (p @ PADDING_MARKER # replicate k 0) = Inr p"
proof -
  let ?q = "p @ PADDING_MARKER # replicate k 0"
  have "unpad_loop ?q (length ?q) = unpad_loop ?q (length (p @ [PADDING_MARKER]))"
    by (rule unpad_loop_zeros) (auto simp: nth_append nth_Cons' )
  then show ?thesis by (simp add: unpad_def PADDING_MARKER_def slice_def nth_append)
qed

text \<open>What \<open>unpad\<close> accepts is exactly a payload, the marker and zeros.\<close>

lemma unpad_loop_sound:
  "n \<le> length q \<Longrightarrow> unpad_loop q n = Inr p \<Longrightarrow>
     \<exists>k. take n q = p @ PADDING_MARKER # replicate k 0"
proof (induction n)
  case (Suc n)
  have t: "take (Suc n) q = take n q @ [q ! n]" using Suc.prems(1) by (simp add: take_Suc_conv_app_nth)
  show ?case
  proof (cases "q ! n = 0")
    case True
    with Suc obtain k where "take n q = p @ PADDING_MARKER # replicate k 0" by auto
    with t True have "take (Suc n) q = p @ PADDING_MARKER # replicate (Suc k) 0"
      by (simp add: replicate_append_same)
    then show ?thesis by blast
  next
    case False
    with Suc.prems have "q ! n = PADDING_MARKER" "p = take n q"
      by (auto simp: slice_def split: if_splits)
    with t have "take (Suc n) q = p @ PADDING_MARKER # replicate 0 0" by simp
    then show ?thesis by blast
  qed
qed simp

lemma unpad_iff: "unpad q = Inr p \<longleftrightarrow> (\<exists>k. q = p @ PADDING_MARKER # replicate k 0)"
  using unpad_loop_sound[of "length q" q p] unpad_append by (auto simp: unpad_def)

lemma pad_total: "\<exists>q. pad p = Inr q"
  using bucketSize_schedule[of "int (length p)"] pad_eq by fastforce

lemma pad_unpad: "pad p = Inr q \<Longrightarrow> unpad q = Inr p"
  using bucketSize_schedule[of "int (length p)"] pad_eq[of p] unpad_append by fastforce

lemma length_pad: "pad p = Inr q \<Longrightarrow> bucketSize (int (length p)) = Inr (length q)"
proof -
  assume q: "pad p = Inr q"
  obtain b where b: "bucketSize (int (length p)) = Inr b"
    using bucketSize_schedule[of "int (length p)"] by auto
  with q pad_eq[OF b] bucketSize_fits[OF b] show ?thesis by auto
qed

text \<open>A bucket above the smallest one exceeds the payload by at most a quarter.\<close>

lemma bucket_overhead_lemma:
  assumes "bucketSize n = Inr b"
  shows "b = MIN_BUCKET \<or> 4 * b \<le> 5 * nat n + 3"
proof -
  have "0 \<le> n" using bucketSize_fits[OF assms] by simp
  then obtain k where k: "b = bucket_at k" "\<forall>j < k. bucket_at j < nat n + 1"
    using bucketSize_schedule[of n] assms by auto
  show ?thesis
  proof (cases k)
    case (Suc j)
    then have "bucket_at j \<le> nat n" using k(2) by (simp add: less_Suc_eq_le)
    moreover have "b = (5 * bucket_at j + 3) div 4" using k(1) Suc by (simp add: grow_def)
    ultimately have "4 * b \<le> 5 * nat n + 3" by linarith
    then show ?thesis ..
  qed (use k in \<open>simp add: MIN_BUCKET_def\<close>)
qed

end
