(* ===== verification/Veil_PreKeyStore.thy ===== *)
theory Veil_PreKeyStore
  imports Veil_Pqxdh
begin

text \<open>
  The prekey policy: the interface PreKeyResolver of packages/crypto/src/session.ts as a record
  of operations with its contract (locale \<open>prekey_resolver\<close>), and its implementation,
  packages/crypto/src/preKeyStore.ts. The stored key pairs are objects shared with whoever
  looked them up: \<open>scrub\<close> is what a \<open>wipe\<close> of such a shared buffer does to the store.
\<close>

section \<open>The interface PreKeyResolver\<close>

record 's resolver =
  res_signedPreKey :: "'s \<Rightarrow> int \<Rightarrow> keypair option"
  res_signedKemPreKey :: "'s \<Rightarrow> int \<Rightarrow> keypair option"
  res_oneTimePreKey :: "'s \<Rightarrow> int \<Rightarrow> keypair option"
  res_oneTimeKemPreKey :: "'s \<Rightarrow> int \<Rightarrow> keypair option"
  res_consumeOneTimePreKey :: "int \<Rightarrow> 's \<Rightarrow> 's"
  res_consumeOneTimeKemPreKey :: "int \<Rightarrow> 's \<Rightarrow> 's"
  res_wiped :: "nat list \<Rightarrow> 's \<Rightarrow> 's"

definition scrub_pair :: "nat list \<Rightarrow> keypair \<Rightarrow> keypair" where
  "scrub_pair bs k = (if skbuf k \<in> set bs then k\<lparr>secretKey := zeroed (secretKey k)\<rparr> else k)"

locale prekey_resolver =
  fixes R :: "'s resolver"
  assumes consume_one: "res_oneTimePreKey R (res_consumeOneTimePreKey R i s) j =
      (if j = i then None else res_oneTimePreKey R s j)"
    and consume_one_other: "res_oneTimeKemPreKey R (res_consumeOneTimePreKey R i s) j = res_oneTimeKemPreKey R s j"
      "res_signedPreKey R (res_consumeOneTimePreKey R i s) j = res_signedPreKey R s j"
      "res_signedKemPreKey R (res_consumeOneTimePreKey R i s) j = res_signedKemPreKey R s j"
    and consume_kem: "res_oneTimeKemPreKey R (res_consumeOneTimeKemPreKey R i s) j =
      (if j = i then None else res_oneTimeKemPreKey R s j)"
    and consume_kem_other: "res_oneTimePreKey R (res_consumeOneTimeKemPreKey R i s) j = res_oneTimePreKey R s j"
      "res_signedPreKey R (res_consumeOneTimeKemPreKey R i s) j = res_signedPreKey R s j"
      "res_signedKemPreKey R (res_consumeOneTimeKemPreKey R i s) j = res_signedKemPreKey R s j"
    and wiped: "res_signedPreKey R (res_wiped R bs s) j = map_option (scrub_pair bs) (res_signedPreKey R s j)"
      "res_signedKemPreKey R (res_wiped R bs s) j = map_option (scrub_pair bs) (res_signedKemPreKey R s j)"
      "res_oneTimePreKey R (res_wiped R bs s) j = map_option (scrub_pair bs) (res_oneTimePreKey R s j)"
      "res_oneTimeKemPreKey R (res_wiped R bs s) j = map_option (scrub_pair bs) (res_oneTimeKemPreKey R s j)"
begin

text \<open>Which keys resolve: consuming removes exactly one of them, wiping none.\<close>

definition resolvable :: "'s \<Rightarrow> (int set \<times> int set)" where
  "resolvable s = ({i. res_oneTimePreKey R s i \<noteq> None}, {i. res_oneTimeKemPreKey R s i \<noteq> None})"

lemma resolvable_consume:
  "resolvable (res_consumeOneTimePreKey R i s) = (fst (resolvable s) - {i}, snd (resolvable s))"
  "resolvable (res_consumeOneTimeKemPreKey R i s) = (fst (resolvable s), snd (resolvable s) - {i})"
  "resolvable (res_wiped R bs s) = resolvable s"
  by (auto simp: resolvable_def consume_one consume_one_other consume_kem consume_kem_other wiped)

end

section \<open>The store\<close>

definition ONE_TIME_PREKEY_TARGET :: nat where "ONE_TIME_PREKEY_TARGET = 100"
definition ONE_TIME_PREKEY_LOW_WATER :: nat where "ONE_TIME_PREKEY_LOW_WATER = 20"
definition SIGNED_PREKEY_GENERATIONS :: nat where "SIGNED_PREKEY_GENERATIONS = 3"

record published_prekeys =
  pub_signedPreKey :: "signed_prekey option"
  pub_signedKemPreKey :: "signed_prekey option"
  pub_oneTimePreKeys :: "one_time_prekey list"
  pub_oneTimeKemPreKeys :: "one_time_prekey list"

text \<open>The current keys are undefined only while the constructor runs.\<close>

record prekey_store =
  ps_identity :: private_identity
  signedPreKeys :: "(int, keypair) jsmap"
  signedKemPreKeys :: "(int, keypair) jsmap"
  oneTimePreKeys :: "(int, keypair) jsmap"
  oneTimeKemPreKeys :: "(int, keypair) jsmap"
  signedPreKeyOrder :: "int list"
  signedKemPreKeyOrder :: "int list"
  currentSignedPreKey :: "signed_prekey option"
  currentSignedKemPreKey :: "signed_prekey option"
  publishedOneTime :: "one_time_prekey list"
  publishedOneTimeKem :: "one_time_prekey list"
  nextId :: int

definition empty_store :: "private_identity \<Rightarrow> prekey_store" where
  "empty_store i = \<lparr>ps_identity = i, signedPreKeys = [], signedKemPreKeys = [], oneTimePreKeys = [],
     oneTimeKemPreKeys = [], signedPreKeyOrder = [], signedKemPreKeyOrder = [],
     currentSignedPreKey = None, currentSignedKemPreKey = None, publishedOneTime = [],
     publishedOneTimeKem = [], nextId = 1\<rparr>"

text \<open>The while loop over \<open>order.shift()\<close>.\<close>

fun pruneGenerations :: "(int, keypair) jsmap \<Rightarrow> int list \<Rightarrow> (int, keypair) jsmap \<times> int list" where
  "pruneGenerations m [] = (m, [])"
| "pruneGenerations m (i # order) =
     (if length (i # order) > SIGNED_PREKEY_GENERATIONS then pruneGenerations (js_delete i m) order
      else (m, i # order))"

definition rotateSignedPreKeys ::
  "noble \<Rightarrow> fresh \<Rightarrow> fresh \<Rightarrow> prekey_store \<Rightarrow> unit result \<times> prekey_store" where
  "rotateSignedPreKeys N f1 f2 s =
     (let kid = nextId s; s1 = s\<lparr>nextId := nextId s + 1\<rparr> in
      case createSignedPreKey N f1 (ps_identity s1) kid of Inl e \<Rightarrow> (Inl e, s1)
      | Inr (published, secret) \<Rightarrow>
        let s2 = s1\<lparr>signedPreKeys := js_set (spk_id published) secret (signedPreKeys s1),
                    signedPreKeyOrder := signedPreKeyOrder s1 @ [spk_id published],
                    currentSignedPreKey := Some published\<rparr>;
            kid' = nextId s2; s3 = s2\<lparr>nextId := nextId s2 + 1\<rparr> in
        case createSignedKemPreKey N f2 (ps_identity s3) kid' of Inl e \<Rightarrow> (Inl e, s3)
        | Inr (kem, kemSecret) \<Rightarrow>
          let s4 = s3\<lparr>signedKemPreKeys := js_set (spk_id kem) kemSecret (signedKemPreKeys s3),
                      signedKemPreKeyOrder := signedKemPreKeyOrder s3 @ [spk_id kem],
                      currentSignedKemPreKey := Some kem\<rparr> in
          case pruneGenerations (signedPreKeys s4) (signedPreKeyOrder s4) of (m, ord) \<Rightarrow>
          case pruneGenerations (signedKemPreKeys s4) (signedKemPreKeyOrder s4) of (m', ord') \<Rightarrow>
          (Inr (), s4\<lparr>signedPreKeys := m, signedPreKeyOrder := ord,
                     signedKemPreKeys := m', signedKemPreKeyOrder := ord'\<rparr>))"

fun store_secrets :: "(one_time_prekey \<times> keypair) list \<Rightarrow> (int, keypair) jsmap \<Rightarrow> (int, keypair) jsmap" where
  "store_secrets [] m = m"
| "store_secrets ((published, secret) # ks) m = store_secrets ks (js_set (otk_id published) secret m)"

text \<open>The two batches draw \<open>fs\<close> and \<open>gs\<close>.\<close>

definition replenishOneTimePreKeys ::
  "noble \<Rightarrow> (nat \<Rightarrow> fresh) \<Rightarrow> (nat \<Rightarrow> fresh) \<Rightarrow> nat \<Rightarrow> prekey_store \<Rightarrow>
   (one_time_prekey list \<times> one_time_prekey list) \<times> prekey_store" where
  "replenishOneTimePreKeys N fs gs count s =
     (let classical = createOneTimePreKeys N fs (nextId s) count;
          s1 = s\<lparr>nextId := nextId s + int count\<rparr>;
          pq = createOneTimeKemPreKeys N gs (nextId s1) count;
          s2 = s1\<lparr>nextId := nextId s1 + int count\<rparr>;
          s3 = s2\<lparr>oneTimePreKeys := store_secrets classical (oneTimePreKeys s2),
                  publishedOneTime := publishedOneTime s2 @ map fst classical,
                  oneTimeKemPreKeys := store_secrets pq (oneTimeKemPreKeys s2),
                  publishedOneTimeKem := publishedOneTimeKem s2 @ map fst pq\<rparr>
      in ((map fst classical, map fst pq), s3))"

definition new_store ::
  "noble \<Rightarrow> fresh \<Rightarrow> fresh \<Rightarrow> (nat \<Rightarrow> fresh) \<Rightarrow> (nat \<Rightarrow> fresh) \<Rightarrow> private_identity \<Rightarrow> prekey_store result" where
  "new_store N f1 f2 fs gs i = (case rotateSignedPreKeys N f1 f2 (empty_store i) of
       (Inl e, s) \<Rightarrow> Inl e
     | (Inr _, s) \<Rightarrow> Inr (snd (replenishOneTimePreKeys N fs gs ONE_TIME_PREKEY_TARGET s)))"

definition needsReplenishment :: "prekey_store \<Rightarrow> bool" where
  "needsReplenishment s \<longleftrightarrow> length (publishedOneTime s) < ONE_TIME_PREKEY_LOW_WATER \<or>
     length (publishedOneTimeKem s) < ONE_TIME_PREKEY_LOW_WATER"

definition published :: "prekey_store \<Rightarrow> published_prekeys" where
  "published s = \<lparr>pub_signedPreKey = currentSignedPreKey s, pub_signedKemPreKey = currentSignedKemPreKey s,
     pub_oneTimePreKeys = publishedOneTime s, pub_oneTimeKemPreKeys = publishedOneTimeKem s\<rparr>"

text \<open>\<open>Array.shift\<close>: the first element, if any, and the rest.\<close>

definition shift :: "'a list \<Rightarrow> 'a option \<times> 'a list" where
  "shift xs = (case xs of [] \<Rightarrow> (None, []) | x # ys \<Rightarrow> (Some x, ys))"

text \<open>\<open>None\<close> stands for a bundle with undefined signed keys, before the first rotation.\<close>

definition issueBundle :: "public_identity \<Rightarrow> prekey_store \<Rightarrow> prekey_bundle option \<times> prekey_store" where
  "issueBundle i s =
     (case shift (publishedOneTime s) of (oneTime, rest) \<Rightarrow>
      case shift (publishedOneTimeKem s) of (oneTimeKem, restKem) \<Rightarrow>
      let s1 = s\<lparr>publishedOneTime := rest, publishedOneTimeKem := restKem\<rparr> in
      (case (currentSignedPreKey s1, currentSignedKemPreKey s1) of
         (Some spk, Some kem) \<Rightarrow> Some \<lparr>identity = i, signedPreKey = spk, signedKemPreKey = kem,
           oneTimePreKey = oneTime, oneTimeKemPreKey = oneTimeKem\<rparr>
       | _ \<Rightarrow> None, s1))"

definition consumeOneTimePreKey :: "int \<Rightarrow> prekey_store \<Rightarrow> prekey_store" where
  "consumeOneTimePreKey i s = s\<lparr>oneTimePreKeys := js_delete i (oneTimePreKeys s),
     publishedOneTime := filter (\<lambda>k. otk_id k \<noteq> i) (publishedOneTime s)\<rparr>"

definition consumeOneTimeKemPreKey :: "int \<Rightarrow> prekey_store \<Rightarrow> prekey_store" where
  "consumeOneTimeKemPreKey i s = s\<lparr>oneTimeKemPreKeys := js_delete i (oneTimeKemPreKeys s),
     publishedOneTimeKem := filter (\<lambda>k. otk_id k \<noteq> i) (publishedOneTimeKem s)\<rparr>"

definition scrub_map :: "nat list \<Rightarrow> (int, keypair) jsmap \<Rightarrow> (int, keypair) jsmap" where
  "scrub_map bs m = map (\<lambda>(i, k). (i, scrub_pair bs k)) m"

definition scrub :: "nat list \<Rightarrow> prekey_store \<Rightarrow> prekey_store" where
  "scrub bs s = s\<lparr>signedPreKeys := scrub_map bs (signedPreKeys s),
     signedKemPreKeys := scrub_map bs (signedKemPreKeys s),
     oneTimePreKeys := scrub_map bs (oneTimePreKeys s),
     oneTimeKemPreKeys := scrub_map bs (oneTimeKemPreKeys s)\<rparr>"

text \<open>The class implements the interface.\<close>

definition store_resolver :: "prekey_store resolver" where
  "store_resolver = \<lparr>res_signedPreKey = (\<lambda>s. js_get (signedPreKeys s)),
     res_signedKemPreKey = (\<lambda>s. js_get (signedKemPreKeys s)),
     res_oneTimePreKey = (\<lambda>s. js_get (oneTimePreKeys s)),
     res_oneTimeKemPreKey = (\<lambda>s. js_get (oneTimeKemPreKeys s)),
     res_consumeOneTimePreKey = consumeOneTimePreKey,
     res_consumeOneTimeKemPreKey = consumeOneTimeKemPreKey,
     res_wiped = scrub\<rparr>"

lemma store_resolver_simps [simp]:
  "res_signedPreKey store_resolver s = js_get (signedPreKeys s)"
  "res_signedKemPreKey store_resolver s = js_get (signedKemPreKeys s)"
  "res_oneTimePreKey store_resolver s = js_get (oneTimePreKeys s)"
  "res_oneTimeKemPreKey store_resolver s = js_get (oneTimeKemPreKeys s)"
  "res_consumeOneTimePreKey store_resolver = consumeOneTimePreKey"
  "res_consumeOneTimeKemPreKey store_resolver = consumeOneTimeKemPreKey"
  "res_wiped store_resolver = scrub"
  by (simp_all add: store_resolver_def)

lemma scrub_map_get [simp]: "js_get (scrub_map bs m) i = map_option (scrub_pair bs) (js_get m i)"
  by (induction m) (auto simp: scrub_map_def)

lemma scrub_map_keys [simp]: "map fst (scrub_map bs m) = map fst m"
  by (induction m) (auto simp: scrub_map_def)

lemma scrub_map_ok [simp]: "js_ok (scrub_map bs m) = js_ok m"
  by (simp add: js_ok_def)

interpretation store: prekey_resolver store_resolver
  by unfold_locales (simp_all add: consumeOneTimePreKey_def
      consumeOneTimeKemPreKey_def scrub_def)

section \<open>The invariant\<close>

text \<open>
  At most three generations, each in its map; identifiers below the next one; published
  one-time keys distinct, each with its secret still held.
\<close>

definition pool_ok :: "int \<Rightarrow> (int, keypair) jsmap \<Rightarrow> one_time_prekey list \<Rightarrow> bool" where
  "pool_ok n m ks \<longleftrightarrow> js_ok m \<and> (\<forall>i \<in> set (js_keys m). i < n) \<and> distinct (map otk_id ks) \<and>
     (\<forall>k \<in> set ks. \<exists>p. js_get m (otk_id k) = Some p)"

definition generations_ok :: "int \<Rightarrow> (int, keypair) jsmap \<Rightarrow> int list \<Rightarrow> bool" where
  "generations_ok n m ord \<longleftrightarrow> js_ok m \<and> set (js_keys m) = set ord \<and> distinct ord \<and>
     (\<forall>i \<in> set ord. i < n) \<and> length ord \<le> SIGNED_PREKEY_GENERATIONS"

definition store_ok :: "prekey_store \<Rightarrow> bool" where
  "store_ok s \<longleftrightarrow> generations_ok (nextId s) (signedPreKeys s) (signedPreKeyOrder s) \<and>
     generations_ok (nextId s) (signedKemPreKeys s) (signedKemPreKeyOrder s) \<and>
     pool_ok (nextId s) (oneTimePreKeys s) (publishedOneTime s) \<and>
     pool_ok (nextId s) (oneTimeKemPreKeys s) (publishedOneTimeKem s)"

lemma prune_keeps:
  assumes "js_ok m" and "set (js_keys m) = set ord" and "distinct ord"
  shows "case pruneGenerations m ord of (m', ord') \<Rightarrow>
    ord' = drop (length ord - SIGNED_PREKEY_GENERATIONS) ord \<and> js_ok m' \<and> set (js_keys m') = set ord' \<and>
    (\<forall>i \<in> set ord'. js_get m' i = js_get m i)"
  using assms
proof (induction m ord rule: pruneGenerations.induct)
  case (2 m i ord)
  show ?case
  proof (cases "length (i # ord) > SIGNED_PREKEY_GENERATIONS")
    case True
    have "set (js_keys (js_delete i m)) = set ord" using 2(3,4) by (auto simp: js_keys_delete)
    with 2(1)[OF True] 2(2,4) True show ?thesis
      by (auto simp: Suc_diff_le split: prod.splits dest!: in_set_dropD)
  qed (use 2 in auto)
qed auto

lemma generations_step:
  assumes "generations_ok n m ord" and "n < n'"
  shows "generations_ok n' (fst (pruneGenerations (js_set n p m) (ord @ [n])))
      (snd (pruneGenerations (js_set n p m) (ord @ [n])))"
    and "js_get (fst (pruneGenerations (js_set n p m) (ord @ [n]))) n = Some p"
    and "snd (pruneGenerations (js_set n p m) (ord @ [n])) = drop (length ord + 1 - SIGNED_PREKEY_GENERATIONS) (ord @ [n])"
proof -
  from assms have o: "js_ok (js_set n p m)" "set (js_keys (js_set n p m)) = set (ord @ [n])" "distinct (ord @ [n])"
    by (auto simp: generations_ok_def js_keys_set)
  obtain m' ord' where r: "pruneGenerations (js_set n p m) (ord @ [n]) = (m', ord')"
    by (cases "pruneGenerations (js_set n p m) (ord @ [n])")
  from prune_keeps[OF o] r have p': "ord' = drop (length ord + 1 - SIGNED_PREKEY_GENERATIONS) (ord @ [n])"
    "js_ok m'" "set (js_keys m') = set ord'" "\<forall>i \<in> set ord'. js_get m' i = js_get (js_set n p m) i" by auto
  have last: "n \<in> set ord'" using p'(1)
    by (simp add: SIGNED_PREKEY_GENERATIONS_def)
  have "\<forall>i \<in> set ord'. i < n'" using p'(1) assms by (auto simp: generations_ok_def dest!: in_set_dropD)
  moreover have "length ord' \<le> SIGNED_PREKEY_GENERATIONS" using p'(1) by simp
  moreover have "distinct ord'" unfolding p'(1) using o(3) by (rule distinct_drop)
  ultimately show "generations_ok n' (fst (pruneGenerations (js_set n p m) (ord @ [n])))
      (snd (pruneGenerations (js_set n p m) (ord @ [n])))"
    using r p'(2,3) \<open>distinct ord'\<close> by (simp add: generations_ok_def)
  show "js_get (fst (pruneGenerations (js_set n p m) (ord @ [n]))) n = Some p"
    using r p'(4) last by simp
  show "snd (pruneGenerations (js_set n p m) (ord @ [n])) = drop (length ord + 1 - SIGNED_PREKEY_GENERATIONS) (ord @ [n])"
    using r p'(1) by simp
qed

lemma pool_mono: "pool_ok n m ks \<Longrightarrow> n \<le> n' \<Longrightarrow> pool_ok n' m ks"
  by (auto simp: pool_ok_def)

lemma generations_mono: "generations_ok n m ord \<Longrightarrow> n \<le> n' \<Longrightarrow> generations_ok n' m ord"
  by (auto simp: generations_ok_def)

lemma store_secrets_facts:
  "js_ok m \<Longrightarrow> js_ok (store_secrets ks m) \<and>
    fst ` set (store_secrets ks m) = fst ` set m \<union> (otk_id \<circ> fst) ` set ks \<and>
    (\<forall>i. i \<notin> (otk_id \<circ> fst) ` set ks \<longrightarrow> js_get (store_secrets ks m) i = js_get m i)"
proof (induction ks m rule: store_secrets.induct)
  case (2 p s ks m)
  then show ?case by (auto simp: js_keys_set)
qed simp

lemma js_get_ex: "(\<exists>p. js_get m i = Some p) \<longleftrightarrow> i \<in> fst ` set m"
  using js_get_None_iff[of m i] by auto

text \<open>A batch of new keys with consecutive identifiers from the next one.\<close>

lemma pool_extend:
  assumes ok: "pool_ok n m ks" and new: "map (otk_id \<circ> fst) new = map (\<lambda>i. n + int i) [0..<c]"
  shows "pool_ok (n + int c) (store_secrets new m) (ks @ map fst new)"
proof -
  have ids: "(\<lambda>x. otk_id (fst x)) ` set new = (\<lambda>i. n + int i) ` {0..<c}"
    using arg_cong[OF new, of set] by (simp add: o_def)
  have fresh: "\<forall>k \<in> set ks. otk_id k < n"
    using ok by (force simp: pool_ok_def dest!: map_of_SomeD)
  note st = store_secrets_facts[of m new]
  have "distinct (map otk_id (ks @ map fst new))"
    using ok fresh ids new by (auto simp: pool_ok_def distinct_map o_def inj_on_def)
  moreover have "\<forall>k \<in> set (ks @ map fst new). \<exists>p. js_get (store_secrets new m) (otk_id k) = Some p"
    using ok st by (auto simp: pool_ok_def js_get_ex)
  moreover have "\<forall>i \<in> set (js_keys (store_secrets new m)). i < n + int c"
    using ok st ids by (auto simp: pool_ok_def)
  moreover have "js_ok (store_secrets new m)" using ok st by (simp add: pool_ok_def)
  ultimately show ?thesis unfolding pool_ok_def by blast
qed

lemma otk_ids [simp]:
  "map (otk_id \<circ> fst) (createOneTimePreKeys N fs n c) = map (\<lambda>i. n + int i) [0..<c]"
  "map (otk_id \<circ> fst) (createOneTimeKemPreKeys N fs n c) = map (\<lambda>i. n + int i) [0..<c]"
  by (simp_all add: createOneTimePreKeys_def createOneTimeKemPreKeys_def Let_def o_def)

lemma replenish_ok:
  assumes "store_ok s"
  shows "store_ok (snd (replenishOneTimePreKeys N fs gs c s))"
proof -
  let ?n = "nextId s"
  have a: "pool_ok (?n + int c) (store_secrets (createOneTimePreKeys N fs ?n c) (oneTimePreKeys s))
      (publishedOneTime s @ map fst (createOneTimePreKeys N fs ?n c))"
    using assms by (intro pool_extend) (simp_all add: store_ok_def)
  have b: "pool_ok (?n + int c + int c)
      (store_secrets (createOneTimeKemPreKeys N gs (?n + int c) c) (oneTimeKemPreKeys s))
      (publishedOneTimeKem s @ map fst (createOneTimeKemPreKeys N gs (?n + int c) c))"
    using assms by (intro pool_extend) (simp_all add: store_ok_def pool_mono[of ?n])
  from assms pool_mono[OF a] b show ?thesis
    by (simp add: replenishOneTimePreKeys_def Let_def store_ok_def generations_mono[of ?n])
qed

lemma createSignedPreKey_id:
  "createSignedPreKey N f i kid = Inr (p, k) \<Longrightarrow> spk_id p = kid \<and> publicKey k = spk_public p"
  "createSignedKemPreKey N f i kid = Inr (p, k) \<Longrightarrow> spk_id p = kid \<and> publicKey k = spk_public p"
  by (auto simp: createSignedPreKey_def createSignedKemPreKey_def rbind_eq_Inr Let_def)

text \<open>
  A rotation that succeeds keeps the invariant, makes the two next identifiers current, and
  retains exactly the newest generations.
\<close>

lemma rotate_spec:
  assumes ok: "store_ok s" and r: "rotateSignedPreKeys N f1 f2 s = (Inr (), s')"
  shows "store_ok s' \<and> nextId s' = nextId s + 2 \<and>
    signedPreKeyOrder s' = drop (length (signedPreKeyOrder s) + 1 - SIGNED_PREKEY_GENERATIONS)
      (signedPreKeyOrder s @ [nextId s]) \<and>
    (\<exists>p k. currentSignedPreKey s' = Some p \<and> spk_id p = nextId s \<and>
      js_get (signedPreKeys s') (nextId s) = Some k \<and> publicKey k = spk_public p) \<and>
    (\<exists>p k. currentSignedKemPreKey s' = Some p \<and> spk_id p = nextId s + 1 \<and>
      js_get (signedKemPreKeys s') (nextId s + 1) = Some k \<and> publicKey k = spk_public p) \<and>
    oneTimePreKeys s' = oneTimePreKeys s \<and> oneTimeKemPreKeys s' = oneTimeKemPreKeys s \<and>
    publishedOneTime s' = publishedOneTime s \<and> publishedOneTimeKem s' = publishedOneTimeKem s"
proof -
  let ?n = "nextId s"
  obtain p k where 1: "createSignedPreKey N f1 (ps_identity s) ?n = Inr (p, k)"
    using r by (auto simp: rotateSignedPreKeys_def Let_def split: sum.splits)
  with r obtain q l where 2: "createSignedKemPreKey N f2 (ps_identity s) (?n + 1) = Inr (q, l)"
    by (auto simp: rotateSignedPreKeys_def Let_def split: sum.splits)
  note ids = createSignedPreKey_id(1)[OF 1] createSignedPreKey_id(2)[OF 2]
  have g: "generations_ok ?n (signedPreKeys s) (signedPreKeyOrder s)"
    "generations_ok (?n + 1) (signedKemPreKeys s) (signedKemPreKeyOrder s)"
    using ok by (auto simp: store_ok_def elim: generations_mono)
  note g1 = generations_step[OF g(1), of "?n + 2" k, simplified]
  note g2 = generations_step[OF g(2), of "?n + 2" l, simplified]
  have "nextId s' = ?n + 2 \<and>
      signedPreKeys s' = fst (pruneGenerations (js_set ?n k (signedPreKeys s)) (signedPreKeyOrder s @ [?n])) \<and>
      signedPreKeyOrder s' = snd (pruneGenerations (js_set ?n k (signedPreKeys s)) (signedPreKeyOrder s @ [?n])) \<and>
      currentSignedPreKey s' = Some p \<and>
      signedKemPreKeys s' = fst (pruneGenerations (js_set (?n + 1) l (signedKemPreKeys s)) (signedKemPreKeyOrder s @ [?n + 1])) \<and>
      signedKemPreKeyOrder s' = snd (pruneGenerations (js_set (?n + 1) l (signedKemPreKeys s)) (signedKemPreKeyOrder s @ [?n + 1])) \<and>
      currentSignedKemPreKey s' = Some q \<and>
      oneTimePreKeys s' = oneTimePreKeys s \<and> oneTimeKemPreKeys s' = oneTimeKemPreKeys s \<and>
      publishedOneTime s' = publishedOneTime s \<and> publishedOneTimeKem s' = publishedOneTimeKem s"
    using r 1 2 ids by (auto simp: rotateSignedPreKeys_def Let_def split: prod.splits)
  moreover have "pool_ok (?n + 2) (oneTimePreKeys s) (publishedOneTime s)"
    "pool_ok (?n + 2) (oneTimeKemPreKeys s) (publishedOneTimeKem s)"
    using ok by (auto simp: store_ok_def elim: pool_mono)
  ultimately show ?thesis using g1 g2 ids by (simp add: store_ok_def)
qed

lemma empty_store_ok: "store_ok (empty_store i)"
  by (simp add: store_ok_def empty_store_def generations_ok_def pool_ok_def)

lemma new_store_ok: "new_store N f1 f2 fs gs i = Inr s \<Longrightarrow> store_ok s"
  using rotate_spec[OF empty_store_ok[of i], of N f1 f2] replenish_ok
  by (auto simp: new_store_def split: prod.splits sum.splits)

lemma consume_ok:
  "store_ok s \<Longrightarrow> store_ok (consumeOneTimePreKey i s)"
  "store_ok s \<Longrightarrow> store_ok (consumeOneTimeKemPreKey i s)"
  by (auto simp: store_ok_def pool_ok_def consumeOneTimePreKey_def consumeOneTimeKemPreKey_def
      js_keys_delete distinct_map inj_on_def)

lemma scrub_ok: "store_ok s \<Longrightarrow> store_ok (scrub bs s)"
  by (simp add: store_ok_def scrub_def pool_ok_def generations_ok_def) 

lemma issue_ok: "store_ok s \<Longrightarrow> store_ok (snd (issueBundle i s))"
  by (auto simp: issueBundle_def store_ok_def pool_ok_def shift_def Let_def split: list.splits)

section \<open>The life of a store\<close>

text \<open>
  The operations as steps; a step names the one-time identifiers it hands out in a bundle.
\<close>

inductive store_step :: "noble \<Rightarrow> prekey_store \<Rightarrow> int list \<Rightarrow> prekey_store \<Rightarrow> bool" for N where
  rotate: "rotateSignedPreKeys N f1 f2 s = (Inr (), s') \<Longrightarrow> store_step N s [] s'"
| replenish: "replenishOneTimePreKeys N fs gs c s = (r, s') \<Longrightarrow> store_step N s [] s'"
| issue: "issueBundle i s = (Some b, s') \<Longrightarrow>
    store_step N s (map otk_id (case oneTimePreKey b of None \<Rightarrow> [] | Some k \<Rightarrow> [k])) s'"
| consume: "store_step N s [] (consumeOneTimePreKey i s)"
| consume_kem: "store_step N s [] (consumeOneTimeKemPreKey i s)"
| wipe: "store_step N s [] (scrub bs s)"

inductive store_run :: "noble \<Rightarrow> prekey_store \<Rightarrow> int list \<Rightarrow> prekey_store \<Rightarrow> bool" for N where
  start: "store_run N s [] s"
| step: "store_run N s xs s' \<Longrightarrow> store_step N s' js s'' \<Longrightarrow> store_run N s (xs @ js) s''"

text \<open>Keys that are gone stay gone, and only published keys are handed out.\<close>

lemma replenish_new:
  assumes "replenishOneTimePreKeys N fs gs c s = (r, s')" and "store_ok s"
  shows "nextId s \<le> nextId s'"
    and "\<forall>i \<in> otk_id ` set (publishedOneTime s'). i \<in> otk_id ` set (publishedOneTime s) \<or> nextId s \<le> i"
    and "i < nextId s \<Longrightarrow> js_get (oneTimePreKeys s') i = js_get (oneTimePreKeys s) i"
proof -
  let ?new = "createOneTimePreKeys N fs (nextId s) c"
  have ids: "(\<lambda>x. otk_id (fst x)) ` set ?new = (\<lambda>i. nextId s + int i) ` {0..<c}"
    using arg_cong[OF otk_ids(1)[of N fs "nextId s" c], of set] by (simp add: o_def)
  have s': "nextId s' = nextId s + int c + int c" "publishedOneTime s' = publishedOneTime s @ map fst ?new"
    "oneTimePreKeys s' = store_secrets ?new (oneTimePreKeys s)"
    using assms(1) by (auto simp: replenishOneTimePreKeys_def Let_def)
  show "nextId s \<le> nextId s'" using s' by simp
  show "\<forall>i \<in> otk_id ` set (publishedOneTime s'). i \<in> otk_id ` set (publishedOneTime s) \<or> nextId s \<le> i"
  proof
    fix i assume "i \<in> otk_id ` set (publishedOneTime s')"
    then consider "i \<in> otk_id ` set (publishedOneTime s)" | "i \<in> (\<lambda>x. otk_id (fst x)) ` set ?new"
      unfolding s'(2) by auto
    then show "i \<in> otk_id ` set (publishedOneTime s) \<or> nextId s \<le> i"
      unfolding ids by cases auto
  qed
  show "i < nextId s \<Longrightarrow> js_get (oneTimePreKeys s') i = js_get (oneTimePreKeys s) i"
  proof -
    assume "i < nextId s"
    then have "i \<notin> (\<lambda>x. otk_id (fst x)) ` set ?new" unfolding ids by auto
    then show ?thesis
      using s'(3) store_secrets_facts[of "oneTimePreKeys s" ?new] assms(2)
      by (simp add: store_ok_def pool_ok_def o_def)
  qed
qed

definition handed_out :: "int set \<Rightarrow> prekey_store \<Rightarrow> bool" where
  "handed_out I s \<longleftrightarrow> (\<forall>i \<in> I. i < nextId s \<and> i \<notin> otk_id ` set (publishedOneTime s))"

lemma store_step_facts:
  assumes "store_step N s js s'" and "store_ok s"
  shows "store_ok s' \<and> nextId s \<le> nextId s' \<and> distinct js \<and>
    set js \<subseteq> otk_id ` set (publishedOneTime s) \<and>
    (handed_out I s \<longrightarrow> handed_out (I \<union> set js) s') \<and>
    (\<forall>i. i < nextId s \<longrightarrow> js_get (oneTimePreKeys s) i = None \<longrightarrow> js_get (oneTimePreKeys s') i = None)"
  using assms
proof (cases rule: store_step.cases)
  case (rotate f1 f2)
  with rotate_spec[OF assms(2) rotate(2)] show ?thesis by (auto simp: handed_out_def)
next
  case (replenish fs gs c r)
  note new = replenish_new[OF replenish(2) assms(2)]
  have "store_ok s'" using replenish_ok[OF assms(2), of N fs gs c] replenish(2) by simp
  moreover have "handed_out I s \<Longrightarrow> handed_out I s'" using new(1,2) by (fastforce simp: handed_out_def)
  ultimately show ?thesis using new replenish(1) by auto
next
  case (issue i b)
  have ok: "store_ok s'" using issue_ok[OF assms(2), of i] issue(2) by simp
  have old: "\<forall>k \<in> set (publishedOneTime s). otk_id k < nextId s" "distinct (map otk_id (publishedOneTime s))"
    using assms(2) by (force simp: store_ok_def pool_ok_def dest!: map_of_SomeD)+
  from issue(2) have "nextId s' = nextId s" "oneTimePreKeys s' = oneTimePreKeys s"
    "case publishedOneTime s of [] \<Rightarrow> oneTimePreKey b = None \<and> publishedOneTime s' = []
     | k # ks \<Rightarrow> oneTimePreKey b = Some k \<and> publishedOneTime s' = ks"
    by (auto simp: issueBundle_def shift_def Let_def split: list.splits option.splits prod.splits)
  with ok old issue(1) show ?thesis by (auto simp: handed_out_def split: list.splits)
next
  case (consume i)
  then show ?thesis using consume_ok(1)[OF assms(2)] by (auto simp: handed_out_def consumeOneTimePreKey_def)
next
  case (consume_kem i)
  then show ?thesis using consume_ok(2)[OF assms(2)] by (auto simp: handed_out_def consumeOneTimeKemPreKey_def)
next
  case (wipe bs)
  then show ?thesis using scrub_ok[OF assms(2)] by (auto simp: handed_out_def scrub_def)
qed

lemma store_run_facts:
  assumes "store_run N s xs s'" and "store_ok s"
  shows "store_ok s' \<and> nextId s \<le> nextId s' \<and> distinct xs \<and> handed_out (set xs) s' \<and>
    (\<forall>i. i < nextId s \<longrightarrow> js_get (oneTimePreKeys s) i = None \<longrightarrow> js_get (oneTimePreKeys s') i = None)"
  using assms
proof (induction rule: store_run.induct)
  case (start s)
  then show ?case by (simp add: handed_out_def)
next
  case (step s xs s' js s'')
  then have ih: "store_ok s'" "nextId s \<le> nextId s'" "distinct xs" "handed_out (set xs) s'"
    "\<forall>i. i < nextId s \<longrightarrow> js_get (oneTimePreKeys s) i = None \<longrightarrow> js_get (oneTimePreKeys s') i = None"
    by auto
  from store_step_facts[OF step.hyps(2) ih(1), of "set xs"] ih show ?case
    by (auto simp: handed_out_def)
qed

end
