(* ===== verification/Veil_Session.thy ===== *)
theory Veil_Session
  imports Veil_Ratchet Veil_Envelope Veil_Padding Veil_PreKeyStore
begin

text \<open>
  The session layer, packages/crypto/src/session.ts: starting a session, encrypting a message
  into a sealed envelope, decrypting an inbound envelope. A decryption returns its result, the
  existing session it mutated (if any) and the prekey store it left: a session object that the
  caller holds is changed in place, and the buffers a ratchet step wipes may belong to the store.
\<close>

section \<open>Data\<close>

record prekey_preamble =
  pre_ephemeralPublicKey :: bytes
  pre_kemCiphertext :: bytes
  pre_keyIds :: handshake_key_ids

record session =
  peerIdentity :: public_identity
  ratchet :: ratchet_state
  pendingPreKey :: "prekey_preamble option"
  establishedBy :: "bytes option"

record decrypted_message =
  senderIdentity :: public_identity
  dm_plaintext :: bytes
  dm_session :: session
  isNewSession :: bool

section \<open>Encodings\<close>

definition encodePreamble :: "prekey_preamble \<Rightarrow> bytes result" where
  "encodePreamble p = (let ids = pre_keyIds p in w_run
     [w_bytes (pre_ephemeralPublicKey p), w_bytes (pre_kemCiphertext p),
      w_u32 (signedPreKeyId ids), w_u32 (signedKemPreKeyId ids),
      w_u8 (if oneTimePreKeyId ids = None then 0 else 1), w_u32 (or_zero (oneTimePreKeyId ids)),
      w_u8 (if oneTimeKemPreKeyId ids = None then 0 else 1), w_u32 (or_zero (oneTimeKemPreKeyId ids))])"

definition decodePreamble :: "reader \<Rightarrow> (prekey_preamble \<times> reader) result" where
  "decodePreamble r =
     rbind (r_bytes r) (\<lambda>(e, r).
     rbind (r_bytes r) (\<lambda>(c, r).
     rbind (r_u32 r) (\<lambda>(spk, r).
     rbind (r_u32 r) (\<lambda>(kem, r).
     rbind (r_u8 r) (\<lambda>(hasOneTime, r).
     rbind (r_u32 r) (\<lambda>(oneTime, r).
     rbind (r_u8 r) (\<lambda>(hasKemOneTime, r).
     rbind (r_u32 r) (\<lambda>(kemOneTime, r).
     Inr (\<lparr>pre_ephemeralPublicKey = e, pre_kemCiphertext = c,
       pre_keyIds = \<lparr>signedPreKeyId = int spk, signedKemPreKeyId = int kem,
         oneTimePreKeyId = (if hasOneTime = 1 then Some (int oneTime) else None),
         oneTimeKemPreKeyId = (if hasKemOneTime = 1 then Some (int kemOneTime) else None)\<rparr>\<rparr>, r)))))))))"

definition encodeRatchetMessage :: "ratchet_message \<Rightarrow> bytes result" where
  "encodeRatchetMessage m = w_run
     [w_bytes (ratchetPublicKey (rm_header m)), w_u32 (int (previousChainLength (rm_header m))),
      w_u32 (int (messageNumber (rm_header m))), w_bytes (rm_ciphertext m)]"

definition decodeRatchetMessage :: "reader \<Rightarrow> (ratchet_message \<times> reader) result" where
  "decodeRatchetMessage r =
     rbind (r_bytes r) (\<lambda>(k, r).
     rbind (r_u32 r) (\<lambda>(p, r).
     rbind (r_u32 r) (\<lambda>(n, r).
     rbind (r_bytes r) (\<lambda>(c, r).
     Inr (\<lparr>rm_header = \<lparr>ratchetPublicKey = k, previousChainLength = p, messageNumber = n\<rparr>,
          rm_ciphertext = c\<rparr>, r)))))"

section \<open>Starting a session\<close>

definition identity_changed :: "noble \<Rightarrow> bytes \<Rightarrow> string result \<Rightarrow> 'a result" where
  "identity_changed N expected observed =
     rbind (addressOfKey N expected) (\<lambda>a. rbind observed (\<lambda>b. Inl (IdentityChangedError a b)))"

definition check_fingerprint :: "noble \<Rightarrow> bytes option \<Rightarrow> bytes \<Rightarrow> string result \<Rightarrow> unit result" where
  "check_fingerprint N pinned key observed = (case pinned of None \<Rightarrow> Inr ()
     | Some fp \<Rightarrow> if constantTimeEqual fp key then Inr () else identity_changed N fp observed)"

definition startSession ::
  "noble \<Rightarrow> fresh \<Rightarrow> bytes \<Rightarrow> fresh \<Rightarrow> private_identity \<Rightarrow> prekey_bundle \<Rightarrow> bytes option \<Rightarrow> session result" where
  "startSession N f1 coins f2 self bundle expectedFingerprint =
     rbind (check_fingerprint N expectedFingerprint (signingPublicKey (identity bundle))
       (addressOf N (identity bundle))) (\<lambda>_.
     rbind (initiateHandshake N f1 coins self bundle) (\<lambda>h.
     rbind (initialiseInitiator N f2 (rootSecret h) (spk_public (signedPreKey bundle)) (hs_associatedData h)) (\<lambda>rs.
     Inr \<lparr>peerIdentity = identity bundle, ratchet = rs,
       pendingPreKey = Some \<lparr>pre_ephemeralPublicKey = hs_ephemeralPublicKey h,
         pre_kemCiphertext = hs_kemCiphertext h, pre_keyIds = hs_keyIds h\<rparr>,
       establishedBy = None\<rparr>)))"

section \<open>Sending\<close>

definition message_payload :: "prekey_preamble option \<Rightarrow> bytes \<Rightarrow> bytes result" where
  "message_payload pending body = (case pending of
       Some p \<Rightarrow> rbind (encodePreamble p) (\<lambda>e. w_run [w_fixed e, w_bytes body])
     | None \<Rightarrow> Inr body)"

definition encryptMessage ::
  "noble \<Rightarrow> fresh \<Rightarrow> private_identity \<Rightarrow> session \<Rightarrow> bytes \<Rightarrow> sealed_envelope result \<times> session" where
  "encryptMessage N f self s plaintext =
     (case pad plaintext of Inl e \<Rightarrow> (Inl e, s)
      | Inr padded \<Rightarrow>
     (case ratchetEncrypt N (ratchet s) padded of (m, rs) \<Rightarrow>
      let s1 = s\<lparr>ratchet := rs\<rparr> in
      (rbind m (\<lambda>message.
       rbind (encodeRatchetMessage message) (\<lambda>body.
       rbind (message_payload (pendingPreKey s1) body) (\<lambda>payload.
       sealEnvelope N f (sign N (secretKey (signing self))) (publicIdentityOf self) (peerIdentity s1)
         (if pendingPreKey s1 \<noteq> None then PAYLOAD_PREKEY else PAYLOAD_RATCHET) payload))), s1)))"

section \<open>Receiving\<close>

text \<open>The keys a prekey message names; an unknown one is refused.\<close>

definition lookup_signed :: "keypair option \<Rightarrow> keypair result" where
  "lookup_signed k = (case k of None \<Rightarrow> Inl SessionStateError | Some p \<Rightarrow> Inr p)"

definition lookup_one_time :: "(int \<Rightarrow> keypair option) \<Rightarrow> int option \<Rightarrow> keypair option result" where
  "lookup_one_time get i = (case i of None \<Rightarrow> Inr None
     | Some j \<Rightarrow> (case get j of None \<Rightarrow> Inl SessionStateError | Some p \<Rightarrow> Inr (Some p)))"

text \<open>The handshake of a prekey message: the responder's session before its first message.\<close>

definition accept_handshake ::
  "'s resolver \<Rightarrow> noble \<Rightarrow> private_identity \<Rightarrow> public_identity \<Rightarrow> prekey_preamble \<Rightarrow> 's \<Rightarrow> session result" where
  "accept_handshake R N self sender p s = (let ids = pre_keyIds p in
     rbind (lookup_signed (res_signedPreKey R s (signedPreKeyId ids))) (\<lambda>spk.
     rbind (lookup_signed (res_signedKemPreKey R s (signedKemPreKeyId ids))) (\<lambda>kem.
     rbind (lookup_one_time (res_oneTimePreKey R s) (oneTimePreKeyId ids)) (\<lambda>oneTime.
     rbind (lookup_one_time (res_oneTimeKemPreKey R s) (oneTimeKemPreKeyId ids)) (\<lambda>kemOneTime.
     rbind (respondToHandshake N self
       \<lparr>ri_initiatorIdentity = sender, ri_ephemeralPublicKey = pre_ephemeralPublicKey p,
        ri_kemCiphertext = pre_kemCiphertext p, ri_keyIds = ids,
        ri_signedPreKeySecret = secretKey spk, ri_signedKemPreKeySecret = secretKey kem,
        ri_oneTimePreKeySecret = map_option secretKey oneTime,
        ri_oneTimeKemPreKeySecret = map_option secretKey kemOneTime\<rparr>) (\<lambda>(root, ad).
     Inr \<lparr>peerIdentity = sender, ratchet = initialiseResponder root spk ad,
          pendingPreKey = None, establishedBy = Some (pre_ephemeralPublicKey p)\<rparr>))))))"

definition consume_named :: "'s resolver \<Rightarrow> handshake_key_ids \<Rightarrow> 's \<Rightarrow> 's" where
  "consume_named R ids s =
     (let s1 = (case oneTimePreKeyId ids of None \<Rightarrow> s | Some i \<Rightarrow> res_consumeOneTimePreKey R i s)
      in case oneTimeKemPreKeyId ids of None \<Rightarrow> s1 | Some i \<Rightarrow> res_consumeOneTimeKemPreKey R i s1)"

text \<open>A message for an existing session: the repeated handshake, and the plain ratchet message.\<close>

definition decrypt_existing ::
  "'s resolver \<Rightarrow> noble \<Rightarrow> fresh \<Rightarrow> public_identity \<Rightarrow> session \<Rightarrow> ratchet_message \<Rightarrow> bool \<Rightarrow> 's \<Rightarrow>
   decrypted_message result \<times> session option \<times> 's" where
  "decrypt_existing R N f sender old m stop s =
     (case ratchetDecrypt N f (ratchet old) m of (r, rs) \<Rightarrow>
      let s1 = res_wiped R (retired rs) s; old1 = old\<lparr>ratchet := rs\<rparr> in
      case r of Inl e \<Rightarrow> (Inl e, Some old1, s1)
      | Inr padded \<Rightarrow>
        let old2 = (if stop then old1\<lparr>pendingPreKey := None\<rparr> else old1) in
        (rbind (unpad padded) (\<lambda>plaintext.
          Inr \<lparr>senderIdentity = sender, dm_plaintext = plaintext, dm_session = old2, isNewSession = False\<rparr>),
         Some old2, s1))"

definition decrypt_new ::
  "'s resolver \<Rightarrow> noble \<Rightarrow> fresh \<Rightarrow> private_identity \<Rightarrow> public_identity \<Rightarrow> prekey_preamble \<Rightarrow> bytes \<Rightarrow> 's \<Rightarrow>
   decrypted_message result \<times> session option \<times> 's" where
  "decrypt_new R N f self sender p body s =
     (case accept_handshake R N self sender p s of Inl e \<Rightarrow> (Inl e, None, s)
      | Inr new \<Rightarrow>
     (case decodeRatchetMessage (new_reader body) of Inl e \<Rightarrow> (Inl e, None, s)
      | Inr (m, _) \<Rightarrow>
     (case ratchetDecrypt N f (ratchet new) m of (r, rs) \<Rightarrow>
      let s1 = res_wiped R (retired rs) s; new1 = new\<lparr>ratchet := rs\<rparr> in
      case r of Inl e \<Rightarrow> (Inl e, None, s1)
      | Inr padded \<Rightarrow>
        (rbind (unpad padded) (\<lambda>plaintext.
          Inr \<lparr>senderIdentity = sender, dm_plaintext = plaintext, dm_session = new1, isNewSession = True\<rparr>),
         None, consume_named R (pre_keyIds p) s1))))"

definition same_handshake :: "session option \<Rightarrow> prekey_preamble \<Rightarrow> bool" where
  "same_handshake existing p = (case existing of None \<Rightarrow> False
     | Some old \<Rightarrow> (case establishedBy old of None \<Rightarrow> False
         | Some e \<Rightarrow> constantTimeEqual e (pre_ephemeralPublicKey p)))"

lemma decrypt_new_established:
  "decrypt_new R N f self sender p body s = (Inr dm, t, s') \<Longrightarrow>
   establishedBy (dm_session dm) = Some (pre_ephemeralPublicKey p)"
  by (auto simp: decrypt_new_def accept_handshake_def Let_def rbind_eq_Inr split: sum.splits prod.splits)

definition decode_prekey_payload :: "bytes \<Rightarrow> (prekey_preamble \<times> bytes) result" where
  "decode_prekey_payload payload =
     rbind (decodePreamble (new_reader payload)) (\<lambda>(p, r).
     rbind (r_bytes r) (\<lambda>(body, r).
     rbind (r_end r) (\<lambda>_. Inr (p, body))))"

definition decode_ratchet_payload :: "bytes \<Rightarrow> ratchet_message result" where
  "decode_ratchet_payload payload =
     rbind (decodeRatchetMessage (new_reader payload)) (\<lambda>(m, r). rbind (r_end r) (\<lambda>_. Inr m))"

definition decrypt_opened ::
  "'s resolver \<Rightarrow> noble \<Rightarrow> fresh \<Rightarrow> private_identity \<Rightarrow> opened_envelope \<Rightarrow> session option \<Rightarrow> 's \<Rightarrow>
   decrypted_message result \<times> session option \<times> 's" where
  "decrypt_opened R N f self opened existing s =
     (if oe_payloadKind opened = PAYLOAD_PREKEY then
        (case decode_prekey_payload (oe_payload opened) of Inl e \<Rightarrow> (Inl e, None, s)
         | Inr (p, body) \<Rightarrow>
           if same_handshake existing p then
             (case decodeRatchetMessage (new_reader body) of Inl e \<Rightarrow> (Inl e, None, s)
              | Inr (m, _) \<Rightarrow>
                decrypt_existing R N f (oe_senderIdentity opened) (the existing) m False s)
           else decrypt_new R N f self (oe_senderIdentity opened) p body s)
      else if oe_payloadKind opened \<noteq> PAYLOAD_RATCHET then (Inl MalformedInputError, None, s)
      else (case existing of None \<Rightarrow> (Inl SessionStateError, None, s)
        | Some old \<Rightarrow>
          (case decode_ratchet_payload (oe_payload opened) of Inl e \<Rightarrow> (Inl e, None, s)
           | Inr m \<Rightarrow> decrypt_existing R N f (oe_senderIdentity opened) old m True s)))"

text \<open>\<open>lookupSession\<close> and \<open>pinnedIdentityKey\<close> are callbacks on the sender's address.\<close>

definition open_checked ::
  "noble \<Rightarrow> private_identity \<Rightarrow> sealed_envelope \<Rightarrow> (string \<Rightarrow> bytes option) \<Rightarrow> (opened_envelope \<times> string) result" where
  "open_checked N self envelope pinnedIdentityKey =
     rbind (addressOf N (publicIdentityOf self)) (\<lambda>own.
     rbind (openEnvelope N (secretKey (exchange self)) (publicKey (exchange self)) own envelope) (\<lambda>opened.
     rbind (addressOf N (oe_senderIdentity opened)) (\<lambda>senderAddress.
     rbind (check_fingerprint N (pinnedIdentityKey senderAddress)
       (signingPublicKey (oe_senderIdentity opened)) (Inr senderAddress)) (\<lambda>_.
     Inr (opened, senderAddress)))))"

definition decryptEnvelope ::
  "'s resolver \<Rightarrow> noble \<Rightarrow> fresh \<Rightarrow> private_identity \<Rightarrow> sealed_envelope \<Rightarrow> (string \<Rightarrow> session option) \<Rightarrow>
   (string \<Rightarrow> bytes option) \<Rightarrow> 's \<Rightarrow> decrypted_message result \<times> session option \<times> 's" where
  "decryptEnvelope R N f self envelope lookupSession pinnedIdentityKey s =
     (case open_checked N self envelope pinnedIdentityKey of Inl e \<Rightarrow> (Inl e, None, s)
      | Inr (opened, senderAddress) \<Rightarrow>
        decrypt_opened R N f self opened (lookupSession senderAddress) s)"

definition destroySession :: "session \<Rightarrow> session" where
  "destroySession s = s\<lparr>ratchet := destroyRatchet (ratchet s)\<rparr>"

section \<open>The encodings round trip\<close>

lemma r_u32_image:
  assumes "fits_u32 v" and "reader_ok r" and "r_rest r = be_bytes 4 (nat v) @ ys"
  shows "\<exists>r'. r_u32 r = Inr (nat v, r') \<and> reader_ok r' \<and> r_rest r' = ys"
proof -
  have "nat v \<le> 0xffffffff" using assms(1) unfolding fits_u32_def by linarith
  then show ?thesis using u32c.scan_image[of "nat v" r ys] assms(2,3) by blast
qed

lemma r_flag_image:
  assumes "reader_ok r" and "r_rest r = (if b then 0 else 1) # ys"
  shows "\<exists>r'. r_u8 r = Inr (if b then 0 else 1, r') \<and> reader_ok r' \<and> r_rest r' = ys"
  using u8c.scan_image[of "if b then 0 else 1" r ys] assms by (cases b) auto

lemma encodePreamble_eq:
  "encodePreamble p = (if fits_len (pre_ephemeralPublicKey p) \<and> fits_len (pre_kemCiphertext p) \<and> ids_fit (pre_keyIds p)
     then Inr (image_bytes (pre_ephemeralPublicKey p) @ image_bytes (pre_kemCiphertext p) @ image_ids (pre_keyIds p))
     else Inl MalformedInputError)"
  using w_run_writes[of "[w_bytes (pre_ephemeralPublicKey p), w_bytes (pre_kemCiphertext p),
      w_u32 (signedPreKeyId (pre_keyIds p)), w_u32 (signedKemPreKeyId (pre_keyIds p)),
      w_u8 (if oneTimePreKeyId (pre_keyIds p) = None then 0 else 1), w_u32 (or_zero (oneTimePreKeyId (pre_keyIds p))),
      w_u8 (if oneTimeKemPreKeyId (pre_keyIds p) = None then 0 else 1), w_u32 (or_zero (oneTimeKemPreKeyId (pre_keyIds p)))]"
     "[(fits_len (pre_ephemeralPublicKey p), image_bytes (pre_ephemeralPublicKey p)),
       (fits_len (pre_kemCiphertext p), image_bytes (pre_kemCiphertext p)),
       (fits_u32 (signedPreKeyId (pre_keyIds p)), be_bytes 4 (nat (signedPreKeyId (pre_keyIds p)))),
       (fits_u32 (signedKemPreKeyId (pre_keyIds p)), be_bytes 4 (nat (signedKemPreKeyId (pre_keyIds p)))),
       (True, [if oneTimePreKeyId (pre_keyIds p) = None then 0 else 1]),
       (fits_u32 (or_zero (oneTimePreKeyId (pre_keyIds p))), be_bytes 4 (nat (or_zero (oneTimePreKeyId (pre_keyIds p))))),
       (True, [if oneTimeKemPreKeyId (pre_keyIds p) = None then 0 else 1]),
       (fits_u32 (or_zero (oneTimeKemPreKeyId (pre_keyIds p))), be_bytes 4 (nat (or_zero (oneTimeKemPreKeyId (pre_keyIds p)))))]"]
  by (simp add: encodePreamble_def Let_def ids_fit_def image_ids_def writes_bytes writes_u32 writes_flag
      del: zero_neq_one one_neq_zero)

lemma decodePreamble_image:
  assumes fits: "fits_len (pre_ephemeralPublicKey p)" "fits_len (pre_kemCiphertext p)" "ids_fit (pre_keyIds p)"
    and r: "reader_ok r" "r_rest r = image_bytes (pre_ephemeralPublicKey p) @ image_bytes (pre_kemCiphertext p) @
      image_ids (pre_keyIds p) @ ys"
  shows "\<exists>r'. decodePreamble r = Inr (p, r') \<and> reader_ok r' \<and> r_rest r' = ys"
proof -
  let ?i = "pre_keyIds p"
  have f: "fits_u32 (signedPreKeyId ?i)" "fits_u32 (signedKemPreKeyId ?i)"
    "fits_u32 (or_zero (oneTimePreKeyId ?i))" "fits_u32 (or_zero (oneTimeKemPreKeyId ?i))"
    using fits(3) by (simp_all add: ids_fit_def)
  obtain r1 where 1: "r_bytes r = Inr (pre_ephemeralPublicKey p, r1)" "reader_ok r1"
    "r_rest r1 = image_bytes (pre_kemCiphertext p) @ image_ids ?i @ ys"
    using bytesc.scan_image[OF fits(1) r] by auto
  obtain r2 where 2: "r_bytes r1 = Inr (pre_kemCiphertext p, r2)" "reader_ok r2" "r_rest r2 = image_ids ?i @ ys"
    using bytesc.scan_image[OF fits(2) 1(2,3)] by auto
  note 2(3)[unfolded image_ids_def append.assoc]
  from r_u32_image[OF f(1) 2(2) this] obtain r3 where 3: "r_u32 r2 = Inr (nat (signedPreKeyId ?i), r3)" "reader_ok r3"
    "r_rest r3 = be_bytes 4 (nat (signedKemPreKeyId ?i)) @ (if oneTimePreKeyId ?i = None then 0 else 1) #
      be_bytes 4 (nat (or_zero (oneTimePreKeyId ?i))) @ (if oneTimeKemPreKeyId ?i = None then 0 else 1) #
      be_bytes 4 (nat (or_zero (oneTimeKemPreKeyId ?i))) @ ys" by auto
  from r_u32_image[OF f(2) 3(2,3)] obtain r4 where 4: "r_u32 r3 = Inr (nat (signedKemPreKeyId ?i), r4)" "reader_ok r4"
    "r_rest r4 = (if oneTimePreKeyId ?i = None then 0 else 1) #
      be_bytes 4 (nat (or_zero (oneTimePreKeyId ?i))) @ (if oneTimeKemPreKeyId ?i = None then 0 else 1) #
      be_bytes 4 (nat (or_zero (oneTimeKemPreKeyId ?i))) @ ys" by blast
  from r_flag_image[OF 4(2,3)] obtain r5 where
    5: "r_u8 r4 = Inr (if oneTimePreKeyId ?i = None then 0 else 1, r5)" "reader_ok r5"
    "r_rest r5 = be_bytes 4 (nat (or_zero (oneTimePreKeyId ?i))) @ (if oneTimeKemPreKeyId ?i = None then 0 else 1) #
      be_bytes 4 (nat (or_zero (oneTimeKemPreKeyId ?i))) @ ys" by blast
  from r_u32_image[OF f(3) 5(2,3)] obtain r6 where 6: "r_u32 r5 = Inr (nat (or_zero (oneTimePreKeyId ?i)), r6)"
    "reader_ok r6" "r_rest r6 = (if oneTimeKemPreKeyId ?i = None then 0 else 1) #
      be_bytes 4 (nat (or_zero (oneTimeKemPreKeyId ?i))) @ ys" by blast
  from r_flag_image[OF 6(2,3)] obtain r7 where
    7: "r_u8 r6 = Inr (if oneTimeKemPreKeyId ?i = None then 0 else 1, r7)" "reader_ok r7"
    "r_rest r7 = be_bytes 4 (nat (or_zero (oneTimeKemPreKeyId ?i))) @ ys" by blast
  from r_u32_image[OF f(4) 7(2,3)] obtain r8 where 8: "r_u32 r7 = Inr (nat (or_zero (oneTimeKemPreKeyId ?i)), r8)"
    "reader_ok r8" "r_rest r8 = ys" by blast
  have nn: "0 \<le> signedPreKeyId ?i" "0 \<le> signedKemPreKeyId ?i" "0 \<le> or_zero (oneTimePreKeyId ?i)"
    "0 \<le> or_zero (oneTimeKemPreKeyId ?i)" using f by (simp_all add: fits_u32_def)
  have "decodePreamble r = Inr (p, r8)"
    using 1(1) 2(1) 3(1) 4(1) 5(1) 6(1) 7(1) 8(1) nn
    by (cases p; cases ?i; cases "oneTimePreKeyId ?i"; cases "oneTimeKemPreKeyId ?i")
      (simp_all add: decodePreamble_def)
  with 8 show ?thesis by blast
qed

definition message_fits :: "ratchet_message \<Rightarrow> bool" where
  "message_fits m \<longleftrightarrow> fits_len (ratchetPublicKey (rm_header m)) \<and> previousChainLength (rm_header m) \<le> 0xffffffff \<and>
     messageNumber (rm_header m) \<le> 0xffffffff \<and> fits_len (rm_ciphertext m)"

definition image_message :: "ratchet_message \<Rightarrow> bytes" where
  "image_message m = image_bytes (ratchetPublicKey (rm_header m)) @ be_bytes 4 (previousChainLength (rm_header m)) @
     be_bytes 4 (messageNumber (rm_header m)) @ image_bytes (rm_ciphertext m)"

lemma encodeRatchetMessage_eq:
  "encodeRatchetMessage m = (if message_fits m then Inr (image_message m) else Inl MalformedInputError)"
  using w_run_writes[of "[w_bytes (ratchetPublicKey (rm_header m)), w_u32 (int (previousChainLength (rm_header m))),
      w_u32 (int (messageNumber (rm_header m))), w_bytes (rm_ciphertext m)]"
    "[(fits_len (ratchetPublicKey (rm_header m)), image_bytes (ratchetPublicKey (rm_header m))),
      (previousChainLength (rm_header m) \<le> 0xffffffff, be_bytes 4 (previousChainLength (rm_header m))),
      (messageNumber (rm_header m) \<le> 0xffffffff, be_bytes 4 (messageNumber (rm_header m))),
      (fits_len (rm_ciphertext m), image_bytes (rm_ciphertext m))]"]
    u32c.emit_writes[of "previousChainLength (rm_header m)"] u32c.emit_writes[of "messageNumber (rm_header m)"]
  by (simp add: encodeRatchetMessage_def message_fits_def image_message_def writes_bytes)

lemma decodeRatchetMessage_image:
  assumes fits: "message_fits m" and r: "reader_ok r" "r_rest r = image_message m @ ys"
  shows "\<exists>r'. decodeRatchetMessage r = Inr (m, r') \<and> reader_ok r' \<and> r_rest r' = ys"
proof -
  let ?h = "rm_header m"
  have f: "fits_len (ratchetPublicKey ?h)" "previousChainLength ?h \<le> 0xffffffff" "messageNumber ?h \<le> 0xffffffff"
    "fits_len (rm_ciphertext m)" using fits by (simp_all only: message_fits_def)
  from bytesc.scan_image[OF f(1) r(1), of "be_bytes 4 (previousChainLength ?h) @ be_bytes 4 (messageNumber ?h) @
      image_bytes (rm_ciphertext m) @ ys"] r(2) obtain r1 where 1: "r_bytes r = Inr (ratchetPublicKey ?h, r1)" "reader_ok r1"
    "r_rest r1 = be_bytes 4 (previousChainLength ?h) @ be_bytes 4 (messageNumber ?h) @ image_bytes (rm_ciphertext m) @ ys"
    by (auto simp: image_message_def)
  from u32c.scan_image[OF f(2) 1(2,3)] obtain r2 where 2: "r_u32 r1 = Inr (previousChainLength ?h, r2)" "reader_ok r2"
    "r_rest r2 = be_bytes 4 (messageNumber ?h) @ image_bytes (rm_ciphertext m) @ ys" by blast
  from u32c.scan_image[OF f(3) 2(2,3)] obtain r3 where 3: "r_u32 r2 = Inr (messageNumber ?h, r3)" "reader_ok r3"
    "r_rest r3 = image_bytes (rm_ciphertext m) @ ys" by blast
  from bytesc.scan_image[OF f(4) 3(2,3)] obtain r4 where 4: "r_bytes r3 = Inr (rm_ciphertext m, r4)" "reader_ok r4"
    "r_rest r4 = ys" by blast
  have "decodeRatchetMessage r = Inr (m, r4)" using 1 2 3 4
    by (cases m; cases ?h) (simp add: decodeRatchetMessage_def)
  with 4 show ?thesis by blast
qed

lemma r_end_of: "reader_ok r \<Longrightarrow> r_rest r = [] \<Longrightarrow> r_end r = Inr ()"
  by (simp add: r_end_rest)

text \<open>What the sender packs, the receiver unpacks.\<close>

lemma decode_prekey_payload_image:
  assumes "message_payload (Some p) body = Inr payload"
  shows "decode_prekey_payload payload = Inr (p, body)"
proof -
  obtain e where e: "encodePreamble p = Inr e" "w_run [w_fixed e, w_bytes body] = Inr payload"
    using assms by (auto simp: message_payload_def rbind_eq_Inr)
  then have f: "fits_len (pre_ephemeralPublicKey p)" "fits_len (pre_kemCiphertext p)" "ids_fit (pre_keyIds p)"
    and ei: "e = image_bytes (pre_ephemeralPublicKey p) @ image_bytes (pre_kemCiphertext p) @ image_ids (pre_keyIds p)"
    by (auto simp: encodePreamble_eq split: if_splits)
  from e(2) have b: "fits_len body" "payload = e @ image_bytes body"
    using w_run_writes[of "[w_fixed e, w_bytes body]" "[(True, e), (fits_len body, image_bytes body)]"]
    by (auto simp: writes_fixed writes_bytes split: if_splits)
  obtain r1 where 1: "decodePreamble (new_reader payload) = Inr (p, r1)" "reader_ok r1" "r_rest r1 = image_bytes body"
    using decodePreamble_image[OF f new_reader_ok(1), of payload "image_bytes body"] b(2) ei by auto
  obtain r2 where "r_bytes r1 = Inr (body, r2)" "reader_ok r2" "r_rest r2 = []"
    using bytesc.scan_image[OF b(1) 1(2), of "[]"] 1(3) by auto
  with 1 show ?thesis by (simp add: decode_prekey_payload_def r_end_of)
qed

lemma decode_message_image:
  assumes "encodeRatchetMessage m = Inr body"
  shows "\<exists>r. decodeRatchetMessage (new_reader body) = Inr (m, r)" and "decode_ratchet_payload body = Inr m"
proof -
  obtain r where "decodeRatchetMessage (new_reader body) = Inr (m, r)" "reader_ok r" "r_rest r = []"
    using decodeRatchetMessage_image[OF _ new_reader_ok(1), of m body "[]"] assms
    by (auto simp: encodeRatchetMessage_eq split: if_splits)
  then show "\<exists>r. decodeRatchetMessage (new_reader body) = Inr (m, r)" "decode_ratchet_payload body = Inr m"
    by (auto simp: decode_ratchet_payload_def r_end_of)
qed

section \<open>Identities whose keys belong together\<close>

definition identity_ok :: "noble \<Rightarrow> private_identity \<Rightarrow> bool" where
  "identity_ok N i \<longleftrightarrow> dh_pair N (exchange i) \<and> length (secretKey (signing i)) = 32 \<and>
     publicKey (signing i) = ed25519_public N (secretKey (signing i)) \<and>
     verifyIdentityBinding N (publicIdentityOf i) = Inr True"

lemma publicIdentityOf_fields [simp]:
  "signingPublicKey (publicIdentityOf i) = publicKey (signing i)"
  "exchangePublicKey (publicIdentityOf i) = publicKey (exchange i)"
  "exchangeKeySignature (publicIdentityOf i) = bindingSignature i"
  by (simp_all add: publicIdentityOf_def)

text \<open>A created identity is one, and its signatures verify.\<close>

lemma createIdentity_ok:
  assumes lib: "library_ok N" and f: "length (fst f1) = 32" "length (fst f2) = 32"
    and i: "createIdentity N f1 f2 = Inr i"
  shows "identity_ok N i"
proof -
  note l = library_okD[OF lib]
  from i obtain t s where t: "signingTranscript SIG_CONTEXT_EXCHANGE (ed25519_public N (fst f1)) 0 (x25519_public N (fst f2)) = Inr t"
    "s = ed25519_sign N t (fst f1)"
    "i = \<lparr>signing = generateSigningKeyPair N f1, exchange = generateDhKeyPair N f2, bindingSignature = s\<rparr>"
    by (auto simp: createIdentity_def Let_def rbind_eq_Inr sign_Inr generateSigningKeyPair_def generateDhKeyPair_def)
  have "length (ed25519_public N (fst f1)) = 32" "length (x25519_public N (fst f2)) = 32"
    using l f by (simp_all add: ed25519_sized_def x25519_sized_def)
  moreover have "verify N (ed25519_public N (fst f1)) t (ed25519_sign N t (fst f1))"
    by (rule verify_sign[OF l(4,5) f(1)])
  ultimately show ?thesis
    using t f by (simp add: identity_ok_def verifyIdentityBinding_iff generateSigningKeyPair_def
        generateDhKeyPair_def dh_pair_def)
qed

lemma sign_verifies:
  assumes "library_ok N" and "identity_ok N i" and "sign N (secretKey (signing i)) t = Inr s"
  shows "verify N (signingPublicKey (publicIdentityOf i)) t s"
  using assms verify_sign[OF library_okD(4,5)[OF assms(1)]] by (simp add: identity_ok_def sign_Inr)

section \<open>The first message\<close>

text \<open>The resolver holds the secrets of the bundle's keys under their identifiers.\<close>

definition resolver_holds ::
  "'s resolver \<Rightarrow> 's \<Rightarrow> prekey_bundle \<Rightarrow> keypair \<Rightarrow> keypair \<Rightarrow> keypair option \<Rightarrow> keypair option \<Rightarrow> bool" where
  "resolver_holds R s b spk kem otk okem \<longleftrightarrow>
     res_signedPreKey R s (spk_id (signedPreKey b)) = Some spk \<and>
     res_signedKemPreKey R s (spk_id (signedKemPreKey b)) = Some kem \<and>
     (\<forall>k. oneTimePreKey b = Some k \<longrightarrow> res_oneTimePreKey R s (otk_id k) = otk) \<and>
     (\<forall>k. oneTimeKemPreKey b = Some k \<longrightarrow> res_oneTimeKemPreKey R s (otk_id k) = okem)"

lemma initiate_fields:
  assumes "initiateHandshake N f coins self b = Inr h"
  shows "hs_keyIds h = \<lparr>signedPreKeyId = spk_id (signedPreKey b), signedKemPreKeyId = spk_id (signedKemPreKey b),
      oneTimePreKeyId = map_option otk_id (oneTimePreKey b),
      oneTimeKemPreKeyId = map_option otk_id (oneTimeKemPreKey b)\<rparr>"
    and "verifyPreKeyBundle N b = Inr ()"
  using assms by (auto simp: initiateHandshake_def rbind_eq_Inr Let_def)

text \<open>The responder derives the initiator's root secret.\<close>

lemma accept_agrees:
  assumes lib: "library_ok N" and a: "identity_ok N alice" and f: "length (fst f1) = 32"
    and m: "secrets_match N bob spk kem otk okem b" and r: "resolver_holds R s b spk kem otk okem"
    and h: "initiateHandshake N f1 coins alice b = Inr h"
    and p: "p = \<lparr>pre_ephemeralPublicKey = hs_ephemeralPublicKey h, pre_kemCiphertext = hs_kemCiphertext h,
      pre_keyIds = hs_keyIds h\<rparr>"
  shows "accept_handshake R N bob (publicIdentityOf alice) p s =
    Inr \<lparr>peerIdentity = publicIdentityOf alice, ratchet = initialiseResponder (rootSecret h) spk (hs_associatedData h),
      pendingPreKey = None, establishedBy = Some (hs_ephemeralPublicKey h)\<rparr>"
proof -
  note l = library_okD[OF lib] and ids = initiate_fields(1)[OF h]
  have "respondToHandshake N bob (responder_input_of alice h spk kem otk okem) =
      Inr (rootSecret h, hs_associatedData h)"
    using a m h by (intro handshake_agreement_lemma[OF l(1,2,6,7) _ f]) (auto simp: identity_ok_def)
  moreover have "lookup_one_time (res_oneTimePreKey R s) (map_option otk_id (oneTimePreKey b)) = Inr otk"
    using m r by (cases otk; cases "oneTimePreKey b")
      (auto simp: lookup_one_time_def secrets_match_def resolver_holds_def)
  moreover have "lookup_one_time (res_oneTimeKemPreKey R s) (map_option otk_id (oneTimeKemPreKey b)) = Inr okem"
    using m r by (cases okem; cases "oneTimeKemPreKey b")
      (auto simp: lookup_one_time_def secrets_match_def resolver_holds_def)
  ultimately show ?thesis
    using r by (simp add: accept_handshake_def p ids lookup_signed_def resolver_holds_def responder_input_of_def)
qed

lemma seal_fields:
  assumes "sealEnvelope N f signf sender recipient kind payload = Inr env"
  shows "addressOf N recipient = Inr (recipientAddress env)"
  using assms by (auto simp: sealEnvelope_def rbind_eq_Inr Let_def case_prod_unfold)

lemma addressOf_total:
  assumes "verifyIdentityBinding N i = Inr True"
  shows "\<exists>a. addressOf N i = Inr a"
  using assms by (auto simp: verifyIdentityBinding_iff addressOf_def addressOfKey_def Let_def)

lemma first_message_at:
  assumes lib: "library_ok N" and a: "identity_ok N alice" and b: "identity_ok N bob"
    and f: "length (fst f1) = 32" "length (fst f2) = 32" "length (fst f3) = 32" "length (fst f4) = 32"
    and m: "secrets_match N bob spk kem otk okem bundle" and r: "resolver_holds R s bundle spk kem otk okem"
    and start: "startSession N f1 coins f2 alice bundle pin = Inr sess"
    and enc: "encryptMessage N f3 alice sess plaintext = (Inr env, sess')"
    and sa: "addressOf N (publicIdentityOf alice) = Inr senderAddress"
    and pinned: "pinned senderAddress = None \<or> pinned senderAddress = Some (publicKey (signing alice))"
    and fresh: "\<not> same_handshake (lookup senderAddress) (the (pendingPreKey sess))"
  shows "\<exists>new bs. decryptEnvelope R N f4 bob env lookup pinned s =
      (Inr \<lparr>senderIdentity = publicIdentityOf alice, dm_plaintext = plaintext, dm_session = new,
         isNewSession = True\<rparr>, None,
       consume_named R (pre_keyIds (the (pendingPreKey sess))) (res_wiped R bs s)) \<and> skbuf spk \<in> set bs"
proof -
  note l = library_okD[OF lib]
  from start obtain h rs where h: "initiateHandshake N f1 coins alice bundle = Inr h"
    and rs: "initialiseInitiator N f2 (rootSecret h) (spk_public (signedPreKey bundle)) (hs_associatedData h) = Inr rs"
    and sess: "peerIdentity sess = identity bundle" "ratchet sess = rs"
      "pendingPreKey sess = Some \<lparr>pre_ephemeralPublicKey = hs_ephemeralPublicKey h,
         pre_kemCiphertext = hs_kemCiphertext h, pre_keyIds = hs_keyIds h\<rparr>"
    by (auto simp: startSession_def rbind_eq_Inr)
  let ?p = "\<lparr>pre_ephemeralPublicKey = hs_ephemeralPublicKey h, pre_kemCiphertext = hs_kemCiphertext h,
      pre_keyIds = hs_keyIds h\<rparr>"
  let ?init = "initialiseResponder (rootSecret h) spk (hs_associatedData h)"
  have spk: "dh_pair N spk" "spk_public (signedPreKey bundle) = publicKey spk" "identity bundle = publicIdentityOf bob"
    using m by (auto simp: secrets_match_def)
  note ie = initial_expects[OF rs[unfolded spk(2)] l(1,2) f(2) spk(1)]
  define ck where "ck = the (sendingChainKey rs)"
  define pk where "pk = publicKey (generateDhKeyPair N f2)"
  from ie have on: "on_chain N ck rs" "sentCount rs = 0" "previousSentCount rs = 0" "publicKey (sending rs) = pk"
    "rs_associatedData rs = hs_associatedData h" "expects N pk ck (rootKey rs) ?init"
    by (auto simp: ck_def pk_def)
  from enc obtain padded msg body payload where *: "pad plaintext = Inr padded"
    "chain_message N (hs_associatedData h) pk ck 0 0 padded = Inr msg"
    "encodeRatchetMessage msg = Inr body" "message_payload (Some ?p) body = Inr payload"
    "sealEnvelope N f3 (sign N (secretKey (signing alice))) (publicIdentityOf alice) (publicIdentityOf bob)
       PAYLOAD_PREKEY payload = Inr env"
    using ratchetEncrypt_on_chain[OF on(1)] on(2-5) sess spk(3)
    by (auto simp: encryptMessage_def Let_def rbind_eq_Inr split: sum.splits)
  let ?opened = "\<lparr>oe_senderIdentity = publicIdentityOf alice, oe_payloadKind = PAYLOAD_PREKEY, oe_payload = payload\<rparr>"
  have "openEnvelope N (secretKey (exchange bob)) (publicKey (exchange bob)) (recipientAddress env) env = Inr ?opened"
    using a b sign_verifies[OF lib a]
    by (intro open_sealed[OF l(1,2,8) f(3) _ _ _ _ *(5)]) (auto simp: identity_ok_def)
  then have opened: "open_checked N bob env pinned = Inr (?opened, senderAddress)"
    using seal_fields[OF *(5)] sa pinned
    by (auto simp: open_checked_def check_fingerprint_def)
  note acc = accept_agrees[OF lib a f(1) m r h refl]
  obtain r0 where dm: "decodeRatchetMessage (new_reader body) = Inr (msg, r0)"
    using decode_message_image(1)[OF *(3)] by blast
  have len: "length pk = 32" using l(2) f(2) by (simp add: pk_def generateDhKeyPair_def x25519_sized_def)
  from on(6) obtain d where d: "dh N (secretKey spk) pk = Inr d"
    by (auto simp: expects_def initialiseResponder_def)
  then have "x25519_shared N (fst f4) pk \<noteq> None"
    using x25519_uniformD[OF l(3) _ f(4), of "secretKey spk" pk] by (auto simp: dh_eq_Inr)
  then obtain d2 where d2: "dh N (fst f4) pk = Inr d2" using len f(4) by (auto simp: dh_eq_Inr)
  obtain root2 ck2 where ar: "advanceRootChain N (rootKey rs) d2 = (root2, ck2)"
    by (cases "advanceRootChain N (rootKey rs) d2")
  have sk: "skipReceivingKeys N ?init 0 = (Inr (), ?init)" by (simp add: skipReceivingKeys_def initialiseResponder_def)
  have ad: "rs_associatedData ?init = hs_associatedData h" by (simp add: initialiseResponder_def)
  obtain st' where st': "ratchetDecrypt N f4 ?init msg = (Inr padded, st')"
    using first_delivery[OF l(8) on(6) len _ sk _ _ d2 ar, of 0 padded msg] *(2) ad
    by (auto simp: initialiseResponder_def)
  have hd: "rm_header msg = \<lparr>ratchetPublicKey = pk, previousChainLength = 0, messageNumber = 0\<rparr>"
    using chain_message_fields[OF *(2)] .
  obtain r' where "performDhRatchet N f4 ?init (rm_header msg) = (Inr (), r')"
    using performDhRatchet_accepts[OF on(6) _ _ d2 ar, of "rm_header msg" ?init] hd sk by auto
  from unauthenticated_turn[OF _ _ _ this st'] have bs: "skbuf spk \<in> set (retired st')"
    using hd len by (simp add: initialiseResponder_def holds_key_def)
  have "unpad padded = Inr plaintext" using pad_unpad[of plaintext] *(1) by simp
  then show ?thesis
    using opened decode_prekey_payload_image[OF *(4)] fresh sess(3) acc dm st' bs
    by (auto simp: decryptEnvelope_def decrypt_opened_def decrypt_new_def)
qed

lemma first_message_lemma:
  assumes lib: "library_ok N" and a: "identity_ok N alice" and b: "identity_ok N bob"
    and f: "length (fst f1) = 32" "length (fst f2) = 32" "length (fst f3) = 32" "length (fst f4) = 32"
    and m: "secrets_match N bob spk kem otk okem bundle" and r: "resolver_holds R s bundle spk kem otk okem"
    and start: "startSession N f1 coins f2 alice bundle pin = Inr sess"
    and enc: "encryptMessage N f3 alice sess plaintext = (Inr env, sess')"
    and pinned: "\<forall>x. pinned x = None \<or> pinned x = Some (publicKey (signing alice))"
    and fresh: "\<forall>x. \<not> same_handshake (lookup x) (the (pendingPreKey sess))"
  shows "\<exists>new bs. decryptEnvelope R N f4 bob env lookup pinned s =
      (Inr \<lparr>senderIdentity = publicIdentityOf alice, dm_plaintext = plaintext, dm_session = new,
         isNewSession = True\<rparr>, None,
       consume_named R (pre_keyIds (the (pendingPreKey sess))) (res_wiped R bs s)) \<and> skbuf spk \<in> set bs"
proof -
  obtain senderAddress where "addressOf N (publicIdentityOf alice) = Inr senderAddress"
    using addressOf_total a by (auto simp: identity_ok_def)
  from first_message_at[OF assms(1-11) this] pinned fresh show ?thesis by blast
qed

section \<open>One-time keys are used once\<close>

context prekey_resolver
begin

lemma resolvable_consume_named:
  "resolvable (consume_named R ids s) =
    (fst (resolvable s) - set_option (oneTimePreKeyId ids), snd (resolvable s) - set_option (oneTimeKemPreKeyId ids))"
  by (auto simp: consume_named_def Let_def resolvable_consume split: option.splits)

text \<open>A decryption removes no key, or exactly those its preamble names.\<close>

lemma resolvable_decrypt:
  assumes "decrypt_opened R N f self opened existing s = (r, t, s')"
  shows "resolvable s' = resolvable s \<or> (\<exists>p body. oe_payloadKind opened = PAYLOAD_PREKEY \<and>
    decode_prekey_payload (oe_payload opened) = Inr (p, body) \<and> \<not> same_handshake existing p \<and>
    resolvable s' = (fst (resolvable s) - set_option (oneTimePreKeyId (pre_keyIds p)),
      snd (resolvable s) - set_option (oneTimeKemPreKeyId (pre_keyIds p))))"
  using assms
  by (auto simp: decrypt_opened_def decrypt_existing_def decrypt_new_def Let_def resolvable_consume
      resolvable_consume_named split: sum.splits option.splits prod.splits if_splits)

text \<open>A handshake naming a one-time key that no longer resolves is refused before any change.\<close>

lemma unresolvable_refused:
  assumes "oneTimePreKeyId (pre_keyIds p) = Some i" and "i \<notin> fst (resolvable s)"
  shows "decrypt_new R N f self sender p body s = (Inl SessionStateError, None, s)"
  using assms
  by (auto simp: decrypt_new_def accept_handshake_def Let_def lookup_signed_def lookup_one_time_def
      resolvable_def rbind_def split: option.splits sum.splits)

lemma accepted_resolves:
  assumes "accept_handshake R N self sender p s = Inr new" and "oneTimePreKeyId (pre_keyIds p) = Some i"
  shows "i \<in> fst (resolvable s)"
  using assms
  by (auto simp: accept_handshake_def Let_def lookup_one_time_def resolvable_def rbind_eq_Inr split: option.splits)

text \<open>After the first authenticated message the signed prekey's secret is overwritten.\<close>

lemma signed_prekey_wiped:
  assumes "res_signedPreKey R s i = Some k" and "skbuf k \<in> set bs"
  shows "res_signedPreKey R (consume_named R ids (res_wiped R bs s)) i = Some (k\<lparr>secretKey := zeroed (secretKey k)\<rparr>)"
  using assms
  by (auto simp: consume_named_def Let_def consume_one_other consume_kem_other wiped scrub_pair_def split: option.splits)

end

text \<open>The session layer's view of the store's one-time keys.\<close>

lemma store_resolvable: "store.resolvable s =
    ({i. js_get (oneTimePreKeys s) i \<noteq> None}, {i. js_get (oneTimeKemPreKeys s) i \<noteq> None})"
  unfolding store.resolvable_def by (simp add: store_resolver_def)

lemma decrypt_new_consumes:
  assumes d: "decrypt_new store_resolver N f self sender p body s = (Inr dm, t, s')"
    and i: "oneTimePreKeyId (pre_keyIds p) = Some i"
  shows "js_get (oneTimePreKeys s) i \<noteq> None \<and> js_get (oneTimePreKeys s') i = None \<and>
    nextId s' = nextId s \<and> (store_ok s \<longrightarrow> store_ok s')"
proof -
  obtain new where new: "accept_handshake store_resolver N self sender p s = Inr new"
    using d by (auto simp: decrypt_new_def split: sum.splits)
  with d obtain bs where s': "s' = consume_named store_resolver (pre_keyIds p) (scrub bs s)"
    by (auto simp: decrypt_new_def store_resolver_def Let_def split: sum.splits prod.splits)
  have "i \<notin> fst (store.resolvable s')"
    unfolding s' store.resolvable_consume_named using i by simp
  moreover have "store_ok s \<longrightarrow> store_ok s'"
    unfolding s' consume_named_def Let_def using scrub_ok[of s bs]
    by (auto simp: store_resolver_def intro!: consume_ok split: option.split)
  moreover have "nextId s' = nextId s"
    unfolding s' consume_named_def Let_def
    by (auto simp: store_resolver_def consumeOneTimePreKey_def consumeOneTimeKemPreKey_def scrub_def split: option.split)
  ultimately show ?thesis using store.accepted_resolves[OF new i] by (auto simp: store_resolvable)
qed

lemma replayed_handshake_lemma:
  assumes ok: "store_ok s" and kind: "oe_payloadKind opened = PAYLOAD_PREKEY"
    and dec: "decode_prekey_payload (oe_payload opened) = Inr (p, body)"
    and i: "oneTimePreKeyId (pre_keyIds p) = Some i"
    and first: "decrypt_opened store_resolver N f self opened old s = (Inr dm, t, s')" "isNewSession dm"
    and run: "store_run N s' ids s''" and new: "\<not> same_handshake old' p"
  shows "decrypt_opened store_resolver N' f' self opened old' s'' = (Inl SessionStateError, None, s'')"
proof -
  have "\<not> same_handshake old p"
    using first kind dec
    by (auto simp: decrypt_opened_def decrypt_existing_def Let_def rbind_eq_Inr split: sum.splits prod.splits)
  then have "decrypt_new store_resolver N f self (oe_senderIdentity opened) p body s = (Inr dm, t, s')"
    using first(1) kind dec by (simp add: decrypt_opened_def)
  from decrypt_new_consumes[OF this i] ok have "js_get (oneTimePreKeys s) i \<noteq> None" "js_get (oneTimePreKeys s') i = None"
    "nextId s' = nextId s" "store_ok s'" by auto
  moreover from this(1) ok have "i < nextId s"
    by (force simp: store_ok_def pool_ok_def dest!: map_of_SomeD)
  ultimately have "js_get (oneTimePreKeys s'') i = None" using store_run_facts[OF run] by simp
  then have "i \<notin> fst (store.resolvable s'')" by (simp add: store_resolvable)
  from store.unresolvable_refused[OF i this] new kind dec show ?thesis by (simp add: decrypt_opened_def)
qed

section \<open>What a decryption never does\<close>

lemma decrypt_authentic_lemma:
  assumes "decryptEnvelope R N f self env lookup pinned s = (Inr dm, t, s')"
  shows "verifyIdentityBinding N (senderIdentity dm) = Inr True \<and>
    (\<exists>own kind payload tr pf. addressOf N (publicIdentityOf self) = Inr own \<and>
      senderProofTranscript (se_ephemeralPublicKey env) own kind payload = Inr tr \<and>
      verify N (signingPublicKey (senderIdentity dm)) tr pf) \<and>
    (\<forall>a k. addressOf N (senderIdentity dm) = Inr a \<longrightarrow> pinned a = Some k \<longrightarrow>
      k = signingPublicKey (senderIdentity dm))"
proof -
  obtain opened a where o: "open_checked N self env pinned = Inr (opened, a)"
    using assms by (auto simp: decryptEnvelope_def split: sum.splits)
  then obtain own where own: "addressOf N (publicIdentityOf self) = Inr own"
    "openEnvelope N (secretKey (exchange self)) (publicKey (exchange self)) own env = Inr opened"
    "addressOf N (oe_senderIdentity opened) = Inr a"
    "check_fingerprint N (pinned a) (signingPublicKey (oe_senderIdentity opened)) (Inr a) = Inr ()"
    by (auto simp: open_checked_def rbind_eq_Inr)
  have "senderIdentity dm = oe_senderIdentity opened"
    using assms o
    by (auto simp: decryptEnvelope_def decrypt_opened_def decrypt_existing_def decrypt_new_def Let_def rbind_eq_Inr
        split: sum.splits option.splits prod.splits if_splits)
  moreover have "k = signingPublicKey (oe_senderIdentity opened)" if "pinned a = Some k" for k
    using own(4) that by (auto simp: check_fingerprint_def identity_changed_def rbind_eq_Inr split: if_splits)
  ultimately show ?thesis using opened_authentic_lemma[OF own(2)] own(1,3) by auto
qed

text \<open>A sealed handshake other than the live one never touches the live session.\<close>

lemma live_session_untouched_lemma:
  assumes "decode_prekey_payload (oe_payload opened) = Inr (p, body)" and "oe_payloadKind opened = PAYLOAD_PREKEY"
    and "\<not> same_handshake existing p" and "decrypt_opened R N f self opened existing s = (r, t, s')"
  shows "t = None"
  using assms by (auto simp: decrypt_opened_def decrypt_new_def Let_def split: sum.splits prod.splits)

end
