(* ===== verification/Veil_Delivery.thy ===== *)
theory Veil_Delivery
  imports Veil_Session
begin

text \<open>
  Progress of the session layer: with honest keys and messages of ordinary size, starting a
  session and encrypting a message do not fail. Together with the agreement lemmas of
  Veil_Session this makes delivery of the first message an unconditional statement.
\<close>

lemma dh_total:
  assumes "library_ok N" and "length sk = 32" and "dh_pair N k"
  shows "\<exists>d. dh N sk (publicKey k) = Inr d"
  using assms library_okD(2,11)[OF assms(1)]
  by (fastforce simp: dh_pair_def dh_eq_Inr x25519_honest_def x25519_sized_def)

lemma dh_pair_length [simp]: "x25519_sized N \<Longrightarrow> dh_pair N k \<Longrightarrow> length (publicKey k) = 32"
  by (simp add: dh_pair_def x25519_sized_def)

lemma verify_key_lengths:
  assumes "verifyIdentityBinding N i = Inr True"
  shows "length (signingPublicKey i) = 32" "length (exchangePublicKey i) = 32"
    "length (exchangeKeySignature i) = 64"
  using assms by (auto simp: verifyIdentityBinding_iff verify_def split: if_splits)

lemma fits_small: "length b \<le> 0x7fffffff \<Longrightarrow> fits_len b"
  by (simp add: fits_len_def)

lemma kem_total:
  assumes "library_ok N" and "kem_pair N k"
  shows "\<exists>ct ss. kemEncapsulate N coins (publicKey k) = Inr (ct, ss) \<and> length ct = 1568"
proof -
  note l = library_okD(6,7)[OF assms(1)]
  from assms(2) obtain seed where s: "mlkem_keygen N seed = (publicKey k, secretKey k)"
    by (auto simp: kem_pair_def)
  from l(1) s obtain ct ss where e: "mlkem_encaps N (publicKey k) coins = Some (ct, ss)"
    unfolding mlkem_correct_def by blast
  moreover have "length (publicKey k) = 1568" using l(2) s unfolding mlkem_sized_def by blast
  moreover have "length ct = 1568" using l(2) e unfolding mlkem_sized_def by blast
  ultimately show ?thesis by (simp add: kemEncapsulate_def expectLength_def)
qed

section \<open>Starting\<close>

lemma initiateHandshake_total:
  assumes lib: "library_ok N" and a: "identity_ok N alice" and b: "identity_ok N bob" and f: "length (fst f) = 32"
    and m: "secrets_match N bob spk kem otk okem bundle" and v: "verifyPreKeyBundle N bundle = Inr ()"
    and ids: "\<forall>k. oneTimePreKey bundle = Some k \<longrightarrow> fits_u32 (otk_id k)"
      "\<forall>k. oneTimeKemPreKey bundle = Some k \<longrightarrow> fits_u32 (otk_id k)"
  shows "\<exists>h. initiateHandshake N f coins alice bundle = Inr h \<and> length (hs_ephemeralPublicKey h) = 32 \<and>
    length (hs_kemCiphertext h) = 1568 \<and> ids_fit (hs_keyIds h)"
proof -
  note l = library_okD[OF lib]
  let ?kem = "case okem of Some k \<Rightarrow> k | None \<Rightarrow> kem"
  have m': "identity bundle = publicIdentityOf bob" "dh_pair N (exchange bob)" "dh_pair N spk"
    "spk_public (signedPreKey bundle) = publicKey spk" "kem_pair N ?kem"
    "(case oneTimeKemPreKey bundle of Some k \<Rightarrow> otk_public k
       | None \<Rightarrow> spk_public (signedKemPreKey bundle)) = publicKey ?kem"
    using m by (cases okem; cases "oneTimeKemPreKey bundle"; auto simp: secrets_match_def)+
  obtain ct ss where ct: "kemEncapsulate N coins (publicKey ?kem) = Inr (ct, ss)" "length ct = 1568"
    using kem_total[OF lib m'(5)] by blast
  have sk: "length (secretKey (exchange alice)) = 32" "length (secretKey (generateDhKeyPair N f)) = 32"
    using a f by (auto simp: identity_ok_def dh_pair_def generateDhKeyPair_def)
  obtain d1 where d1: "dh N (secretKey (exchange alice)) (publicKey spk) = Inr d1" using dh_total[OF lib sk(1) m'(3)] ..
  obtain d2 where d2: "dh N (secretKey (generateDhKeyPair N f)) (publicKey (exchange bob)) = Inr d2"
    using dh_total[OF lib sk(2) m'(2)] ..
  obtain d3 where d3: "dh N (secretKey (generateDhKeyPair N f)) (publicKey spk) = Inr d3"
    using dh_total[OF lib sk(2) m'(3)] ..
  obtain d4 where d4: "dh_optional N (map_option (\<lambda>k. (secretKey (generateDhKeyPair N f), otk_public k))
      (oneTimePreKey bundle)) = Inr d4"
    using m dh_total[OF lib sk(2)]
    by (cases otk; cases "oneTimePreKey bundle") (fastforce simp: dh_optional_def secrets_match_def)+
  have e: "length (publicKey (generateDhKeyPair N f)) = 32" using l(2) generate_pairs(1)[OF f] by simp
  have fits: "fits_u32 (spk_id (signedPreKey bundle))" "fits_u32 (spk_id (signedKemPreKey bundle))"
    using v by (auto simp: verifyPreKeyBundle_iff_lemma signingTranscript_eq split: if_splits)
  let ?ids = "\<lparr>signedPreKeyId = spk_id (signedPreKey bundle), signedKemPreKeyId = spk_id (signedKemPreKey bundle),
      oneTimePreKeyId = map_option otk_id (oneTimePreKey bundle),
      oneTimeKemPreKeyId = map_option otk_id (oneTimeKemPreKey bundle)\<rparr>"
  have idf: "ids_fit ?ids" using fits ids
    by (cases "oneTimePreKey bundle"; cases "oneTimeKemPreKey bundle") (simp_all add: ids_fit_def, simp_all add: fits_u32_def)
  have keys: "length (publicKey (signing alice)) = 32" "length (publicKey (exchange alice)) = 32"
    "length (publicKey (signing bob)) = 32" "length (publicKey (exchange bob)) = 32"
    using verify_key_lengths[of N "publicIdentityOf alice"] verify_key_lengths[of N "publicIdentityOf bob"] a b
    by (simp_all add: identity_ok_def)
  obtain t where "handshakeTranscript (publicIdentityOf alice) (publicIdentityOf bob)
      (publicKey (generateDhKeyPair N f)) ct ?ids = Inr t"
    using keys e ct(2) idf by (simp add: handshakeTranscript_eq)
  moreover obtain ad where "associatedData (publicIdentityOf alice) (publicIdentityOf bob) = Inr ad"
    using keys by (simp add: associatedData_eq)
  ultimately show ?thesis
    using v m'(1,4,6) ct d1 d2 d3 d4 e idf by (simp add: initiateHandshake_def Let_def)
qed

lemma startSession_total:
  assumes lib: "library_ok N" and a: "identity_ok N alice" and b: "identity_ok N bob"
    and f: "length (fst f1) = 32" "length (fst f2) = 32"
    and m: "secrets_match N bob spk kem otk okem bundle" and v: "verifyPreKeyBundle N bundle = Inr ()"
    and ids: "\<forall>k. oneTimePreKey bundle = Some k \<longrightarrow> fits_u32 (otk_id k)"
      "\<forall>k. oneTimeKemPreKey bundle = Some k \<longrightarrow> fits_u32 (otk_id k)"
    and pin: "pin = None \<or> pin = Some (publicKey (signing bob))"
  shows "\<exists>sess p. startSession N f1 coins f2 alice bundle pin = Inr sess \<and> pendingPreKey sess = Some p \<and>
    length (pre_ephemeralPublicKey p) = 32 \<and> length (pre_kemCiphertext p) = 1568 \<and> ids_fit (pre_keyIds p) \<and>
    peerIdentity sess = publicIdentityOf bob \<and> sendingChainKey (ratchet sess) \<noteq> None \<and>
    sending (ratchet sess) = generateDhKeyPair N f2 \<and> sentCount (ratchet sess) = 0 \<and>
    previousSentCount (ratchet sess) = 0"
proof -
  from initiateHandshake_total[OF lib a b f(1) m v ids]
  obtain h where h: "initiateHandshake N f1 coins alice bundle = Inr h" "length (hs_ephemeralPublicKey h) = 32"
    "length (hs_kemCiphertext h) = 1568" "ids_fit (hs_keyIds h)" by blast
  from m have spk: "dh_pair N spk" "spk_public (signedPreKey bundle) = publicKey spk" "identity bundle = publicIdentityOf bob"
    by (auto simp: secrets_match_def)
  obtain d where "dh N (secretKey (generateDhKeyPair N f2)) (publicKey spk) = Inr d"
    using dh_total[OF lib _ spk(1), of "fst f2"] f(2) by (auto simp: generateDhKeyPair_def)
  then show ?thesis using h spk pin
    by (cases "advanceRootChain N (rootSecret h) d")
      (auto simp: startSession_def check_fingerprint_def initialiseInitiator_def Let_def)
qed

section \<open>Sending\<close>

lemma slice_lengths: "length b = 56 \<Longrightarrow> length (slice 0 32 b) = 32 \<and> length (drop 32 b) = 24"
  by (simp add: slice_def)

lemma deriveMessageKeys_lengths:
  assumes "hkdf_sized N" and "deriveMessageKeys N k = (key, nonce)"
  shows "length key = 32" "length nonce = 24"
  using assms slice_lengths[of "kdf N k [] LABEL_messageKey 56"] length_kdf[OF assms(1), of 56 k "[]" LABEL_messageKey]
  by (auto simp: deriveMessageKeys_def Let_def)

lemma encodeHeader_total:
  assumes "previousChainLength h \<le> 0xffffffff" and "messageNumber h \<le> 0xffffffff"
  shows "\<exists>e. encodeHeader h = Inr e"
  using w_run_writes[of "[w_fixed (ratchetPublicKey h), w_u32 (int (previousChainLength h)), w_u32 (int (messageNumber h))]"
      "[(True, ratchetPublicKey h), (previousChainLength h \<le> 0xffffffff, be_bytes 4 (previousChainLength h)),
        (messageNumber h \<le> 0xffffffff, be_bytes 4 (messageNumber h))]"]
      u32c.emit_writes[of "previousChainLength h"] u32c.emit_writes[of "messageNumber h"] assms
  by (auto simp: encodeHeader_def writes_fixed)

lemma ratchetEncrypt_total:
  assumes lib: "library_ok N" and c: "sendingChainKey st \<noteq> None"
    and n: "sentCount st \<le> 0xffffffff" "previousSentCount st \<le> 0xffffffff"
  shows "\<exists>m st'. ratchetEncrypt N st p = (Inr m, st') \<and> length (rm_ciphertext m) = length p + 16 \<and>
    ratchetPublicKey (rm_header m) = publicKey (sending st) \<and> messageNumber (rm_header m) = sentCount st \<and>
    previousChainLength (rm_header m) = previousSentCount st"
proof -
  obtain ck where ck: "sendingChainKey st = Some ck" using c by auto
  obtain mk nk where mk: "advanceChain N ck = (mk, nk)" by (cases "advanceChain N ck")
  obtain key nonce where kn: "deriveMessageKeys N mk = (key, nonce)" by (cases "deriveMessageKeys N mk")
  note len = deriveMessageKeys_lengths[OF library_okD(9)[OF lib] kn]
  let ?h = "\<lparr>ratchetPublicKey = publicKey (sending st), previousChainLength = previousSentCount st,
      messageNumber = sentCount st\<rparr>"
  obtain e where "encodeHeader ?h = Inr e" using encodeHeader_total[of ?h] n by auto
  then show ?thesis
    using library_okD(8)[OF lib] ck mk kn len
    by (simp add: ratchetEncrypt_def aeadAssociatedData_def aeadEncrypt_def expectLength_def aead_correct_def Let_def)
qed

lemma length_image [simp]: "length (image_bytes b) = length b + 4"
  by (simp add: image_bytes_def)

lemma sealEnvelope_total:
  assumes lib: "library_ok N" and f: "length (fst f) = 32" and a: "identity_ok N alice"
    and r: "verifyIdentityBinding N recipient = Inr True" "dh_pair N rpair" "exchangePublicKey recipient = publicKey rpair"
    and k: "kind \<le> 0xff" and p: "length payload \<le> 0x7fffffff"
  shows "\<exists>env. sealEnvelope N f (sign N (secretKey (signing alice))) (publicIdentityOf alice) recipient kind payload = Inr env"
proof -
  note l = library_okD[OF lib]
  obtain address where ad: "addressOf N recipient = Inr address" using addressOf_total[OF r(1)] by blast
  then have al: "length address \<le> 26"
    using l(10) length_toBase32
    by (auto simp: addressOf_def addressOfKey_def Let_def ADDRESS_BYTES_def slice_def hash256_def hash_sized_def split: if_splits)
  have "length (utf8_encode s) \<le> 2 * length s" for s
    by (induction s) (auto simp: utf8_encode_def utf8_char_def Let_def)
  from this[of address] al have ua: "fits_len (utf8_encode address)" by (simp add: fits_len_def)
  let ?e = "generateDhKeyPair N f"
  obtain d where d: "dh N (secretKey ?e) (publicKey rpair) = Inr d"
    using dh_total[OF lib _ r(2), of "fst f"] f by (auto simp: generateDhKeyPair_def)
  obtain key nonce where kn: "envelopeKeys N d (publicKey ?e) (publicKey rpair) = (key, nonce)"
    by (cases "envelopeKeys N d (publicKey ?e) (publicKey rpair)")
  then have len: "length key = 32" "length nonce = 24"
    using slice_lengths[of "kdf N d (publicKey ?e @ publicKey rpair) LABEL_sealedSender 56"]
      length_kdf[OF l(9), of 56 d "publicKey ?e @ publicKey rpair" LABEL_sealedSender]
    by (auto simp: envelopeKeys_def Let_def)
  have "length (publicKey ?e) = 32" using l(2) generate_pairs(1)[OF f] by simp
  then obtain t where t: "senderProofTranscript (publicKey ?e) address kind payload = Inr t"
    using ua k fits_small[OF p] by (simp add: senderProofTranscript_eq)
  have s: "sign N (secretKey (signing alice)) t = Inr (ed25519_sign N t (secretKey (signing alice)))"
    using a by (simp add: sign_Inr identity_ok_def)
  have "length (ed25519_sign N t (secretKey (signing alice))) = 64"
    using l(5) a by (simp add: identity_ok_def ed25519_sized_def)
  then obtain inner where "encode_inner (publicIdentityOf alice) (ed25519_sign N t (secretKey (signing alice))) kind payload = Inr inner"
    using a verify_key_lengths[of N "publicIdentityOf alice"] k fits_small[OF p]
    by (auto simp: encode_inner_eq inner_fits_def identity_ok_def fits_len_def)
  then show ?thesis using r ad d kn t s len
    by (simp add: sealEnvelope_def Let_def aeadEncrypt_def expectLength_def)
qed

lemma length_image_ids: "length (image_ids ids) = 18"
  by (simp add: image_ids_def)

lemma encryptMessage_total:
  assumes lib: "library_ok N" and f: "length (fst f) = 32" and a: "identity_ok N alice"
    and r: "verifyIdentityBinding N (peerIdentity s) = Inr True" "dh_pair N rpair"
      "exchangePublicKey (peerIdentity s) = publicKey rpair"
    and st: "sendingChainKey (ratchet s) \<noteq> None" "sentCount (ratchet s) \<le> 0xffffffff"
      "previousSentCount (ratchet s) \<le> 0xffffffff" "length (publicKey (sending (ratchet s))) = 32"
    and pre: "\<forall>p. pendingPreKey s = Some p \<longrightarrow> length (pre_ephemeralPublicKey p) = 32 \<and>
      length (pre_kemCiphertext p) = 1568 \<and> ids_fit (pre_keyIds p)"
    and len: "length plaintext \<le> 0x3fffffff"
  shows "\<exists>env s'. encryptMessage N f alice s plaintext = (Inr env, s')"
proof -
  obtain padded where pad: "pad plaintext = Inr padded" using pad_total by blast
  then have "length padded = 128 \<or> 4 * length padded \<le> 5 * length plaintext + 3"
    using bucket_overhead_lemma[OF length_pad[OF pad]] by (simp add: MIN_BUCKET_def)
  then have pl: "length padded \<le> 0x50000000" using len by auto
  obtain m rs where m: "ratchetEncrypt N (ratchet s) padded = (Inr m, rs)" "length (rm_ciphertext m) = length padded + 16"
    "ratchetPublicKey (rm_header m) = publicKey (sending (ratchet s))" "messageNumber (rm_header m) = sentCount (ratchet s)"
    "previousChainLength (rm_header m) = previousSentCount (ratchet s)"
    using ratchetEncrypt_total[OF lib st(1,2,3), of padded] by blast
  have fm: "message_fits m" using m st pl by (simp add: message_fits_def fits_len_def)
  have bl: "length (image_message m) \<le> 0x50000100" using m(2,3) st(4) pl by (simp add: image_message_def)
  obtain payload where payload: "message_payload (pendingPreKey s) (image_message m) = Inr payload" "length payload \<le> 0x7fffffff"
  proof (cases "pendingPreKey s")
    case None
    then show ?thesis using that bl by (simp add: message_payload_def)
  next
    case (Some p)
    with pre have p: "length (pre_ephemeralPublicKey p) = 32" "length (pre_kemCiphertext p) = 1568" "ids_fit (pre_keyIds p)"
      by auto
    define e where "e = image_bytes (pre_ephemeralPublicKey p) @ image_bytes (pre_kemCiphertext p) @ image_ids (pre_keyIds p)"
    have e: "encodePreamble p = Inr e" using p by (simp add: encodePreamble_eq e_def)
    have el: "length e = 1626" using p by (simp add: e_def length_image_ids)
    have "fits_len (image_message m)" using bl by (simp add: fits_len_def)
    then have "w_run [w_fixed e, w_bytes (image_message m)] = Inr (e @ image_bytes (image_message m))"
      using w_run_writes[of "[w_fixed e, w_bytes (image_message m)]"
        "[(True, e), (fits_len (image_message m), image_bytes (image_message m))]"]
        writes_bytes[of "image_message m"]
      by (simp add: writes_fixed)
    then show ?thesis using that[of "e @ image_bytes (image_message m)"] Some e el bl
      by (simp add: message_payload_def)
  qed
  let ?kind = "if pendingPreKey s \<noteq> None then PAYLOAD_PREKEY else PAYLOAD_RATCHET"
  have "?kind \<le> 0xff" by (simp add: PAYLOAD_PREKEY_def PAYLOAD_RATCHET_def)
  then obtain env where "sealEnvelope N f (sign N (secretKey (signing alice))) (publicIdentityOf alice)
      (peerIdentity s) ?kind payload = Inr env"
    using sealEnvelope_total[OF lib f a r _ payload(2), of ?kind] by blast
  then show ?thesis using pad m(1) fm payload(1)
    by (simp add: encryptMessage_def encodeRatchetMessage_eq Let_def)
qed

lemma send_all_total:
  assumes "library_ok N" and "sendingChainKey st \<noteq> None" and "sentCount st + length ps \<le> 0xffffffff"
    and "previousSentCount st \<le> 0xffffffff"
  shows "\<forall>i < length ps. \<exists>m. fst (send_all N st ps) ! i = Inr m"
  using assms(2-)
proof (induction ps arbitrary: st)
  case (Cons p ps)
  obtain m st' where m: "ratchetEncrypt N st p = (Inr m, st')"
    using ratchetEncrypt_total[OF assms(1) Cons.prems(1), of p] Cons.prems by auto
  then have "sendingChainKey st' \<noteq> None" "sentCount st' = Suc (sentCount st)" "previousSentCount st' = previousSentCount st"
    by (auto simp: ratchetEncrypt_def Let_def split: option.splits prod.splits)
  then have "\<forall>i < length ps. \<exists>m. fst (send_all N st' ps) ! i = Inr m"
    using Cons.prems by (intro Cons.IH) auto
  with m show ?case by (auto simp: nth_Cons' split: prod.split)
qed simp

lemma pick_messages:
  assumes "\<forall>i < n. \<exists>m. xs ! i = Inr m" and "\<forall>i \<in> set ns. i < n"
  shows "\<exists>ms. list_all2 (\<lambda>m i. i < n \<and> xs ! i = Inr m) ms ns"
  using assms(2)
proof (induction ns)
  case (Cons i ns)
  then obtain ms where "list_all2 (\<lambda>m i. i < n \<and> xs ! i = Inr m) ms ns" by auto
  moreover obtain m where "xs ! i = Inr m" using assms(1) Cons.prems by auto
  ultimately show ?case using Cons.prems by (intro exI[of _ "m # ms"]) simp
qed simp

end
