(* ===== verification/Veil_Instance.thy ===== *)
theory Veil_Instance
  imports Veil_Delivery
begin

text \<open>
  A concrete library satisfying every assumption made of the cryptographic one, and two
  identities with a prekey store over it. It is not secure; it shows that the assumptions can
  hold together, and gives the properties concrete inputs.
\<close>

section \<open>A library\<close>

definition checksum :: "bytes \<Rightarrow> byte" where
  "checksum b = fold (\<lambda>x acc. 3 * acc + x) b 1"

definition clamp :: "bytes \<Rightarrow> bytes" where
  "clamp b = (case b of [] \<Rightarrow> [] | x # xs \<Rightarrow> 1 # xs)"

definition demo_library :: noble where
  "demo_library = \<lparr>
     x25519_public = clamp,
     x25519_shared = (\<lambda>a p. if p = replicate 32 0 then None else Some (map2 (XOR) (clamp a) p)),
     ed25519_public = (\<lambda>sk. sk),
     ed25519_sign = (\<lambda>m sk. replicate 64 (checksum (sk @ m))),
     ed25519_verify = (\<lambda>s m pk. Some (s = replicate 64 (checksum (pk @ m)))),
     mlkem_keygen = (\<lambda>seed. (replicate 1568 (checksum seed), replicate 3168 (checksum seed))),
     mlkem_encaps = (\<lambda>pk coins. Some (replicate 1568 (checksum coins), replicate 32 (checksum coins))),
     mlkem_decaps = (\<lambda>ct sk. Some (replicate 32 (hd ct))),
     xchacha_encrypt = (\<lambda>k n ad pt. pt @ replicate 16 (checksum (k @ n @ ad @ pt))),
     xchacha_decrypt = (\<lambda>k n ad ct. let pt = take (length ct - 16) ct in
        if drop (length ct - 16) ct = replicate 16 (checksum (k @ n @ ad @ pt)) then Some pt else None),
     sha256 = (\<lambda>b. replicate 32 (checksum b)),
     sha512 = (\<lambda>b. replicate 64 (checksum b)),
     hmac_sha512 = (\<lambda>k b. replicate 64 (checksum (k @ b))),
     hkdf_sha512 = (\<lambda>ikm salt info n. replicate n (checksum (ikm @ salt @ info))),
     argon2id = (\<lambda>p s m t l n. replicate n (checksum (p @ s)))\<rparr>"

lemma length_clamp [simp]: "length (clamp b) = length b"
  by (simp add: clamp_def split: list.split)

lemma clamp_nonzero: "length b = 32 \<Longrightarrow> clamp b \<noteq> replicate 32 0"
proof -
  assume "length b = 32"
  then obtain x xs where "b = x # xs" by (cases b) auto
  moreover have "replicate 32 (0 :: byte) = 0 # replicate 31 0"
    using replicate_Suc[of 31 "0 :: byte"] by simp
  ultimately show ?thesis by (simp add: clamp_def)
qed

lemma map2_xor_commute: "map2 (XOR) a b = map2 (XOR) b (a :: bytes)"
proof (induction a arbitrary: b)
  case (Cons x a)
  then show ?case by (cases b) (auto simp: xor.commute)
qed simp

lemma demo_library_ok: "library_ok demo_library"
proof -
  have "x25519_agrees demo_library"
    using clamp_nonzero by (auto simp: x25519_agrees_def demo_library_def intro: map2_xor_commute)
  moreover have "mlkem_correct demo_library"
    by (auto simp: mlkem_correct_def demo_library_def intro: hd_replicate)
  moreover have "aead_correct demo_library"
    by (simp add: aead_correct_def demo_library_def Let_def)
  ultimately show ?thesis
    using clamp_nonzero
    by (auto simp: library_ok_def x25519_sized_def x25519_uniform_def ed25519_correct_def
        ed25519_sized_def mlkem_sized_def hkdf_sized_def hash_sized_def x25519_honest_def demo_library_def)
qed

section \<open>Two parties\<close>

definition demo_fresh :: "nat \<Rightarrow> fresh" where
  "demo_fresh i = (replicate 32 (word_of_nat i), i)"

lemma demo_fresh_length [simp]: "length (fst (demo_fresh i)) = 32"
  by (simp add: demo_fresh_def)

definition demo_alice :: private_identity where
  "demo_alice = projr (createIdentity demo_library (demo_fresh 1) (demo_fresh 2))"

definition demo_bob :: private_identity where
  "demo_bob = projr (createIdentity demo_library (demo_fresh 3) (demo_fresh 4))"

lemma createIdentity_total:
  assumes "library_ok N" and "length (fst f1) = 32" and "length (fst f2) = 32"
  shows "\<exists>i. createIdentity N f1 f2 = Inr i"
  using assms library_okD(2,5)[OF assms(1)]
  by (simp add: createIdentity_def Let_def generateSigningKeyPair_def generateDhKeyPair_def
      signingTranscript_eq SIG_CONTEXT_EXCHANGE_def fits_u32_def ed25519_sized_def x25519_sized_def
      sign_def expectLength_def)

lemma demo_identities:
  "createIdentity demo_library (demo_fresh 1) (demo_fresh 2) = Inr demo_alice"
  "createIdentity demo_library (demo_fresh 3) (demo_fresh 4) = Inr demo_bob"
  using createIdentity_total[OF demo_library_ok, of "demo_fresh 1" "demo_fresh 2"]
    createIdentity_total[OF demo_library_ok, of "demo_fresh 3" "demo_fresh 4"]
  by (auto simp: demo_alice_def demo_bob_def)

lemma demo_identities_ok: "identity_ok demo_library demo_alice" "identity_ok demo_library demo_bob"
  using createIdentity_ok[OF demo_library_ok _ _ demo_identities(1)]
    createIdentity_ok[OF demo_library_ok _ _ demo_identities(2)] by simp_all

definition demo_spk :: "signed_prekey \<times> keypair" where
  "demo_spk = projr (createSignedPreKey demo_library (demo_fresh 5) demo_bob 1)"

definition demo_kem :: "signed_prekey \<times> keypair" where
  "demo_kem = projr (createSignedKemPreKey demo_library (demo_fresh 6) demo_bob 2)"

definition demo_otk :: "one_time_prekey \<times> keypair" where
  "demo_otk = hd (createOneTimePreKeys demo_library (\<lambda>i. demo_fresh 7) 3 1)"

definition demo_bundle :: prekey_bundle where
  "demo_bundle = \<lparr>identity = publicIdentityOf demo_bob, signedPreKey = fst demo_spk,
     signedKemPreKey = fst demo_kem, oneTimePreKey = Some (fst demo_otk), oneTimeKemPreKey = None\<rparr>"

definition demo_store :: prekey_store where
  "demo_store = (empty_store demo_bob)\<lparr>signedPreKeys := [(1, snd demo_spk)], signedKemPreKeys := [(2, snd demo_kem)],
     oneTimePreKeys := [(3, snd demo_otk)], signedPreKeyOrder := [1], signedKemPreKeyOrder := [2],
     currentSignedPreKey := Some (fst demo_spk), currentSignedKemPreKey := Some (fst demo_kem),
     publishedOneTime := [fst demo_otk], nextId := 4\<rparr>"

text \<open>Keys of one identity verify as that identity's bundle.\<close>

lemma created_prekeys:
  assumes lib: "library_ok N" and i: "identity_ok N i" and f: "length (fst f1) = 32"
    and k1: "createSignedPreKey N f1 i a = Inr (p, kp)" and k2: "createSignedKemPreKey N f2 i b = Inr (q, kq)"
  shows "dh_pair N kp \<and> spk_public p = publicKey kp \<and> spk_id p = a \<and> kem_pair N kq \<and>
    spk_public q = publicKey kq \<and> spk_id q = b \<and>
    verifyPreKeyBundle N \<lparr>identity = publicIdentityOf i, signedPreKey = p, signedKemPreKey = q,
      oneTimePreKey = None, oneTimeKemPreKey = None\<rparr> = Inr ()"
proof -
  note l = library_okD[OF lib]
  from k1 obtain t1 s1 where 1: "kp = generateDhKeyPair N f1"
    "signingTranscript SIG_CONTEXT_SIGNED_PREKEY (publicKey (signing i)) a (publicKey kp) = Inr t1"
    "sign N (secretKey (signing i)) t1 = Inr s1" "p = \<lparr>spk_id = a, spk_public = publicKey kp, spk_signature = s1\<rparr>"
    by (auto simp: createSignedPreKey_def Let_def rbind_eq_Inr)
  from k2 obtain t2 s2 where 2: "kq = generateKemKeyPair N f2"
    "signingTranscript SIG_CONTEXT_KEM_PREKEY (publicKey (signing i)) b (publicKey kq) = Inr t2"
    "sign N (secretKey (signing i)) t2 = Inr s2" "q = \<lparr>spk_id = b, spk_public = publicKey kq, spk_signature = s2\<rparr>"
    by (auto simp: createSignedKemPreKey_def Let_def rbind_eq_Inr)
  have "kem_pair N kq" unfolding 2(1) by simp
  then obtain seed where "mlkem_keygen N seed = (publicKey kq, secretKey kq)" by (auto simp: kem_pair_def)
  then have "length (publicKey kq) = 1568" using l(7) unfolding mlkem_sized_def by blast
  moreover have "dh_pair N kp" unfolding 1(1) by (rule generate_pairs(1)[OF f])
  ultimately show ?thesis
    using 1(2-) 2(2-) \<open>kem_pair N kq\<close> i sign_verifies[OF lib i 1(3)] sign_verifies[OF lib i 2(3)] l(2)
    by (simp add: verifyPreKeyBundle_iff_lemma identity_ok_def)
qed

lemma createSigned_total:
  assumes "library_ok N" and "identity_ok N i" and "length (fst f) = 32" and "fits_u32 kid"
  shows "\<exists>x. createSignedPreKey N f i kid = Inr x" "\<exists>x. createSignedKemPreKey N g i kid = Inr x"
proof -
  note l = library_okD[OF assms(1)]
  have i: "length (publicKey (signing i)) = 32" "length (secretKey (signing i)) = 32"
    using assms(2) verify_key_lengths(1)[of N "publicIdentityOf i"] by (simp_all add: identity_ok_def)
  have "length (publicKey (generateDhKeyPair N f)) = 32" using l(2) generate_pairs(1)[OF assms(3)] by simp
  with i assms(4) show "\<exists>x. createSignedPreKey N f i kid = Inr x"
    by (simp add: createSignedPreKey_def Let_def signingTranscript_eq SIG_CONTEXT_SIGNED_PREKEY_def sign_def expectLength_def)
  obtain seed where "mlkem_keygen N seed = (publicKey (generateKemKeyPair N g), secretKey (generateKemKeyPair N g))"
    using generate_pairs(2)[of N g] by (auto simp: kem_pair_def)
  then have "length (publicKey (generateKemKeyPair N g)) = 1568" using l(7) unfolding mlkem_sized_def by blast
  with i assms(4) show "\<exists>x. createSignedKemPreKey N g i kid = Inr x"
    by (simp add: createSignedKemPreKey_def Let_def signingTranscript_eq SIG_CONTEXT_KEM_PREKEY_def sign_def expectLength_def)
qed

lemma demo_keys:
  "createSignedPreKey demo_library (demo_fresh 5) demo_bob 1 = Inr demo_spk"
  "createSignedKemPreKey demo_library (demo_fresh 6) demo_bob 2 = Inr demo_kem"
  using createSigned_total(1)[OF demo_library_ok demo_identities_ok(2), of "demo_fresh 5" 1]
    createSigned_total(2)[OF demo_library_ok demo_identities_ok(2), of "demo_fresh 5" 2 "demo_fresh 6"]
  by (auto simp: demo_spk_def demo_kem_def fits_u32_def)

lemma demo_otk_eq: "demo_otk = (\<lparr>otk_id = 3, otk_public = publicKey (generateDhKeyPair demo_library (demo_fresh 7))\<rparr>,
    generateDhKeyPair demo_library (demo_fresh 7))"
  by (simp add: demo_otk_def createOneTimePreKeys_def Let_def)

lemma demo_match:
  "secrets_match demo_library demo_bob (snd demo_spk) (snd demo_kem) (Some (snd demo_otk)) None demo_bundle"
  "resolver_holds store_resolver demo_store demo_bundle (snd demo_spk) (snd demo_kem) (Some (snd demo_otk)) None"
  "verifyPreKeyBundle demo_library demo_bundle = Inr ()"
proof -
  obtain p kp where p: "demo_spk = (p, kp)" by (cases demo_spk)
  obtain q kq where q: "demo_kem = (q, kq)" by (cases demo_kem)
  note c = created_prekeys[OF demo_library_ok demo_identities_ok(2) demo_fresh_length demo_keys(1)[unfolded p] demo_keys(2)[unfolded q]]
  have pq: "fst demo_spk = p" "snd demo_spk = kp" "fst demo_kem = q" "snd demo_kem = kq"
    by (simp_all only: p q fst_conv snd_conv)
  have otk: "dh_pair demo_library (snd demo_otk)" "otk_public (fst demo_otk) = publicKey (snd demo_otk)" "otk_id (fst demo_otk) = 3"
    by (simp_all add: demo_otk_eq)
  show "secrets_match demo_library demo_bob (snd demo_spk) (snd demo_kem) (Some (snd demo_otk)) None demo_bundle"
    using c otk demo_identities_ok(2) unfolding demo_bundle_def pq by (simp add: secrets_match_def identity_ok_def)
  show "resolver_holds store_resolver demo_store demo_bundle (snd demo_spk) (snd demo_kem) (Some (snd demo_otk)) None"
    using c otk unfolding demo_bundle_def pq by (simp add: resolver_holds_def store_resolver_def demo_store_def pq)
  show "verifyPreKeyBundle demo_library demo_bundle = Inr ()"
    using c otk dh_pair_length[OF library_okD(2)[OF demo_library_ok] otk(1)] unfolding demo_bundle_def pq
    by (auto simp: verifyPreKeyBundle_iff_lemma)
qed

lemma demo_store_ok: "store_ok demo_store"
  by (simp add: store_ok_def demo_store_def empty_store_def generations_ok_def pool_ok_def js_ok_def
      demo_otk_eq SIGNED_PREKEY_GENERATIONS_def)

lemma demo_session_exists:
  "\<exists>sess. startSession demo_library (demo_fresh 8) [9] (demo_fresh 10) demo_alice demo_bundle None = Inr sess \<and>
    (\<exists>env s'. encryptMessage demo_library (demo_fresh 11) demo_alice sess [104, 105] = (Inr env, s'))"
proof -
  have ids: "\<forall>k. oneTimePreKey demo_bundle = Some k \<longrightarrow> fits_u32 (otk_id k)"
    "\<forall>k. oneTimeKemPreKey demo_bundle = Some k \<longrightarrow> fits_u32 (otk_id k)"
    by (simp_all add: demo_bundle_def demo_otk_eq fits_u32_def)
  obtain sess p where s: "startSession demo_library (demo_fresh 8) [9] (demo_fresh 10) demo_alice demo_bundle None = Inr sess"
    "pendingPreKey sess = Some p" "length (pre_ephemeralPublicKey p) = 32" "length (pre_kemCiphertext p) = 1568"
    "ids_fit (pre_keyIds p)" "peerIdentity sess = publicIdentityOf demo_bob" "sendingChainKey (ratchet sess) \<noteq> None"
    "sending (ratchet sess) = generateDhKeyPair demo_library (demo_fresh 10)" "sentCount (ratchet sess) = 0"
    "previousSentCount (ratchet sess) = 0"
    using startSession_total[OF demo_library_ok demo_identities_ok demo_fresh_length[of 8] demo_fresh_length[of 10]
        demo_match(1,3) ids, of None "[9]"] by blast
  have "\<exists>env s'. encryptMessage demo_library (demo_fresh 11) demo_alice sess [104, 105] = (Inr env, s')"
    using s demo_identities_ok library_okD(2)[OF demo_library_ok]
    by (intro encryptMessage_total[OF demo_library_ok, where rpair = "exchange demo_bob"]) (simp_all add: identity_ok_def)
  with s(1) show ?thesis by blast
qed

definition demo_session :: session where
  "demo_session = projr (startSession demo_library (demo_fresh 8) [9] (demo_fresh 10) demo_alice demo_bundle None)"

definition demo_envelope :: sealed_envelope where
  "demo_envelope = projr (fst (encryptMessage demo_library (demo_fresh 11) demo_alice demo_session [104, 105]))"

lemma demo_session:
  "startSession demo_library (demo_fresh 8) [9] (demo_fresh 10) demo_alice demo_bundle None = Inr demo_session"
  "\<exists>s'. encryptMessage demo_library (demo_fresh 11) demo_alice demo_session [104, 105] = (Inr demo_envelope, s')"
  using demo_session_exists by (auto simp: demo_session_def demo_envelope_def)

end
