(* ===== verification/Veil_Correctness.thy ===== *)
theory Veil_Correctness
  imports Veil_Instance
begin

text \<open>
  The properties of packages/crypto that rest on the component theories, each with a witness
  over the library and the parties of Veil_Instance.
\<close>

section \<open>Conversations\<close>

lemma initial_flight:
  assumes lib: "library_ok N" and f: "length (fst f) = 32" "length (fst g) = 32" and spk: "dh_pair N spk"
    and a: "initialiseInitiator N f secret (publicKey spk) ad = Inr a"
    and sent: "list_all2 (\<lambda>m i. i < length ps \<and> fst (send_all N a ps) ! i = Inr m) ms ns"
    and ns: "distinct ns" "ns \<noteq> []" "\<forall>n \<in> set ns. n \<le> MAX_SKIP_PER_CHAIN"
    and fresh: "publicKey spk \<noteq> publicKey (generateDhKeyPair N g)"
  shows "\<exists>b' ck root. receive_all N g (initialiseResponder secret spk ad) ms = (map (\<lambda>n. Inr (ps ! n)) ns, b') \<and>
    on_chain N ck b' \<and> sentCount b' = 0 \<and> previousSentCount b' = 0 \<and>
    sending b' = generateDhKeyPair N g \<and> rs_associatedData b' = ad \<and>
    expects N (publicKey (sending b')) ck root (snd (send_all N a ps))"
proof -
  note l = library_okD[OF lib]
  let ?b = "initialiseResponder secret spk ad" and ?a = "snd (send_all N a ps)"
  define ck where "ck = the (sendingChainKey a)"
  note ie = initial_expects[OF a l(1,2) f(1) spk, folded ck_def]
  then have on: "on_chain N ck a" "sentCount a = 0" "previousSentCount a = 0" "sending a = generateDhKeyPair N f"
    "rs_associatedData a = rs_associatedData ?b" "expects N (publicKey (sending a)) ck (rootKey a) ?b"
    by (auto simp: initialiseResponder_def)
  have pair: "dh_pair N (sending a)" using on(4) f(1) by simp
  then have len: "length (publicKey (sending a)) = 32" using l(2) by simp
  obtain d2 where d2: "dh N (fst g) (publicKey (sending a)) = Inr d2" using dh_total[OF lib f(2) pair] ..
  obtain root2 ck2 where ar: "advanceRootChain N (rootKey a) d2 = (root2, ck2)" by (cases "advanceRootChain N (rootKey a) d2")
  have sk: "skipReceivingKeys N ?b (previousSentCount a) = (Inr (), ?b)"
    by (simp add: skipReceivingKeys_def initialiseResponder_def)
  obtain b' where b': "receive_all N g ?b ms = (map (\<lambda>n. Inr (ps ! n)) ns, b')"
    "sending_side b' = (root2, generateDhKeyPair N g, Some ck2, 0, 0, ad)"
    using flight[OF l(8) on(1,2) len on(5,6) sk _ d2 ar sent ns] by (auto simp: initialiseResponder_def)
  have ain: "receiving a = Some (publicKey spk)" "skipped a = []"
    using a by (auto simp: initialiseInitiator_def Let_def rbind_eq_Inr case_prod_unfold)
  have "?a = a\<lparr>sendingChainKey := Some (chain_key N ck (length ps)), sentCount := length ps\<rparr>"
    using send_all_chain[OF on(1), of ps] on(2) by simp
  then have "sending ?a = sending a" "rootKey ?a = rootKey a" "receiving ?a = receiving a" "skipped ?a = skipped a"
    by simp_all
  then have "expects N (publicKey (generateDhKeyPair N g)) ck2 root2 ?a"
    using pair d2 ar ain fresh by (intro turn_expects[OF l(1,2) f(2)]) (auto simp: holds_key_def)
  with b' show ?thesis by (intro exI[of _ b'] exI[of _ ck2] exI[of _ root2]) (simp add: sending_side_def on_chain_def)
qed

text \<open>C1
  A conversation over two turns. Whatever the initiator sends on its first chain and the
  responder sends back on its own (at most MAX_SKIP_PER_CHAIN + 1 messages each), every message
  that arrives, in any order and with any losses, decrypts to its plaintext on the other side.
\<close>

theorem conversation_delivered:
  assumes "library_ok N" and "length (fst f) = 32" "length (fst g) = 32" "length (fst g') = 32" and "dh_pair N spk"
    and "initialiseInitiator N f secret (publicKey spk) ad = Inr a"
    and "publicKey spk \<noteq> publicKey (generateDhKeyPair N g)"
    and "list_all2 (\<lambda>m i. i < length ps \<and> fst (send_all N a ps) ! i = Inr m) ms ns"
    and "distinct ns" "ns \<noteq> []" "\<forall>n \<in> set ns. n \<le> MAX_SKIP_PER_CHAIN"
    and "receive_all N g (initialiseResponder secret spk ad) ms = (rs, b)"
    and "list_all2 (\<lambda>m i. i < length qs \<and> fst (send_all N b qs) ! i = Inr m) ms' ns'"
    and "distinct ns'" "ns' \<noteq> []" "\<forall>n \<in> set ns'. n \<le> MAX_SKIP_PER_CHAIN"
  shows "rs = map (\<lambda>n. Inr (ps ! n)) ns \<and>
    fst (receive_all N g' (snd (send_all N a ps)) ms') = map (\<lambda>n. Inr (qs ! n)) ns'"
proof -
  note l = library_okD[OF assms(1)]
  let ?a = "snd (send_all N a ps)"
  obtain b' ck root where b': "receive_all N g (initialiseResponder secret spk ad) ms = (map (\<lambda>n. Inr (ps ! n)) ns, b')"
    "on_chain N ck b'" "sentCount b' = 0" "previousSentCount b' = 0" "sending b' = generateDhKeyPair N g"
    "rs_associatedData b' = ad" "expects N (publicKey (sending b')) ck root ?a"
    using initial_flight[OF assms(1,2,3,5,6,8-11,7)] by blast
  have b: "b' = b" "rs = map (\<lambda>n. Inr (ps ! n)) ns" using b'(1) assms(12) by auto
  have pair: "dh_pair N (sending b')" using b'(5) assms(3) by simp
  then have len: "length (publicKey (sending b')) = 32" using l(2) by simp
  have ain: "receivingChainKey a = None" "skipped a = []" "rs_associatedData a = ad"
    using assms(6) by (auto simp: initialiseInitiator_def Let_def rbind_eq_Inr case_prod_unfold)
  have "on_chain N (the (sendingChainKey a)) a"
    using initial_expects[OF assms(6) l(1,2) assms(2,5)] by blast
  from send_all_chain[OF this, of ps] ain
  have a': "receivingChainKey ?a = None" "skipped ?a = []" "rs_associatedData ?a = ad" by simp_all
  have sk: "skipReceivingKeys N ?a (previousSentCount b') = (Inr (), ?a)"
    using a'(1) by (simp add: skipReceivingKeys_def)
  obtain d2 where d2: "dh N (fst g') (publicKey (sending b')) = Inr d2" using dh_total[OF assms(1,4) pair] ..
  obtain root2 ck2 where ar: "advanceRootChain N root d2 = (root2, ck2)" by (cases "advanceRootChain N root d2")
  have "rs_associatedData b' = rs_associatedData ?a" "length (skipped ?a) \<le> MAX_SKIP_PER_CHAIN" using b'(6) a' by simp_all
  from flight[OF l(8) b'(2,3) len this(1) b'(7) sk this(2) d2 ar assms(13)[folded b(1)] assms(14-16)] b(2)
  show ?thesis by auto
qed

lemma demo_dh_pair [simp]: "dh_pair demo_library (generateDhKeyPair demo_library (demo_fresh i))"
  by simp

lemma demo_public:
  "publicKey (generateDhKeyPair demo_library (demo_fresh i)) = 1 # replicate 31 (word_of_nat i)"
  using replicate_Suc[of 31 "word_of_nat i :: byte"]
  by (simp add: generateDhKeyPair_def demo_library_def demo_fresh_def clamp_def)

lemma demo_keys_distinct:
  "publicKey (generateDhKeyPair demo_library (demo_fresh 5)) \<noteq> publicKey (generateDhKeyPair demo_library (demo_fresh 21))"
  by (simp add: demo_public)

theorem conversation_delivered_witness:
  "\<exists>a ms b ms'. initialiseInitiator demo_library (demo_fresh 20) [1, 2] (publicKey (generateDhKeyPair demo_library (demo_fresh 5))) [3] = Inr a \<and>
    receive_all demo_library (demo_fresh 21) (initialiseResponder [1, 2] (generateDhKeyPair demo_library (demo_fresh 5)) [3]) ms =
      ([Inr [30], Inr [10]], b) \<and>
    fst (receive_all demo_library (demo_fresh 22) (snd (send_all demo_library a [[10], [20], [30]])) ms') = [Inr [50], Inr [40]]"
proof -
  let ?N = demo_library and ?spk = "generateDhKeyPair demo_library (demo_fresh 5)"
  let ?ps = "[[10], [20], [30]] :: bytes list" and ?qs = "[[40], [50]] :: bytes list"
  note lib = demo_library_ok
  obtain d where "dh ?N (fst (demo_fresh 20)) (publicKey ?spk) = Inr d"
    using dh_total[OF lib demo_fresh_length demo_dh_pair] by blast
  then obtain a where a: "initialiseInitiator ?N (demo_fresh 20) [1, 2] (publicKey ?spk) [3] = Inr a"
    "sendingChainKey a \<noteq> None" "sentCount a = 0" "previousSentCount a = 0"
    by (cases "advanceRootChain ?N [1, 2] d") (auto simp: initialiseInitiator_def Let_def generateDhKeyPair_def[of _ "demo_fresh 20"])
  obtain ms where ms: "list_all2 (\<lambda>m i. i < length ?ps \<and> fst (send_all ?N a ?ps) ! i = Inr m) ms [2, 0]"
    using pick_messages[OF send_all_total[OF lib a(2), of ?ps], of "[2, 0]"] a(3,4) by auto
  obtain b' ck root where b': "receive_all ?N (demo_fresh 21) (initialiseResponder [1, 2] ?spk [3]) ms = (map (\<lambda>n. Inr (?ps ! n)) [2, 0], b')"
    "on_chain ?N ck b'" "sentCount b' = 0" "previousSentCount b' = 0"
    using initial_flight[OF lib demo_fresh_length demo_fresh_length demo_dh_pair a(1) ms _ _ _ demo_keys_distinct]
    by (auto simp: MAX_SKIP_PER_CHAIN_def)
  obtain ms' where ms': "list_all2 (\<lambda>m i. i < length ?qs \<and> fst (send_all ?N b' ?qs) ! i = Inr m) ms' [1, 0]"
    using pick_messages[OF send_all_total[OF lib _, of b' ?qs], of "[1, 0]"] b' by (auto simp: on_chain_def)
  from conversation_delivered[OF lib demo_fresh_length demo_fresh_length demo_fresh_length demo_dh_pair a(1)
      demo_keys_distinct ms _ _ _ b'(1) ms', of 22]
  have "fst (receive_all ?N (demo_fresh 22) (snd (send_all ?N a ?ps)) ms') = map (\<lambda>n. Inr (?qs ! n)) [1, 0]"
    by (simp add: MAX_SKIP_PER_CHAIN_def)
  then show ?thesis using a(1) b'(1) by auto
qed

text \<open>
  Delivery of the first message: with honest parties, a bundle that verifies and a store that
  holds its secrets, starting a session and encrypting succeed, and the envelope decrypts at the
  recipient to the plaintext, under the sender's identity, in a new session.
\<close>

lemma first_message_delivered:
  assumes "library_ok N" and "identity_ok N alice" and "identity_ok N bob"
    and "length (fst f1) = 32" "length (fst f2) = 32" "length (fst f3) = 32" "length (fst f4) = 32"
    and "secrets_match N bob spk kem otk okem bundle" and "resolver_holds R s bundle spk kem otk okem"
    and "verifyPreKeyBundle N bundle = Inr ()"
    and "\<forall>k. oneTimePreKey bundle = Some k \<longrightarrow> fits_u32 (otk_id k)"
    and "\<forall>k. oneTimeKemPreKey bundle = Some k \<longrightarrow> fits_u32 (otk_id k)"
    and "pin = None \<or> pin = Some (publicKey (signing bob))"
    and "\<forall>x. pinned x = None \<or> pinned x = Some (publicKey (signing alice))"
    and "\<forall>x. lookup x = None" and "length plaintext \<le> 0x3fffffff"
  shows "\<exists>sess env sess' new s'. startSession N f1 coins f2 alice bundle pin = Inr sess \<and>
    encryptMessage N f3 alice sess plaintext = (Inr env, sess') \<and>
    decryptEnvelope R N f4 bob env lookup pinned s =
      (Inr \<lparr>senderIdentity = publicIdentityOf alice, dm_plaintext = plaintext, dm_session = new, isNewSession = True\<rparr>,
       None, s')"
proof -
  obtain sess p where s: "startSession N f1 coins f2 alice bundle pin = Inr sess" "pendingPreKey sess = Some p"
    "length (pre_ephemeralPublicKey p) = 32 \<and> length (pre_kemCiphertext p) = 1568 \<and> ids_fit (pre_keyIds p)"
    "peerIdentity sess = publicIdentityOf bob" "sendingChainKey (ratchet sess) \<noteq> None"
    "sending (ratchet sess) = generateDhKeyPair N f2" "sentCount (ratchet sess) = 0" "previousSentCount (ratchet sess) = 0"
    using startSession_total[OF assms(1,2,3,4,5,8,10,11,12,13), of coins] by blast
  have "\<exists>env s'. encryptMessage N f3 alice sess plaintext = (Inr env, s')"
    using s assms(3) library_okD(2)[OF assms(1)] generate_pairs(1)[OF assms(5)]
    by (intro encryptMessage_total[OF assms(1,6,2), where rpair = "exchange bob"])
      (simp_all add: assms(16) identity_ok_def)
  then obtain env sess' where e: "encryptMessage N f3 alice sess plaintext = (Inr env, sess')" by blast
  have "\<forall>x. \<not> same_handshake (lookup x) (the (pendingPreKey sess))" using assms(15) by (simp add: same_handshake_def)
  from first_message_lemma[OF assms(1-9) s(1) e assms(14) this] s(1) e show ?thesis by blast
qed

section \<open>The ratchet\<close>


definition demo_receiver :: ratchet_state where
  "demo_receiver = (initialiseResponder [1] (generateDhKeyPair demo_library (demo_fresh 5)) [2])
     \<lparr>receiving := Some (replicate 32 7), receivingChainKey := Some (chain_key demo_library [3] 2), receivedCount := 2\<rparr>"

definition demo_forged :: "bytes \<Rightarrow> nat \<Rightarrow> ratchet_message" where
  "demo_forged pk n = \<lparr>rm_header = \<lparr>ratchetPublicKey = pk, previousChainLength = 0, messageNumber = n\<rparr>,
     rm_ciphertext = []\<rparr>"


text \<open>C4
  Bounded memory. In every state a ratchet can reach, whatever messages arrive, at most
  MAX_SKIPPED_KEYS skipped keys are held, under distinct identifiers.
\<close>

theorem skipped_keys_bounded:
  assumes "ratchet_reach N st"
  shows "length (skipped st) \<le> 2000 \<and> distinct (js_keys (skipped st))"
  using ratchet_reach_ok[OF assms] by (simp add: ratchet_ok_def MAX_SKIPPED_KEYS_def js_ok_def)

theorem skipped_keys_bounded_witness:
  "length (skipped (destroyRatchet (initialiseResponder [1] (generateDhKeyPair demo_library (demo_fresh 5)) [2]))) \<le> 2000"
proof -
  have "ratchet_reach demo_library (destroyRatchet (initialiseResponder [1] (generateDhKeyPair demo_library (demo_fresh 5)) [2]))"
    by (rule ratchet_reach.step[OF ratchet_reach.responder ratchet_step.destroy])
  from skipped_keys_bounded[OF this] show ?thesis by blast
qed


lemma demo_turn:
  "\<exists>st1. performDhRatchet demo_library (demo_fresh 9) demo_receiver (rm_header (demo_forged (1 # replicate 31 8) 0)) = (Inr (), st1)"
proof -
  have k: "1 # replicate 31 8 = publicKey (generateDhKeyPair demo_library (demo_fresh 8))" by (simp add: demo_public)
  have l: "length (secretKey (sending demo_receiver)) = 32"
    by (simp add: demo_receiver_def initialiseResponder_def generateDhKeyPair_def)
  obtain d where d: "dh demo_library (secretKey (sending demo_receiver)) (1 # replicate 31 8) = Inr d"
    using dh_total[OF demo_library_ok l demo_dh_pair, of 8] unfolding k by blast
  obtain d2 where d2: "dh demo_library (secretKey (generateDhKeyPair demo_library (demo_fresh 9))) (1 # replicate 31 8) = Inr d2"
    using dh_total[OF demo_library_ok _ demo_dh_pair, of "secretKey (generateDhKeyPair demo_library (demo_fresh 9))" 8]
    unfolding k by (auto simp: generateDhKeyPair_def)
  have "skipReceivingKeys demo_library demo_receiver 0 = (Inr (), demo_receiver)"
    by (simp add: skipReceivingKeys_def demo_receiver_def)
  with d d2 show ?thesis by (simp add: performDhRatchet_def demo_forged_def Let_def case_prod_unfold)
qed

lemma aead_empty: "rbind x (aeadDecrypt N k n []) \<noteq> Inr p"
  by (cases x) (auto simp: aead_eq_Inr)

lemma decrypt_in_chain_empty:
  assumes "rm_ciphertext m = []"
  shows "\<exists>e st'. decrypt_in_chain N st m = (Inl e, st')"
  using assms by (auto simp: decrypt_in_chain_def aead_empty split: sum.split prod.split option.split)

lemma tryDecryptWithSkipped_empty:
  assumes "rm_ciphertext m = []"
  shows "tryDecryptWithSkipped N st m = (Inr None, st) \<or> (\<exists>e. tryDecryptWithSkipped N st m = (Inl e, st))"
  using assms by (auto simp: tryDecryptWithSkipped_def Let_def aead_empty split: sum.split prod.split option.split)

lemma empty_ciphertext_fails:
  assumes "rm_ciphertext m = []"
  shows "\<exists>e st'. ratchetDecrypt N f st m = (Inl e, st')"
  using tryDecryptWithSkipped_empty[OF assms, of N st] decrypt_in_chain_empty[OF assms, of N]
  by (auto simp: ratchetDecrypt_def split: sum.splits prod.splits)


section \<open>Handshakes\<close>

lemma demo_handshake: "\<exists>h. initiateHandshake demo_library (demo_fresh 8) [9] demo_alice demo_bundle = Inr h"
  using demo_session(1) by (auto simp: startSession_def rbind_eq_Inr check_fingerprint_def)

text \<open>
  The handshake transcript binds everything both sides must agree on: two transcripts are equal
  only for the same identity keys in the same roles, the same ephemeral key, the same
  encapsulation and the same key identifiers, the absence of a one-time key included.
\<close>

lemma handshake_transcript_binds:
  assumes "handshakeTranscript i r e ct ids = Inr t" and "handshakeTranscript i' r' e' ct' ids' = Inr t"
  shows "signingPublicKey i = signingPublicKey i' \<and> exchangePublicKey i = exchangePublicKey i' \<and>
    signingPublicKey r = signingPublicKey r' \<and> exchangePublicKey r = exchangePublicKey r' \<and>
    e = e' \<and> ct = ct' \<and> ids = ids'"
  using assms by (rule handshakeTranscript_inj_lemma)

definition demo_ids :: handshake_key_ids where
  "demo_ids = \<lparr>signedPreKeyId = 1, signedKemPreKeyId = 2, oneTimePreKeyId = Some 3, oneTimeKemPreKeyId = None\<rparr>"

lemma demo_key_lengths:
  "length (publicKey (signing demo_alice)) = 32" "length (publicKey (exchange demo_alice)) = 32"
  "length (publicKey (signing demo_bob)) = 32" "length (publicKey (exchange demo_bob)) = 32"
  using verify_key_lengths[of demo_library "publicIdentityOf demo_alice"]
    verify_key_lengths[of demo_library "publicIdentityOf demo_bob"] demo_identities_ok
  by (simp_all add: identity_ok_def)

section \<open>Sessions\<close>

text \<open>C6
  A one-time prekey is used once. If decrypting an envelope consumed a one-time prekey, then
  after any further life of the store, decrypting the same envelope again on a device that no
  longer holds the session of that handshake (it holds no session, or sessions made by other
  handshakes) is refused, and neither the store nor a session changes. While the session of
  the handshake is held, the replay is a message for that session's ratchet, which this
  property does not speak about.
\<close>

theorem replayed_first_message_refused:
  assumes "store_ok s"
    and "decryptEnvelope store_resolver N f self env lookup pinned s = (Inr dm, t, s')"
    and "js_get (oneTimePreKeys s) i \<noteq> None" and "js_get (oneTimePreKeys s') i = None"
    and "store_run N s' ids s''"
    and "\<forall>x old. lookup' x = Some old \<longrightarrow> establishedBy old \<noteq> establishedBy (dm_session dm)"
  shows "decryptEnvelope store_resolver N f' self env lookup' pinned s'' = (Inl SessionStateError, None, s'')"
proof -
  obtain opened a where o: "open_checked N self env pinned = Inr (opened, a)"
    and d: "decrypt_opened store_resolver N f self opened (lookup a) s = (Inr dm, t, s')"
    using assms(2) by (auto simp: decryptEnvelope_def split: sum.splits prod.splits)
  have changed: "i \<in> fst (store.resolvable s)" "i \<notin> fst (store.resolvable s')"
    using assms(3,4) by (simp_all add: store_resolvable)
  then obtain p body where p: "oe_payloadKind opened = PAYLOAD_PREKEY" "decode_prekey_payload (oe_payload opened) = Inr (p, body)"
    "\<not> same_handshake (lookup a) p"
    "store.resolvable s' = (fst (store.resolvable s) - set_option (oneTimePreKeyId (pre_keyIds p)),
      snd (store.resolvable s) - set_option (oneTimeKemPreKeyId (pre_keyIds p)))"
    using store.resolvable_decrypt[OF d] by metis
  then obtain j where j: "oneTimePreKeyId (pre_keyIds p) = Some j"
    using changed by (cases "oneTimePreKeyId (pre_keyIds p)") auto
  have new: "decrypt_new store_resolver N f self (oe_senderIdentity opened) p body s = (Inr dm, t, s')"
    using d p(1,2,3) by (simp add: decrypt_opened_def)
  then have "isNewSession dm"
    by (auto simp: decrypt_new_def Let_def rbind_eq_Inr split: sum.splits prod.splits)
  moreover have "\<not> same_handshake (lookup' a) p"
    using assms(6) decrypt_new_established[OF new]
    by (auto simp: same_handshake_def constantTimeEqual_iff split: option.splits)
  ultimately show ?thesis
    using replayed_handshake_lemma[OF assms(1) p(1,2) j d _ assms(5)] o by (simp add: decryptEnvelope_def)
qed

lemma startSession_ids:
  "startSession N f1 coins f2 self b pin = Inr s \<Longrightarrow>
   \<exists>h. initiateHandshake N f1 coins self b = Inr h \<and> pre_keyIds (the (pendingPreKey s)) = hs_keyIds h"
  by (auto simp: startSession_def rbind_eq_Inr)

lemma demo_session_ids: "pre_keyIds (the (pendingPreKey demo_session)) = demo_ids"
proof -
  obtain p kp where p: "demo_spk = (p, kp)" by (cases demo_spk)
  obtain q kq where q: "demo_kem = (q, kq)" by (cases demo_kem)
  have "spk_id p = 1" "spk_id q = 2"
    using createSignedPreKey_id(1)[OF demo_keys(1)[unfolded p]] createSignedPreKey_id(2)[OF demo_keys(2)[unfolded q]] by auto
  moreover have "fst demo_spk = p" "fst demo_kem = q" by (simp_all only: p q fst_conv)
  ultimately have ids: "hs_keyIds h = demo_ids"
    if "initiateHandshake demo_library (demo_fresh 8) [9] demo_alice demo_bundle = Inr h" for h
    using initiate_fields(1)[OF that] by (simp add: demo_bundle_def demo_ids_def demo_otk_eq)
  obtain h where "initiateHandshake demo_library (demo_fresh 8) [9] demo_alice demo_bundle = Inr h"
    "pre_keyIds (the (pendingPreKey demo_session)) = hs_keyIds h"
    using startSession_ids[OF demo_session(1)] by blast
  with ids show ?thesis by simp
qed

lemma demo_first:
  "\<exists>new bs. decryptEnvelope store_resolver demo_library (demo_fresh 12) demo_bob demo_envelope (\<lambda>x. None) (\<lambda>x. None) demo_store =
      (Inr \<lparr>senderIdentity = publicIdentityOf demo_alice, dm_plaintext = [104, 105], dm_session = new, isNewSession = True\<rparr>,
       None, consume_named store_resolver demo_ids (scrub bs demo_store)) \<and> skbuf (snd demo_spk) \<in> set bs"
proof -
  obtain s' where e: "encryptMessage demo_library (demo_fresh 11) demo_alice demo_session [104, 105] = (Inr demo_envelope, s')"
    using demo_session(2) by blast
  have "\<forall>x. \<not> same_handshake ((\<lambda>x. None) x) (the (pendingPreKey demo_session))" by (simp add: same_handshake_def)
  from first_message_lemma[OF demo_library_ok demo_identities_ok demo_fresh_length demo_fresh_length demo_fresh_length
      demo_fresh_length[of 12] demo_match(1,2) demo_session(1) e _ this, of "\<lambda>x. None"]
  show ?thesis by (simp add: demo_session_ids)
qed

lemma demo_consumed: "oneTimePreKeys (consume_named store_resolver demo_ids (scrub bs demo_store)) = []"
  by (simp add: consume_named_def demo_ids_def consumeOneTimePreKey_def scrub_def scrub_map_def
      demo_store_def Let_def)

theorem replayed_first_message_refused_witness:
  "\<exists>dm s'. decryptEnvelope store_resolver demo_library (demo_fresh 12) demo_bob demo_envelope (\<lambda>x. None) (\<lambda>x. None) demo_store = (Inr dm, None, s') \<and>
     decryptEnvelope store_resolver demo_library (demo_fresh 13) demo_bob demo_envelope (\<lambda>x. None) (\<lambda>x. None) s' = (Inl SessionStateError, None, s')"
proof -
  obtain new bs where d: "decryptEnvelope store_resolver demo_library (demo_fresh 12) demo_bob demo_envelope (\<lambda>x. None) (\<lambda>x. None) demo_store =
      (Inr \<lparr>senderIdentity = publicIdentityOf demo_alice, dm_plaintext = [104, 105], dm_session = new, isNewSession = True\<rparr>,
       None, consume_named store_resolver demo_ids (scrub bs demo_store))"
    using demo_first by blast
  have "js_get (oneTimePreKeys demo_store) 3 \<noteq> None" by (simp add: demo_store_def)
  from replayed_first_message_refused[OF demo_store_ok d this _ store_run.start, of "\<lambda>x. None" "demo_fresh 13"] d
  show ?thesis by (simp add: demo_consumed)
qed



text \<open>
  The responder's first ratchet pair is the prekey store's own object, and the first DH step
  overwrites its secret: after a first message against it, the store still resolves the signed
  prekey, with an all-zero secret.
\<close>

lemma signed_prekey_overwritten:
  assumes "library_ok N" and "identity_ok N alice" and "identity_ok N bob"
    and "length (fst f1) = 32" "length (fst f2) = 32" "length (fst f3) = 32" "length (fst f4) = 32"
    and "secrets_match N bob spk kem otk okem bundle"
    and "resolver_holds store_resolver s bundle spk kem otk okem"
    and "startSession N f1 coins f2 alice bundle pin = Inr sess"
    and "encryptMessage N f3 alice sess plaintext = (Inr env, sess')"
    and "\<forall>x. lookup x = None"
    and "decryptEnvelope store_resolver N f4 bob env lookup (\<lambda>x. None) s = (r, t, s')"
  shows "\<exists>dm. r = Inr dm \<and> isNewSession dm \<and>
    js_get (signedPreKeys s') (spk_id (signedPreKey bundle)) = Some (spk\<lparr>secretKey := replicate 32 0\<rparr>)"
proof -
  have "\<forall>x. \<not> same_handshake (lookup x) (the (pendingPreKey sess))" using assms(12) by (simp add: same_handshake_def)
  from first_message_lemma[OF assms(1-11) _ this, of "\<lambda>x. None"]
  obtain new bs where d: "decryptEnvelope store_resolver N f4 bob env lookup (\<lambda>x. None) s =
      (Inr \<lparr>senderIdentity = publicIdentityOf alice, dm_plaintext = plaintext, dm_session = new, isNewSession = True\<rparr>,
       None, consume_named store_resolver (pre_keyIds (the (pendingPreKey sess))) (res_wiped store_resolver bs s))"
    and bs: "skbuf spk \<in> set bs" by auto
  have "res_signedPreKey store_resolver s (spk_id (signedPreKey bundle)) = Some spk"
    using assms(9) by (simp add: resolver_holds_def)
  from store.signed_prekey_wiped[OF this bs] have "js_get (signedPreKeys s') (spk_id (signedPreKey bundle)) =
      Some (spk\<lparr>secretKey := zeroed (secretKey spk)\<rparr>)"
    using d assms(13) by simp
  moreover have "length (secretKey spk) = 32" using assms(8) by (simp add: secrets_match_def dh_pair_def)
  ultimately show ?thesis using d assms(13) by (auto simp: zeroed_def)
qed

definition demo_preamble :: prekey_preamble where
  "demo_preamble = \<lparr>pre_ephemeralPublicKey = [1], pre_kemCiphertext = [2], pre_keyIds = demo_ids\<rparr>"

lemma demo_payload: "\<exists>payload. message_payload (Some demo_preamble) [7] = Inr payload"
proof -
  obtain e where e: "encodePreamble demo_preamble = Inr e"
    by (simp add: encodePreamble_eq demo_preamble_def demo_ids_def ids_fit_def fits_u32_def fits_len_def)
  have "w_run [w_fixed e, w_bytes [7]] = Inr (e @ image_bytes [7])"
    using w_run_writes[of "[w_fixed e, w_bytes [7]]" "[(True, e), (True, image_bytes [7])]"] writes_bytes[of "[7]"]
    by (simp add: writes_fixed fits_len_def)
  with e show ?thesis by (simp add: message_payload_def)
qed

section \<open>Envelopes and signatures\<close>

text \<open>
  An envelope opens to what was sealed into it: the sender, the payload kind and the payload.
\<close>

lemma sealed_envelope_opens:
  assumes "library_ok N" and "length (fst f) = 32" and "identity_ok N alice" and "dh_pair N rpair"
    and "exchangePublicKey recipient = publicKey rpair"
    and "sealEnvelope N f (sign N (secretKey (signing alice))) (publicIdentityOf alice) recipient kind payload = Inr env"
  shows "openEnvelope N (secretKey rpair) (publicKey rpair) (recipientAddress env) env =
    Inr \<lparr>oe_senderIdentity = publicIdentityOf alice, oe_payloadKind = kind, oe_payload = payload\<rparr>"
  using assms sign_verifies[OF assms(1,3)]
  by (intro open_sealed[OF library_okD(1,2,8)[OF assms(1)] assms(2) assms(4,5) _ _ assms(6)]) (auto simp: identity_ok_def)

text \<open>
  A bundle is accepted exactly when the identity binding verifies, both signed prekeys have the
  right length and a signature of that identity in their own context, and the one-time keys
  present have the right length.
\<close>

lemma bundle_accepted_iff:
  "verifyPreKeyBundle N b = Inr () \<longleftrightarrow>
     verifyIdentityBinding N (identity b) = Inr True \<and>
     length (spk_public (signedPreKey b)) = 32 \<and> length (spk_public (signedKemPreKey b)) = 1568 \<and>
     (\<exists>t. signingTranscript SIG_CONTEXT_SIGNED_PREKEY (signingPublicKey (identity b))
        (spk_id (signedPreKey b)) (spk_public (signedPreKey b)) = Inr t \<and>
        verify N (signingPublicKey (identity b)) t (spk_signature (signedPreKey b))) \<and>
     (\<exists>t. signingTranscript SIG_CONTEXT_KEM_PREKEY (signingPublicKey (identity b))
        (spk_id (signedKemPreKey b)) (spk_public (signedKemPreKey b)) = Inr t \<and>
        verify N (signingPublicKey (identity b)) t (spk_signature (signedKemPreKey b))) \<and>
     (case oneTimePreKey b of None \<Rightarrow> True | Some k \<Rightarrow> length (otk_public k) = 32) \<and>
     (case oneTimeKemPreKey b of None \<Rightarrow> True | Some k \<Rightarrow> length (otk_public k) = 1568)"
  by (auto simp: verifyPreKeyBundle_iff_lemma split: option.splits)

section \<open>Prekeys\<close>

text \<open>
  Rotation. A rotation that succeeds makes the two next identifiers current, each with its
  secret stored, retains exactly the newest SIGNED_PREKEY_GENERATIONS generations and leaves the
  one-time keys alone, within the store's invariant.
\<close>

lemma rotation_keeps_newest:
  assumes "store_ok s" and "rotateSignedPreKeys N f1 f2 s = (Inr (), s')"
  shows "store_ok s' \<and> nextId s' = nextId s + 2 \<and>
    signedPreKeyOrder s' = drop (length (signedPreKeyOrder s) + 1 - SIGNED_PREKEY_GENERATIONS)
      (signedPreKeyOrder s @ [nextId s]) \<and>
    (\<exists>p k. currentSignedPreKey s' = Some p \<and> spk_id p = nextId s \<and>
      js_get (signedPreKeys s') (nextId s) = Some k \<and> publicKey k = spk_public p) \<and>
    (\<exists>p k. currentSignedKemPreKey s' = Some p \<and> spk_id p = nextId s + 1 \<and>
      js_get (signedKemPreKeys s') (nextId s + 1) = Some k \<and> publicKey k = spk_public p) \<and>
    oneTimePreKeys s' = oneTimePreKeys s \<and> oneTimeKemPreKeys s' = oneTimeKemPreKeys s"
  using rotate_spec[OF assms] by blast

lemma rotate_total:
  assumes "library_ok N" and "identity_ok N (ps_identity s)" and "length (fst f1) = 32"
    and "0 \<le> nextId s" and "nextId s < 0xffffffff"
  shows "\<exists>s'. rotateSignedPreKeys N f1 f2 s = (Inr (), s')"
proof -
  have "fits_u32 (nextId s)" "fits_u32 (nextId s + 1)" using assms(4,5) by (simp_all add: fits_u32_def)
  then obtain p q where "createSignedPreKey N f1 (ps_identity s) (nextId s) = Inr p"
    "createSignedKemPreKey N f2 (ps_identity s) (nextId s + 1) = Inr q"
    using createSigned_total[OF assms(1-3)] by blast
  then show ?thesis by (cases p; cases q) (simp add: rotateSignedPreKeys_def Let_def case_prod_unfold)
qed



section \<open>Encodings\<close>

text \<open>
  The header codec: exactly the encodings of headers with a 32-byte key decode, each to the
  header it encodes.
\<close>

lemma header_decodes_iff:
  "decodeHeader b = Inr h \<longleftrightarrow> length (ratchetPublicKey h) = 32 \<and> encodeHeader h = Inr b"
  by (rule decodeHeader_iff_lemma)

text \<open>C10
  Padding: what \<open>pad\<close> produces unpads to the plaintext; \<open>unpad\<close> accepts nothing but a payload
  followed by the marker and zeros; and the padded length is the least bucket that fits, at
  most a quarter above the payload once past the smallest bucket.
\<close>

theorem padding_correct:
  "\<exists>q. pad p = Inr q \<and> unpad q = Inr p \<and> bucketSize (int (length p)) = Inr (length q) \<and>
     (\<exists>k. length q = bucket_at k \<and> length p < bucket_at k \<and> \<not> (\<exists>j < k. length p < bucket_at j)) \<and>
     (length q = 128 \<or> 4 * length q \<le> 5 * length p + 3) \<and>
     (unpad r = Inr p \<longleftrightarrow> (\<exists>k. r = p @ PADDING_MARKER # replicate k 0))"
proof -
  obtain q where q: "pad p = Inr q" using pad_total by blast
  note b = length_pad[OF q]
  obtain k where "bucketSize (int (length p)) = Inr (bucket_at k)" "length p + 1 \<le> bucket_at k" "\<forall>j < k. bucket_at j < length p + 1"
    using bucketSize_schedule[of "int (length p)"] by auto
  with b have "length q = bucket_at k \<and> length p < bucket_at k \<and> \<not> (\<exists>j < k. length p < bucket_at j)" by fastforce
  moreover have "length q = 128 \<or> 4 * length q \<le> 5 * length p + 3"
    using bucket_overhead_lemma[OF b] by (simp add: MIN_BUCKET_def)
  ultimately show ?thesis using q b pad_unpad[OF q] unpad_iff[of r p] by blast
qed

text \<open>
  Base32: the shift loop of the address encoding computes the base-32 expansion of the bytes,
  and hexadecimal text decodes to the bytes it was written from.
\<close>

lemma text_encodings_correct:
  "toBase32 b = base32_spec b \<and> length (toBase32 b) = (8 * length b + 4) div 5 \<and> fromHex (toHex b) = Inr b"
  using toBase32_spec length_toBase32 fromHex_toHex by simp

end
