(* ===== verification/Veil_Sframe.thy ===== *)
theory Veil_Sframe
  imports Veil_Instance
begin

text \<open>
  End-to-end encrypted media frames, packages/crypto/src/sframe.ts: the sender's counter, the
  receiver's replay window, encryption and decryption of a frame.
\<close>

definition MAX_FRAME_COUNTER :: int where "MAX_FRAME_COUNTER = 2 ^ 48 - 1"
definition REPLAY_WINDOW :: int where "REPLAY_WINDOW = 1024"

record sframe_sender =
  ss_key :: bytes
  ss_counter :: int

text \<open>\<open>seen\<close> is a Set: a list without repetitions, in insertion order.\<close>

record sframe_receiver =
  sr_key :: bytes
  highestCounter :: int
  seen :: "int list"

record encrypted_frame =
  ef_counter :: int
  ef_payload :: bytes

definition createSender :: "bytes \<Rightarrow> sframe_sender result" where
  "createSender key = (if length key \<noteq> AEAD_KEY_LEN then Inl MalformedInputError
     else Inr \<lparr>ss_key = key, ss_counter = 0\<rparr>)"

definition createReceiver :: "bytes \<Rightarrow> sframe_receiver result" where
  "createReceiver key = (if length key \<noteq> AEAD_KEY_LEN then Inl MalformedInputError
     else Inr \<lparr>sr_key = key, highestCounter = -1, seen = []\<rparr>)"

definition frameKeys :: "noble \<Rightarrow> bytes \<Rightarrow> int \<Rightarrow> (bytes \<times> bytes) result" where
  "frameKeys N key counter =
     rbind (w_run [w_fixed LABEL_sframeFrame, w_u64 counter]) (\<lambda>info.
     let derived = kdf N key [] info (AEAD_KEY_LEN + AEAD_NONCE_LEN)
     in Inr (slice 0 AEAD_KEY_LEN derived, drop AEAD_KEY_LEN derived))"

definition encodeFrameHeader :: "int \<Rightarrow> bytes result" where
  "encodeFrameHeader counter = w_run [w_u64 counter]"

definition frame_ad :: "int \<Rightarrow> bytes \<Rightarrow> bytes result" where
  "frame_ad counter additionalData =
     rbind (encodeFrameHeader counter) (\<lambda>h. w_run [w_fixed h, w_fixed additionalData])"

definition encryptFrame ::
  "noble \<Rightarrow> sframe_sender \<Rightarrow> bytes \<Rightarrow> bytes \<Rightarrow> encrypted_frame result \<times> sframe_sender" where
  "encryptFrame N s frame additionalData =
     (if ss_counter s > MAX_FRAME_COUNTER then (Inl MalformedInputError, s)
      else let counter = ss_counter s; s1 = s\<lparr>ss_counter := ss_counter s + 1\<rparr> in
       (rbind (frameKeys N (ss_key s1) counter) (\<lambda>(frameKey, nonce).
        rbind (frame_ad counter additionalData) (\<lambda>ad.
        rbind (aeadEncrypt N frameKey nonce frame ad) (\<lambda>c.
        Inr \<lparr>ef_counter = counter, ef_payload = c\<rparr>))), s1))"

text \<open>\<open>seen.add\<close>, the new highest counter, and the pruning of the window.\<close>

definition accept_counter :: "int \<Rightarrow> sframe_receiver \<Rightarrow> sframe_receiver" where
  "accept_counter c r =
     (let s1 = (if c \<in> set (seen r) then seen r else seen r @ [c]);
          h = (if c > highestCounter r then c else highestCounter r);
          cutoff = h - REPLAY_WINDOW;
          s2 = (if cutoff > 0 then filter (\<lambda>x. \<not> x \<le> cutoff) s1 else s1)
      in r\<lparr>highestCounter := h, seen := s2\<rparr>)"

definition decryptFrame ::
  "noble \<Rightarrow> sframe_receiver \<Rightarrow> encrypted_frame \<Rightarrow> bytes \<Rightarrow> bytes result \<times> sframe_receiver" where
  "decryptFrame N r frame additionalData = (let counter = ef_counter frame in
     if counter < 0 \<or> counter > MAX_FRAME_COUNTER then (Inl MalformedInputError, r)
     else if counter \<in> set (seen r) then (Inl ReplayError, r)
     else if highestCounter r \<ge> 0 \<and> counter + REPLAY_WINDOW \<le> highestCounter r then (Inl ReplayError, r)
     else case rbind (frameKeys N (sr_key r) counter) (\<lambda>(frameKey, nonce).
               rbind (frame_ad counter additionalData) (\<lambda>ad.
               aeadDecrypt N frameKey nonce (ef_payload frame) ad)) of
          Inl e \<Rightarrow> (Inl e, r)
        | Inr plaintext \<Rightarrow> (Inr plaintext, accept_counter counter r))"

definition destroySender :: "sframe_sender \<Rightarrow> sframe_sender" where
  "destroySender s = s\<lparr>ss_key := zeroed (ss_key s)\<rparr>"

definition destroyReceiver :: "sframe_receiver \<Rightarrow> sframe_receiver" where
  "destroyReceiver r = r\<lparr>sr_key := zeroed (sr_key r), seen := []\<rparr>"

section \<open>The replay window\<close>

text \<open>
  \<open>A\<close> are the counters accepted so far: each is still remembered or below the window; what is
  remembered lies within it.
\<close>

definition window_ok :: "int set \<Rightarrow> sframe_receiver \<Rightarrow> bool" where
  "window_ok A r \<longleftrightarrow> distinct (seen r) \<and> -1 \<le> highestCounter r \<and>
     (\<forall>c \<in> set (seen r). 0 \<le> c \<and> c \<le> highestCounter r \<and> highestCounter r - (REPLAY_WINDOW + 1) < c) \<and>
     (\<forall>c \<in> A. c \<in> set (seen r) \<or> (0 \<le> highestCounter r \<and> c + REPLAY_WINDOW \<le> highestCounter r))"

lemma createReceiver_ok: "createReceiver key = Inr r \<Longrightarrow> window_ok {} r"
  by (auto simp: createReceiver_def window_ok_def split: if_splits)

lemma accept_counter_ok:
  assumes "window_ok A r" and "0 \<le> c" and "c \<notin> set (seen r)"
    and "\<not> (highestCounter r \<ge> 0 \<and> c + REPLAY_WINDOW \<le> highestCounter r)"
  shows "window_ok (insert c A) (accept_counter c r)"
  using assms by (auto simp: window_ok_def accept_counter_def Let_def REPLAY_WINDOW_def)

lemma decryptFrame_accepts:
  assumes "decryptFrame N r f ad = (Inr p, r')"
  shows "0 \<le> ef_counter f \<and> ef_counter f \<notin> set (seen r) \<and> r' = accept_counter (ef_counter f) r \<and>
    \<not> (highestCounter r \<ge> 0 \<and> ef_counter f + REPLAY_WINDOW \<le> highestCounter r)"
  using assms by (auto simp: decryptFrame_def Let_def split: if_splits sum.splits)

lemma decryptFrame_rejects: "decryptFrame N r f ad = (Inl e, r') \<Longrightarrow> r' = r"
  by (auto simp: decryptFrame_def Let_def split: if_splits sum.splits)

text \<open>A run of frames, and the counters it accepted, oldest first.\<close>

inductive frame_run :: "noble \<Rightarrow> sframe_receiver \<Rightarrow> int list \<Rightarrow> sframe_receiver \<Rightarrow> bool" for N where
  none: "frame_run N r [] r"
| accept: "frame_run N r cs r1 \<Longrightarrow> decryptFrame N r1 f ad = (Inr p, r2) \<Longrightarrow> frame_run N r (cs @ [ef_counter f]) r2"
| reject: "frame_run N r cs r1 \<Longrightarrow> decryptFrame N r1 f ad = (Inl e, r2) \<Longrightarrow> frame_run N r cs r2"

lemma frame_run_ok:
  "frame_run N r cs r' \<Longrightarrow> window_ok {} r \<Longrightarrow> window_ok (set cs) r' \<and> distinct cs \<and> (\<forall>c \<in> set cs. 0 \<le> c)"
proof (induction rule: frame_run.induct)
  case (accept r cs r1 f ad p r2)
  then have ih: "window_ok (set cs) r1" "distinct cs" "\<forall>c \<in> set cs. 0 \<le> c" by auto
  note d = decryptFrame_accepts[OF accept.hyps(2)]
  then have "ef_counter f \<notin> set cs" using ih(1) by (auto simp: window_ok_def)
  with ih d accept_counter_ok[OF ih(1)] show ?case by auto
next
  case (reject r cs r1 f ad e r2)
  then show ?case using decryptFrame_rejects by blast
qed simp

text \<open>C13
  No replay: over any sequence of frames, genuine or forged, a receiver accepts each counter at
  most once, and remembers at most REPLAY_WINDOW + 1 of them.
\<close>

theorem frames_accepted_once:
  assumes "createReceiver key = Inr r" and "frame_run N r cs r'"
  shows "distinct cs \<and> length (seen r') \<le> 1025"
proof -
  note ok = frame_run_ok[OF assms(2) createReceiver_ok[OF assms(1)]]
  then have "set (seen r') \<subseteq> {highestCounter r' - 1024 .. highestCounter r'}"
    by (auto simp: window_ok_def REPLAY_WINDOW_def)
  then have "card (set (seen r')) \<le> card {highestCounter r' - 1024 .. highestCounter r'}" by (intro card_mono) auto
  with ok show ?thesis by (simp add: window_ok_def distinct_card)
qed

section \<open>Frames round trip\<close>

lemma frameKeys_total:
  assumes "0 \<le> c" and "c \<le> MAX_FRAME_COUNTER"
  shows "\<exists>k n. frameKeys N key c = Inr (k, n)" and "\<exists>a. frame_ad c x = Inr a"
proof -
  have c: "c \<le> 0xffffffffffffffff" using assms(2) by (simp add: MAX_FRAME_COUNTER_def)
  have "w_run [w_fixed LABEL_sframeFrame, w_u64 c] = Inr (LABEL_sframeFrame @ be_bytes 8 (nat c))"
    using w_run_writes[of "[w_fixed LABEL_sframeFrame, w_u64 c]" "[(True, LABEL_sframeFrame), (True, be_bytes 8 (nat c))]"]
      writes_u64[of c] assms(1) c by (simp add: writes_fixed)
  then show "\<exists>k n. frameKeys N key c = Inr (k, n)" by (simp add: frameKeys_def Let_def)
  have "w_run [w_u64 c] = Inr (be_bytes 8 (nat c))"
    using w_run_writes[of "[w_u64 c]" "[(True, be_bytes 8 (nat c))]"] writes_u64[of c] assms(1) c by simp
  moreover have "w_run [w_fixed h, w_fixed x] = Inr (h @ x)" for h
    using w_run_writes[of "[w_fixed h, w_fixed x]" "[(True, h), (True, x)]"] by (simp add: writes_fixed)
  ultimately show "\<exists>a. frame_ad c x = Inr a" by (simp add: frame_ad_def encodeFrameHeader_def)
qed

lemma frameKeys_lengths:
  "hkdf_sized N \<Longrightarrow> frameKeys N key c = Inr (k, n) \<Longrightarrow> length k = 32 \<and> length n = 24"
  by (auto simp: frameKeys_def Let_def rbind_eq_Inr slice_def length_kdf)

text \<open>
  A sender never reuses a counter: a frame takes the current counter and the next frame's is
  one above, until the space of counters is exhausted, where it refuses and stays.
\<close>

lemma sender_counter_fresh:
  assumes "library_ok N" and "0 \<le> ss_counter s"
  shows "if ss_counter s \<le> MAX_FRAME_COUNTER
    then \<exists>f. encryptFrame N s frame ad = (Inr f, s\<lparr>ss_counter := ss_counter s + 1\<rparr>) \<and> ef_counter f = ss_counter s
    else encryptFrame N s frame ad = (Inl MalformedInputError, s)"
proof (cases "ss_counter s \<le> MAX_FRAME_COUNTER")
  case True
  obtain k n where kn: "frameKeys N (ss_key s) (ss_counter s) = Inr (k, n)" using frameKeys_total(1)[OF assms(2) True] by blast
  moreover obtain a where "frame_ad (ss_counter s) ad = Inr a" using frameKeys_total(2)[OF assms(2) True] by blast
  moreover have "length k = 32" "length n = 24" using frameKeys_lengths[OF library_okD(9)[OF assms(1)] kn] by simp_all
  ultimately show ?thesis using True by (simp add: encryptFrame_def Let_def aeadEncrypt_def expectLength_def)
qed (simp add: encryptFrame_def)

lemma frame_delivered_lemma:
  assumes "library_ok N" and "0 \<le> ss_counter s" and "ss_key s = sr_key r"
    and "encryptFrame N s frame ad = (Inr f, s')"
  shows "decryptFrame N r f ad = (Inr frame, accept_counter (ss_counter s) r) \<longleftrightarrow>
      ss_counter s \<notin> set (seen r) \<and>
      \<not> (highestCounter r \<ge> 0 \<and> ss_counter s + REPLAY_WINDOW \<le> highestCounter r)"
proof -
  have le: "ss_counter s \<le> MAX_FRAME_COUNTER" using assms(4) by (auto simp: encryptFrame_def split: if_splits)
  obtain k n a where ka: "frameKeys N (ss_key s) (ss_counter s) = Inr (k, n)" "frame_ad (ss_counter s) ad = Inr a"
    using frameKeys_total[OF assms(2) le] by blast
  with assms(4) le have f: "ef_counter f = ss_counter s" "aeadEncrypt N k n frame a = Inr (ef_payload f)"
    by (auto simp: encryptFrame_def Let_def rbind_eq_Inr)
  note d = aead_roundtrip[OF library_okD(8)[OF assms(1)] f(2)]
  show ?thesis using ka d f(1) assms(2,3) le by (auto simp: decryptFrame_def Let_def)
qed

definition demo_sender :: sframe_sender where
  "demo_sender = \<lparr>ss_key = replicate 32 4, ss_counter = 7\<rparr>"

definition demo_media :: sframe_receiver where
  "demo_media = \<lparr>sr_key = replicate 32 4, highestCounter = 9, seen = [9, 8]\<rparr>"

lemma demo_frame:
  "\<exists>f s'. encryptFrame demo_library demo_sender [1, 2] [3] = (Inr f, s') \<and> ef_counter f = 7"
proof -
  have c: "0 \<le> ss_counter demo_sender" "ss_counter demo_sender \<le> MAX_FRAME_COUNTER"
    by (simp_all add: demo_sender_def MAX_FRAME_COUNTER_def)
  obtain k n a where ka: "frameKeys demo_library (ss_key demo_sender) (ss_counter demo_sender) = Inr (k, n)"
    "frame_ad (ss_counter demo_sender) [3] = Inr a"
    using frameKeys_total[OF c] by blast
  then show ?thesis
    using frameKeys_lengths[OF library_okD(9)[OF demo_library_ok] ka(1)] c(2)
    by (simp add: encryptFrame_def Let_def aeadEncrypt_def expectLength_def) (simp add: demo_sender_def)
qed

theorem frames_accepted_once_witness:
  "\<exists>r r'. createReceiver (replicate 32 4) = Inr r \<and> frame_run demo_library r [7] r' \<and> length (seen r') \<le> 1025"
proof -
  have r: "createReceiver (replicate 32 4) = Inr \<lparr>sr_key = replicate 32 4, highestCounter = -1, seen = []\<rparr>"
    by (simp add: createReceiver_def)
  let ?r = "\<lparr>sr_key = replicate 32 4, highestCounter = -1, seen = []\<rparr>"
  obtain f s' where e: "encryptFrame demo_library demo_sender [1, 2] [3] = (Inr f, s')" "ef_counter f = 7"
    using demo_frame by blast
  have "decryptFrame demo_library ?r f [3] = (Inr [1, 2], accept_counter 7 ?r)"
    using frame_delivered_lemma[OF demo_library_ok _ _ e(1), of ?r] by (simp add: demo_sender_def)
  from frame_run.accept[OF frame_run.none this] e(2) have run: "frame_run demo_library ?r [7] (accept_counter 7 ?r)" by simp
  from frames_accepted_once[OF r run] r run show ?thesis by blast
qed

end
