(* ===== verification/Veil_Sas.thy ===== *)
theory Veil_Sas
  imports Veil_Wire
begin

text \<open>
  The short authentication string of packages/crypto/src/callKeys.ts: the word list, the four
  words and the six digits two callers compare. The words determine the bytes they stand for.
\<close>

section \<open>Definitions\<close>

definition SAS_WORDS :: "string list" where
  "SAS_WORDS = [
  ''absurd'', ''acme'', ''adrift'', ''adult'', ''afflict'', ''ahead'',
  ''aimless'', ''algol'', ''allow'', ''alone'', ''ammo'', ''ancient'',
  ''apple'', ''artist'', ''assume'', ''athens'', ''atlas'', ''aztec'',
  ''baboon'', ''backfield'', ''backward'', ''banjo'', ''beaming'', ''bedlamp'',
  ''beehive'', ''beeswax'', ''befriend'', ''belfast'', ''berserk'', ''billiard'',
  ''bison'', ''blackjack'', ''blockade'', ''blowtorch'', ''bluebird'', ''bombast'',
  ''bookshelf'', ''brackish'', ''breadline'', ''breakup'', ''brickyard'', ''briefcase'',
  ''burbank'', ''button'', ''buzzard'', ''cement'', ''chairlift'', ''chatter'',
  ''checkup'', ''chisel'', ''choking'', ''chopper'', ''christmas'', ''clamshell'',
  ''classic'', ''classroom'', ''cleanup'', ''clockwork'', ''cobra'', ''commence'',
  ''concert'', ''cowbell'', ''crackdown'', ''cranky'', ''crowfoot'', ''crucial'',
  ''crumpled'', ''crusade'', ''cubic'', ''dashboard'', ''deadbolt'', ''deckhand'',
  ''dogsled'', ''dragnet'', ''drainage'', ''dreadful'', ''drifter'', ''dropper'',
  ''drumbeat'', ''drunken'', ''dupont'', ''dwelling'', ''eating'', ''edict'',
  ''egghead'', ''eightball'', ''endorse'', ''endow'', ''enlist'', ''erase'',
  ''escape'', ''exceed'', ''eyeglass'', ''eyetooth'', ''facial'', ''fallout'',
  ''flagpole'', ''flatfoot'', ''flytrap'', ''fracture'', ''framework'', ''freedom'',
  ''frighten'', ''gazelle'', ''geiger'', ''glitter'', ''glucose'', ''goggles'',
  ''goldfish'', ''gremlin'', ''guidance'', ''hamlet'', ''highchair'', ''hockey'',
  ''indoors'', ''indulge'', ''inverse'', ''involve'', ''island'', ''jawbone'',
  ''keyboard'', ''kickoff'', ''kiwi'', ''klaxon'', ''locale'', ''lockup'',
  ''merit'', ''minnow'', ''miser'', ''mohawk'', ''mural'', ''music'',
  ''necklace'', ''neptune'', ''newborn'', ''nightbird'', ''oakland'', ''obtuse'',
  ''offload'', ''optic'', ''orca'', ''payday'', ''peachy'', ''pheasant'',
  ''physique'', ''playhouse'', ''pluto'', ''preclude'', ''prefer'', ''preshrunk'',
  ''printer'', ''prowler'', ''pupil'', ''puppy'', ''python'', ''quadrant'',
  ''quiver'', ''quota'', ''ragtime'', ''ratchet'', ''rebirth'', ''reform'',
  ''regain'', ''reindeer'', ''rematch'', ''repay'', ''retouch'', ''revenge'',
  ''reward'', ''rhythm'', ''ribcage'', ''ringbolt'', ''robust'', ''rocker'',
  ''ruffled'', ''sailboat'', ''sawdust'', ''scallion'', ''scenic'', ''scorecard'',
  ''scotland'', ''seabird'', ''select'', ''sentence'', ''shadow'', ''shamrock'',
  ''showgirl'', ''skullcap'', ''skydive'', ''slingshot'', ''slowdown'', ''snapline'',
  ''snapshot'', ''snowcap'', ''snowslide'', ''solo'', ''southward'', ''soybean'',
  ''spaniel'', ''spearhead'', ''spellbind'', ''spheroid'', ''spigot'', ''spindle'',
  ''spyglass'', ''stagehand'', ''stagnate'', ''stairway'', ''standard'', ''stapler'',
  ''steamship'', ''sterling'', ''stockman'', ''stopwatch'', ''stormy'', ''sugar'',
  ''surmount'', ''suspense'', ''sweatband'', ''swelter'', ''tactics'', ''talon'',
  ''tapeworm'', ''tempest'', ''tiger'', ''tissue'', ''tonic'', ''topmost'',
  ''tracker'', ''transit'', ''trauma'', ''treadmill'', ''trojan'', ''trouble'',
  ''tumor'', ''tunnel'', ''tycoon'', ''uncut'', ''unearth'', ''unwind'',
  ''uproot'', ''upset'', ''upshot'', ''vapor'', ''village'', ''virus'',
  ''vulcan'', ''waffle'', ''wallet'', ''watchword'', ''wayside'', ''willow'',
  ''woodlark'', ''zulu'', ''alpine'', ''bravado'']"

definition sasWords :: "bytes \<Rightarrow> string result" where
  "sasWords bs = (if length bs < 4 then Inl MalformedInputError
     else if length SAS_WORDS \<noteq> 256 then Inl MalformedInputError
     else Inr (js_join '' '' (map (\<lambda>i. SAS_WORDS ! unat (bs ! i)) [0, 1, 2, 3])))"

text \<open>\<open>value = value * 256 + bytes[i]\<close> four times, then six digits.\<close>

definition sasNumeric :: "bytes \<Rightarrow> string result" where
  "sasNumeric bs = (if length bs < 4 then Inl MalformedInputError
     else let v = foldl (\<lambda>v i. v * 256 + unat (bs ! i)) 0 [0, 1, 2, 3]
       in Inr (pad_start 6 CHR ''0'' (decimal (v mod 1000000))))"

section \<open>The short authentication string\<close>

lemma SAS_WORDS_length: "length SAS_WORDS = 256"
  by (simp only: SAS_WORDS_def list.size)

fun plain :: "string \<Rightarrow> bool" where
  "plain [] = True"
| "plain (c # w) = (c \<noteq> CHR '' '' \<and> plain w)"

fun plains :: "string list \<Rightarrow> bool" where
  "plains [] = True"
| "plains (w # ws) = (plain w \<and> plains ws)"

lemma plain_iff: "plain w \<longleftrightarrow> CHR '' '' \<notin> set w"
  by (induction w) auto

lemma plains_iff: "plains ws \<longleftrightarrow> (\<forall>w \<in> set ws. plain w)"
  by (induction ws) auto

lemma SAS_WORDS_spaces: "\<forall>w \<in> set SAS_WORDS. CHR '' '' \<notin> set w"
proof -
  have "plains SAS_WORDS" by (simp only: SAS_WORDS_def plains.simps plain.simps char.inject simp_thms)
  then show ?thesis by (simp only: plains_iff plain_iff)
qed

fun ascending :: "string list \<Rightarrow> bool" where
  "ascending (a # b # ws) = (js_less a b \<and> ascending (b # ws))"
| "ascending ws = True"

lemma SAS_WORDS_ascending: "ascending (take 254 SAS_WORDS)"
  by (simp add: SAS_WORDS_def)

lemma ascending_less: "ascending (w # ws) \<Longrightarrow> v \<in> set ws \<Longrightarrow> js_less w v"
  by (induction ws arbitrary: w) (auto intro: js_less_trans)

lemma ascending_distinct: "ascending ws \<Longrightarrow> distinct ws"
proof (induction ws)
  case (Cons w ws)
  moreover have "ascending ws" using Cons.prems by (cases ws) auto
  ultimately show ?case using ascending_less[of w ws] js_less_irrefl by auto
qed simp

lemma SAS_WORDS_distinct: "distinct SAS_WORDS"
proof -
  have "drop 254 SAS_WORDS = [''alpine'', ''bravado'']" by (simp add: SAS_WORDS_def)
  moreover have "''alpine'' \<notin> set (take 254 SAS_WORDS)" "''bravado'' \<notin> set (take 254 SAS_WORDS)"
    by (simp_all add: SAS_WORDS_def)
  ultimately have "distinct (take 254 SAS_WORDS @ drop 254 SAS_WORDS)"
    using ascending_distinct[OF SAS_WORDS_ascending] by auto
  then show ?thesis by simp
qed

lemma sas_word_inj: "SAS_WORDS ! unat (a :: byte) = SAS_WORDS ! unat b \<Longrightarrow> a = b"
  using nth_eq_iff_index_eq[OF SAS_WORDS_distinct, of "unat a" "unat b"] by (simp add: SAS_WORDS_length unsigned_word_eqI)

lemma sas_word_plain: "CHR '' '' \<notin> set (SAS_WORDS ! unat (a :: byte))"
  using SAS_WORDS_spaces nth_mem[of "unat a" SAS_WORDS] by (auto simp: SAS_WORDS_length)

lemma split_at_space:
  "c \<notin> set x \<Longrightarrow> c \<notin> set y \<Longrightarrow> x @ c # xs = y @ c # ys \<longleftrightarrow> x = y \<and> xs = ys"
proof (induction x arbitrary: y)
  case Nil
  then show ?case by (cases y) auto
next
  case (Cons a x)
  then show ?case by (cases y) auto
qed

lemma sasWords_eq:
  "4 \<le> length bs \<Longrightarrow> sasWords bs = Inr (SAS_WORDS ! unat (bs ! 0) @ '' '' @ SAS_WORDS ! unat (bs ! 1) @ '' '' @
     SAS_WORDS ! unat (bs ! 2) @ '' '' @ SAS_WORDS ! unat (bs ! 3))"
  by (simp add: sasWords_def SAS_WORDS_length)

lemma take4: "4 \<le> length bs \<Longrightarrow> take 4 bs = [bs ! 0, bs ! 1, bs ! 2, bs ! 3]"
  by (cases bs; cases "tl bs"; cases "tl (tl bs)"; cases "tl (tl (tl bs))")
    (auto simp: numeral_eq_Suc)

text \<open>The words name the four bytes: equal words are equal bytes.\<close>

lemma sasWords_inj:
  assumes "sasWords a = Inr w" and "sasWords b = Inr w"
  shows "take 4 a = take 4 b"
proof -
  have l: "4 \<le> length a" "4 \<le> length b" using assms by (auto simp: sasWords_def split: if_splits)
  from assms show ?thesis
    by (auto simp: sasWords_eq l take4 split_at_space sas_word_plain dest!: sas_word_inj)
qed

lemma sasNumeric_eq:
  "4 \<le> length bs \<Longrightarrow> sasNumeric bs = Inr (pad_start 6 CHR ''0'' (decimal (be_value (take 4 bs) mod 1000000)))"
  by (simp add: sasNumeric_def take4 be_value_def base_value_def)

lemma length_pad_start: "length (pad_start n c s) = max n (length s)"
  by (simp add: pad_start_def)

lemma sasNumeric_length: "4 \<le> length bs \<Longrightarrow> sasNumeric bs = Inr d \<Longrightarrow> length d = 6"
  using length_decimal[of "be_value (take 4 bs) mod 1000000" 5]
  by (auto simp: sasNumeric_eq length_pad_start)

end
