(* ===== verification/Veil_CallKeys.thy ===== *)
theory Veil_CallKeys
  imports Veil_Sframe Veil_Sas
begin

text \<open>
  Keys of a voice call and the short authentication string: packages/crypto/src/callKeys.ts.
  The last section joins them with the frames of Veil_Sframe: what the caller sends under its
  send key, the callee decrypts under its receive key.
\<close>

section \<open>Definitions\<close>

datatype call_role = Caller | Callee

definition createCallSecrets :: "bytes \<Rightarrow> bytes" where
  "createCallSecrets rnd = rnd"

text \<open>The parameters of \<open>deriveCallKeys\<close> both ends share.\<close>

record call_params =
  mediaRootSecret :: bytes
  callerIdentity :: public_identity
  calleeIdentity :: public_identity
  callId :: bytes
  callerDtlsFingerprint :: bytes
  calleeDtlsFingerprint :: bytes

record call_key_material =
  sendKey :: bytes
  receiveKey :: bytes
  sas :: string
  sasDigits :: string

definition callTranscript :: "call_params \<Rightarrow> bytes result" where
  "callTranscript p = w_run
     [w_fixed (utf8_encode ''Veil/v1/Call''), w_bytes (callId p),
      w_bytes (signingPublicKey (callerIdentity p)), w_bytes (signingPublicKey (calleeIdentity p)),
      w_bytes (callerDtlsFingerprint p), w_bytes (calleeDtlsFingerprint p)]"

definition deriveCallKeys :: "noble \<Rightarrow> call_params \<Rightarrow> call_role \<Rightarrow> call_key_material result" where
  "deriveCallKeys N p role =
     rbind (callTranscript p) (\<lambda>transcript.
     let callerKey = kdf N (mediaRootSecret p) transcript
           (concat_bytes [LABEL_sframeSender, utf8_encode ''/caller'']) SHARED_SECRET_LEN;
         calleeKey = kdf N (mediaRootSecret p) transcript
           (concat_bytes [LABEL_sframeSender, utf8_encode ''/callee'']) SHARED_SECRET_LEN;
         sasBytes = kdf N (mediaRootSecret p) transcript LABEL_callSas 8 in
     rbind (sasWords sasBytes) (\<lambda>s.
     rbind (sasNumeric sasBytes) (\<lambda>d.
     if role = Caller then Inr \<lparr>sendKey = callerKey, receiveKey = calleeKey, sas = s, sasDigits = d\<rparr>
     else Inr \<lparr>sendKey = calleeKey, receiveKey = callerKey, sas = s, sasDigits = d\<rparr>)))"

section \<open>Facts\<close>

definition call_fits :: "call_params \<Rightarrow> bool" where
  "call_fits p \<longleftrightarrow> fits_len (callId p) \<and> fits_len (signingPublicKey (callerIdentity p)) \<and>
     fits_len (signingPublicKey (calleeIdentity p)) \<and> fits_len (callerDtlsFingerprint p) \<and>
     fits_len (calleeDtlsFingerprint p)"

lemma callTranscript_eq:
  "callTranscript p = (if call_fits p
     then Inr (utf8_encode ''Veil/v1/Call'' @ image_bytes (callId p) @
       image_bytes (signingPublicKey (callerIdentity p)) @ image_bytes (signingPublicKey (calleeIdentity p)) @
       image_bytes (callerDtlsFingerprint p) @ image_bytes (calleeDtlsFingerprint p))
     else Inl MalformedInputError)"
  using w_run_writes[of "[w_fixed (utf8_encode ''Veil/v1/Call''), w_bytes (callId p),
      w_bytes (signingPublicKey (callerIdentity p)), w_bytes (signingPublicKey (calleeIdentity p)),
      w_bytes (callerDtlsFingerprint p), w_bytes (calleeDtlsFingerprint p)]"
     "[(True, utf8_encode ''Veil/v1/Call''), (fits_len (callId p), image_bytes (callId p)),
       (fits_len (signingPublicKey (callerIdentity p)), image_bytes (signingPublicKey (callerIdentity p))),
       (fits_len (signingPublicKey (calleeIdentity p)), image_bytes (signingPublicKey (calleeIdentity p))),
       (fits_len (callerDtlsFingerprint p), image_bytes (callerDtlsFingerprint p)),
       (fits_len (calleeDtlsFingerprint p), image_bytes (calleeDtlsFingerprint p))]"]
  by (simp add: callTranscript_def call_fits_def writes_fixed writes_bytes)

text \<open>
  The transcript binds the call identifier, both identities' signing keys and both DTLS
  fingerprints, in role order.
\<close>

lemma callTranscript_inj:
  assumes "callTranscript p = Inr t" and "callTranscript q = Inr t"
  shows "callId p = callId q \<and>
    signingPublicKey (callerIdentity p) = signingPublicKey (callerIdentity q) \<and>
    signingPublicKey (calleeIdentity p) = signingPublicKey (calleeIdentity q) \<and>
    callerDtlsFingerprint p = callerDtlsFingerprint q \<and>
    calleeDtlsFingerprint p = calleeDtlsFingerprint q"
proof -
  from assms have f: "call_fits p" "call_fits q" by (auto simp: callTranscript_eq split: if_splits)
  with assms show ?thesis
    by (auto simp: callTranscript_eq call_fits_def bytes_image_cancel bytes_image_cancel0)
qed

text \<open>The four values both ends derive.\<close>

lemma deriveCallKeys_total:
  assumes "hkdf_sized N" and "call_fits p"
  shows "\<exists>a b w d. deriveCallKeys N p Caller = Inr \<lparr>sendKey = a, receiveKey = b, sas = w, sasDigits = d\<rparr> \<and>
    deriveCallKeys N p Callee = Inr \<lparr>sendKey = b, receiveKey = a, sas = w, sasDigits = d\<rparr> \<and>
    length a = 32 \<and> length b = 32 \<and> length d = 6"
proof -
  obtain t where t: "callTranscript p = Inr t" using assms(2) by (simp add: callTranscript_eq)
  let ?s = "kdf N (mediaRootSecret p) t LABEL_callSas 8"
  have s: "4 \<le> length ?s" by (simp add: length_kdf[OF assms(1)])
  obtain w d where wd: "sasWords ?s = Inr w" "sasNumeric ?s = Inr d"
    using sasWords_eq[OF s] sasNumeric_eq[OF s] by blast
  then show ?thesis using sasNumeric_length[OF s wd(2)]
    by (simp add: deriveCallKeys_def t Let_def length_kdf[OF assms(1)])
qed

text \<open>
  Caller and callee of one call derive matching keys: each one's send key is the other's receive
  key, both of 32 bytes, and both see the same four words and the same six digits.
\<close>

lemma call_keys_agree:
  assumes "library_ok N" and "call_fits p"
  shows "\<exists>kr ke. deriveCallKeys N p Caller = Inr kr \<and> deriveCallKeys N p Callee = Inr ke \<and>
    sendKey kr = receiveKey ke \<and> receiveKey kr = sendKey ke \<and>
    length (sendKey kr) = 32 \<and> length (receiveKey kr) = 32 \<and>
    sas kr = sas ke \<and> sasDigits kr = sasDigits ke \<and> length (sasDigits kr) = 6"
  using deriveCallKeys_total[OF library_okD(9)[OF assms(1)] assms(2)] by auto

text \<open>
  The short authentication string identifies what it stands for: two byte strings with the same
  four words agree on their first four bytes, and the word list holds 256 distinct words, so the
  guard on its size never fires; and the call transcript it is derived from is injective in
  everything the two ends must agree on.
\<close>

lemma sas_binds_call:
  "(length bs < 4 \<longleftrightarrow> sasWords bs = Inl MalformedInputError) \<and>
   (sasWords bs = Inr w \<and> sasWords cs = Inr w \<longrightarrow> take 4 bs = take 4 cs) \<and>
   (callTranscript p = Inr t \<and> callTranscript q = Inr t \<longrightarrow>
      callId p = callId q \<and> signingPublicKey (callerIdentity p) = signingPublicKey (callerIdentity q) \<and>
      signingPublicKey (calleeIdentity p) = signingPublicKey (calleeIdentity q) \<and>
      callerDtlsFingerprint p = callerDtlsFingerprint q \<and> calleeDtlsFingerprint p = calleeDtlsFingerprint q)"
proof (intro conjI)
  show "length bs < 4 \<longleftrightarrow> sasWords bs = Inl MalformedInputError"
    using sasWords_eq[of bs] by (auto simp: sasWords_def)
  show "sasWords bs = Inr w \<and> sasWords cs = Inr w \<longrightarrow> take 4 bs = take 4 cs"
    using sasWords_inj by blast
qed (use callTranscript_inj in blast)

section \<open>Media of a call\<close>

text \<open>Encrypting a sequence of frames with their additional data, and decrypting what arrives.\<close>

fun media_out ::
  "noble \<Rightarrow> sframe_sender \<Rightarrow> (bytes \<times> bytes) list \<Rightarrow> encrypted_frame result list \<times> sframe_sender" where
  "media_out N s [] = ([], s)"
| "media_out N s ((frame, ad) # fs) =
     (let (e, s1) = encryptFrame N s frame ad; (es, s2) = media_out N s1 fs in (e # es, s2))"

fun media_in ::
  "noble \<Rightarrow> sframe_receiver \<Rightarrow> (encrypted_frame \<times> bytes) list \<Rightarrow> bytes result list \<times> sframe_receiver" where
  "media_in N r [] = ([], r)"
| "media_in N r ((f, ad) # fs) =
     (let (p, r1) = decryptFrame N r f ad; (ps, r2) = media_in N r1 fs in (p # ps, r2))"

fun peer_role :: "call_role \<Rightarrow> call_role" where
  "peer_role Caller = Callee"
| "peer_role Callee = Caller"

lemma encryptFrame_total:
  assumes "library_ok N" and "0 \<le> ss_counter s" and "ss_counter s \<le> MAX_FRAME_COUNTER"
  shows "\<exists>f. encryptFrame N s frame ad = (Inr f, s\<lparr>ss_counter := ss_counter s + 1\<rparr>) \<and> ef_counter f = ss_counter s"
proof -
  obtain k n where kn: "frameKeys N (ss_key s) (ss_counter s) = Inr (k, n)" using frameKeys_total(1)[OF assms(2,3)] by blast
  moreover obtain a where "frame_ad (ss_counter s) ad = Inr a" using frameKeys_total(2)[OF assms(2,3)] by blast
  moreover have "length k = 32" "length n = 24" using frameKeys_lengths[OF library_okD(9)[OF assms(1)] kn] by simp_all
  ultimately show ?thesis using assms(3) by (simp add: encryptFrame_def Let_def aeadEncrypt_def expectLength_def)
qed

text \<open>Each frame of a run is the encryption, under the run's key, at its position's counter.\<close>

lemma media_out_frames:
  assumes "library_ok N" and "0 \<le> ss_counter s" and "ss_counter s + int (length fs) \<le> MAX_FRAME_COUNTER + 1"
  shows "\<exists>es. fst (media_out N s fs) = map Inr es \<and> length es = length fs \<and>
    (\<forall>i < length fs. \<exists>s'. encryptFrame N (s\<lparr>ss_counter := ss_counter s + int i\<rparr>) (fst (fs ! i)) (snd (fs ! i)) = (Inr (es ! i), s'))"
  using assms(2,3)
proof (induction fs arbitrary: s)
  case (Cons p fs)
  obtain frame ad where p: "p = (frame, ad)" by (cases p)
  let ?s1 = "s\<lparr>ss_counter := ss_counter s + 1\<rparr>"
  obtain f where f: "encryptFrame N s frame ad = (Inr f, ?s1)"
    using encryptFrame_total[OF assms(1) Cons.prems(1), of frame ad] Cons.prems by auto
  obtain es where es: "fst (media_out N ?s1 fs) = map Inr es" "length es = length fs"
    "\<And>i. i < length fs \<Longrightarrow> \<exists>s'. encryptFrame N (?s1\<lparr>ss_counter := ss_counter ?s1 + int i\<rparr>) (fst (fs ! i)) (snd (fs ! i)) = (Inr (es ! i), s')"
    using Cons.IH[of ?s1] Cons.prems by auto
  have "\<exists>s'. encryptFrame N (s\<lparr>ss_counter := ss_counter s + int i\<rparr>) (fst ((p # fs) ! i)) (snd ((p # fs) ! i)) = (Inr ((f # es) ! i), s')"
    if "i < length (p # fs)" for i
    using that f es(3)[of "i - 1"] by (cases i) (auto simp: p algebra_simps)
  moreover have "fst (media_out N s (p # fs)) = map Inr (f # es)"
    using es(1) by (simp add: p f case_prod_unfold Let_def)
  ultimately show ?case using es(2) by (intro exI[of _ "f # es"]) auto
qed simp

text \<open>What the receiver remembers comes from the counters delivered so far.\<close>

definition heard :: "nat set \<Rightarrow> sframe_receiver \<Rightarrow> bool" where
  "heard D r \<longleftrightarrow> set (seen r) \<subseteq> int ` D \<and> (highestCounter r = -1 \<or> highestCounter r \<in> int ` D)"

lemma heard_accept: "heard D r \<Longrightarrow> heard (insert i D) (accept_counter (int i) r)"
  by (auto simp: heard_def accept_counter_def Let_def)

lemma media_in_frames:
  assumes "library_ok N" and "sr_key r = key"
    and "\<And>i. i \<in> set ids \<Longrightarrow> \<exists>s'. encryptFrame N \<lparr>ss_key = key, ss_counter = int i\<rparr> (fst (fs ! i)) (snd (fs ! i)) = (Inr (es ! i), s')"
    and "distinct ids" and "heard D r" and "set ids \<inter> D = {}"
    and "\<And>i j. i \<in> set ids \<Longrightarrow> j \<in> D \<Longrightarrow> j < i + 1024"
    and "\<And>a b. a < b \<Longrightarrow> b < length ids \<Longrightarrow> ids ! a < ids ! b + 1024"
  shows "fst (media_in N r (map (\<lambda>i. (es ! i, snd (fs ! i))) ids)) = map (\<lambda>i. Inr (fst (fs ! i))) ids"
  using assms(2-)
proof (induction ids arbitrary: r D)
  case (Cons i ids)
  let ?s = "\<lparr>ss_key = key, ss_counter = int i\<rparr>"
  obtain s' where e: "encryptFrame N ?s (fst (fs ! i)) (snd (fs ! i)) = (Inr (es ! i), s')"
    using Cons.prems(2)[of i] by auto
  have "int i \<notin> set (seen r) \<and> \<not> (highestCounter r \<ge> 0 \<and> int i + REPLAY_WINDOW \<le> highestCounter r)"
    using Cons.prems(4,5) Cons.prems(6)[of i] by (force simp: heard_def REPLAY_WINDOW_def)
  then have d: "decryptFrame N r (es ! i) (snd (fs ! i)) = (Inr (fst (fs ! i)), accept_counter (int i) r)"
    using frame_delivered_lemma[OF assms(1) _ _ e, of r] Cons.prems(1) by simp
  have ord: "i < b + 1024" if "b \<in> set ids" for b
  proof -
    from that obtain k where "k < length ids" "b = ids ! k" by (auto simp: in_set_conv_nth)
    then show ?thesis using Cons.prems(7)[of 0 "Suc k"] by simp
  qed
  have "fst (media_in N (accept_counter (int i) r) (map (\<lambda>i. (es ! i, snd (fs ! i))) ids)) = map (\<lambda>i. Inr (fst (fs ! i))) ids"
  proof (rule Cons.IH[of _ "insert i D"])
    show "sr_key (accept_counter (int i) r) = key" using Cons.prems(1) by (simp add: accept_counter_def Let_def)
    show "heard (insert i D) (accept_counter (int i) r)" using Cons.prems(4) by (rule heard_accept)
    show "j < a + 1024" if "a \<in> set ids" "j \<in> insert i D" for a j
      using that ord Cons.prems(6)[of a j] by auto
    show "ids ! a < ids ! b + 1024" if "a < b" "b < length ids" for a b
      using that Cons.prems(7)[of "Suc a" "Suc b"] by simp
  qed (use Cons.prems in auto)
  then show ?case by (simp add: d case_prod_unfold Let_def)
qed simp

text \<open>
  Media of a call: the frames either end encrypts under its send key (up to the 2^48 the
  counter allows) are decrypted by the other end under its receive key, in whatever order they
  arrive and whichever are lost, as long as none arrives 1024 counters behind an earlier one.
\<close>

lemma encryptFrame_shape:
  assumes "library_ok N" and "encryptFrame N s frame ad = (Inr f, s')"
  shows "ef_counter f = ss_counter s \<and> length (ef_payload f) = length frame + 16"
  using assms(2) library_okD(8)[OF assms(1)]
  by (auto simp: encryptFrame_def Let_def rbind_eq_Inr aead_eq_Inr aead_correct_def split: if_splits)

lemma call_media_delivered:
  assumes "library_ok N" and "call_fits p" and "length fs \<le> 2 ^ 48"
    and "distinct ids" and "\<forall>i \<in> set ids. i < length fs"
    and "\<forall>a b. a < b \<longrightarrow> b < length ids \<longrightarrow> ids ! a < ids ! b + 1024"
  shows "\<exists>kr ke s r es. deriveCallKeys N p role = Inr kr \<and> deriveCallKeys N p (peer_role role) = Inr ke \<and>
    createSender (sendKey kr) = Inr s \<and> length (receiveKey kr) = 32 \<and>
    createReceiver (receiveKey ke) = Inr r \<and> length (sendKey ke) = 32 \<and>
    fst (media_out N s fs) = map Inr es \<and>
    fst (media_in N r (map (\<lambda>i. (es ! i, snd (fs ! i))) ids)) = map (\<lambda>i. Inr (fst (fs ! i))) ids \<and> length es = length fs \<and>
    (\<forall>i < length fs. ef_counter (es ! i) = int i \<and> length (ef_payload (es ! i)) = length (fst (fs ! i)) + 16)"
proof -
  obtain kr ke where k: "deriveCallKeys N p role = Inr kr" "deriveCallKeys N p (peer_role role) = Inr ke"
    "sendKey kr = receiveKey ke" "length (sendKey kr) = 32" "length (receiveKey kr) = 32" "length (sendKey ke) = 32"
    using deriveCallKeys_total[OF library_okD(9)[OF assms(1)] assms(2)] by (cases role) auto
  let ?s = "\<lparr>ss_key = sendKey kr, ss_counter = 0\<rparr>"
  let ?r = "\<lparr>sr_key = receiveKey ke, highestCounter = -1, seen = []\<rparr>"
  have "int (length fs) \<le> 2 ^ 48" using assms(3) by (metis of_nat_le_iff of_nat_numeral of_nat_power)
  then obtain es where es: "fst (media_out N ?s fs) = map Inr es" "length es = length fs"
    "\<And>i. i < length fs \<Longrightarrow> \<exists>s'. encryptFrame N \<lparr>ss_key = sendKey kr, ss_counter = int i\<rparr> (fst (fs ! i)) (snd (fs ! i)) = (Inr (es ! i), s')"
    using media_out_frames[OF assms(1), of ?s fs] by (auto simp: MAX_FRAME_COUNTER_def)
  have "fst (media_in N ?r (map (\<lambda>i. (es ! i, snd (fs ! i))) ids)) = map (\<lambda>i. Inr (fst (fs ! i))) ids"
    by (rule media_in_frames[OF assms(1), where D = "{}" and key = "sendKey kr"])
      (use assms es(3) k(3) in \<open>auto simp: heard_def\<close>)
  moreover have "createSender (sendKey kr) = Inr ?s" "createReceiver (receiveKey ke) = Inr ?r"
    using k(3,4) by (simp_all add: createSender_def createReceiver_def)
  moreover have "ef_counter (es ! i) = int i \<and> length (ef_payload (es ! i)) = length (fst (fs ! i)) + 16" if "i < length fs" for i
    using es(3)[OF that] encryptFrame_shape[OF assms(1)] by fastforce
  ultimately show ?thesis using k es(1,2) by blast
qed

section \<open>A call between the two demonstration identities\<close>

definition demo_call :: call_params where
  "demo_call = \<lparr>mediaRootSecret = replicate 32 1, callerIdentity = publicIdentityOf demo_alice,
     calleeIdentity = publicIdentityOf demo_bob, callId = replicate 16 2,
     callerDtlsFingerprint = replicate 32 3, calleeDtlsFingerprint = replicate 32 4\<rparr>"

lemma demo_call_fits: "call_fits demo_call"
proof -
  have "length (signingPublicKey (publicIdentityOf demo_alice)) = 32" "length (signingPublicKey (publicIdentityOf demo_bob)) = 32"
    using demo_identities_ok by (auto simp: identity_ok_def verifyIdentityBinding_iff)
  then show ?thesis by (simp add: call_fits_def demo_call_def fits_len_def)
qed

end
