(* ===== verification/Veil_SafetyNumber.thy ===== *)
theory Veil_SafetyNumber
  imports Veil_Instance Veil_Sas
begin

text \<open>
  Safety numbers and the verification QR code: packages/crypto/src/safetyNumber.ts.
\<close>

section \<open>Definitions\<close>

definition FINGERPRINT_ITERATIONS :: nat where "FINGERPRINT_ITERATIONS = 5200"
definition DIGITS_PER_PARTY :: nat where "DIGITS_PER_PARTY = 30"
definition GROUP_SIZE :: nat where "GROUP_SIZE = 5"

text \<open>The \<open>for\<close> loop: \<open>n\<close> rounds of \<open>digest = hash512(digest, signingPublicKey)\<close>.\<close>

fun hash_rounds :: "noble \<Rightarrow> bytes \<Rightarrow> nat \<Rightarrow> bytes \<Rightarrow> bytes" where
  "hash_rounds N key 0 digest = digest"
| "hash_rounds N key (Suc n) digest = hash_rounds N key n (hash512 N [digest, key])"

definition iteratedFingerprint :: "noble \<Rightarrow> bytes \<Rightarrow> bytes result" where
  "iteratedFingerprint N key =
     (if length key \<noteq> 32 then Inl MalformedInputError
      else Inr (hash_rounds N key FINGERPRINT_ITERATIONS
        (concat_bytes [utf8_encode ''Veil/v1/Fingerprint'', key])))"

text \<open>\<open>value = (value << 8n) | BigInt(digest[offset + i])\<close> for five bytes.\<close>

definition group_value :: "bytes \<Rightarrow> nat \<Rightarrow> nat" where
  "group_value digest offset =
     foldl (\<lambda>v i. push_bit 8 v OR unat (digest ! (offset + i))) 0 [0, 1, 2, 3, 4]"

text \<open>The \<open>while\<close> loop over the digest; each round takes five bytes or throws.\<close>

function encode_digits_loop :: "bytes \<Rightarrow> nat \<Rightarrow> string \<Rightarrow> nat \<Rightarrow> string result" where
  "encode_digits_loop digest count out offset =
     (if length out < count
      then if offset + 5 > length digest then Inl MalformedInputError
        else encode_digits_loop digest count
          (out @ pad_start GROUP_SIZE CHR ''0'' (decimal (group_value digest offset mod 100000)))
          (offset + 5)
      else Inr (slice 0 count out))"
  by pat_completeness auto
termination
  by (relation "measure (\<lambda>(digest, count, out, offset). length digest - offset)") auto

declare encode_digits_loop.simps [simp del]

definition encodeDigits :: "bytes \<Rightarrow> nat \<Rightarrow> string result" where
  "encodeDigits digest count = encode_digits_loop digest count '''' 0"

definition identityFingerprint :: "noble \<Rightarrow> bytes \<Rightarrow> string result" where
  "identityFingerprint N key =
     rbind (iteratedFingerprint N key) (\<lambda>d. encodeDigits d DIGITS_PER_PARTY)"

definition safetyNumber :: "noble \<Rightarrow> public_identity \<Rightarrow> public_identity \<Rightarrow> string result" where
  "safetyNumber N a b =
     rbind (identityFingerprint N (signingPublicKey a)) (\<lambda>fa.
     rbind (identityFingerprint N (signingPublicKey b)) (\<lambda>fb.
     Inr (if js_less fa fb then fa @ fb else fb @ fa)))"

text \<open>\<open>for (i = 0; i < number.length; i += GROUP_SIZE)\<close>: the groups in order.\<close>

function digit_groups :: "string \<Rightarrow> nat \<Rightarrow> string list" where
  "digit_groups number i = (if i < length number
     then slice i (i + GROUP_SIZE) number # digit_groups number (i + GROUP_SIZE) else [])"
  by pat_completeness auto
termination
  by (relation "measure (\<lambda>(number, i). length number - i)") (auto simp: GROUP_SIZE_def)

declare digit_groups.simps [simp del]

definition formatSafetyNumber :: "string \<Rightarrow> string" where
  "formatSafetyNumber number = js_join '' '' (digit_groups number 0)"

definition safetyNumbersMatch :: "string \<Rightarrow> string \<Rightarrow> bool" where
  "safetyNumbersMatch a b = constantTimeEqual (utf8_encode a) (utf8_encode b)"

definition verificationQrPayload :: "public_identity \<Rightarrow> bytes result" where
  "verificationQrPayload i = w_run
     [w_fixed (utf8_encode ''Veil/v1/Verify''), w_bytes (signingPublicKey i),
      w_bytes (exchangePublicKey i), w_bytes (exchangeKeySignature i)]"

definition parseVerificationQrPayload :: "noble \<Rightarrow> bytes \<Rightarrow> public_identity result" where
  "parseVerificationQrPayload N b = (let expectedTag = utf8_encode ''Veil/v1/Verify'' in
     rbind (r_fixed (length expectedTag) (new_reader b)) (\<lambda>(tag, r).
     if \<not> constantTimeEqual tag expectedTag then Inl MalformedInputError else
     rbind (r_bytes r) (\<lambda>(sk, r).
     rbind (r_bytes r) (\<lambda>(xk, r).
     rbind (r_bytes r) (\<lambda>(xs, r).
     let i = \<lparr>signingPublicKey = sk, exchangePublicKey = xk, exchangeKeySignature = xs\<rparr> in
     rbind (r_end r) (\<lambda>_.
     rbind (verifyIdentityBinding N i) (\<lambda>ok.
     if \<not> ok then Inl UntrustedBundleError else Inr i)))))))"

section \<open>Digits\<close>

lemma digits_of_pad: "c \<in> set (pad_start n CHR ''0'' (decimal v)) \<Longrightarrow> \<exists>d < 10. c = digit_char d"
  using decimal_digits[of c v] by (auto simp: pad_start_def digit_char_def intro: exI[of _ 0])

lemma encode_digits_loop_total:
  assumes "count \<le> length out + (length digest - offset)" and "5 dvd count" and "5 dvd length out"
    and "length out \<le> count" and "\<forall>c \<in> set out. \<exists>d < 10. c = digit_char d"
  shows "\<exists>s. encode_digits_loop digest count out offset = Inr s \<and> length s = count \<and>
    (\<forall>c \<in> set s. \<exists>d < 10. c = digit_char d)"
  using assms
proof (induction digest count out offset rule: encode_digits_loop.induct)
  case (1 digest count out offset)
  show ?case
  proof (cases "length out < count")
    case True
    let ?p = "pad_start GROUP_SIZE CHR ''0'' (decimal (group_value digest offset mod 100000))"
    have p: "length ?p = 5"
      using length_decimal[of "group_value digest offset mod 100000" 4]
      by (simp add: length_pad_start GROUP_SIZE_def)
    have room: "length out + 5 \<le> count" using True 1(3,4) by (auto simp: dvd_def)
    then have off: "\<not> offset + 5 > length digest" using 1(2) by linarith
    have "\<exists>s. encode_digits_loop digest count (out @ ?p) (offset + 5) = Inr s \<and> length s = count \<and>
        (\<forall>c \<in> set s. \<exists>d < 10. c = digit_char d)"
    proof (rule "1.IH"[OF True off])
      show "5 dvd length (out @ ?p)" using 1(4) p by simp
      show "\<forall>c \<in> set (out @ ?p). \<exists>d < 10. c = digit_char d" using 1(6) digits_of_pad by auto
    qed (use 1 room off p in auto)
    with True off show ?thesis by (subst encode_digits_loop.simps) simp
  next
    case False
    with 1 show ?thesis by (subst encode_digits_loop.simps) (simp add: slice_def)
  qed
qed

lemma length_hash_rounds: "hash_sized N \<Longrightarrow> length (hash_rounds N key (Suc n) d) = 64"
  by (induction n arbitrary: d) (auto simp: hash512_def hash_sized_def)

lemma identityFingerprint_total:
  assumes "hash_sized N" and "length key = 32"
  shows "\<exists>s. identityFingerprint N key = Inr s \<and> length s = 30 \<and> (\<forall>c \<in> set s. \<exists>d < 10. c = digit_char d)"
proof -
  have "length (hash_rounds N key 5200 d) = 64" for d
    using length_hash_rounds[OF assms(1), of key 5199 d] by simp
  then show ?thesis
    using assms(2) encode_digits_loop_total[of 30 "''''"]
    by (simp add: identityFingerprint_def iteratedFingerprint_def encodeDigits_def
        FINGERPRINT_ITERATIONS_def DIGITS_PER_PARTY_def)
qed

lemma identityFingerprint_error:
  "hash_sized N \<Longrightarrow> identityFingerprint N key = Inl e \<longleftrightarrow> length key \<noteq> 32 \<and> e = MalformedInputError"
  using identityFingerprint_total[of N key]
  by (cases "length key = 32") (auto simp: identityFingerprint_def iteratedFingerprint_def)

text \<open>Grouping loses nothing: the groups concatenate to the number, five digits each.\<close>

lemma digit_groups_concat: "concat (digit_groups s i) = drop i s"
proof (induction s i rule: digit_groups.induct)
  case (1 s i)
  show ?case
  proof (cases "i < length s")
    case True
    then have "concat (digit_groups s i) = take 5 (drop i s) @ drop (i + 5) s"
      using 1 by (subst digit_groups.simps) (simp add: slice_def GROUP_SIZE_def)
    then show ?thesis by (metis add.commute append_take_drop_id drop_drop)
  qed (simp add: digit_groups.simps)
qed

lemma digit_groups_sizes: "5 dvd length s - i \<Longrightarrow> g \<in> set (digit_groups s i) \<Longrightarrow> length g = 5"
proof (induction s i rule: digit_groups.induct)
  case (1 s i)
  show ?case
  proof (cases "i < length s")
    case True
    then have len: "5 \<le> length s - i" using 1(2) by (auto simp: dvd_def)
    moreover have "length s - (i + 5) = (length s - i) - 5" by simp
    ultimately have "5 dvd length s - (i + 5)" using 1(2) by (metis dvd_diff_nat dvd_refl)
    moreover have "digit_groups s i = slice i (i + 5) s # digit_groups s (i + 5)"
      using True digit_groups.simps[of s i] by (simp add: GROUP_SIZE_def)
    ultimately show ?thesis using 1 True len by (auto simp: slice_def GROUP_SIZE_def)
  qed (use 1 in \<open>simp add: digit_groups.simps\<close>)
qed

lemma filter_join: "\<forall>g \<in> set gs. filter P g = g \<Longrightarrow> filter P sep = [] \<Longrightarrow> filter P (js_join sep gs) = concat gs"
proof (induction gs)
  case (Cons g gs)
  then show ?case by (cases gs) simp_all
qed simp

lemma digit_plain: "d < 10 \<Longrightarrow> digit_char d \<noteq> CHR '' ''"
  by (erule less_10_cases) (simp_all add: digit_char_def)

lemma length_js_join: "gs \<noteq> [] \<Longrightarrow> length (js_join sep gs) + length sep = length (concat gs) + length gs * length sep"
proof (induction gs)
  case (Cons g gs)
  then show ?case by (cases gs) simp_all
qed simp

lemma length_concat_uniform: "\<forall>g \<in> set gs. length g = n \<Longrightarrow> length (concat gs) = n * length gs"
  by (induction gs) auto

lemma formatSafetyNumber_digits:
  assumes "length s = 60" and "\<forall>c \<in> set s. \<exists>d < 10. c = digit_char d"
  shows "filter (\<lambda>c. c \<noteq> CHR '' '') (formatSafetyNumber s) = s" and "length (formatSafetyNumber s) = 71"
proof -
  let ?gs = "digit_groups s 0"
  have c: "concat ?gs = s" using digit_groups_concat[of s 0] by simp
  have five: "\<forall>g \<in> set ?gs. length g = 5" using digit_groups_sizes[of s 0] assms(1) by simp
  have plain: "\<forall>g \<in> set ?gs. filter (\<lambda>c. c \<noteq> CHR '' '') g = g"
  proof (intro ballI filter_True)
    fix g x assume "g \<in> set ?gs" "x \<in> set g"
    then have "x \<in> set (concat ?gs)" by auto
    then have "x \<in> set s" by (simp only: c)
    then obtain d where "d < 10" "x = digit_char d" using assms(2) by auto
    then show "x \<noteq> CHR '' ''" using digit_plain[of d] by simp
  qed
  then show "filter (\<lambda>c. c \<noteq> CHR '' '') (formatSafetyNumber s) = s"
    unfolding formatSafetyNumber_def by (subst filter_join) (simp_all add: c)
  have "length (concat ?gs) = 5 * length ?gs"
    using five by (rule length_concat_uniform)
  then have n: "length ?gs = 12" using assms(1) unfolding c by simp
  then have "?gs \<noteq> []" by auto
  from length_js_join[OF this, of "'' ''"] show "length (formatSafetyNumber s) = 71"
    by (simp add: formatSafetyNumber_def c n assms(1))
qed

lemma sort_pair_cancel:
  assumes "length a = n" "length b = n" "length c = n" "length d = n"
    and "(if js_less a b then a @ b else b @ a) = (if js_less c d then c @ d else d @ c)"
  shows "{a, b} = {c, d}"
  using assms by (auto split: if_splits)

lemma safetyNumber_Inr:
  assumes "hash_sized N" and "safetyNumber N a b = Inr s"
  shows "\<exists>fa fb. identityFingerprint N (signingPublicKey a) = Inr fa \<and> identityFingerprint N (signingPublicKey b) = Inr fb \<and>
    length fa = 30 \<and> length fb = 30 \<and> s = (if js_less fa fb then fa @ fb else fb @ fa)"
proof -
  obtain fa fb where f: "identityFingerprint N (signingPublicKey a) = Inr fa" "identityFingerprint N (signingPublicKey b) = Inr fb"
    "s = (if js_less fa fb then fa @ fb else fb @ fa)"
    using assms(2) by (auto simp: safetyNumber_def rbind_eq_Inr)
  then have "length (signingPublicKey a) = 32" "length (signingPublicKey b) = 32"
    by (auto simp: identityFingerprint_def iteratedFingerprint_def split: if_splits)
  with identityFingerprint_total[OF assms(1)] f show ?thesis by (metis sum.inject(2))
qed

text \<open>C14
  Safety numbers: both devices compute the same string, 60 digits long, whatever the order of
  the two identities; its displayed form is 71 characters that are the number again without the
  spaces; and the number determines the unordered pair of fingerprints, so two conversations
  show the same number only if the two parties' 30-digit fingerprints agree.
\<close>

theorem safety_number_correct:
  assumes "library_ok N" and "length (signingPublicKey a) = 32" and "length (signingPublicKey b) = 32"
  shows "\<exists>s. safetyNumber N a b = Inr s \<and> safetyNumber N b a = Inr s \<and>
    length s = 60 \<and> (\<forall>c \<in> set s. \<exists>d < 10. c = digit_char d) \<and>
    length (formatSafetyNumber s) = 71 \<and> filter (\<lambda>c. c \<noteq> CHR '' '') (formatSafetyNumber s) = s \<and>
    (\<forall>c d. safetyNumber N c d = Inr s \<longrightarrow>
      {identityFingerprint N (signingPublicKey a), identityFingerprint N (signingPublicKey b)} =
      {identityFingerprint N (signingPublicKey c), identityFingerprint N (signingPublicKey d)})"
proof -
  note h = library_okD(10)[OF assms(1)]
  obtain fa fb where f: "identityFingerprint N (signingPublicKey a) = Inr fa" "length fa = 30"
      "\<forall>c \<in> set fa. \<exists>d < 10. c = digit_char d"
    "identityFingerprint N (signingPublicKey b) = Inr fb" "length fb = 30" "\<forall>c \<in> set fb. \<exists>d < 10. c = digit_char d"
    using identityFingerprint_total[OF h assms(2)] identityFingerprint_total[OF h assms(3)] by blast
  define s where "s = (if js_less fa fb then fa @ fb else fb @ fa)"
  have s: "length s = 60" "\<forall>c \<in> set s. \<exists>d < 10. c = digit_char d" using f by (auto simp: s_def)
  have sym: "s = (if js_less fb fa then fb @ fa else fa @ fb)"
    using js_less_total[of fa fb] js_less_trans[of fa fb fa] js_less_irrefl[of fa] by (auto simp: s_def)
  have "{Inr fa, Inr fb} = {identityFingerprint N (signingPublicKey c), identityFingerprint N (signingPublicKey d)}"
    if e: "safetyNumber N c d = Inr s" for c d
  proof -
    obtain fc fd where g: "identityFingerprint N (signingPublicKey c) = Inr fc" "identityFingerprint N (signingPublicKey d) = Inr fd"
      "length fc = 30" "length fd = 30" "s = (if js_less fc fd then fc @ fd else fd @ fc)"
      using safetyNumber_Inr[OF h e] by blast
    have "{fa, fb} = {fc, fd}" by (rule sort_pair_cancel[OF f(2,5) g(3,4)]) (use g(5) in \<open>simp add: s_def\<close>)
    then show ?thesis unfolding g(1,2) by (auto simp: doubleton_eq_iff)
  qed
  moreover have "safetyNumber N a b = Inr s" "safetyNumber N b a = Inr s"
    using f sym by (simp_all add: safetyNumber_def s_def)
  ultimately show ?thesis using s formatSafetyNumber_digits[OF s] f(1,4) by (intro exI[of _ s]) auto
qed

section \<open>The verification QR code\<close>

interpretation qr_codec: codec_tagged
    "\<lambda>i. emit_pair w_bytes (emit_pair w_bytes w_bytes) (identity_fields i)"
    "scan_map make_identity (scan_pair r_bytes (scan_pair r_bytes r_bytes))"
    "\<lambda>i. case identity_fields i of (x, c) \<Rightarrow> fits_len x \<and> (case c of (y, z) \<Rightarrow> fits_len y \<and> fits_len z)"
    "\<lambda>i. case identity_fields i of (x, c) \<Rightarrow> image_bytes x @ (case c of (y, z) \<Rightarrow> image_bytes y @ image_bytes z)"
    "utf8_encode ''Veil/v1/Verify''"
  by unfold_locales

definition qr_fits :: "public_identity \<Rightarrow> bool" where
  "qr_fits i \<longleftrightarrow> fits_len (signingPublicKey i) \<and> fits_len (exchangePublicKey i) \<and> fits_len (exchangeKeySignature i)"

lemma verificationQrPayload_eq:
  "verificationQrPayload i = (if qr_fits i
     then Inr (utf8_encode ''Veil/v1/Verify'' @ image_bytes (signingPublicKey i) @
       image_bytes (exchangePublicKey i) @ image_bytes (exchangeKeySignature i))
     else Inl MalformedInputError)"
  using w_run_writes[of "[w_fixed (utf8_encode ''Veil/v1/Verify''), w_bytes (signingPublicKey i),
      w_bytes (exchangePublicKey i), w_bytes (exchangeKeySignature i)]"
     "[(True, utf8_encode ''Veil/v1/Verify''), (fits_len (signingPublicKey i), image_bytes (signingPublicKey i)),
       (fits_len (exchangePublicKey i), image_bytes (exchangePublicKey i)),
       (fits_len (exchangeKeySignature i), image_bytes (exchangeKeySignature i))]"]
  by (simp add: verificationQrPayload_def qr_fits_def writes_fixed writes_bytes)

definition scan_qr :: "reader \<Rightarrow> (public_identity \<times> reader) result" where
  "scan_qr = scan_tagged (utf8_encode ''Veil/v1/Verify'')
     (scan_map make_identity (scan_pair r_bytes (scan_pair r_bytes r_bytes)))"

lemma parseVerificationQrPayload_scan:
  "parseVerificationQrPayload N b = rbind (scan_whole scan_qr b) (\<lambda>i.
     rbind (verifyIdentityBinding N i) (\<lambda>ok. if \<not> ok then Inl UntrustedBundleError else Inr i))"
  by (simp add: parseVerificationQrPayload_def scan_whole_def scan_qr_def scan_tagged_def scan_map_def
      scan_pair_def rbind_assoc make_identity_def case_prod_unfold Let_def if_distrib[of "\<lambda>x. rbind x _"] cong: if_cong)

lemma scan_qr_iff: "scan_whole scan_qr b = Inr i \<longleftrightarrow> verificationQrPayload i = Inr b"
  unfolding scan_qr_def qr_codec.tagged.whole_iff
  by (auto simp: verificationQrPayload_eq qr_fits_def identity_fields_def)

text \<open>C15
  A scanned code is accepted exactly when it is the payload of an identity whose key binding
  verifies; every other input is rejected as malformed or, if it encodes an identity with a bad
  binding, as untrusted.
\<close>

theorem qr_accepted_iff:
  "(parseVerificationQrPayload N b = Inr i \<longleftrightarrow>
      verificationQrPayload i = Inr b \<and> verifyIdentityBinding N i = Inr True) \<and>
   (parseVerificationQrPayload N b = Inl UntrustedBundleError \<longleftrightarrow>
      (\<exists>j. verificationQrPayload j = Inr b \<and> verifyIdentityBinding N j = Inr False)) \<and>
   ((\<forall>j. verificationQrPayload j \<noteq> Inr b) \<longleftrightarrow> parseVerificationQrPayload N b = Inl MalformedInputError)"
proof (cases "scan_whole scan_qr b")
  case (Inl e)
  then have "e = MalformedInputError" using qr_codec.tagged.whole_error by (simp add: scan_qr_def)
  moreover have "\<forall>j. verificationQrPayload j \<noteq> Inr b" using Inl by (simp flip: scan_qr_iff)
  ultimately show ?thesis using Inl by (simp add: parseVerificationQrPayload_scan)
next
  case (Inr j)
  then have j: "verificationQrPayload k = Inr b \<longleftrightarrow> k = j" for k by (auto simp flip: scan_qr_iff)
  obtain ok where "verifyIdentityBinding N j = Inr ok" using verifyIdentityBinding_total by blast
  then show ?thesis by (auto simp: parseVerificationQrPayload_scan Inr j)
qed

theorem safety_number_correct_witness:
  "\<exists>s. safetyNumber demo_library (publicIdentityOf demo_alice) (publicIdentityOf demo_bob) = Inr s \<and>
     safetyNumber demo_library (publicIdentityOf demo_bob) (publicIdentityOf demo_alice) = Inr s \<and> length s = 60"
proof -
  have "length (signingPublicKey (publicIdentityOf demo_alice)) = 32" "length (signingPublicKey (publicIdentityOf demo_bob)) = 32"
    using demo_identities_ok by (auto simp: identity_ok_def verifyIdentityBinding_iff)
  from safety_number_correct[OF demo_library_ok this] show ?thesis by blast
qed

end
