(* ===== verification/Veil_Vault.thy ===== *)
theory Veil_Vault
  imports Veil_Instance
begin

text \<open>
  Encryption at rest: packages/crypto/src/vault.ts. A data key is wrapped under a key derived
  from the passphrase; each record is encrypted under a key derived from the data key and the
  record's identifier. Random salts, keys and nonces are arguments; the intermediate keys the
  code wipes are local buffers.
\<close>

section \<open>Definitions\<close>

record argon_profile =
  ap_memoryKiB :: int
  ap_iterations :: int
  ap_parallelism :: int

definition ARGON2_PROFILE :: argon_profile where
  "ARGON2_PROFILE = \<lparr>ap_memoryKiB = 47104, ap_iterations = 2, ap_parallelism = 1\<rparr>"

definition SALT_LEN :: nat where "SALT_LEN = 16"
definition VAULT_MAGIC :: bytes where "VAULT_MAGIC = utf8_encode ''VEIL-VAULT-1''"

record wrapped_vault =
  wv_salt :: bytes
  wv_memoryKiB :: nat
  wv_iterations :: nat
  wv_parallelism :: nat
  wv_wrappedKey :: bytes

record vault =
  dataKey :: bytes

definition deriveKek :: "noble \<Rightarrow> bytes \<Rightarrow> bytes \<Rightarrow> argon_profile \<Rightarrow> bytes" where
  "deriveKek N passphrase salt profile =
     (let raw = passphraseKdf N passphrase salt (ap_memoryKiB profile) (ap_iterations profile) (ap_parallelism profile) 32
      in kdf N raw salt LABEL_vaultKek AEAD_KEY_LEN)"

definition wrapNonce :: "noble \<Rightarrow> bytes \<Rightarrow> bytes" where
  "wrapNonce N salt = kdf N salt VAULT_MAGIC LABEL_vaultKek AEAD_NONCE_LEN"

text \<open>The wrapper object both \<open>createVault\<close> and \<open>changePassphrase\<close> return.\<close>

definition wrap_key :: "noble \<Rightarrow> bytes \<Rightarrow> bytes \<Rightarrow> bytes \<Rightarrow> wrapped_vault result" where
  "wrap_key N salt passphrase key =
     (let kek = deriveKek N passphrase salt ARGON2_PROFILE; nonce = wrapNonce N salt in
      rbind (aeadEncrypt N kek nonce key VAULT_MAGIC) (\<lambda>w.
      Inr \<lparr>wv_salt = salt, wv_memoryKiB = nat (ap_memoryKiB ARGON2_PROFILE),
           wv_iterations = nat (ap_iterations ARGON2_PROFILE),
           wv_parallelism = nat (ap_parallelism ARGON2_PROFILE), wv_wrappedKey = w\<rparr>))"

definition createVault :: "noble \<Rightarrow> bytes \<Rightarrow> bytes \<Rightarrow> bytes \<Rightarrow> (vault \<times> wrapped_vault) result" where
  "createVault N salt key passphrase =
     rbind (wrap_key N salt passphrase key) (\<lambda>w. Inr (\<lparr>dataKey = key\<rparr>, w))"

definition unlockVault :: "noble \<Rightarrow> bytes \<Rightarrow> wrapped_vault \<Rightarrow> vault result" where
  "unlockVault N passphrase wrapped =
     (if length (wv_salt wrapped) \<noteq> SALT_LEN then Inl MalformedInputError
      else let kek = deriveKek N passphrase (wv_salt wrapped)
             \<lparr>ap_memoryKiB = int (wv_memoryKiB wrapped), ap_iterations = int (wv_iterations wrapped),
              ap_parallelism = int (wv_parallelism wrapped)\<rparr>;
           nonce = wrapNonce N (wv_salt wrapped) in
        case aeadDecrypt N kek nonce (wv_wrappedKey wrapped) VAULT_MAGIC of
          Inr key \<Rightarrow> Inr \<lparr>dataKey = key\<rparr>
        | Inl e \<Rightarrow> if e = AuthenticationError then Inl VaultLockedError else Inl e)"

definition changePassphrase :: "noble \<Rightarrow> bytes \<Rightarrow> vault \<Rightarrow> bytes \<Rightarrow> wrapped_vault result" where
  "changePassphrase N salt v newPassphrase = wrap_key N salt newPassphrase (dataKey v)"

definition recordKey :: "noble \<Rightarrow> bytes \<Rightarrow> string \<Rightarrow> bytes" where
  "recordKey N key recordId = kdf N key (utf8_encode recordId) LABEL_vaultRecord AEAD_KEY_LEN"

definition encryptRecord :: "noble \<Rightarrow> bytes \<Rightarrow> vault \<Rightarrow> string \<Rightarrow> bytes \<Rightarrow> bytes result" where
  "encryptRecord N nonce v recordId plaintext =
     (let key = recordKey N (dataKey v) recordId in
      rbind (aeadEncrypt N key nonce plaintext (utf8_encode recordId)) (\<lambda>c.
      w_run [w_fixed nonce, w_fixed c]))"

definition decryptRecord :: "noble \<Rightarrow> vault \<Rightarrow> string \<Rightarrow> bytes \<Rightarrow> bytes result" where
  "decryptRecord N v recordId stored =
     (if length stored < AEAD_NONCE_LEN then Inl MalformedInputError
      else let nonce = slice 0 AEAD_NONCE_LEN stored; c = drop AEAD_NONCE_LEN stored;
               key = recordKey N (dataKey v) recordId in
        aeadDecrypt N key nonce c (utf8_encode recordId))"

definition lockVault :: "vault \<Rightarrow> vault" where
  "lockVault v = v\<lparr>dataKey := zeroed (dataKey v)\<rparr>"

definition encodeWrappedVault :: "wrapped_vault \<Rightarrow> bytes result" where
  "encodeWrappedVault w = w_run
     [w_fixed VAULT_MAGIC, w_bytes (wv_salt w), w_u32 (int (wv_memoryKiB w)),
      w_u32 (int (wv_iterations w)), w_u32 (int (wv_parallelism w)), w_bytes (wv_wrappedKey w)]"

definition decodeWrappedVault :: "bytes \<Rightarrow> wrapped_vault result" where
  "decodeWrappedVault b =
     rbind (r_fixed (length VAULT_MAGIC) (new_reader b)) (\<lambda>(magic, r).
     if \<not> constantTimeEqual magic VAULT_MAGIC then Inl MalformedInputError else
     rbind (r_bytes r) (\<lambda>(salt, r).
     rbind (r_u32 r) (\<lambda>(m, r).
     rbind (r_u32 r) (\<lambda>(t, r).
     rbind (r_u32 r) (\<lambda>(p, r).
     rbind (r_bytes r) (\<lambda>(key, r).
     rbind (r_end r) (\<lambda>_.
     Inr \<lparr>wv_salt = salt, wv_memoryKiB = m, wv_iterations = t, wv_parallelism = p, wv_wrappedKey = key\<rparr>)))))))"

section \<open>The stored wrapper\<close>

definition vault_fields :: "wrapped_vault \<Rightarrow> bytes \<times> nat \<times> nat \<times> nat \<times> bytes" where
  "vault_fields w = (wv_salt w, wv_memoryKiB w, wv_iterations w, wv_parallelism w, wv_wrappedKey w)"

definition make_vault :: "bytes \<times> nat \<times> nat \<times> nat \<times> bytes \<Rightarrow> wrapped_vault" where
  "make_vault = (\<lambda>(s, m, t, p, k). \<lparr>wv_salt = s, wv_memoryKiB = m, wv_iterations = t, wv_parallelism = p, wv_wrappedKey = k\<rparr>)"

abbreviation emit_n :: "nat \<Rightarrow> writer \<Rightarrow> writer result" where
  "emit_n \<equiv> (\<lambda>n. w_u32 (int n))"

interpretation lanes_codec: codec_pair emit_n r_u32 "\<lambda>n. n \<le> 0xffffffff" "be_bytes 4" w_bytes r_bytes fits_len image_bytes
  by unfold_locales

interpretation passes_codec: codec_pair emit_n r_u32 "\<lambda>n. n \<le> 0xffffffff" "be_bytes 4"
    "emit_pair emit_n w_bytes" "scan_pair r_u32 r_bytes" "\<lambda>(x, y). x \<le> 0xffffffff \<and> fits_len y"
    "\<lambda>(x, y). be_bytes 4 x @ image_bytes y"
  by unfold_locales

interpretation memory_codec: codec_pair emit_n r_u32 "\<lambda>n. n \<le> 0xffffffff" "be_bytes 4"
    "emit_pair emit_n (emit_pair emit_n w_bytes)" "scan_pair r_u32 (scan_pair r_u32 r_bytes)"
    "\<lambda>(x, c). x \<le> 0xffffffff \<and> (case c of (y, z) \<Rightarrow> y \<le> 0xffffffff \<and> fits_len z)"
    "\<lambda>(x, c). be_bytes 4 x @ (case c of (y, z) \<Rightarrow> be_bytes 4 y @ image_bytes z)"
  by unfold_locales

interpretation wrapper_codec: codec_pair w_bytes r_bytes fits_len image_bytes
    "emit_pair emit_n (emit_pair emit_n (emit_pair emit_n w_bytes))"
    "scan_pair r_u32 (scan_pair r_u32 (scan_pair r_u32 r_bytes))"
    "\<lambda>(w, c). w \<le> 0xffffffff \<and> (case c of (x, c) \<Rightarrow> x \<le> 0xffffffff \<and> (case c of (y, z) \<Rightarrow> y \<le> 0xffffffff \<and> fits_len z))"
    "\<lambda>(w, c). be_bytes 4 w @ (case c of (x, c) \<Rightarrow> be_bytes 4 x @ (case c of (y, z) \<Rightarrow> be_bytes 4 y @ image_bytes z))"
  by unfold_locales

interpretation vault_record_codec: codec_record
    "emit_pair w_bytes (emit_pair emit_n (emit_pair emit_n (emit_pair emit_n w_bytes)))"
    "scan_pair r_bytes (scan_pair r_u32 (scan_pair r_u32 (scan_pair r_u32 r_bytes)))"
    "\<lambda>(s, c). fits_len s \<and> (case c of (w, c) \<Rightarrow> w \<le> 0xffffffff \<and> (case c of (x, c) \<Rightarrow> x \<le> 0xffffffff \<and> (case c of (y, z) \<Rightarrow> y \<le> 0xffffffff \<and> fits_len z)))"
    "\<lambda>(s, c). image_bytes s @ (case c of (w, c) \<Rightarrow> be_bytes 4 w @ (case c of (x, c) \<Rightarrow> be_bytes 4 x @ (case c of (y, z) \<Rightarrow> be_bytes 4 y @ image_bytes z)))"
    make_vault vault_fields
  by unfold_locales (auto simp: make_vault_def vault_fields_def)

definition vault_fits :: "wrapped_vault \<Rightarrow> bool" where
  "vault_fits w \<longleftrightarrow> fits_len (wv_salt w) \<and> wv_memoryKiB w \<le> 0xffffffff \<and> wv_iterations w \<le> 0xffffffff \<and>
     wv_parallelism w \<le> 0xffffffff \<and> fits_len (wv_wrappedKey w)"

definition vault_image :: "wrapped_vault \<Rightarrow> bytes" where
  "vault_image w = image_bytes (wv_salt w) @ be_bytes 4 (wv_memoryKiB w) @ be_bytes 4 (wv_iterations w) @
     be_bytes 4 (wv_parallelism w) @ image_bytes (wv_wrappedKey w)"

definition scan_vault_body :: "reader \<Rightarrow> (wrapped_vault \<times> reader) result" where
  "scan_vault_body = scan_map make_vault (scan_pair r_bytes (scan_pair r_u32 (scan_pair r_u32 (scan_pair r_u32 r_bytes))))"

lemma vault_record_laws:
  "wire_codec (\<lambda>w. emit_pair w_bytes (emit_pair emit_n (emit_pair emit_n (emit_pair emit_n w_bytes))) (vault_fields w))
     scan_vault_body vault_fits vault_image"
  using vault_record_codec.rec.wire_codec_axioms
  by (simp add: scan_vault_body_def vault_fits_def[abs_def] vault_image_def[abs_def] vault_fields_def)

interpretation vault_codec: codec_tagged
    "\<lambda>w. emit_pair w_bytes (emit_pair emit_n (emit_pair emit_n (emit_pair emit_n w_bytes))) (vault_fields w)"
    scan_vault_body vault_fits vault_image VAULT_MAGIC
  unfolding codec_tagged_def by (rule vault_record_laws)

lemma encodeWrappedVault_eq:
  "encodeWrappedVault w = (if vault_fits w then Inr (VAULT_MAGIC @ vault_image w) else Inl MalformedInputError)"
  using w_run_writes[of "[w_fixed VAULT_MAGIC, w_bytes (wv_salt w), w_u32 (int (wv_memoryKiB w)),
      w_u32 (int (wv_iterations w)), w_u32 (int (wv_parallelism w)), w_bytes (wv_wrappedKey w)]"
     "[(True, VAULT_MAGIC), (fits_len (wv_salt w), image_bytes (wv_salt w)),
       (wv_memoryKiB w \<le> 0xffffffff, be_bytes 4 (wv_memoryKiB w)),
       (wv_iterations w \<le> 0xffffffff, be_bytes 4 (wv_iterations w)),
       (wv_parallelism w \<le> 0xffffffff, be_bytes 4 (wv_parallelism w)),
       (fits_len (wv_wrappedKey w), image_bytes (wv_wrappedKey w))]"]
    u32c.emit_writes
  by (simp add: encodeWrappedVault_def vault_fits_def vault_image_def writes_fixed writes_bytes)

lemma decodeWrappedVault_scan:
  "decodeWrappedVault b = scan_whole (scan_tagged VAULT_MAGIC scan_vault_body) b"
  by (simp add: decodeWrappedVault_def scan_whole_def scan_tagged_def scan_vault_body_def scan_map_def
      scan_pair_def rbind_assoc make_vault_def case_prod_unfold if_distrib[of "\<lambda>x. rbind x _"] cong: if_cong)

lemma decodeWrappedVault_iff: "decodeWrappedVault b = Inr w \<longleftrightarrow> encodeWrappedVault w = Inr b"
  unfolding decodeWrappedVault_scan vault_codec.tagged.whole_iff by (auto simp: encodeWrappedVault_eq)

section \<open>Unlocking\<close>

lemma vault_key_lengths:
  assumes "hkdf_sized N"
  shows "length (deriveKek N p s prof) = 32" "length (wrapNonce N s) = 24" "length (recordKey N k rid) = 32"
  using assms by (simp_all add: deriveKek_def wrapNonce_def recordKey_def length_kdf)

lemma wrap_unlocks:
  assumes "library_ok N" and "length salt = 16" and "length key = 32"
  shows "\<exists>w. wrap_key N salt p key = Inr w \<and> unlockVault N p w = Inr \<lparr>dataKey = key\<rparr> \<and>
    (\<exists>b. encodeWrappedVault w = Inr b \<and> decodeWrappedVault b = Inr w)"
proof -
  note l = vault_key_lengths[OF library_okD(9)[OF assms(1)]]
  let ?kek = "deriveKek N p salt ARGON2_PROFILE" and ?n = "wrapNonce N salt"
  obtain c where c: "aeadEncrypt N ?kek ?n key VAULT_MAGIC = Inr c"
    using l by (simp add: aeadEncrypt_def expectLength_def)
  have d: "aeadDecrypt N ?kek ?n c VAULT_MAGIC = Inr key" by (rule aead_roundtrip[OF library_okD(8)[OF assms(1)] c])
  have "length c = 48" using c assms(3) library_okD(8)[OF assms(1)] l by (auto simp: aead_eq_Inr aead_correct_def)
  then have fits: "fits_len salt" "fits_len c" using assms(2) by (simp_all add: fits_len_def)
  let ?w = "\<lparr>wv_salt = salt, wv_memoryKiB = 47104, wv_iterations = 2, wv_parallelism = 1, wv_wrappedKey = c\<rparr>"
  have "wrap_key N salt p key = Inr ?w" using c by (simp add: wrap_key_def Let_def) (simp add: ARGON2_PROFILE_def)
  moreover have "unlockVault N p ?w = Inr \<lparr>dataKey = key\<rparr>"
    using d assms(2) by (simp add: unlockVault_def SALT_LEN_def Let_def ARGON2_PROFILE_def)
  moreover have "encodeWrappedVault ?w = Inr (VAULT_MAGIC @ vault_image ?w)"
    using fits by (simp add: encodeWrappedVault_eq vault_fits_def)
  ultimately show ?thesis by (meson decodeWrappedVault_iff)
qed

lemma record_roundtrip:
  assumes "library_ok N" and "length nonce = 24"
  shows "\<exists>stored. encryptRecord N nonce v rid pt = Inr stored \<and> decryptRecord N v rid stored = Inr pt"
proof -
  note l = vault_key_lengths[OF library_okD(9)[OF assms(1)]]
  obtain c where c: "aeadEncrypt N (recordKey N (dataKey v) rid) nonce pt (utf8_encode rid) = Inr c"
    using l assms(2) by (simp add: aeadEncrypt_def expectLength_def)
  have "w_run [w_fixed nonce, w_fixed c] = Inr (nonce @ c)"
    using w_run_writes[of "[w_fixed nonce, w_fixed c]" "[(True, nonce), (True, c)]"] by (simp add: writes_fixed)
  with c aead_roundtrip[OF library_okD(8)[OF assms(1)] c] assms(2) show ?thesis
    by (simp add: encryptRecord_def decryptRecord_def Let_def slice_def)
qed

text \<open>C16
  Life of a vault: what was created under a passphrase unlocks with it, the wrapper survives
  its trip through storage, a change of passphrase keeps the data key (the new wrapper unlocks
  with the new passphrase to the same vault), and records written before still decrypt.
\<close>

theorem vault_lifecycle:
  assumes "library_ok N" and "length salt = 16" and "length salt2 = 16" and "length key = 32" and "length nonce = 24"
  shows "\<exists>v w b w2 b2 stored. createVault N salt key p = Inr (v, w) \<and> unlockVault N p w = Inr v \<and>
    encodeWrappedVault w = Inr b \<and> decodeWrappedVault b = Inr w \<and>
    encryptRecord N nonce v rid pt = Inr stored \<and> decryptRecord N v rid stored = Inr pt \<and>
    changePassphrase N salt2 v p2 = Inr w2 \<and> encodeWrappedVault w2 = Inr b2 \<and> decodeWrappedVault b2 = Inr w2 \<and>
    (\<exists>v2. unlockVault N p2 w2 = Inr v2 \<and> decryptRecord N v2 rid stored = Inr pt)"
  using wrap_unlocks[OF assms(1,2,4), of p] wrap_unlocks[OF assms(1,3,4), of p2]
    record_roundtrip[OF assms(1,5), of "\<lparr>dataKey = key\<rparr>" rid pt]
  by (auto simp: createVault_def changePassphrase_def)

text \<open>
  Failing to unlock: a wrapper whose salt has the wrong length or whose wrapped key is shorter
  than a tag is malformed, and every other failure, wrong passphrase or tampered wrapper alike,
  is the one error VaultLockedError; stored bytes decode to a wrapper exactly when they are its
  encoding.
\<close>

lemma vault_unlock_errors:
  assumes "library_ok N"
  shows "(unlockVault N p w = Inl MalformedInputError \<longleftrightarrow> length (wv_salt w) \<noteq> 16 \<or> length (wv_wrappedKey w) < 16) \<and>
    (unlockVault N p w = Inl e \<longrightarrow> e = MalformedInputError \<or> e = VaultLockedError) \<and>
    (decodeWrappedVault b = Inr w \<longleftrightarrow> encodeWrappedVault w = Inr b)"
  using vault_key_lengths[OF library_okD(9)[OF assms]]
  by (auto simp: unlockVault_def SALT_LEN_def Let_def aeadDecrypt_def expectLength_def guard_def decodeWrappedVault_iff
      split: option.splits if_splits)

theorem vault_lifecycle_witness:
  "\<exists>v w stored. createVault demo_library (replicate 16 1) (replicate 32 2) [7] = Inr (v, w) \<and>
    unlockVault demo_library [7] w = Inr v \<and>
    encryptRecord demo_library (replicate 24 3) v ''m1'' [5] = Inr stored \<and> decryptRecord demo_library v ''m1'' stored = Inr [5]"
proof -
  have "length (replicate 16 (1 :: byte)) = 16" "length (replicate 16 (4 :: byte)) = 16"
    "length (replicate 32 (2 :: byte)) = 32" "length (replicate 24 (3 :: byte)) = 24" by simp_all
  from vault_lifecycle[OF demo_library_ok this, of "[7]" "''m1''" "[5]" "[8]"] show ?thesis by blast
qed

end
