(* ===== verification/Veil_Base64.thy ===== *)
theory Veil_Base64
  imports Veil_Prelude
begin

text \<open>
  Unpadded base64url, the first part of packages/protocol/src/index.ts: the standard \<open>btoa\<close>
  and \<open>atob\<close> it is built on, the two conversions, and that they are inverse. A plain
  \<open>Error\<close> (of the alphabet check or of \<open>atob\<close>) is \<open>OtherError\<close>.
\<close>

section \<open>Definitions\<close>

definition base64_alphabet :: string where
  "base64_alphabet = ''ABCDEFGHIJKLMNOPQRSTUVWXYZabcdefghijklmnopqrstuvwxyz0123456789+/''"

text \<open>The standard \<open>btoa\<close>: groups of three codes as four digits of six bits, padded with \<open>=\<close>.\<close>

fun enc64 :: "nat list \<Rightarrow> nat list" where
  "enc64 [] = []"
| "enc64 [a] = [a div 4, (a mod 4) * 16]"
| "enc64 [a, b] = [a div 4, (a mod 4) * 16 + b div 16, (b mod 16) * 4]"
| "enc64 (a # b # c # r) =
     a div 4 # ((a mod 4) * 16 + b div 16) # ((b mod 16) * 4 + c div 64) # (c mod 64) # enc64 r"

definition btoa :: "string \<Rightarrow> string" where
  "btoa s = map (\<lambda>d. base64_alphabet ! d) (enc64 (map of_char s)) @
     replicate ((3 - length s mod 3) mod 3) CHR ''=''"

text \<open>
  The standard (forgiving) \<open>atob\<close>: white space is dropped, then up to two \<open>=\<close> of a string whose
  length is a multiple of four; a remainder of one digit or a character outside the alphabet is
  an exception (None); the bits left over at the end are discarded.
\<close>

fun dec64 :: "nat list \<Rightarrow> nat list" where
  "dec64 (w # x # y # z # r) =
     (w * 4 + x div 16) # ((x mod 16) * 16 + y div 4) # ((y mod 4) * 64 + z) # dec64 r"
| "dec64 [w, x, y] = [w * 4 + x div 16, (x mod 16) * 16 + y div 4]"
| "dec64 [w, x] = [w * 4 + x div 16]"
| "dec64 _ = []"

definition base64_index :: "char \<Rightarrow> nat option" where
  "base64_index c = (let n = of_char c :: nat in
     if 65 \<le> n \<and> n \<le> 90 then Some (n - 65)
     else if 97 \<le> n \<and> n \<le> 122 then Some (n - 71)
     else if 48 \<le> n \<and> n \<le> 57 then Some (n + 4)
     else if n = 43 then Some 62
     else if n = 47 then Some 63
     else None)"

definition drop_pads :: "string \<Rightarrow> string" where
  "drop_pads s = (if length s mod 4 = 0 \<and> s \<noteq> [] \<and> last s = CHR ''='' then
      (let t = butlast s in if t \<noteq> [] \<and> last t = CHR ''='' then butlast t else t)
    else s)"

definition atob :: "string \<Rightarrow> string option" where
  "atob s0 = (let s = drop_pads (filter (\<lambda>c. of_char c \<notin> {9, 10, 12, 13, 32 :: nat}) s0) in
     if length s mod 4 = 1 then None
     else if \<exists>c \<in> set s. base64_index c = None then None
     else Some (map char_of (dec64 (map (\<lambda>c. the (base64_index c)) s))))"

definition js_replace_all :: "char \<Rightarrow> char \<Rightarrow> string \<Rightarrow> string" where
  "js_replace_all a b s = map (\<lambda>c. if c = a then b else c) s"

text \<open>\<open>replace(/=+$/, '')\<close>.\<close>

definition strip_pads :: "string \<Rightarrow> string" where
  "strip_pads s = rev (dropWhile (\<lambda>c. c = CHR ''='') (rev s))"

definition toBase64Url :: "bytes \<Rightarrow> string" where
  "toBase64Url bs = (let binary = map (\<lambda>b. char_of (unat b)) bs; base64 = btoa binary in
     strip_pads (js_replace_all CHR ''/'' CHR ''_'' (js_replace_all CHR ''+'' CHR ''-'' base64)))"

definition base64url_char :: "char \<Rightarrow> bool" where
  "base64url_char c = (let n = of_char c :: nat in
     (65 \<le> n \<and> n \<le> 90) \<or> (97 \<le> n \<and> n \<le> 122) \<or> (48 \<le> n \<and> n \<le> 57) \<or> c = CHR ''_'' \<or> c = CHR ''-'')"

definition fromBase64Url :: "string \<Rightarrow> bytes result" where
  "fromBase64Url value =
     (if \<not> list_all base64url_char value then Inl OtherError
      else let base64 = js_replace_all CHR ''_'' CHR ''/'' (js_replace_all CHR ''-'' CHR ''+'' value);
               padded = base64 @ replicate ((4 - length base64 mod 4) mod 4) CHR ''='' in
        case atob padded of None \<Rightarrow> Inl OtherError
        | Some binary \<Rightarrow> Inr (map (\<lambda>c. word_of_nat (of_char c)) binary))"

section \<open>The encoding is faithful\<close>

lemma length_base64_alphabet: "length base64_alphabet = 64"
  by (simp add: base64_alphabet_def)

lemma base64_table:
  "map base64_index base64_alphabet = map Some [0..<64]"
  by (simp add: base64_alphabet_def base64_index_def upt_rec)

lemma base64_alphabet_plain:
  "CHR ''='' \<notin> set base64_alphabet" "CHR ''_'' \<notin> set base64_alphabet" "CHR ''-'' \<notin> set base64_alphabet"
  by (simp_all add: base64_alphabet_def)

lemma base64_digit:
  assumes "d < 64"
  shows "base64_index (base64_alphabet ! d) = Some d" "base64_alphabet ! d \<noteq> CHR ''=''"
    "base64_alphabet ! d \<noteq> CHR ''_''" "base64_alphabet ! d \<noteq> CHR ''-''"
proof -
  have "map base64_index base64_alphabet ! d = map Some [0..<64] ! d" by (simp only: base64_table)
  then show "base64_index (base64_alphabet ! d) = Some d" using assms by (simp add: length_base64_alphabet)
  have "base64_alphabet ! d \<in> set base64_alphabet" using assms by (simp add: length_base64_alphabet)
  then show "base64_alphabet ! d \<noteq> CHR ''=''" "base64_alphabet ! d \<noteq> CHR ''_''" "base64_alphabet ! d \<noteq> CHR ''-''"
    using base64_alphabet_plain by metis+
qed

lemma enc64_less: "\<forall>n \<in> set ns. n < 256 \<Longrightarrow> d \<in> set (enc64 ns) \<Longrightarrow> d < 64"
proof (induction ns rule: enc64.induct)
  case (4 a b c r)
  have "a div 4 < 64" "(a mod 4) * 16 + b div 16 < 64" "(b mod 16) * 4 + c div 64 < 64" "c mod 64 < 64"
    using 4(2) by (auto simp: div_less_iff_less_mult)
  with 4 show ?case by auto
qed (auto simp: div_less_iff_less_mult)

lemma dec64_enc64: "\<forall>n \<in> set ns. n < 256 \<Longrightarrow> dec64 (enc64 ns) = ns"
proof (induction ns rule: enc64.induct)
  case (4 a b c r)
  have "a div 4 * 4 + ((a mod 4) * 16 + b div 16) div 16 = a"
    "((a mod 4) * 16 + b div 16) mod 16 * 16 + ((b mod 16) * 4 + c div 64) div 4 = b"
    "((b mod 16) * 4 + c div 64) mod 4 * 64 + c mod 64 = c"
    using 4(2) by auto
  with 4 show ?case by simp
qed auto

lemma length_enc64: "length (enc64 ns) = (4 * length ns + 2) div 3"
  by (induction ns rule: enc64.induct) auto

definition url_char :: "nat \<Rightarrow> char" where
  "url_char d = (let c = base64_alphabet ! d in if c = CHR ''+'' then CHR ''-'' else if c = CHR ''/'' then CHR ''_'' else c)"

definition std_char :: "char \<Rightarrow> char" where
  "std_char c = (if c = CHR ''-'' then CHR ''+'' else if c = CHR ''_'' then CHR ''/'' else c)"

definition url_index :: "char \<Rightarrow> nat" where
  "url_index c = the (base64_index (std_char c))"

lemma strip_pads_plain: "CHR ''='' \<notin> set s \<Longrightarrow> strip_pads (s @ replicate k CHR ''='') = s"
proof -
  assume s: "CHR ''='' \<notin> set s"
  have "dropWhile (\<lambda>c. c = CHR ''='') (replicate k CHR ''='' @ rev s) = rev s"
  proof (induction k)
    case 0
    have "rev s = [] \<or> hd (rev s) \<in> set (rev s)" by (meson hd_in_set)
    then show ?case using s by (auto simp: dropWhile_eq_self_iff)
  qed simp
  then show ?thesis by (simp add: strip_pads_def)
qed

lemma toBase64Url_digits: "toBase64Url bs = map url_char (enc64 (map unat bs))"
proof -
  let ?ns = "map unat bs"
  have codes: "map of_char (map (\<lambda>b. char_of (unat b)) bs) = ?ns"
    by (simp add: comp_def)
  have lt: "d < 64" if "d \<in> set (enc64 ?ns)" for d using that by (rule enc64_less[rotated]) auto
  have "js_replace_all CHR ''/'' CHR ''_'' (js_replace_all CHR ''+'' CHR ''-'' (btoa (map (\<lambda>b. char_of (unat b)) bs)))
      = map url_char (enc64 ?ns) @ replicate ((3 - length bs mod 3) mod 3) CHR ''=''"
    unfolding btoa_def codes by (auto simp: js_replace_all_def url_char_def Let_def)
  moreover have "CHR ''='' \<notin> set (map url_char (enc64 ?ns))"
    using lt base64_digit(2) by (auto simp: url_char_def Let_def split: if_splits) metis
  ultimately show ?thesis unfolding toBase64Url_def Let_def by (simp only: strip_pads_plain not_False_eq_True)
qed

lemma url_char_index:
  assumes "d < 64"
  shows "base64url_char (url_char d)" "url_index (url_char d) = d"
proof -
  have i: "base64_index (base64_alphabet ! d) = Some d" by (rule base64_digit(1)[OF assms])
  have "base64url_char (if c = CHR ''+'' then CHR ''-'' else if c = CHR ''/'' then CHR ''_'' else c)"
    if "base64_index c = Some d" for c
  proof -
    have "of_char CHR ''+'' = (43 :: nat)" "of_char CHR ''/'' = (47 :: nat)" by simp_all
    then have "of_char c = (43 :: nat) \<longleftrightarrow> c = CHR ''+''" "of_char c = (47 :: nat) \<longleftrightarrow> c = CHR ''/''"
      by (metis of_char_eq_iff)+
    with that show ?thesis by (auto simp: base64url_char_def base64_index_def Let_def split: if_splits)
  qed
  from this[OF i] show "base64url_char (url_char d)" unfolding url_char_def Let_def .
  show "url_index (url_char d) = d"
    using i base64_digit(3,4)[OF assms] by (auto simp: url_index_def std_char_def url_char_def Let_def)
qed

lemma drop_pads_plain:
  assumes "CHR ''='' \<notin> set s" and "k \<le> 2" and "(length s + k) mod 4 = 0"
  shows "drop_pads (s @ replicate k CHR ''='') = s"
proof -
  have last: "s = [] \<or> last s \<noteq> CHR ''=''" using assms(1) last_in_set by metis
  from assms(2) consider "k = 0" | "k = 1" | "k = 2" by linarith
  then show ?thesis
  proof cases
    case 1
    then show ?thesis using last by (auto simp: drop_pads_def)
  next
    case 2
    then show ?thesis using last assms(3) by (auto simp: drop_pads_def Let_def)
  next
    case 3
    have "replicate 2 CHR ''='' = [CHR ''='', CHR ''='']" by (simp add: numeral_2_eq_2)
    then show ?thesis using 3 assms(3) by (simp add: drop_pads_def Let_def butlast_append)
  qed
qed

lemma drop_pads_three:
  assumes "(length s + 3) mod 4 = 0"
  shows "drop_pads (s @ replicate 3 CHR ''='') = s @ [CHR ''='']"
proof -
  have "replicate 3 CHR ''='' = [CHR ''='', CHR ''='', CHR ''='']" by (simp add: numeral_3_eq_3)
  moreover have "(3 + length s) mod 4 = 0" using assms by (simp add: add.commute)
  ultimately show ?thesis by (simp add: drop_pads_def Let_def butlast_append)
qed

lemma base64_index_plain:
  "base64_index c = Some i \<Longrightarrow> c \<noteq> CHR ''='' \<and> of_char c \<notin> {9, 10, 12, 13, 32 :: nat}"
  by (auto simp: base64_index_def Let_def split: if_splits)

lemma base64url_indexed:
  assumes "base64url_char c"
  shows "\<exists>i. base64_index (std_char c) = Some i"
  using assms by (auto simp: std_char_def base64url_char_def base64_index_def Let_def)

lemma byte_of_nat_mod: "(word_of_nat (n mod 256) :: byte) = word_of_nat n"
  by (simp add: word_of_nat_eq_iff take_bit_eq_mod)

text \<open>Decoding: a length of the form 4n + 1 or a foreign character throws, everything else decodes.\<close>

lemma fromBase64Url_eq:
  "fromBase64Url s = (if list_all base64url_char s \<and> length s mod 4 \<noteq> 1
     then Inr (map word_of_nat (dec64 (map url_index s))) else Inl OtherError)"
proof (cases "list_all base64url_char s")
  case True
  define t where "t = js_replace_all CHR ''_'' CHR ''/'' (js_replace_all CHR ''-'' CHR ''+'' s)"
  have t: "t = map std_char s"
    by (auto simp: t_def js_replace_all_def std_char_def)
  have plain: "\<exists>i. base64_index c = Some i" if "c \<in> set t" for c
    using that True base64url_indexed unfolding t by (auto simp: list_all_iff)
  have len: "length t = length s" by (simp add: t)
  have eq: "CHR ''='' \<notin> set t" using plain base64_index_plain by blast
  have space: "filter (\<lambda>c. of_char c \<notin> {9, 10, 12, 13, 32 :: nat}) (t @ replicate k CHR ''='') = t @ replicate k CHR ''=''" for k
    using plain base64_index_plain by (intro filter_True) fastforce
  have idx: "map (\<lambda>c. the (base64_index c)) t = map url_index s" by (simp add: t url_index_def)
  define k where "k = (4 - length s mod 4) mod 4"
  have "atob (t @ replicate k CHR ''='') =
      (if length s mod 4 = 1 then None else Some (map char_of (dec64 (map url_index s))))"
  proof (cases "length s mod 4 = 1")
    case True
    then have "k = 3" by (simp add: k_def)
    moreover have "(length t + 3) mod 4 = 0" using True len by presburger
    ultimately have d: "drop_pads (t @ replicate k CHR ''='') = t @ [CHR ''='']" by (simp only: drop_pads_three)
    have "\<exists>c \<in> set (t @ [CHR ''='']). base64_index c = None" by (simp add: base64_index_def)
    then have "atob (t @ replicate k CHR ''='') = None" unfolding atob_def space Let_def d by simp
    with True show ?thesis by simp
  next
    case False
    have "length s mod 4 < 4" by simp
    with False have m: "length s mod 4 = 0 \<or> length s mod 4 = 2 \<or> length s mod 4 = 3" by linarith
    then have "k \<le> 2" "(length s mod 4 + k) mod 4 = 0" by (auto simp: k_def)
    then have "k \<le> 2" "(length t + k) mod 4 = 0" by (simp_all add: len mod_add_left_eq)
    then have d: "drop_pads (t @ replicate k CHR ''='') = t" by (intro drop_pads_plain eq)
    have "\<not> (\<exists>c \<in> set t. base64_index c = None)" using plain by fastforce
    then have "atob (t @ replicate k CHR ''='') = Some (map char_of (dec64 (map url_index s)))"
      unfolding atob_def space Let_def d idx using False len by simp
    with False show ?thesis by simp
  qed
  then show ?thesis using True
    by (auto simp: fromBase64Url_def t_def[symmetric] k_def[symmetric] Let_def len comp_def byte_of_nat_mod)
qed (simp add: fromBase64Url_def)

text \<open>The round trip, and with it injectivity.\<close>

lemma length_toBase64Url: "length (toBase64Url bs) = (4 * length bs + 2) div 3"
  by (simp add: toBase64Url_digits length_enc64)

lemma toBase64Url_plain: "list_all base64url_char (toBase64Url bs)"
proof -
  have "d < 64" if "d \<in> set (enc64 (map unat bs))" for d
    using that by (rule enc64_less[rotated]) auto
  then show ?thesis using url_char_index(1) by (auto simp: toBase64Url_digits list_all_iff)
qed

lemma fromBase64Url_toBase64Url [simp]: "fromBase64Url (toBase64Url bs) = Inr bs"
proof -
  let ?ds = "enc64 (map unat bs)"
  have "d < 64" if "d \<in> set ?ds" for d
    using that by (rule enc64_less[rotated]) auto
  then have "map url_index (toBase64Url bs) = ?ds"
    unfolding toBase64Url_digits map_map by (intro map_idI) (simp add: url_char_index(2))
  moreover have "dec64 ?ds = map unat bs" by (rule dec64_enc64) auto
  moreover have "(4 * length bs + 2) div 3 mod 4 \<noteq> 1" by presburger
  ultimately show ?thesis
    using toBase64Url_plain[of bs] by (simp add: fromBase64Url_eq length_toBase64Url comp_def)
qed

lemma toBase64Url_inj [simp]: "toBase64Url a = toBase64Url b \<longleftrightarrow> a = b"
  by (metis fromBase64Url_toBase64Url sum.inject(2))

lemma fromBase64Url_error: "fromBase64Url s = Inl e \<Longrightarrow> e = OtherError"
  by (auto simp: fromBase64Url_eq split: if_splits)

lemma fromBase64Url_total:
  "(\<exists>b. fromBase64Url s = Inr b) \<longleftrightarrow> list_all base64url_char s \<and> length s mod 4 \<noteq> 1"
  by (auto simp: fromBase64Url_eq)

text \<open>Decoding is not injective: the spare bits of the last digit are ignored.\<close>

lemma fromBase64Url_malleable: "fromBase64Url ''AA'' = fromBase64Url ''AB''"
  by (simp add: fromBase64Url_eq url_index_def std_char_def base64_index_def base64url_char_def)

end
