(* ===== verification/Veil_Protocol.thy ===== *)
theory Veil_Protocol
  imports Veil_Session Veil_Base64
begin

text \<open>
  The client/relay wire contract: packages/protocol/src/index.ts. Bytes cross the wire as
  unpadded base64url (Veil_Base64); the conversions between the crypto records and the wire
  records are the functions of that file.
\<close>

section \<open>Limits\<close>

definition maxBodyBytes :: nat where "maxBodyBytes = 256 * 1024"
definition maxEnvelopeBytes :: nat where "maxEnvelopeBytes = 128 * 1024"
definition maxQueueLength :: nat where "maxQueueLength = 2000"
definition maxOneTimePreKeys :: nat where "maxOneTimePreKeys = 500"
definition messageTtlMs :: int where "messageTtlMs = 30 * 24 * 60 * 60 * 1000"
definition challengeTtlMs :: int where "challengeTtlMs = 60 * 1000"
definition tokenTtlMs :: int where "tokenTtlMs = 24 * 60 * 60 * 1000"

section \<open>Wire records\<close>

record wire_identity =
  w_signingPublicKey :: string
  w_exchangePublicKey :: string
  w_exchangeKeySignature :: string

record wire_signed_prekey =
  ws_id :: int
  ws_publicKey :: string
  ws_signature :: string

record wire_one_time_prekey =
  wo_id :: int
  wo_publicKey :: string

record prekey_bundle_response =
  br_identity :: wire_identity
  br_signedPreKey :: wire_signed_prekey
  br_signedKemPreKey :: wire_signed_prekey
  br_oneTimePreKey :: "wire_one_time_prekey option"
  br_oneTimeKemPreKey :: "wire_one_time_prekey option"

text \<open>
  An envelope is what a JSON body was parsed to, cast to the interface without a check: the
  relay's socket path lets one without the ephemeral key through (None), which the recipient
  then fails to decode.
\<close>

record wire_envelope =
  we_recipient :: string
  we_ephemeralPublicKey :: "string option"
  we_ciphertext :: string

text \<open>\<open>Veil/v1/Auth:\<close>, the address, a colon, then the challenge bytes.\<close>

definition challengeTranscript :: "string \<Rightarrow> bytes \<Rightarrow> bytes" where
  "challengeTranscript address challenge =
     (let prefix = utf8_encode (''Veil/v1/Auth:'' @ address @ '':'');
          out = replicate (length prefix + length challenge) 0
      in blit out 0 [prefix, challenge])"

section \<open>Conversions\<close>

definition encodeIdentity :: "public_identity \<Rightarrow> wire_identity" where
  "encodeIdentity i = \<lparr>w_signingPublicKey = toBase64Url (signingPublicKey i),
     w_exchangePublicKey = toBase64Url (exchangePublicKey i),
     w_exchangeKeySignature = toBase64Url (exchangeKeySignature i)\<rparr>"

definition decodeIdentity :: "wire_identity \<Rightarrow> public_identity result" where
  "decodeIdentity w =
     rbind (fromBase64Url (w_signingPublicKey w)) (\<lambda>a.
     rbind (fromBase64Url (w_exchangePublicKey w)) (\<lambda>b.
     rbind (fromBase64Url (w_exchangeKeySignature w)) (\<lambda>c.
     Inr \<lparr>signingPublicKey = a, exchangePublicKey = b, exchangeKeySignature = c\<rparr>)))"

definition encodeSignedPreKey :: "signed_prekey \<Rightarrow> wire_signed_prekey" where
  "encodeSignedPreKey k = \<lparr>ws_id = spk_id k, ws_publicKey = toBase64Url (spk_public k),
     ws_signature = toBase64Url (spk_signature k)\<rparr>"

definition decodeSignedPreKey :: "wire_signed_prekey \<Rightarrow> signed_prekey result" where
  "decodeSignedPreKey w =
     rbind (fromBase64Url (ws_publicKey w)) (\<lambda>p.
     rbind (fromBase64Url (ws_signature w)) (\<lambda>s.
     Inr \<lparr>spk_id = ws_id w, spk_public = p, spk_signature = s\<rparr>))"

definition encodeOneTimePreKey :: "one_time_prekey \<Rightarrow> wire_one_time_prekey" where
  "encodeOneTimePreKey k = \<lparr>wo_id = otk_id k, wo_publicKey = toBase64Url (otk_public k)\<rparr>"

definition decodeOneTimePreKey :: "wire_one_time_prekey \<Rightarrow> one_time_prekey result" where
  "decodeOneTimePreKey w =
     rbind (fromBase64Url (wo_publicKey w)) (\<lambda>p. Inr \<lparr>otk_id = wo_id w, otk_public = p\<rparr>)"

definition decode_optional :: "wire_one_time_prekey option \<Rightarrow> one_time_prekey option result" where
  "decode_optional w = (case w of None \<Rightarrow> Inr None
     | Some k \<Rightarrow> rbind (decodeOneTimePreKey k) (\<lambda>k. Inr (Some k)))"

definition decodeBundle :: "prekey_bundle_response \<Rightarrow> prekey_bundle result" where
  "decodeBundle w =
     rbind (decodeIdentity (br_identity w)) (\<lambda>i.
     rbind (decodeSignedPreKey (br_signedPreKey w)) (\<lambda>s.
     rbind (decodeSignedPreKey (br_signedKemPreKey w)) (\<lambda>k.
     rbind (decode_optional (br_oneTimePreKey w)) (\<lambda>o1.
     rbind (decode_optional (br_oneTimeKemPreKey w)) (\<lambda>o2.
     Inr \<lparr>identity = i, signedPreKey = s, signedKemPreKey = k, oneTimePreKey = o1, oneTimeKemPreKey = o2\<rparr>)))))"

definition encodeEnvelope :: "sealed_envelope \<Rightarrow> wire_envelope" where
  "encodeEnvelope e = \<lparr>we_recipient = recipientAddress e,
     we_ephemeralPublicKey = Some (toBase64Url (se_ephemeralPublicKey e)),
     we_ciphertext = toBase64Url (se_ciphertext e)\<rparr>"

definition decodeEnvelope :: "wire_envelope \<Rightarrow> sealed_envelope result" where
  "decodeEnvelope w =
     rbind (case we_ephemeralPublicKey w of None \<Rightarrow> Inl OtherError | Some k \<Rightarrow> fromBase64Url k) (\<lambda>p.
     rbind (fromBase64Url (we_ciphertext w)) (\<lambda>c.
     Inr \<lparr>recipientAddress = we_recipient w, se_ephemeralPublicKey = p, se_ciphertext = c\<rparr>))"

section \<open>Conversions are faithful\<close>

lemma decode_encode [simp]:
  "decodeIdentity (encodeIdentity i) = Inr i"
  "decodeSignedPreKey (encodeSignedPreKey s) = Inr s"
  "decodeOneTimePreKey (encodeOneTimePreKey k) = Inr k"
  "decodeEnvelope (encodeEnvelope e) = Inr e"
  by (simp_all add: decodeIdentity_def encodeIdentity_def decodeSignedPreKey_def encodeSignedPreKey_def
      decodeOneTimePreKey_def encodeOneTimePreKey_def decodeEnvelope_def encodeEnvelope_def)

lemma decode_optional_encode [simp]: "decode_optional (map_option encodeOneTimePreKey k) = Inr k"
  by (cases k) (simp_all add: decode_optional_def)

lemma decode_errors:
  "decodeIdentity wi = Inl e \<Longrightarrow> e = OtherError"
  "decodeSignedPreKey ws = Inl e \<Longrightarrow> e = OtherError"
  "decodeOneTimePreKey wo = Inl e \<Longrightarrow> e = OtherError"
  "decodeEnvelope we = Inl e \<Longrightarrow> e = OtherError"
  by (auto simp: decodeIdentity_def decodeSignedPreKey_def decodeOneTimePreKey_def decodeEnvelope_def
      rbind_eq_Inl dest: fromBase64Url_error split: option.splits)

text \<open>The response a bundle travels in.\<close>

definition bundle_response :: "prekey_bundle \<Rightarrow> prekey_bundle_response" where
  "bundle_response b = \<lparr>br_identity = encodeIdentity (identity b),
     br_signedPreKey = encodeSignedPreKey (signedPreKey b),
     br_signedKemPreKey = encodeSignedPreKey (signedKemPreKey b),
     br_oneTimePreKey = map_option encodeOneTimePreKey (oneTimePreKey b),
     br_oneTimeKemPreKey = map_option encodeOneTimePreKey (oneTimeKemPreKey b)\<rparr>"

lemma decodeBundle_response [simp]: "decodeBundle (bundle_response b) = Inr b"
  by (simp add: decodeBundle_def bundle_response_def)

lemma challengeTranscript_eq: "challengeTranscript a c = utf8_encode (''Veil/v1/Auth:'' @ a @ '':'') @ c"
  by (simp add: challengeTranscript_def Let_def blit_append)

text \<open>For challenges of one length the transcript determines the address and the challenge.\<close>

lemma utf8_encode_append: "utf8_encode (s @ t) = utf8_encode s @ utf8_encode t"
  by (simp add: utf8_encode_def)

lemma challengeTranscript_inj:
  assumes "challengeTranscript a c = challengeTranscript b d" and "length c = length d"
  shows "a = b \<and> c = d"
proof -
  from assms have "utf8_encode (''Veil/v1/Auth:'' @ a @ '':'') = utf8_encode (''Veil/v1/Auth:'' @ b @ '':'')" "c = d"
    by (simp_all add: challengeTranscript_eq)
  then show ?thesis by (simp only: utf8_encode_inj same_append_eq append_same_eq simp_thms)
qed

text \<open>C27
  What an identity key signs is unambiguous. It signs key bindings, sender proofs and
  authentication challenges; within a kind two signed byte strings are equal only for the same
  data (a challenge has 32 bytes), and no byte string is of two kinds.
\<close>

theorem signed_bytes_unambiguous:
  assumes "signingTranscript ctx sk kid key = Inr t1" and "senderProofTranscript eph addr kind payload = Inr t2"
  shows "challengeTranscript a c \<noteq> t1 \<and> challengeTranscript a c \<noteq> t2 \<and> t1 \<noteq> t2 \<and>
    (signingTranscript ctx' sk' kid' key' = Inr t1 \<longrightarrow> ctx = ctx' \<and> sk = sk' \<and> kid = kid' \<and> key = key') \<and>
    (senderProofTranscript eph' addr' kind' payload' = Inr t2 \<longrightarrow>
       eph = eph' \<and> addr = addr' \<and> kind = kind' \<and> payload = payload') \<and>
    (challengeTranscript a c = challengeTranscript a' c' \<and> length c = length c' \<longrightarrow> a = a' \<and> c = c')"
proof -
  obtain r1 r2 where "t1 = utf8_encode ''Veil/v1/KeyBinding'' @ r1" "t2 = utf8_encode ''Veil/v1/SenderProof'' @ r2"
    using assms by (auto simp: signingTranscript_eq senderProofTranscript_eq split: if_splits)
  then have "challengeTranscript a c \<noteq> t1 \<and> challengeTranscript a c \<noteq> t2 \<and> t1 \<noteq> t2"
    by (simp add: challengeTranscript_eq utf8_encode_append) (simp add: utf8_encode_def utf8_char_def)
  with signingTranscript_inj_lemma[OF assms(1)] senderProofTranscript_inj_lemma[OF assms(2)] challengeTranscript_inj
  show ?thesis unfolding utf8_encode_inj by blast
qed

theorem signed_bytes_unambiguous_witness:
  "\<exists>t1 t2. signingTranscript 1 [1] 0 [2] = Inr t1 \<and> senderProofTranscript [3] ''bob'' 1 [4] = Inr t2 \<and> t1 \<noteq> t2 \<and>
    signingTranscript 2 [1] 0 [2] \<noteq> Inr t1 \<and> challengeTranscript ''bob'' [5] \<noteq> challengeTranscript ''eve'' [5]"
proof -
  obtain t1 t2 where t: "signingTranscript 1 [1] 0 [2] = Inr t1" "senderProofTranscript [3] ''bob'' 1 [4] = Inr t2"
    by (simp add: signingTranscript_eq senderProofTranscript_eq fits_len_def fits_u32_def utf8_encode_def utf8_char_def)
  note u = signed_bytes_unambiguous[OF t, of "''bob''" "[5]" 2 "[1]" 0 "[2]" "[3]" "''bob''" 1 "[4]" "''eve''" "[5]"]
  then have "t1 \<noteq> t2" "signingTranscript 2 [1] 0 [2] \<noteq> Inr t1" "challengeTranscript ''bob'' [5] \<noteq> challengeTranscript ''eve'' [5]"
    by (simp_all only: simp_thms) simp_all
  with t show ?thesis by blast
qed

end
