(* ===== verification/Relay_Store.thy ===== *)
theory Relay_Store
  imports Veil_Protocol "HOL-Library.Multiset"
begin

text \<open>
  The relay's storage: packages/relay/src/store.ts. The operations of InMemoryRelayStore, run
  one after the other (each is synchronous up to its resolved promise). Two contracts of the
  RelayStore interface are locales, interpreted here on it: mailboxes (what a queue holds after
  each operation) and key pools (no one-time key is issued more often than it was offered).
\<close>

section \<open>State\<close>

record account_record =
  ac_address :: string
  ac_identity :: wire_identity
  ac_signedPreKey :: wire_signed_prekey
  ac_signedKemPreKey :: wire_signed_prekey
  ac_oneTimePreKeys :: "wire_one_time_prekey list"
  ac_oneTimeKemPreKeys :: "wire_one_time_prekey list"

record queued_message =
  qm_id :: string
  qm_envelope :: wire_envelope
  qm_receivedAt :: int

record relay_store =
  accounts :: "(string, account_record) jsmap"
  queues :: "(string, queued_message list) jsmap"

text \<open>\<open>Partial<Pick<AccountRecord, ...>>\<close>: the fields present in an update.\<close>

record prekey_update =
  up_signedPreKey :: "wire_signed_prekey option"
  up_signedKemPreKey :: "wire_signed_prekey option"
  up_oneTimePreKeys :: "wire_one_time_prekey list option"
  up_oneTimeKemPreKeys :: "wire_one_time_prekey list option"

definition new_relay_store :: relay_store where
  "new_relay_store = \<lparr>accounts = [], queues = []\<rparr>"

section \<open>Operations\<close>

definition createAccount :: "account_record \<Rightarrow> relay_store \<Rightarrow> relay_store" where
  "createAccount r s = s\<lparr>accounts := js_set (ac_address r) r (accounts s)\<rparr>"

definition getAccount :: "string \<Rightarrow> relay_store \<Rightarrow> account_record option" where
  "getAccount address s = js_get (accounts s) address"

definition updatePreKeys :: "string \<Rightarrow> prekey_update \<Rightarrow> relay_store \<Rightarrow> relay_store" where
  "updatePreKeys address u s = (case js_get (accounts s) address of
      None \<Rightarrow> s
    | Some a \<Rightarrow>
       let a = (case up_signedPreKey u of None \<Rightarrow> a | Some k \<Rightarrow> a\<lparr>ac_signedPreKey := k\<rparr>);
           a = (case up_signedKemPreKey u of None \<Rightarrow> a | Some k \<Rightarrow> a\<lparr>ac_signedKemPreKey := k\<rparr>);
           a = (case up_oneTimePreKeys u of None \<Rightarrow> a
             | Some ks \<Rightarrow> a\<lparr>ac_oneTimePreKeys := slice 0 maxOneTimePreKeys (ac_oneTimePreKeys a @ ks)\<rparr>);
           a = (case up_oneTimeKemPreKeys u of None \<Rightarrow> a
             | Some ks \<Rightarrow> a\<lparr>ac_oneTimeKemPreKeys := slice 0 maxOneTimePreKeys (ac_oneTimeKemPreKeys a @ ks)\<rparr>)
       in s\<lparr>accounts := js_set address a (accounts s)\<rparr>)"

text \<open>\<open>shift()\<close>: the first element, undefined on an empty array, and the rest.\<close>

definition shift :: "'a list \<Rightarrow> 'a option \<times> 'a list" where
  "shift xs = (case xs of [] \<Rightarrow> (None, []) | x # r \<Rightarrow> (Some x, r))"

definition takeOneTimePreKeys ::
  "string \<Rightarrow> relay_store \<Rightarrow> (wire_one_time_prekey option \<times> wire_one_time_prekey option) \<times> relay_store" where
  "takeOneTimePreKeys address s = (case js_get (accounts s) address of
      None \<Rightarrow> ((None, None), s)
    | Some a \<Rightarrow>
       let (k1, r1) = shift (ac_oneTimePreKeys a); (k2, r2) = shift (ac_oneTimeKemPreKeys a) in
       ((k1, k2), s\<lparr>accounts := js_set address
          (a\<lparr>ac_oneTimePreKeys := r1, ac_oneTimeKemPreKeys := r2\<rparr>) (accounts s)\<rparr>))"

text \<open>\<open>while (queue.length > max) queue.shift()\<close>.\<close>

function trim_queue :: "'a list \<Rightarrow> 'a list" where
  "trim_queue q = (if length q > maxQueueLength then trim_queue (tl q) else q)"
  by pat_completeness auto
termination
  by (relation "measure length") (auto simp: maxQueueLength_def)

declare trim_queue.simps [simp del]

definition enqueue :: "queued_message \<Rightarrow> relay_store \<Rightarrow> relay_store" where
  "enqueue m s = (let address = we_recipient (qm_envelope m);
       queue = (case js_get (queues s) address of None \<Rightarrow> [] | Some q \<Rightarrow> q)
     in s\<lparr>queues := js_set address (trim_queue (queue @ [m])) (queues s)\<rparr>)"

definition queued :: "string \<Rightarrow> relay_store \<Rightarrow> queued_message list" where
  "queued address s = (case js_get (queues s) address of None \<Rightarrow> [] | Some q \<Rightarrow> q)"

definition acknowledge :: "string \<Rightarrow> string list \<Rightarrow> relay_store \<Rightarrow> nat \<times> relay_store" where
  "acknowledge address ids s = (case js_get (queues s) address of
      None \<Rightarrow> (0, s)
    | Some queue \<Rightarrow> let kept = filter (\<lambda>m. qm_id m \<notin> set ids) queue in
        (length queue - length kept, s\<lparr>queues := js_set address kept (queues s)\<rparr>))"

definition fresh_message :: "int \<Rightarrow> queued_message \<Rightarrow> bool" where
  "fresh_message now m \<longleftrightarrow> now - qm_receivedAt m < messageTtlMs"

fun expire_queues :: "int \<Rightarrow> (string, queued_message list) jsmap \<Rightarrow> nat \<times> (string, queued_message list) jsmap" where
  "expire_queues now [] = (0, [])"
| "expire_queues now ((address, queue) # rest) =
     (let kept = filter (fresh_message now) queue; (n, rest') = expire_queues now rest
      in (length queue - length kept + n, (address, kept) # rest'))"

definition expire :: "int \<Rightarrow> relay_store \<Rightarrow> nat \<times> relay_store" where
  "expire now s = (let (n, q) = expire_queues now (queues s) in (n, s\<lparr>queues := q\<rparr>))"

definition countQueued :: "string \<Rightarrow> relay_store \<Rightarrow> nat" where
  "countQueued address s = (case js_get (queues s) address of None \<Rightarrow> 0 | Some q \<Rightarrow> length q)"

definition totalQueued :: "relay_store \<Rightarrow> nat" where
  "totalQueued s = sum_list (map (\<lambda>(a, q). length q) (queues s))"

section \<open>Mailboxes: the abstract specification\<close>

text \<open>A mailbox keeps the newest messages, up to its capacity.\<close>

definition newest :: "'a list \<Rightarrow> 'a list" where
  "newest q = drop (length q - maxQueueLength) q"

lemma trim_queue_newest: "trim_queue q = newest q"
proof (induction q rule: trim_queue.induct)
  case (1 q)
  show ?case
  proof (cases "length q > maxQueueLength")
    case True
    then have "drop (length q - maxQueueLength - 1) (tl q) = drop (length q - maxQueueLength) q"
      by (simp add: drop_Suc[symmetric] Suc_diff_Suc)
    with 1 True show ?thesis by (simp add: trim_queue.simps[of q] newest_def)
  qed (simp add: trim_queue.simps[of q] newest_def)
qed

lemma length_newest: "length (newest q) = min (length q) maxQueueLength"
  by (simp add: newest_def)

lemma newest_small: "length q \<le> maxQueueLength \<Longrightarrow> newest q = q"
  by (simp add: newest_def)

text \<open>A message with fewer than the capacity behind it is not dropped.\<close>

lemma newest_keeps:
  assumes "length behind < maxQueueLength"
  shows "\<exists>before'. newest (before @ m # behind) = before' @ m # behind"
proof -
  have "length (before @ m # behind) - maxQueueLength \<le> length before" using assms by simp
  then show ?thesis by (auto simp: newest_def)
qed

locale mailbox_store =
  fixes enq :: "queued_message \<Rightarrow> 's \<Rightarrow> 's" and box :: "'s \<Rightarrow> string \<Rightarrow> queued_message list"
    and ack :: "string \<Rightarrow> string list \<Rightarrow> 's \<Rightarrow> nat \<times> 's" and exp :: "int \<Rightarrow> 's \<Rightarrow> nat \<times> 's"
  assumes box_enq: "box (enq m s) a = (if a = we_recipient (qm_envelope m) then newest (box s a @ [m]) else box s a)"
    and box_ack: "box (snd (ack b ids s)) a = (if a = b then filter (\<lambda>m. qm_id m \<notin> set ids) (box s a) else box s a)"
    and ack_count: "fst (ack b ids s) = length (box s b) - length (box (snd (ack b ids s)) b)"
    and box_exp: "box (snd (exp now s)) a = filter (fresh_message now) (box s a)"
begin

text \<open>What was acknowledged is gone, and acknowledging again removes nothing.\<close>

lemma ack_idempotent: "fst (ack b ids (snd (ack b ids s))) = 0"
  by (simp add: ack_count box_ack)

text \<open>A mailbox never exceeds its capacity.\<close>

lemma capacity_enq: "\<forall>a. length (box s a) \<le> maxQueueLength \<Longrightarrow> length (box (enq m s) a) \<le> maxQueueLength"
  by (auto simp: box_enq length_newest)

lemma capacity_ack: "\<forall>a. length (box s a) \<le> maxQueueLength \<Longrightarrow> length (box (snd (ack b ids s)) a) \<le> maxQueueLength"
  by (auto simp: box_ack intro: le_trans[OF length_filter_le])

lemma capacity_exp: "\<forall>a. length (box s a) \<le> maxQueueLength \<Longrightarrow> length (box (snd (exp now s)) a) \<le> maxQueueLength"
  by (auto simp: box_exp intro: le_trans[OF length_filter_le])

text \<open>\<open>waits n m a s\<close>: \<open>m\<close> is in \<open>a\<close>'s box with at most \<open>n\<close> messages behind it.\<close>

definition waits :: "nat \<Rightarrow> queued_message \<Rightarrow> string \<Rightarrow> 's \<Rightarrow> bool" where
  "waits n m a s \<longleftrightarrow> (\<exists>before behind. box s a = before @ m # behind \<and> length behind \<le> n)"

lemma waits_enq_self: "waits 0 m (we_recipient (qm_envelope m)) (enq m s)"
  using newest_keeps[of "[]" "box s (we_recipient (qm_envelope m))" m]
  by (auto simp: waits_def box_enq maxQueueLength_def)

lemma waits_enq:
  assumes "waits n m a s" and "we_recipient (qm_envelope m2) = a \<Longrightarrow> Suc n < maxQueueLength"
  shows "waits (if we_recipient (qm_envelope m2) = a then Suc n else n) m a (enq m2 s)"
proof (cases "we_recipient (qm_envelope m2) = a")
  case True
  obtain before behind where w: "box s a = before @ m # behind" "length behind \<le> n"
    using assms(1) by (auto simp: waits_def)
  obtain before' where "newest (before @ m # behind @ [m2]) = before' @ m # behind @ [m2]"
    using newest_keeps[of "behind @ [m2]" before m] w(2) assms(2)[OF True] by auto
  then have "box (enq m2 s) a = before' @ m # behind @ [m2]" using w True by (simp add: box_enq)
  moreover have "length (behind @ [m2]) \<le> Suc n" using w(2) by simp
  ultimately have "waits (Suc n) m a (enq m2 s)" unfolding waits_def by blast
  then show ?thesis using True by simp
next
  case False
  then show ?thesis using assms(1) by (auto simp: waits_def box_enq)
qed

lemma waits_ack:
  assumes "waits n m a s" and "b \<noteq> a \<or> qm_id m \<notin> set ids"
  shows "waits n m a (snd (ack b ids s))"
proof -
  obtain before behind where w: "box s a = before @ m # behind" "length behind \<le> n"
    using assms(1) by (auto simp: waits_def)
  show ?thesis
  proof (cases "b = a")
    case True
    have "length (filter (\<lambda>m. qm_id m \<notin> set ids) behind) \<le> n" using w(2) le_trans length_filter_le by blast
    with w True assms(2) show ?thesis by (auto simp: waits_def box_ack)
  qed (use w in \<open>auto simp: waits_def box_ack\<close>)
qed

lemma waits_exp:
  assumes "waits n m a s" and "fresh_message now m"
  shows "waits n m a (snd (exp now s))"
proof -
  obtain before behind where w: "box s a = before @ m # behind" "length behind \<le> n"
    using assms(1) by (auto simp: waits_def)
  have "length (filter (fresh_message now) behind) \<le> n" using w(2) le_trans length_filter_le by blast
  with w assms(2) show ?thesis by (auto simp: waits_def box_exp)
qed

lemma waits_mem: "waits n m a s \<Longrightarrow> m \<in> set (box s a)"
  by (auto simp: waits_def)

end

definition mailbox :: "relay_store \<Rightarrow> string \<Rightarrow> queued_message list" where
  "mailbox s address = queued address s"

lemma expire_queues_get: "js_get (snd (expire_queues now q)) a = map_option (filter (fresh_message now)) (js_get q a)"
  by (induction now q rule: expire_queues.induct) (auto simp: case_prod_unfold Let_def)

interpretation mail: mailbox_store enqueue mailbox acknowledge expire
  by unfold_locales
    (auto simp: mailbox_def queued_def enqueue_def acknowledge_def expire_def trim_queue_newest Let_def
      case_prod_unfold expire_queues_get split: option.splits)

lemma countQueued_mailbox: "countQueued a s = length (mailbox s a)"
  by (simp add: countQueued_def mailbox_def queued_def split: option.splits)

section \<open>Key pools\<close>

text \<open>
  Keys leave a pool by being issued (or dropped), and only offered keys enter it: over any run,
  no key is issued more often than it was in the pool or offered.
\<close>

locale key_pool =
  fixes step :: "'op \<Rightarrow> 's \<Rightarrow> 's" and pool :: "'s \<Rightarrow> 'k list"
    and offers :: "'op \<Rightarrow> 'k list" and issues :: "'op \<Rightarrow> 's \<Rightarrow> 'k list"
  assumes conserve: "mset (pool (step op s)) + mset (issues op s) \<subseteq># mset (pool s) + mset (offers op)"
begin

fun issued_by :: "'op list \<Rightarrow> 's \<Rightarrow> 'k list" where
  "issued_by [] s = []"
| "issued_by (op # ops) s = issues op s @ issued_by ops (step op s)"

lemma run_conserve:
  "mset (pool (fold step ops s)) + mset (issued_by ops s) \<subseteq># mset (pool s) + mset (concat (map offers ops))"
proof (induction ops arbitrary: s)
  case (Cons op ops)
  have "mset (pool (fold step ops (step op s))) + mset (issued_by ops (step op s)) + mset (issues op s)
      \<subseteq># mset (pool (step op s)) + mset (concat (map offers ops)) + mset (issues op s)"
    using Cons.IH[of "step op s"] by simp
  also have "\<dots> = (mset (pool (step op s)) + mset (issues op s)) + mset (concat (map offers ops))" by simp
  also have "\<dots> \<subseteq># (mset (pool s) + mset (offers op)) + mset (concat (map offers ops))"
    using conserve[of op s] by (rule subset_mset.add_right_mono)
  finally show ?case by (simp add: ac_simps)
qed simp

lemma issued_bound:
  "mset (issued_by ops s) \<subseteq># mset (pool s) + mset (concat (map offers ops))"
  using run_conserve[of ops s] subset_mset.order_trans subset_mset.le_add_same_cancel2
  by (metis mset_subset_eq_add_right subset_mset.trans)

end

text \<open>The operations of the interface as values, and the state after one.\<close>

datatype store_op =
    CreateAccount account_record
  | UpdatePreKeys string prekey_update
  | TakeOneTime string
  | Enqueue queued_message
  | Acknowledge string "string list"
  | Expire int

fun store_apply :: "store_op \<Rightarrow> relay_store \<Rightarrow> relay_store" where
  "store_apply (CreateAccount r) s = createAccount r s"
| "store_apply (UpdatePreKeys a u) s = updatePreKeys a u s"
| "store_apply (TakeOneTime a) s = snd (takeOneTimePreKeys a s)"
| "store_apply (Enqueue m) s = enqueue m s"
| "store_apply (Acknowledge a ids) s = snd (acknowledge a ids s)"
| "store_apply (Expire now) s = snd (expire now s)"

definition ec_pool :: "string \<Rightarrow> relay_store \<Rightarrow> wire_one_time_prekey list" where
  "ec_pool a s = (case getAccount a s of None \<Rightarrow> [] | Some r \<Rightarrow> ac_oneTimePreKeys r)"

definition kem_pool :: "string \<Rightarrow> relay_store \<Rightarrow> wire_one_time_prekey list" where
  "kem_pool a s = (case getAccount a s of None \<Rightarrow> [] | Some r \<Rightarrow> ac_oneTimeKemPreKeys r)"

fun ec_offers :: "string \<Rightarrow> store_op \<Rightarrow> wire_one_time_prekey list" where
  "ec_offers a (CreateAccount r) = (if ac_address r = a then ac_oneTimePreKeys r else [])"
| "ec_offers a (UpdatePreKeys b u) = (if b = a then (case up_oneTimePreKeys u of None \<Rightarrow> [] | Some ks \<Rightarrow> ks) else [])"
| "ec_offers a _ = []"

fun kem_offers :: "string \<Rightarrow> store_op \<Rightarrow> wire_one_time_prekey list" where
  "kem_offers a (CreateAccount r) = (if ac_address r = a then ac_oneTimeKemPreKeys r else [])"
| "kem_offers a (UpdatePreKeys b u) = (if b = a then (case up_oneTimeKemPreKeys u of None \<Rightarrow> [] | Some ks \<Rightarrow> ks) else [])"
| "kem_offers a _ = []"

fun ec_issues :: "string \<Rightarrow> store_op \<Rightarrow> relay_store \<Rightarrow> wire_one_time_prekey list" where
  "ec_issues a (TakeOneTime b) s = (if b = a then (case fst (fst (takeOneTimePreKeys b s)) of None \<Rightarrow> [] | Some k \<Rightarrow> [k]) else [])"
| "ec_issues a _ s = []"

fun kem_issues :: "string \<Rightarrow> store_op \<Rightarrow> relay_store \<Rightarrow> wire_one_time_prekey list" where
  "kem_issues a (TakeOneTime b) s = (if b = a then (case snd (fst (takeOneTimePreKeys b s)) of None \<Rightarrow> [] | Some k \<Rightarrow> [k]) else [])"
| "kem_issues a _ s = []"

lemma accounts_unchanged [simp]:
  "accounts (enqueue m s) = accounts s" "accounts (snd (acknowledge a ids s)) = accounts s"
  "accounts (snd (expire now s)) = accounts s"
  by (simp_all add: enqueue_def acknowledge_def expire_def Let_def case_prod_unfold split: option.splits)

lemma queues_unchanged [simp]:
  "queues (createAccount r s) = queues s" "queues (updatePreKeys a u s) = queues s"
  "queues (snd (takeOneTimePreKeys a s)) = queues s"
  by (simp_all add: createAccount_def updatePreKeys_def takeOneTimePreKeys_def Let_def case_prod_unfold split: option.splits)

lemma mset_slice: "mset (slice 0 n xs) \<subseteq># mset xs"
  by (metis append_take_drop_id diff_zero drop_0 mset_append mset_subset_eq_add_left slice_def)

lemma mset_slice_append: "mset (slice 0 n (xs @ ys)) \<subseteq># mset xs + mset ys"
  using mset_slice[of n "xs @ ys"] by simp

lemma getAccount_update:
  "getAccount a (updatePreKeys b u s) = (if a = b then map_option (\<lambda>r. r\<lparr>
     ac_signedPreKey := (case up_signedPreKey u of None \<Rightarrow> ac_signedPreKey r | Some k \<Rightarrow> k),
     ac_signedKemPreKey := (case up_signedKemPreKey u of None \<Rightarrow> ac_signedKemPreKey r | Some k \<Rightarrow> k),
     ac_oneTimePreKeys := (case up_oneTimePreKeys u of None \<Rightarrow> ac_oneTimePreKeys r
       | Some ks \<Rightarrow> slice 0 maxOneTimePreKeys (ac_oneTimePreKeys r @ ks)),
     ac_oneTimeKemPreKeys := (case up_oneTimeKemPreKeys u of None \<Rightarrow> ac_oneTimeKemPreKeys r
       | Some ks \<Rightarrow> slice 0 maxOneTimePreKeys (ac_oneTimeKemPreKeys r @ ks))\<rparr>) (getAccount b s)
   else getAccount a s)"
  by (auto simp: getAccount_def updatePreKeys_def Let_def split: option.splits)

lemma getAccount_take:
  "getAccount a (snd (takeOneTimePreKeys b s)) = (if a = b then map_option (\<lambda>r. r\<lparr>
     ac_oneTimePreKeys := tl (ac_oneTimePreKeys r), ac_oneTimeKemPreKeys := tl (ac_oneTimeKemPreKeys r)\<rparr>) (getAccount b s)
   else getAccount a s)"
  by (auto simp: getAccount_def takeOneTimePreKeys_def shift_def Let_def case_prod_unfold split: option.splits list.splits)

lemma take_issues:
  "fst (takeOneTimePreKeys a s) = (case getAccount a s of None \<Rightarrow> (None, None)
     | Some r \<Rightarrow> (fst (shift (ac_oneTimePreKeys r)), fst (shift (ac_oneTimeKemPreKeys r))))"
  by (simp add: getAccount_def takeOneTimePreKeys_def Let_def case_prod_unfold split: option.splits)

lemma getAccount_other [simp]:
  "getAccount a (enqueue m s) = getAccount a s" "getAccount a (snd (acknowledge b ids s)) = getAccount a s"
  "getAccount a (snd (expire now s)) = getAccount a s"
  "getAccount a (createAccount r s) = (if a = ac_address r then Some r else getAccount a s)"
  by (simp_all add: getAccount_def) (simp add: createAccount_def)

interpretation ec: key_pool store_apply "ec_pool a" "ec_offers a" "ec_issues a" for a
proof unfold_locales
  fix op s
  show "mset (ec_pool a (store_apply op s)) + mset (ec_issues a op s) \<subseteq># mset (ec_pool a s) + mset (ec_offers a op)"
    using mset_slice_append by (cases op)
      (auto simp: ec_pool_def getAccount_update getAccount_take take_issues shift_def split: option.splits list.splits)
qed

interpretation kem: key_pool store_apply "kem_pool a" "kem_offers a" "kem_issues a" for a
proof unfold_locales
  fix op s
  show "mset (kem_pool a (store_apply op s)) + mset (kem_issues a op s) \<subseteq># mset (kem_pool a s) + mset (kem_offers a op)"
    using mset_slice_append by (cases op)
      (auto simp: kem_pool_def getAccount_update getAccount_take take_issues shift_def split: option.splits list.splits)
qed

section \<open>Properties of the store\<close>

text \<open>The specification of the mailboxes: one list per address, with nothing else.\<close>

fun mailbox_spec :: "store_op \<Rightarrow> (string \<Rightarrow> queued_message list) \<Rightarrow> string \<Rightarrow> queued_message list" where
  "mailbox_spec (Enqueue m) f = f(we_recipient (qm_envelope m) := newest (f (we_recipient (qm_envelope m)) @ [m]))"
| "mailbox_spec (Acknowledge a ids) f = f(a := filter (\<lambda>m. qm_id m \<notin> set ids) (f a))"
| "mailbox_spec (Expire now) f = (\<lambda>a. filter (fresh_message now) (f a))"
| "mailbox_spec _ f = f"

lemma mailbox_unchanged:
  "mailbox (createAccount r s) = mailbox s" "mailbox (updatePreKeys a u s) = mailbox s"
  "mailbox (snd (takeOneTimePreKeys a s)) = mailbox s"
  by (simp_all add: mailbox_def[abs_def] queued_def)

lemma store_step_spec: "mailbox (store_apply op s) = mailbox_spec op (mailbox s)"
  by (cases op) (auto simp: mailbox_unchanged mail.box_enq mail.box_ack mail.box_exp)

lemma store_run_spec: "mailbox (fold store_apply ops s) = fold mailbox_spec ops (mailbox s)"
  by (induction ops arbitrary: s) (simp_all add: store_step_spec)

definition capacity_ok :: "relay_store \<Rightarrow> bool" where
  "capacity_ok s \<longleftrightarrow> (\<forall>a. length (mailbox s a) \<le> maxQueueLength)"

lemma store_step_capacity: "capacity_ok s \<Longrightarrow> capacity_ok (store_apply op s)"
  unfolding capacity_ok_def
  by (cases op) (simp_all add: mailbox_unchanged mail.capacity_enq mail.capacity_ack mail.capacity_exp)

lemma store_run_capacity: "capacity_ok s \<Longrightarrow> capacity_ok (fold store_apply ops s)"
  by (induction ops arbitrary: s) (simp_all add: store_step_capacity)

lemma new_store_capacity: "capacity_ok new_relay_store"
  by (simp add: capacity_ok_def mailbox_def queued_def new_relay_store_def)

text \<open>C24
  The store implements mailboxes: after any sequence of operations the queue of every address is
  what the abstract specification says (enqueue appends and keeps the newest 2000, acknowledge
  removes the named messages of one address, expiry the stale ones of all, nothing else touches
  a queue), and no queue is ever longer than 2000; counts are the lengths.
\<close>

theorem store_refines_mailboxes:
  "mailbox (fold store_apply ops s) = fold mailbox_spec ops (mailbox s) \<and>
   length (mailbox (fold store_apply ops new_relay_store) a) \<le> 2000 \<and>
   countQueued a (fold store_apply ops s) = length (mailbox (fold store_apply ops s) a) \<and>
   fst (acknowledge a ids s) = length (mailbox s a) - length (mailbox (snd (acknowledge a ids s)) a)"
  using store_run_capacity[OF new_store_capacity, of ops]
  by (simp add: store_run_spec capacity_ok_def maxQueueLength_def countQueued_mailbox mail.ack_count)

text \<open>What an operation does to a waiting message.\<close>

fun removes :: "queued_message \<Rightarrow> store_op \<Rightarrow> bool" where
  "removes m (Acknowledge a ids) = (a = we_recipient (qm_envelope m) \<and> qm_id m \<in> set ids)"
| "removes m (Expire now) = (\<not> fresh_message now m)"
| "removes m _ = False"

fun pushes :: "string \<Rightarrow> store_op \<Rightarrow> bool" where
  "pushes a (Enqueue m) = (we_recipient (qm_envelope m) = a)"
| "pushes a _ = False"

lemma waits_unchanged:
  "mail.waits n m a (createAccount r s) = mail.waits n m a s"
  "mail.waits n m a (updatePreKeys b u s) = mail.waits n m a s"
  "mail.waits n m a (snd (takeOneTimePreKeys b s)) = mail.waits n m a s"
  by (simp_all add: mail.waits_def mailbox_unchanged)

lemma waits_step:
  assumes "mail.waits n m (we_recipient (qm_envelope m)) s"
    and "pushes (we_recipient (qm_envelope m)) op \<Longrightarrow> Suc n < maxQueueLength" and "\<not> removes m op"
  shows "mail.waits (if pushes (we_recipient (qm_envelope m)) op then Suc n else n) m (we_recipient (qm_envelope m)) (store_apply op s)"
proof (cases op)
  case (Enqueue m2)
  with mail.waits_enq[OF assms(1), of m2] assms(2) show ?thesis by simp
qed (use assms in \<open>auto simp: waits_unchanged intro: mail.waits_ack mail.waits_exp\<close>)

lemma waits_run:
  assumes "mail.waits n m (we_recipient (qm_envelope m)) s"
    and "n + length (filter (pushes (we_recipient (qm_envelope m))) ops) < maxQueueLength"
    and "\<forall>op \<in> set ops. \<not> removes m op"
  shows "\<exists>k. mail.waits k m (we_recipient (qm_envelope m)) (fold store_apply ops s)"
  using assms
proof (induction ops arbitrary: n s)
  case (Cons op ops)
  let ?n = "if pushes (we_recipient (qm_envelope m)) op then Suc n else n"
  have "mail.waits ?n m (we_recipient (qm_envelope m)) (store_apply op s)"
    using Cons.prems by (intro waits_step) auto
  from Cons.IH[OF this] Cons.prems(2,3) show ?case by (simp split: if_splits)
qed auto

text \<open>
  No message is lost: a message put in its recipient's queue is still there after any further
  operations, as long as the recipient has not acknowledged it, no expiry ran past its lifetime,
  and fewer than 2000 later messages came for the same recipient.
\<close>

lemma queued_until_acknowledged:
  assumes "\<forall>op \<in> set ops. \<not> removes m op"
    and "length (filter (pushes (we_recipient (qm_envelope m))) ops) < 2000"
  shows "m \<in> set (queued (we_recipient (qm_envelope m)) (fold store_apply ops (enqueue m s)))"
proof -
  have "0 + length (filter (pushes (we_recipient (qm_envelope m))) ops) < maxQueueLength"
    using assms(2) by (simp add: maxQueueLength_def)
  from waits_run[OF mail.waits_enq_self this assms(1), of s]
  obtain k where "mail.waits k m (we_recipient (qm_envelope m)) (fold store_apply ops (enqueue m s))" by blast
  from mail.waits_mem[OF this] show ?thesis by (simp add: mailbox_def)
qed

text \<open>The keys a run hands out for an address.\<close>

fun ec_issued :: "string \<Rightarrow> store_op list \<Rightarrow> relay_store \<Rightarrow> wire_one_time_prekey list" where
  "ec_issued a [] s = []"
| "ec_issued a (op # ops) s = ec_issues a op s @ ec_issued a ops (store_apply op s)"

fun kem_issued :: "string \<Rightarrow> store_op list \<Rightarrow> relay_store \<Rightarrow> wire_one_time_prekey list" where
  "kem_issued a [] s = []"
| "kem_issued a (op # ops) s = kem_issues a op s @ kem_issued a ops (store_apply op s)"

lemma issued_pool: "ec_issued a ops s = ec.issued_by a ops s" "kem_issued a ops s = kem.issued_by a ops s"
  by (induction ops arbitrary: s) simp_all

text \<open>
  One-time prekeys are handed out once: over any sequence of operations on a new store, no
  one-time prekey of an address (of either kind) is issued more often than it was uploaded.
\<close>

lemma one_time_keys_issued_once:
  "mset (ec_issued a ops new_relay_store) \<subseteq># mset (concat (map (ec_offers a) ops)) \<and>
   mset (kem_issued a ops new_relay_store) \<subseteq># mset (concat (map (kem_offers a) ops))"
  using ec.issued_bound[of a ops new_relay_store] kem.issued_bound[of a ops new_relay_store]
  by (simp add: issued_pool ec_pool_def kem_pool_def getAccount_def new_relay_store_def)

definition demo_message :: queued_message where
  "demo_message = \<lparr>qm_id = ''m1'', qm_envelope = \<lparr>we_recipient = ''bob'', we_ephemeralPublicKey = Some ''AA'', we_ciphertext = ''BB''\<rparr>,
     qm_receivedAt = 1000\<rparr>"

end
