(* ===== verification/Relay_Auth.thy ===== *)
theory Relay_Auth
  imports Veil_Protocol Veil_Instance
begin

text \<open>
  Authentication against a registered identity key: packages/relay/src/auth.ts. \<open>now()\<close> and the
  random bytes are arguments (\<open>now1\<close>, \<open>now2\<close> where a method reads the clock twice). The histories
  are those of the service alone, and show that a challenge is granted once at most; Relay_Safety
  follows tokens through the whole relay.
\<close>

section \<open>State and operations\<close>

record challenge =
  ch_address :: string
  ch_value :: bytes
  ch_expiresAt :: int

record token =
  tk_address :: string
  tk_expiresAt :: int

record auth_service =
  challenges :: "(string, challenge) jsmap"
  tokens :: "(string, token) jsmap"

definition new_auth :: auth_service where
  "new_auth = \<lparr>challenges = [], tokens = []\<rparr>"

definition issueChallenge :: "int \<Rightarrow> bytes \<Rightarrow> string \<Rightarrow> auth_service \<Rightarrow> (string \<times> int) \<times> auth_service" where
  "issueChallenge now val address a =
     (let expiresAt = now + challengeTtlMs; encoded = toBase64Url val in
      ((encoded, expiresAt), a\<lparr>challenges := js_set encoded
         \<lparr>ch_address = address, ch_value = val, ch_expiresAt = expiresAt\<rparr> (challenges a)\<rparr>))"

definition authenticate ::
  "noble \<Rightarrow> int \<Rightarrow> int \<Rightarrow> bytes \<Rightarrow> string \<Rightarrow> string \<Rightarrow> string \<Rightarrow> string \<Rightarrow> auth_service \<Rightarrow>
   (string \<times> int) option \<times> auth_service" where
  "authenticate N now1 now2 rnd address chal signature signingKey a =
     (let record = js_get (challenges a) chal;
          a = a\<lparr>challenges := js_delete chal (challenges a)\<rparr>
      in case record of
        None \<Rightarrow> (None, a)
      | Some r \<Rightarrow>
          if ch_expiresAt r < now1 then (None, a)
          else if ch_address r \<noteq> address then (None, a)
          else case rbind (fromBase64Url signature) (\<lambda>s. rbind (fromBase64Url signingKey) (\<lambda>p. Inr (s, p))) of
            Inl _ \<Rightarrow> (None, a)
          | Inr (s, p) \<Rightarrow>
              let transcript = challengeTranscript address (ch_value r) in
              if \<not> verify N p transcript s then (None, a)
              else let tok = toBase64Url rnd; expiresAt = now2 + tokenTtlMs in
                (Some (tok, expiresAt),
                 a\<lparr>tokens := js_set tok \<lparr>tk_address = address, tk_expiresAt = expiresAt\<rparr> (tokens a)\<rparr>))"

text \<open>\<open>if (!token)\<close>: undefined and the empty string.\<close>

definition resolve :: "int \<Rightarrow> string option \<Rightarrow> auth_service \<Rightarrow> string option \<times> auth_service" where
  "resolve now tok a = (case tok of
      None \<Rightarrow> (None, a)
    | Some t \<Rightarrow> if t = '''' then (None, a) else
        (case js_get (tokens a) t of
          None \<Rightarrow> (None, a)
        | Some r \<Rightarrow> if tk_expiresAt r < now then (None, a\<lparr>tokens := js_delete t (tokens a)\<rparr>)
            else (Some (tk_address r), a)))"

definition revoke :: "string \<Rightarrow> auth_service \<Rightarrow> auth_service" where
  "revoke tok a = a\<lparr>tokens := js_delete tok (tokens a)\<rparr>"

definition prune :: "int \<Rightarrow> auth_service \<Rightarrow> auth_service" where
  "prune now a = a\<lparr>challenges := filter (\<lambda>(k, c). \<not> ch_expiresAt c < now) (challenges a),
     tokens := filter (\<lambda>(k, t). \<not> tk_expiresAt t < now) (tokens a)\<rparr>"

definition activeTokenCount :: "auth_service \<Rightarrow> nat" where
  "activeTokenCount a = length (tokens a)"

section \<open>Histories\<close>

text \<open>
  What happened: a challenge issued for an address, an attempt on a challenge that was refused
  or granted a token (with the signature and key it was granted for).
\<close>

datatype auth_event =
    Issued string bytes string int
  | Refused string
  | Granted string bytes string bytes bytes string int

inductive auth_run :: "noble \<Rightarrow> auth_event list \<Rightarrow> auth_service \<Rightarrow> bool" for N where
  start: "auth_run N [] new_auth"
| issue: "auth_run N h a \<Longrightarrow> issueChallenge now val address a = ((c, e), a') \<Longrightarrow>
    auth_run N (Issued c val address e # h) a'"
| refuse: "auth_run N h a \<Longrightarrow> authenticate N now1 now2 rnd address c sg key a = (None, a') \<Longrightarrow>
    auth_run N (Refused c # h) a'"
| grant: "auth_run N h a \<Longrightarrow> authenticate N now1 now2 rnd address c sg key a = (Some (t, e), a') \<Longrightarrow>
    js_get (challenges a) c = Some r \<Longrightarrow> fromBase64Url sg = Inr s \<Longrightarrow> fromBase64Url key = Inr p \<Longrightarrow>
    auth_run N (Granted c (ch_value r) address s p t e # h) a'"
| look_up: "auth_run N h a \<Longrightarrow> resolve now tok a = (res, a') \<Longrightarrow> auth_run N h a'"
| revoked: "auth_run N h a \<Longrightarrow> auth_run N h (revoke tok a)"
| pruned: "auth_run N h a \<Longrightarrow> auth_run N h (prune now a)"

text \<open>How often a challenge was issued and how often it was attempted.\<close>

fun issued_times :: "string \<Rightarrow> auth_event list \<Rightarrow> nat" where
  "issued_times c [] = 0"
| "issued_times c (Issued d v a e # h) = (if d = c then 1 else 0) + issued_times c h"
| "issued_times c (_ # h) = issued_times c h"

fun granted_times :: "string \<Rightarrow> auth_event list \<Rightarrow> nat" where
  "granted_times c [] = 0"
| "granted_times c (Granted d v a s p t e # h) = (if d = c then 1 else 0) + granted_times c h"
| "granted_times c (_ # h) = granted_times c h"

section \<open>Facts about the operations\<close>

lemma authenticate_challenges:
  "authenticate N n1 n2 rnd address c sg key a = (x, a') \<Longrightarrow> challenges a' = js_delete c (challenges a)"
  by (auto simp: authenticate_def Let_def split: option.splits sum.splits if_splits)

lemma authenticate_refused:
  "authenticate N n1 n2 rnd address c sg key a = (None, a') \<Longrightarrow> tokens a' = tokens a"
  by (auto simp: authenticate_def Let_def split: option.splits sum.splits if_splits)

lemma authenticate_granted:
  assumes "authenticate N n1 n2 rnd address c sg key a = (Some (t, e), a')"
  shows "\<exists>r s p. js_get (challenges a) c = Some r \<and> \<not> ch_expiresAt r < n1 \<and> ch_address r = address \<and>
    fromBase64Url sg = Inr s \<and> fromBase64Url key = Inr p \<and>
    verify N p (challengeTranscript address (ch_value r)) s \<and> t = toBase64Url rnd \<and> e = n2 + tokenTtlMs \<and>
    tokens a' = js_set t \<lparr>tk_address = address, tk_expiresAt = e\<rparr> (tokens a)"
  using assms by (auto simp: authenticate_def Let_def rbind_eq_Inr split: option.splits sum.splits if_splits)

lemma resolve_facts:
  assumes "resolve now tok a = (res, a')"
  shows "challenges a' = challenges a" and "js_get (tokens a') t = Some x \<Longrightarrow> js_get (tokens a) t = Some x"
    and "res = Some address \<Longrightarrow> \<exists>t r. tok = Some t \<and> t \<noteq> '''' \<and> js_get (tokens a) t = Some r \<and>
      tk_address r = address \<and> now \<le> tk_expiresAt r"
  using assms by (auto simp: resolve_def split: option.splits if_splits)

lemma map_of_filter_Some: "distinct (map fst m) \<Longrightarrow> js_get (filter P m) k = Some v \<Longrightarrow> js_get m k = Some v"
  using js_get_filter[of m P k] by (simp add: js_ok_def split: option.splits if_splits)

section \<open>Tokens are earned\<close>

definition explained :: "noble \<Rightarrow> auth_event list \<Rightarrow> auth_service \<Rightarrow> bool" where
  "explained N h a \<longleftrightarrow> js_ok (challenges a) \<and> js_ok (tokens a) \<and>
     (\<forall>c r. js_get (challenges a) c = Some r \<longrightarrow> Issued c (ch_value r) (ch_address r) (ch_expiresAt r) \<in> set h) \<and>
     (\<forall>t r. js_get (tokens a) t = Some r \<longrightarrow>
        (\<exists>c v s p. Granted c v (tk_address r) s p t (tk_expiresAt r) \<in> set h)) \<and>
     (\<forall>c v addr s p t e. Granted c v addr s p t e \<in> set h \<longrightarrow>
        verify N p (challengeTranscript addr v) s \<and> (\<exists>e'. Issued c v addr e' \<in> set h))"

lemma auth_run_explained: "auth_run N h a \<Longrightarrow> explained N h a"
proof (induction rule: auth_run.induct)
  case start
  then show ?case by (simp add: explained_def new_auth_def)
next
  case (issue h a now val address c e a')
  then show ?case by (auto simp: explained_def issueChallenge_def Let_def split: if_splits) blast
next
  case (refuse h a now1 now2 rnd address c sg key a')
  note f = authenticate_challenges[OF refuse.hyps(2)] authenticate_refused[OF refuse.hyps(2)]
  from refuse.IH show ?case by (auto simp: explained_def f split: if_splits)
next
  case (grant h a now1 now2 rnd address c sg key t e a' r s p)
  note f = authenticate_challenges[OF grant.hyps(2)]
  obtain g: "ch_address r = address" "verify N p (challengeTranscript address (ch_value r)) s"
    "tokens a' = js_set t \<lparr>tk_address = address, tk_expiresAt = e\<rparr> (tokens a)"
    using authenticate_granted[OF grant.hyps(2)] grant.hyps(3-5) by auto
  have "Issued c (ch_value r) address (ch_expiresAt r) \<in> set h"
    using grant.IH grant.hyps(3) g(1) by (auto simp: explained_def)
  with grant.IH g show ?case by (auto simp: explained_def f split: if_splits) blast+
next
  case (look_up h a now tok res a')
  have "js_ok (tokens a')" using look_up by (auto simp: explained_def resolve_def split: option.splits if_splits)
  with look_up.IH resolve_facts(1)[OF look_up.hyps(2)] resolve_facts(2)[OF look_up.hyps(2)]
  show ?case by (fastforce simp: explained_def)
next
  case (revoked h a tok)
  then show ?case by (auto simp: explained_def revoke_def split: if_splits)
next
  case (pruned h a now)
  then have ok: "js_ok (challenges a)" "js_ok (tokens a)" by (auto simp: explained_def)
  with pruned.IH map_of_filter_Some[of "challenges a"] map_of_filter_Some[of "tokens a"] show ?case
    by (fastforce simp: explained_def prune_def js_ok_def[symmetric])
qed

lemma auth_run_single_use:
  "auth_run N h a \<Longrightarrow>
    granted_times c h + (if js_get (challenges a) c = None then 0 else 1) \<le> issued_times c h"
proof (induction rule: auth_run.induct)
  case (issue h a now val address d e a')
  then show ?case by (auto simp: issueChallenge_def Let_def split: if_splits)
next
  case (refuse h a now1 now2 rnd address d sg key a')
  then show ?case using authenticate_challenges[OF refuse.hyps(2)] by (auto split: if_splits)
next
  case (grant h a now1 now2 rnd address d sg key t e a' r s p)
  then show ?case using authenticate_challenges[OF grant.hyps(2)] by (auto split: if_splits)
next
  case (look_up h a now tok res a')
  then show ?case using resolve_facts(1)[OF look_up.hyps(2)] by simp
next
  case (revoked h a tok)
  then show ?case by (simp add: revoke_def)
next
  case (pruned h a now)
  have "js_ok (challenges a)" using auth_run_explained[OF pruned.hyps] by (simp add: explained_def)
  with pruned.IH show ?case by (auto simp: prune_def js_get_filter split: option.splits if_splits)
qed (simp add: new_auth_def)

text \<open>
  A token is earned: whenever the service resolves a token to an address, at some earlier point
  that token was granted for a signature that verifies over a challenge transcript naming this
  very address, and that challenge had been issued for it; and over any history a challenge is
  granted at most as often as it was issued, so a captured signature buys nothing twice.
\<close>

lemma token_is_earned:
  assumes "auth_run N h a"
  shows "(fst (resolve now tok a) = Some address \<longrightarrow>
      (\<exists>c v s p t e e'. tok = Some t \<and> Granted c v address s p t e \<in> set h \<and> now \<le> e \<and>
        verify N p (challengeTranscript address v) s \<and> Issued c v address e' \<in> set h)) \<and>
    granted_times c h \<le> issued_times c h"
proof -
  have "\<exists>c v s p t e e'. tok = Some t \<and> Granted c v address s p t e \<in> set h \<and> now \<le> e \<and>
        verify N p (challengeTranscript address v) s \<and> Issued c v address e' \<in> set h"
    if res: "fst (resolve now tok a) = Some address"
  proof -
    have "resolve now tok a = (Some address, snd (resolve now tok a))" using res by (metis prod.collapse)
    from resolve_facts(3)[OF this refl] obtain t r where
      t: "tok = Some t" "js_get (tokens a) t = Some r" "tk_address r = address" "now \<le> tk_expiresAt r" by blast
    obtain c v s p where g: "Granted c v address s p t (tk_expiresAt r) \<in> set h"
      using auth_run_explained[OF assms] t(2,3) unfolding explained_def by metis
    then obtain e' where "verify N p (challengeTranscript address v) s" "Issued c v address e' \<in> set h"
      using auth_run_explained[OF assms] unfolding explained_def by metis
    with g t show ?thesis by blast
  qed
  moreover have "granted_times c h \<le> issued_times c h"
    using auth_run_single_use[OF assms, of c] by simp
  ultimately show ?thesis by blast
qed

text \<open>An honest client logs in.\<close>

lemma honest_login:
  assumes "library_ok N" and "length sk = 32"
    and "issueChallenge now val address a = ((c, e), a1)" and "now1 \<le> e"
    and "sign N sk (challengeTranscript address val) = Inr s" and "now3 \<le> now2 + tokenTtlMs" and "rnd \<noteq> []"
  shows "\<exists>t a2. authenticate N now1 now2 rnd address c (toBase64Url s) (toBase64Url (ed25519_public N sk)) a1 = (Some t, a2) \<and>
    resolve now3 (Some (fst t)) a2 = (Some address, a2)"
proof -
  have v: "verify N (ed25519_public N sk) (challengeTranscript address val) s"
    using verify_sign[OF library_okD(4,5)[OF assms(1)] assms(2)] assms(2,5) by (simp add: sign_Inr)
  have "length (toBase64Url rnd) \<noteq> 0" using assms(7) by (cases rnd) (simp_all add: length_toBase64Url)
  then have "toBase64Url rnd \<noteq> ''''" by auto
  with v assms(3,4,6) show ?thesis
    by (auto simp: issueChallenge_def authenticate_def resolve_def Let_def)
qed

lemma run_issue: "auth_run N h a \<Longrightarrow>
    auth_run N (Issued (fst (fst (issueChallenge now val address a))) val address (snd (fst (issueChallenge now val address a))) # h)
      (snd (issueChallenge now val address a))"
proof -
  assume run: "auth_run N h a"
  obtain c e a' where i: "issueChallenge now val address a = ((c, e), a')" by (metis prod.exhaust)
  show ?thesis using auth_run.issue[OF run i] by (simp add: i)
qed

end
