(* ===== verification/Relay_RateLimit.thy ===== *)
theory Relay_RateLimit
  imports Veil_Prelude "HOL-Library.Multiset"
begin

text \<open>
  The relay's fixed-window rate limiter: packages/relay/src/rateLimit.ts. \<open>now()\<close> is an
  argument of every call. The tracked map stays bounded, and within any interval shorter than
  the window a key is allowed at most twice the limit, once per window the interval touches, as
  long as the clients fit the map.
\<close>

section \<open>Definitions\<close>

definition MAX_TRACKED_KEYS :: nat where "MAX_TRACKED_KEYS = 100000"

record bucket =
  bk_count :: int
  windowStart :: int

record rate_limiter =
  buckets :: "(string, bucket) jsmap"
  rl_limit :: int
  windowMs :: int

definition new_limiter :: "int \<Rightarrow> int \<Rightarrow> rate_limiter" where
  "new_limiter limit window = \<lparr>buckets = [], rl_limit = limit, windowMs = window\<rparr>"

text \<open>
  Stale buckets go; if every bucket is live, the tenth of the capacity with the earliest
  windows goes (\<open>sort\<close> is stable, and so is \<open>sort_key\<close>).
\<close>

definition evictStale :: "int \<Rightarrow> rate_limiter \<Rightarrow> rate_limiter" where
  "evictStale timestamp l =
     (let live = filter (\<lambda>(k, b). \<not> timestamp - windowStart b \<ge> windowMs l) (buckets l) in
      if length live \<ge> MAX_TRACKED_KEYS
      then let oldest = sort_key (\<lambda>(k, b). windowStart b) live;
               victims = map fst (take (MAX_TRACKED_KEYS div 10) oldest)
           in l\<lparr>buckets := fold js_delete victims live\<rparr>
      else l\<lparr>buckets := live\<rparr>)"

definition allow :: "int \<Rightarrow> string \<Rightarrow> rate_limiter \<Rightarrow> bool \<times> rate_limiter" where
  "allow timestamp key l =
     (let fresh_bucket =
        (let l1 = (if length (buckets l) \<ge> MAX_TRACKED_KEYS then evictStale timestamp l else l)
         in (True, l1\<lparr>buckets := js_set key \<lparr>bk_count = 1, windowStart = timestamp\<rparr> (buckets l1)\<rparr>))
      in case js_get (buckets l) key of
        None \<Rightarrow> fresh_bucket
      | Some b \<Rightarrow>
          if timestamp - windowStart b \<ge> windowMs l then fresh_bucket
          else if bk_count b \<ge> rl_limit l then (False, l)
          else (True, l\<lparr>buckets := js_set key (b\<lparr>bk_count := bk_count b + 1\<rparr>) (buckets l)\<rparr>))"

definition trackedKeys :: "rate_limiter \<Rightarrow> nat" where
  "trackedKeys l = length (buckets l)"

section \<open>The tracked keys are bounded\<close>

definition quota :: "rate_limiter \<Rightarrow> int" where
  "quota l = max 1 (rl_limit l)"

definition limiter_ok :: "rate_limiter \<Rightarrow> bool" where
  "limiter_ok l \<longleftrightarrow> js_ok (buckets l) \<and> length (buckets l) \<le> MAX_TRACKED_KEYS \<and>
     (\<forall>k b. js_get (buckets l) k = Some b \<longrightarrow> 1 \<le> bk_count b \<and> bk_count b \<le> quota l)"

lemma new_limiter_ok: "limiter_ok (new_limiter n w)"
  by (simp add: limiter_ok_def new_limiter_def)

lemma fold_js_delete:
  "js_ok m \<Longrightarrow> js_ok (fold js_delete ks m)"
  "js_get (fold js_delete ks m) k = (if k \<in> set ks then None else js_get m k)"
  "length (fold js_delete ks m) \<le> length m"
proof (induction ks arbitrary: m)
  case (Cons x ks)
  { case 1 then show ?case using Cons(1)[of "js_delete x m"] by simp }
  { case 2 then show ?case using Cons(2)[of "js_delete x m"] by simp }
  { case 3 then show ?case using Cons(3)[of "js_delete x m"] js_size_delete_le[of x m] by simp }
qed simp_all

lemma fold_js_delete_size:
  "js_ok m \<Longrightarrow> distinct ks \<Longrightarrow> set ks \<subseteq> set (js_keys m) \<Longrightarrow> length (fold js_delete ks m) = length m - length ks"
proof (induction ks arbitrary: m)
  case (Cons x ks)
  have "length (fold js_delete ks (js_delete x m)) = length (js_delete x m) - length ks"
    using Cons.prems js_keys_delete[of x m] by (intro Cons.IH) auto
  then show ?case using Cons.prems js_size_delete[of m x] by simp
qed simp

lemma evictStale_size:
  assumes "js_ok (buckets l)" and "length (buckets l) \<le> MAX_TRACKED_KEYS"
  shows "length (buckets (evictStale t l)) < MAX_TRACKED_KEYS"
proof -
  let ?live = "filter (\<lambda>(k, b). \<not> t - windowStart b \<ge> windowMs l) (buckets l)"
  let ?ks = "map fst (take (MAX_TRACKED_KEYS div 10) (sort_key (\<lambda>(k, b). windowStart b) ?live))"
  have live: "js_ok ?live" using assms(1) by simp
  have le: "length ?live \<le> MAX_TRACKED_KEYS" using assms(2) le_trans length_filter_le by blast
  show ?thesis
  proof (cases "length ?live \<ge> MAX_TRACKED_KEYS")
    case True
    have "mset (map fst (sort_key (\<lambda>(k, b). windowStart b) ?live)) = mset (js_keys ?live)" by simp
    then have "distinct (map fst (sort_key (\<lambda>(k, b). windowStart b) ?live))"
      using live unfolding js_ok_def by (metis mset_eq_imp_distinct_iff)
    then have d: "distinct ?ks" by (simp add: take_map[symmetric] distinct_take)
    have "set ?ks \<subseteq> set (js_keys ?live)"
      using set_take_subset[of "MAX_TRACKED_KEYS div 10" "sort_key (\<lambda>(k, b). windowStart b) ?live"]
      by (simp add: image_mono subset_trans[OF image_mono] flip: set_map) auto
    from fold_js_delete_size[OF live d this] True le show ?thesis
      by (simp add: evictStale_def Let_def MAX_TRACKED_KEYS_def)
  qed (simp add: evictStale_def Let_def)
qed

lemma evictStale_keeps:
  assumes "js_ok (buckets l)"
  shows "js_ok (buckets (evictStale t l))" and "rl_limit (evictStale t l) = rl_limit l"
    and "windowMs (evictStale t l) = windowMs l"
    and "js_get (buckets (evictStale t l)) k = Some b \<Longrightarrow> js_get (buckets l) k = Some b"
  using assms by (auto simp: evictStale_def Let_def fold_js_delete js_get_filter split: if_splits option.splits)

lemma allow_fields:
  assumes "js_ok (buckets l)"
  shows "rl_limit (snd (allow t k l)) = rl_limit l" and "windowMs (snd (allow t k l)) = windowMs l"
    and "quota (snd (allow t k l)) = quota l"
  using evictStale_keeps[OF assms] by (auto simp: allow_def Let_def quota_def split: option.splits)

lemma limiter_ok_set:
  assumes "js_ok (buckets m)" and "length (js_set k c (buckets m)) \<le> MAX_TRACKED_KEYS"
    and "\<And>k b. js_get (buckets m) k = Some b \<Longrightarrow> 1 \<le> bk_count b \<and> bk_count b \<le> quota m"
    and "1 \<le> bk_count c" and "bk_count c \<le> quota m"
  shows "limiter_ok (m\<lparr>buckets := js_set k c (buckets m)\<rparr>)"
proof -
  have "quota (m\<lparr>buckets := js_set k c (buckets m)\<rparr>) = quota m" by (simp add: quota_def)
  with assms show ?thesis by (auto simp: limiter_ok_def split: if_splits)
qed

lemma allow_ok:
  assumes "limiter_ok l"
  shows "limiter_ok (snd (allow t k l))"
proof -
  have ok: "js_ok (buckets l)" "length (buckets l) \<le> MAX_TRACKED_KEYS"
    "\<And>k b. js_get (buckets l) k = Some b \<Longrightarrow> 1 \<le> bk_count b \<and> bk_count b \<le> quota l"
    using assms by (auto simp: limiter_ok_def)
  define l1 where "l1 = (if length (buckets l) \<ge> MAX_TRACKED_KEYS then evictStale t l else l)"
  have l1: "js_ok (buckets l1)" "length (buckets l1) < MAX_TRACKED_KEYS" "quota l1 = quota l"
    "\<And>k b. js_get (buckets l1) k = Some b \<Longrightarrow> js_get (buckets l) k = Some b"
    using evictStale_keeps[OF ok(1)] evictStale_size[OF ok(1,2)] ok(1) by (auto simp: l1_def quota_def split: if_splits)
  have fresh: "limiter_ok (l1\<lparr>buckets := js_set k \<lparr>bk_count = 1, windowStart = t\<rparr> (buckets l1)\<rparr>)"
  proof (rule limiter_ok_set[OF l1(1)])
    show "length (js_set k \<lparr>bk_count = 1, windowStart = t\<rparr> (buckets l1)) \<le> MAX_TRACKED_KEYS"
      using js_size_set_le[of k "\<lparr>bk_count = 1, windowStart = t\<rparr>" "buckets l1"] l1(2) by linarith
    show "1 \<le> bk_count b \<and> bk_count b \<le> quota l1" if "js_get (buckets l1) k' = Some b" for k' b
      unfolding l1(3) by (rule ok(3)[OF l1(4)[OF that]])
  qed (simp_all add: quota_def)
  have incr: "limiter_ok (l\<lparr>buckets := js_set k (b\<lparr>bk_count := bk_count b + 1\<rparr>) (buckets l)\<rparr>)"
    if b: "js_get (buckets l) k = Some b" "\<not> bk_count b \<ge> rl_limit l" for b
  proof (rule limiter_ok_set[OF ok(1) _ ok(3)])
    have "k \<in> set (js_keys (buckets l))" using b(1) js_get_None_iff[of "buckets l" k] by auto
    then show "length (js_set k (b\<lparr>bk_count := bk_count b + 1\<rparr>) (buckets l)) \<le> MAX_TRACKED_KEYS"
      using ok(2) by (simp add: js_size_set)
  qed (use ok(3)[OF b(1)] b(2) in \<open>auto simp: quota_def\<close>)
  show ?thesis using assms fresh incr
    by (auto simp: allow_def Let_def l1_def[symmetric] split: option.splits)
qed

section \<open>How much a key is allowed\<close>

text \<open>A run of calls: their times and keys, with the verdicts.\<close>

fun allow_run :: "(int \<times> string) list \<Rightarrow> rate_limiter \<Rightarrow> bool list \<times> rate_limiter" where
  "allow_run [] l = ([], l)"
| "allow_run ((t, k) # xs) l = (let (v, l1) = allow t k l; (vs, l2) = allow_run xs l1 in (v # vs, l2))"

definition allowed_count :: "string \<Rightarrow> (int \<times> string) list \<Rightarrow> bool list \<Rightarrow> nat" where
  "allowed_count key xs vs = length (filter (\<lambda>((t, k), v). k = key \<and> v) (zip xs vs))"

text \<open>What a key may still be allowed by time \<open>t0 + windowMs\<close>, and at most one new window after \<open>t0\<close>.\<close>

definition budget :: "int \<Rightarrow> string \<Rightarrow> rate_limiter \<Rightarrow> int" where
  "budget t0 key l = (case js_get (buckets l) key of
      None \<Rightarrow> quota l
    | Some b \<Rightarrow> (quota l - bk_count b) + (if windowStart b \<ge> t0 then 0 else quota l))"

lemma budget_bounds: "limiter_ok l \<Longrightarrow> 0 \<le> budget t0 key l \<and> budget t0 key l \<le> 2 * quota l"
  by (auto simp: budget_def limiter_ok_def quota_def split: option.splits) (smt (verit) max_def)+

text \<open>
  The clients of a set \<open>U\<close> no larger than the table never push each other out: a full table then
  has a bucket for every one of them, so a call that opens a new window finds its own old
  bucket stale, and \<open>evictStale\<close> drops stale buckets only.
\<close>

definition within :: "string set \<Rightarrow> rate_limiter \<Rightarrow> bool" where
  "within U l \<longleftrightarrow> finite U \<and> card U \<le> MAX_TRACKED_KEYS \<and> set (js_keys (buckets l)) \<subseteq> U"

definition make_room :: "int \<Rightarrow> rate_limiter \<Rightarrow> rate_limiter" where
  "make_room t l = (if length (buckets l) \<ge> MAX_TRACKED_KEYS then evictStale t l else l)"

lemma make_room_cases:
  assumes "js_ok (buckets l)" and "within U l" and "k \<in> U"
    and "js_get (buckets l) k = None \<or> (\<exists>b. js_get (buckets l) k = Some b \<and> t - windowStart b \<ge> windowMs l)"
  shows "js_get (buckets (make_room t l)) x = js_get (buckets l) x \<or>
    (js_get (buckets (make_room t l)) x = None \<and> (\<exists>b. js_get (buckets l) x = Some b \<and> t - windowStart b \<ge> windowMs l))"
proof (cases "length (buckets l) \<ge> MAX_TRACKED_KEYS")
  case True
  let ?live = "filter (\<lambda>(k, b). \<not> t - windowStart b \<ge> windowMs l) (buckets l)"
  have keys: "distinct (js_keys (buckets l))" using assms(1) by (simp add: js_ok_def)
  have "card (set (js_keys (buckets l))) = length (buckets l)" using distinct_card[OF keys] by simp
  then have "set (js_keys (buckets l)) = U"
    using assms(2) True card_subset_eq[of U "set (js_keys (buckets l))"] card_mono[of U "set (js_keys (buckets l))"]
    by (auto simp: within_def)
  then have "js_get (buckets l) k \<noteq> None" using assms(3) js_get_None_iff[of "buckets l" k] by blast
  then obtain b where b: "js_get (buckets l) k = Some b" "t - windowStart b \<ge> windowMs l" using assms(4) by auto
  then have "(k, b) \<in> set (buckets l)" by (simp add: map_of_SomeD)
  then have "length ?live < length (buckets l)" using b(2) by (intro length_filter_less[of "(k, b)"]) auto
  moreover have "length (buckets l) \<le> MAX_TRACKED_KEYS"
    using \<open>card (set (js_keys (buckets l))) = length (buckets l)\<close> \<open>set (js_keys (buckets l)) = U\<close> assms(2) by (simp add: within_def)
  ultimately have "buckets (evictStale t l) = ?live" by (simp add: evictStale_def Let_def)
  then show ?thesis using True assms(1) by (auto simp: make_room_def js_get_filter split: option.splits)
qed (simp add: make_room_def)

lemma allow_as:
  "allow t k l = (case js_get (buckets l) k of
     Some b \<Rightarrow> if t - windowStart b < windowMs l
       then (if bk_count b \<ge> rl_limit l then (False, l) else (True, l\<lparr>buckets := js_set k (b\<lparr>bk_count := bk_count b + 1\<rparr>) (buckets l)\<rparr>))
       else (True, (make_room t l)\<lparr>buckets := js_set k \<lparr>bk_count = 1, windowStart = t\<rparr> (buckets (make_room t l))\<rparr>)
   | None \<Rightarrow> (True, (make_room t l)\<lparr>buckets := js_set k \<lparr>bk_count = 1, windowStart = t\<rparr> (buckets (make_room t l))\<rparr>))"
  by (simp add: allow_def make_room_def Let_def not_le split: option.split)

lemma make_room_fields: "js_ok (buckets l) \<Longrightarrow> quota (make_room t l) = quota l"
  using evictStale_keeps(2)[of l t] by (simp add: make_room_def quota_def)

lemma allow_budget:
  assumes ok: "limiter_ok l" and U: "within U l" "k \<in> U" and t: "t0 \<le> t" "t < t0 + windowMs l"
  shows "budget t0 key (snd (allow t k l)) \<le> budget t0 key l - (if k = key \<and> fst (allow t k l) then 1 else 0)"
proof -
  have js: "js_ok (buckets l)" using ok by (simp add: limiter_ok_def)
  have b: "1 \<le> bk_count b \<and> bk_count b \<le> quota l" if "js_get (buckets l) x = Some b" for b x
    using ok that by (simp add: limiter_ok_def)
  let ?fresh = "(make_room t l)\<lparr>buckets := js_set k \<lparr>bk_count = 1, windowStart = t\<rparr> (buckets (make_room t l))\<rparr>"
  have q: "quota ?fresh = quota l" using make_room_fields[OF js, of t] by (simp add: quota_def)
  have fresh: "budget t0 key ?fresh \<le> budget t0 key l - (if k = key then 1 else 0)"
    if "js_get (buckets l) k = None \<or> (\<exists>b. js_get (buckets l) k = Some b \<and> t - windowStart b \<ge> windowMs l)"
    using make_room_cases[OF js U that, of key] that b[of key] b[of k] t
    unfolding budget_def q by (cases "k = key") (auto split: option.splits)
  show ?thesis
  proof (cases "js_get (buckets l) k")
    case None
    with fresh show ?thesis by (simp add: allow_as)
  next
    case (Some c)
    with fresh b[OF Some] show ?thesis
      by (auto simp: allow_as budget_def quota_def not_less split: option.splits)
  qed
qed

lemma allow_within:
  assumes "js_ok (buckets l)" and "within U l" and "k \<in> U"
  shows "within U (snd (allow t k l))"
proof -
  have "set (js_keys (buckets (make_room t l))) \<subseteq> set (js_keys (buckets l))"
  proof
    fix x assume "x \<in> set (js_keys (buckets (make_room t l)))"
    then obtain b where "js_get (buckets (make_room t l)) x = Some b" using js_get_None_iff[of "buckets (make_room t l)" x] by auto
    then have "js_get (buckets l) x = Some b"
      using evictStale_keeps(4)[OF assms(1)] by (auto simp: make_room_def split: if_splits)
    then show "x \<in> set (js_keys (buckets l))" using js_get_None_iff[of "buckets l" x] by auto
  qed
  with assms(2,3) show ?thesis
    by (auto simp: allow_as within_def js_keys_set split: option.splits)
qed

lemma allow_run_budget:
  assumes "limiter_ok l" and "within U l" and "\<forall>(t, k) \<in> set xs. k \<in> U \<and> t0 \<le> t \<and> t < t0 + windowMs l"
  shows "int (allowed_count key xs (fst (allow_run xs l))) \<le> budget t0 key l"
  using assms
proof (induction xs arbitrary: l)
  case Nil
  then show ?case using budget_bounds[of l] by (simp add: allowed_count_def)
next
  case (Cons x xs)
  obtain t k where x: "x = (t, k)" by (cases x)
  let ?l1 = "snd (allow t k l)"
  have js: "js_ok (buckets l)" using Cons.prems(1) by (simp add: limiter_ok_def)
  define hit where "hit \<longleftrightarrow> k = key \<and> fst (allow t k l)"
  have "int (allowed_count key xs (fst (allow_run xs ?l1))) \<le> budget t0 key ?l1"
    using Cons.prems allow_within[OF js, of U k t] allow_fields[OF js] allow_ok x by (intro Cons.IH) auto
  moreover have "budget t0 key ?l1 \<le> budget t0 key l - (if k = key \<and> fst (allow t k l) then 1 else 0)"
    using Cons.prems x by (intro allow_budget) auto
  moreover have "allowed_count key (x # xs) (fst (allow_run (x # xs) l)) =
      (if k = key \<and> fst (allow t k l) then 1 else 0) + allowed_count key xs (fst (allow_run xs ?l1))"
    by (cases "k = key") (simp_all add: x allowed_count_def case_prod_unfold Let_def)
  ultimately show ?case unfolding hit_def[symmetric] by (cases hit) simp_all
qed

lemma allow_run_ok: "limiter_ok l \<Longrightarrow> limiter_ok (snd (allow_run xs l))"
proof (induction xs arbitrary: l)
  case (Cons x xs)
  then show ?case by (cases x) (simp add: case_prod_unfold Let_def allow_ok)
qed simp

text \<open>C25
  Rate limiting: from any state the limiter can be in, a run of calls keeps at most 100000 keys
  tracked; and as long as the clients tracked and calling, however often they call, are no more
  than 100000, the calls of one client falling into an interval no longer than the window are
  allowed at most twice \<open>max 1 limit\<close> times (the fixed-window bound: once for the window
  already open, once for the next), and at most \<open>max 1 limit\<close> times if the client is not
  tracked before. The maximum is there because the call that opens a window is never compared
  with the limit: a limit below one still admits one call per window.
\<close>

theorem rate_limit_respected:
  assumes "limiter_ok l"
  shows "length (buckets (snd (allow_run xs l))) \<le> 100000 \<and>
    (card (set (js_keys (buckets l)) \<union> snd ` set xs) \<le> 100000 \<and> (\<forall>(t, k) \<in> set xs. t0 \<le> t \<and> t < t0 + windowMs l) \<longrightarrow>
      int (allowed_count key xs (fst (allow_run xs l))) \<le> 2 * max 1 (rl_limit l) \<and>
      (js_get (buckets l) key = None \<longrightarrow> int (allowed_count key xs (fst (allow_run xs l))) \<le> max 1 (rl_limit l)))"
proof -
  have "length (buckets (snd (allow_run xs l))) \<le> MAX_TRACKED_KEYS"
    using allow_run_ok[OF assms, of xs] by (simp add: limiter_ok_def)
  moreover have "int (allowed_count key xs (fst (allow_run xs l))) \<le> budget t0 key l"
    if "card (set (js_keys (buckets l)) \<union> snd ` set xs) \<le> 100000 \<and> (\<forall>(t, k) \<in> set xs. t0 \<le> t \<and> t < t0 + windowMs l)"
    using that by (intro allow_run_budget[OF assms, of "set (js_keys (buckets l)) \<union> snd ` set xs"])
      (force simp: within_def MAX_TRACKED_KEYS_def)+
  moreover note budget_bounds[OF assms, of t0 key]
  ultimately show ?thesis by (auto simp: MAX_TRACKED_KEYS_def quota_def budget_def)
qed

theorem rate_limit_respected_witness:
  "fst (allow_run [(5, ''a''), (6, ''a''), (7, ''a'')] (new_limiter 2 60)) = [True, True, False] \<and>
   allowed_count ''a'' [(5, ''a''), (6, ''a''), (7, ''a'')] [True, True, False] \<le> 2"
proof -
  have run: "fst (allow_run [(5, ''a''), (6, ''a''), (7, ''a'')] (new_limiter 2 60)) = [True, True, False]"
    by (simp add: allow_def new_limiter_def Let_def MAX_TRACKED_KEYS_def)
  have "int (allowed_count ''a'' [(5, ''a''), (6, ''a''), (7, ''a'')] (fst (allow_run [(5, ''a''), (6, ''a''), (7, ''a'')] (new_limiter 2 60)))) \<le> 2"
    using rate_limit_respected[OF new_limiter_ok[of 2 60], of "[(5, ''a''), (6, ''a''), (7, ''a'')]" 5 "''a''"]
    by (simp add: new_limiter_def del: allow_run.simps)
  then show ?thesis unfolding run by (simp add: run)
qed

end
