(* ===== verification/App_Json.thy ===== *)
theory App_Json
  imports Veil_Wire
begin

text \<open>
  What the app and the socket of the relay use of the JavaScript standard library for objects:
  \<open>JSON.stringify\<close>, \<open>JSON.parse\<close>, \<open>TextEncoder\<close> and \<open>TextDecoder\<close>. Characters are code points
  below 256; an escape or a byte sequence outside them is outside the model (None). Numbers are
  exact: \<open>JNum\<close> an integer, \<open>JFrac m e\<close> the number m / 10^e, so the rounding of doubles beyond
  2^53 does not appear. An undefined member is absent from its object.
\<close>

section \<open>Values and text\<close>

datatype json =
    JNull
  | JBool bool
  | JNum int
  | JFrac int nat
  | JStr string
  | JArr "json list"
  | JObj "(string \<times> json) list"

abbreviation code :: "char \<Rightarrow> nat" where
  "code c \<equiv> of_char c"

definition hex_lower :: "nat \<Rightarrow> char" where
  "hex_lower d = ''0123456789abcdef'' ! d"

definition json_char :: "char \<Rightarrow> string" where
  "json_char c = (
     if c = CHR 0x22 then [CHR 0x5C, CHR 0x22]
     else if c = CHR 0x5C then [CHR 0x5C, CHR 0x5C]
     else if code c = 8 then CHR 0x5C # ''b''
     else if code c = 9 then CHR 0x5C # ''t''
     else if code c = 10 then CHR 0x5C # ''n''
     else if code c = 12 then CHR 0x5C # ''f''
     else if code c = 13 then CHR 0x5C # ''r''
     else if code c < 32 then CHR 0x5C # ''u00'' @ [hex_lower (code c div 16), hex_lower (code c mod 16)]
     else [c])"

definition json_string :: "string \<Rightarrow> string" where
  "json_string s = CHR 0x22 # concat (map json_char s) @ [CHR 0x22]"

definition json_int :: "int \<Rightarrow> string" where
  "json_int i = (if i < 0 then CHR ''-'' # decimal (nat (- i)) else decimal (nat i))"

definition json_frac :: "int \<Rightarrow> nat \<Rightarrow> string" where
  "json_frac m e = (let n = nat \<bar>m\<bar>; f = decimal (n mod 10 ^ e) in
     (if m < 0 then ''-'' else '''') @ decimal (n div 10 ^ e) @ ''.'' @ replicate (e - length f) CHR ''0'' @ f)"

fun json_text :: "json \<Rightarrow> string"
  and json_elems :: "json list \<Rightarrow> string"
  and json_members :: "(string \<times> json) list \<Rightarrow> string" where
  "json_text JNull = ''null''"
| "json_text (JBool b) = (if b then ''true'' else ''false'')"
| "json_text (JNum i) = json_int i"
| "json_text (JFrac m e) = json_frac m e"
| "json_text (JStr s) = json_string s"
| "json_text (JArr vs) = CHR ''['' # json_elems vs @ '']''"
| "json_text (JObj ms) = CHR ''{'' # json_members ms @ ''}''"
| "json_elems [] = ''''"
| "json_elems [v] = json_text v"
| "json_elems (v # w # vs) = json_text v @ '','' @ json_elems (w # vs)"
| "json_members [] = ''''"
| "json_members [(k, v)] = json_string k @ '':'' @ json_text v"
| "json_members ((k, v) # m # ms) = json_string k @ '':'' @ json_text v @ '','' @ json_members (m # ms)"

section \<open>Parsing\<close>

definition is_space :: "char \<Rightarrow> bool" where
  "is_space c \<longleftrightarrow> code c \<in> {9, 10, 13, 32}"

definition skip :: "string \<Rightarrow> string" where
  "skip s = dropWhile is_space s"

definition is_digit :: "char \<Rightarrow> bool" where
  "is_digit c \<longleftrightarrow> 48 \<le> code c \<and> code c \<le> 57"

definition hex_digit_value :: "char \<Rightarrow> nat option" where
  "hex_digit_value c = (let n = code c in
     if 48 \<le> n \<and> n \<le> 57 then Some (n - 48)
     else if 97 \<le> n \<and> n \<le> 102 then Some (n - 87)
     else if 65 \<le> n \<and> n \<le> 70 then Some (n - 55) else None)"

definition escaped :: "char \<Rightarrow> char option" where
  "escaped c = map_of [(CHR 0x22, CHR 0x22), (CHR 0x5C, CHR 0x5C), (CHR ''/'', CHR ''/''), (CHR ''b'', CHR 0x08),
     (CHR ''f'', CHR 0x0C), (CHR ''n'', CHR 0x0A), (CHR ''r'', CHR 0x0D), (CHR ''t'', CHR 0x09)] c"

text \<open>The characters of a string literal after its opening quote, up to the closing one.\<close>

fun parse_chars :: "string \<Rightarrow> (string \<times> string) option" where
  "parse_chars [] = None"
| "parse_chars (c # r) = (
     if c = CHR 0x22 then Some ('''', r)
     else if code c < 32 then None
     else if c \<noteq> CHR 0x5C then map_option (apfst (Cons c)) (parse_chars r)
     else (case r of
       [] \<Rightarrow> None
     | d # r' \<Rightarrow>
         if d = CHR ''u'' then (case r' of
             a # b # x # y # r'' \<Rightarrow>
               (case (hex_digit_value a, hex_digit_value b, hex_digit_value x, hex_digit_value y) of
                 (Some 0, Some 0, Some h, Some l) \<Rightarrow>
                   map_option (apfst (Cons (char_of (16 * h + l)))) (parse_chars r'')
               | _ \<Rightarrow> None)
           | _ \<Rightarrow> None)
         else (case escaped d of None \<Rightarrow> None
           | Some e \<Rightarrow> map_option (apfst (Cons e)) (parse_chars r'))))"

fun norm_frac :: "int \<Rightarrow> nat \<Rightarrow> json" where
  "norm_frac m 0 = JNum m"
| "norm_frac m (Suc e) = (if m mod 10 = 0 then norm_frac (m div 10) e else JFrac m (Suc e))"

definition digits_value :: "string \<Rightarrow> int" where
  "digits_value s = int (undecimal s)"

text \<open>\<open>-? int frac? exp?\<close>; an integer part has no leading zero.\<close>

definition parse_exponent :: "string \<Rightarrow> (int \<times> string) option" where
  "parse_exponent s = (case s of
      c # r \<Rightarrow> if c = CHR ''e'' \<or> c = CHR ''E'' then
          (let (sg, r) = (case r of d # r' \<Rightarrow> if d = CHR ''-'' then (-1, r') else if d = CHR ''+'' then (1, r') else (1, r) | [] \<Rightarrow> (1, r));
               ds = takeWhile is_digit r
           in if ds = [] then None else Some (sg * digits_value ds, dropWhile is_digit r))
        else Some (0, s)
    | [] \<Rightarrow> Some (0, s))"

definition parse_fraction :: "string \<Rightarrow> (string \<times> string) option" where
  "parse_fraction s = (case s of
      c # r \<Rightarrow> if c = CHR ''.'' then
          (let ds = takeWhile is_digit r in if ds = [] then None else Some (ds, dropWhile is_digit r))
        else Some ([], s)
    | [] \<Rightarrow> Some ([], s))"

definition parse_number :: "string \<Rightarrow> (json \<times> string) option" where
  "parse_number s =
     (let (sg, r) = (case s of c # r \<Rightarrow> if c = CHR ''-'' then (-1, r) else (1, s) | [] \<Rightarrow> (1, s));
          ds = takeWhile is_digit r
      in if ds = [] \<or> (length ds > 1 \<and> hd ds = CHR ''0'') then None
      else (case parse_fraction (dropWhile is_digit r) of
          None \<Rightarrow> None
        | Some (fs, r) \<Rightarrow> (case parse_exponent r of
            None \<Rightarrow> None
          | Some (x, r) \<Rightarrow>
              let m = sg * digits_value (ds @ fs); e = int (length fs) - x in
              Some (if e \<le> 0 then JNum (m * 10 ^ nat (- e)) else norm_frac m (nat e), r))))"

definition parse_word :: "string \<Rightarrow> json \<Rightarrow> string \<Rightarrow> (json \<times> string) option" where
  "parse_word w v s = (if take (length w) s = w then Some (v, drop (length w) s) else None)"

text \<open>A member name that occurs twice keeps the last value.\<close>

fun parse_value :: "nat \<Rightarrow> string \<Rightarrow> (json \<times> string) option"
  and parse_elems :: "nat \<Rightarrow> string \<Rightarrow> (json list \<times> string) option"
  and parse_members :: "nat \<Rightarrow> (string \<times> json) list \<Rightarrow> string \<Rightarrow> ((string \<times> json) list \<times> string) option" where
  "parse_value 0 s = None"
| "parse_value (Suc n) s = (case skip s of
      [] \<Rightarrow> None
    | c # r \<Rightarrow>
        if c = CHR ''n'' then parse_word ''null'' JNull (c # r)
        else if c = CHR ''t'' then parse_word ''true'' (JBool True) (c # r)
        else if c = CHR ''f'' then parse_word ''false'' (JBool False) (c # r)
        else if c = CHR 0x22 then map_option (apfst JStr) (parse_chars r)
        else if c = CHR ''['' then
          (case skip r of d # r' \<Rightarrow> if d = CHR '']'' then Some (JArr [], r') else map_option (apfst JArr) (parse_elems n r)
           | [] \<Rightarrow> None)
        else if c = CHR ''{'' then
          (case skip r of d # r' \<Rightarrow> if d = CHR ''}'' then Some (JObj [], r') else map_option (apfst JObj) (parse_members n [] r)
           | [] \<Rightarrow> None)
        else parse_number (c # r))"
| "parse_elems 0 s = None"
| "parse_elems (Suc n) s = (case parse_value n s of
      None \<Rightarrow> None
    | Some (v, r) \<Rightarrow> (case skip r of
        [] \<Rightarrow> None
      | c # r' \<Rightarrow> if c = CHR '']'' then Some ([v], r')
          else if c = CHR '','' then map_option (apfst (Cons v)) (parse_elems n r') else None))"
| "parse_members 0 ms s = None"
| "parse_members (Suc n) ms s = (case skip s of
      [] \<Rightarrow> None
    | c # r \<Rightarrow> if c \<noteq> CHR 0x22 then None else (case parse_chars r of
        None \<Rightarrow> None
      | Some (k, r) \<Rightarrow> (case skip r of
          [] \<Rightarrow> None
        | d # r \<Rightarrow> if d \<noteq> CHR '':'' then None else (case parse_value n r of
            None \<Rightarrow> None
          | Some (v, r) \<Rightarrow> (case skip r of
              [] \<Rightarrow> None
            | e # r' \<Rightarrow> if e = CHR ''}'' then Some (js_set k v ms, r')
                else if e = CHR '','' then parse_members n (js_set k v ms) r' else None)))))"

definition json_parse :: "string \<Rightarrow> json option" where
  "json_parse s = (case parse_value (Suc (2 * length s)) s of
      None \<Rightarrow> None
    | Some (v, r) \<Rightarrow> if skip r = [] then Some v else None)"

section \<open>UTF-8\<close>

fun utf8_decode :: "bytes \<Rightarrow> string option" where
  "utf8_decode [] = Some ''''"
| "utf8_decode (b # r) = (let n = unat b in
     if n < 0x80 then map_option (Cons (char_of n)) (utf8_decode r)
     else if n = 0xC2 \<or> n = 0xC3 then (case r of
         [] \<Rightarrow> None
       | c # r' \<Rightarrow> if 0x80 \<le> unat c \<and> unat c < 0xC0
           then map_option (Cons (char_of ((n - 0xC0) * 64 + (unat c - 0x80)))) (utf8_decode r') else None)
     else None)"

lemma code_less: "code c < 256"
  by simp

lemma unat_byte: "n < 256 \<Longrightarrow> unat (word_of_nat n :: byte) = n"
  by (simp add: unat_of_nat)

lemma utf8_decode_char: "utf8_decode (utf8_char c @ r) = map_option (Cons c) (utf8_decode r)"
proof (cases "code c < 128")
  case True
  then show ?thesis by (simp add: utf8_char_def Let_def unat_of_nat)
next
  case False
  define x y :: byte where "x = word_of_nat (192 + code c div 64)" and "y = word_of_nat (128 + code c mod 64)"
  have c: "code c div 64 < 4" "2 \<le> code c div 64"
    using code_less[of c] False by (simp_all add: div_less_iff_less_mult less_eq_div_iff_mult_less_eq)
  then have xy: "unat x = 192 + code c div 64" "unat y = 128 + code c mod 64"
    unfolding x_def y_def by (simp_all add: unat_byte del: of_nat_add)
  have "code c div 64 = 2 \<or> code c div 64 = 3" using c by linarith
  then have "utf8_decode (x # y # r) = map_option (Cons (char_of (code c div 64 * 64 + code c mod 64))) (utf8_decode r)"
    by (auto simp: xy Let_def)
  then show ?thesis using False by (simp add: utf8_char_def Let_def x_def y_def)
qed

lemma utf8_decode_encode [simp]: "utf8_decode (utf8_encode s) = Some s"
  by (induction s) (simp_all add: utf8_encode_def utf8_decode_char)

lemma utf8_length: "length (utf8_encode s) \<le> 2 * length s"
  by (induction s) (auto simp: utf8_encode_def utf8_char_def Let_def)

section \<open>What is printed parses back\<close>

lemma hex_lower_value: "d < 16 \<Longrightarrow> hex_digit_value (hex_lower d) = Some d"
  by (erule less_16_cases) (simp_all add: hex_lower_def hex_digit_value_def)

lemma code_eq: "code c = code d \<Longrightarrow> c = d"
  by simp

lemma parse_json_char: "parse_chars (json_char c @ r) = map_option (apfst (Cons c)) (parse_chars r)"
proof -
  have s: "code c = 8 \<Longrightarrow> c = CHR 0x08" "code c = 9 \<Longrightarrow> c = CHR 0x09" "code c = 10 \<Longrightarrow> c = CHR 0x0A"
    "code c = 12 \<Longrightarrow> c = CHR 0x0C" "code c = 13 \<Longrightarrow> c = CHR 0x0D"
    by (rule code_eq, simp)+
  consider "c = CHR 0x22" | "c = CHR 0x5C" | "c = CHR 0x08" | "c = CHR 0x09" | "c = CHR 0x0A" | "c = CHR 0x0C" | "c = CHR 0x0D"
    | (low) "code c < 32" "code c \<notin> {8, 9, 10, 12, 13}" | (plain) "\<not> code c < 32" "c \<noteq> CHR 0x22" "c \<noteq> CHR 0x5C"
    using s by blast
  then show ?thesis
  proof cases
    case low
    then have "json_char c = CHR 0x5C # ''u00'' @ [hex_lower (code c div 16), hex_lower (code c mod 16)]"
      by (auto simp: json_char_def)
    moreover have "hex_digit_value (hex_lower (code c div 16)) = Some (code c div 16)"
        "hex_digit_value (hex_lower (code c mod 16)) = Some (code c mod 16)"
      using low by (auto intro!: hex_lower_value)
    moreover have "hex_digit_value (CHR ''0'') = Some 0" by (simp add: hex_digit_value_def)
    ultimately show ?thesis by simp
  next
    case plain
    then show ?thesis by (auto simp: json_char_def)
  qed (simp_all add: json_char_def escaped_def)
qed

lemma parse_json_string [simp]: "parse_chars (concat (map json_char s) @ CHR 0x22 # r) = Some (s, r)"
  by (induction s) (simp_all add: parse_json_char del: parse_chars.simps, simp)

definition stops :: "string \<Rightarrow> bool" where
  "stops r \<longleftrightarrow> (case r of [] \<Rightarrow> True | c # _ \<Rightarrow> c \<in> {CHR '','', CHR '']'', CHR ''}''})"

lemma stops_simps [simp]: "stops []" "stops (CHR '','' # r)" "stops (CHR '']'' # r)" "stops (CHR ''}'' # r)"
  by (simp_all add: stops_def)

lemma skip_solid [simp]: "\<not> is_space c \<Longrightarrow> skip (c # r) = c # r"
  by (simp add: skip_def)

lemma digit_char_facts: "d < 10 \<Longrightarrow> is_digit (digit_char d) \<and> \<not> is_space (digit_char d)"
  by (simp add: is_digit_def is_space_def of_char_digit_char)

lemma decimal_is_digit: "c \<in> set (decimal n) \<Longrightarrow> is_digit c"
  using decimal_digits digit_char_facts by fastforce

lemma decimal_not_Nil [simp]: "decimal n \<noteq> []"
  by (subst decimal.simps) simp

lemma take_decimal: "stops r \<Longrightarrow> takeWhile is_digit (decimal n @ r) = decimal n \<and> dropWhile is_digit (decimal n @ r) = r"
proof -
  assume "stops r"
  then have "takeWhile is_digit r = [] \<and> dropWhile is_digit r = r"
    by (cases r) (auto simp: stops_def is_digit_def)
  then show ?thesis by (simp add: takeWhile_append2 dropWhile_append2 decimal_is_digit)
qed

lemma decimal_no_zero: "length (decimal n) > 1 \<Longrightarrow> hd (decimal n) \<noteq> CHR ''0''"
proof (induction n rule: decimal.induct)
  case (1 n)
  have big: "\<not> n < 10" using 1(2) by (auto simp: decimal.simps[of n])
  then have eq: "decimal n = decimal (n div 10) @ [digit_char (n mod 10)]" by (simp add: decimal.simps[of n])
  show ?case
  proof (cases "n div 10 < 10")
    case True
    then have "decimal (n div 10) = [digit_char (n div 10)]" by (simp add: decimal.simps[of "n div 10"])
    moreover have "code (digit_char (n div 10)) \<noteq> code (CHR ''0'')"
      using True big by (simp add: of_char_digit_char)
    ultimately show ?thesis using eq by auto
  next
    case False
    then have "length (decimal (n div 10)) > 1" by (simp add: decimal.simps[of "n div 10"])
    with 1(1)[OF big] eq show ?thesis by simp
  qed
qed

lemma parse_json_int: "stops r \<Longrightarrow> parse_number (json_int i @ r) = Some (JNum i, r)"
proof -
  assume r: "stops r"
  have hd: "hd (decimal n) \<noteq> CHR ''-''" for n
    using decimal_is_digit[of "hd (decimal n)" n] by (auto simp: is_digit_def)
  have tail: "parse_fraction r = Some ([], r)" "parse_exponent r = Some (0, r)"
    using r by (cases r; auto simp: stops_def parse_fraction_def parse_exponent_def)+
  have num: "parse_number (decimal n @ r) = Some (JNum (int n), r)" for n
    using take_decimal[OF r, of n] decimal_no_zero[of n] hd[of n] tail undecimal_decimal[of n]
    by (cases "decimal n") (auto simp: parse_number_def digits_value_def)
  have neg: "parse_number (CHR ''-'' # decimal n @ r) = Some (JNum (- int n), r)" for n
    using take_decimal[OF r, of n] decimal_no_zero[of n] tail
    by (auto simp: parse_number_def digits_value_def Let_def)
  show ?thesis using num[of "nat i"] neg[of "nat (- i)"] by (auto simp: json_int_def)
qed

text \<open>Values without fractions whose objects have distinct member names, and a bound on their nesting.\<close>

fun json_ok :: "json \<Rightarrow> bool"
  and elems_ok :: "json list \<Rightarrow> bool"
  and members_ok :: "(string \<times> json) list \<Rightarrow> bool" where
  "json_ok (JFrac m e) = False"
| "json_ok (JArr vs) = elems_ok vs"
| "json_ok (JObj ms) = (distinct (map fst ms) \<and> members_ok ms)"
| "json_ok v = True"
| "elems_ok [] = True"
| "elems_ok (v # vs) = (json_ok v \<and> elems_ok vs)"
| "members_ok [] = True"
| "members_ok ((k, v) # ms) = (json_ok v \<and> members_ok ms)"

fun cost :: "json \<Rightarrow> nat"
  and elems_cost :: "json list \<Rightarrow> nat"
  and members_cost :: "(string \<times> json) list \<Rightarrow> nat" where
  "cost (JArr vs) = Suc (elems_cost vs)"
| "cost (JObj ms) = Suc (members_cost ms)"
| "cost v = 1"
| "elems_cost [] = 0"
| "elems_cost (v # vs) = Suc (cost v + elems_cost vs)"
| "members_cost [] = 0"
| "members_cost ((k, v) # ms) = Suc (cost v + members_cost ms)"

lemma cost_length:
  "cost v \<le> 2 * length (json_text v)"
  "elems_cost vs \<le> 2 * length (json_elems vs) + 1"
  "members_cost ms \<le> 2 * length (json_members ms) + 1"
proof (induction v and vs and ms rule: json_text_json_elems_json_members.induct)
  case (3 i)
  have "length (decimal n) \<ge> 1" for n by (cases "decimal n") simp_all
  then show ?case by (auto simp: json_int_def intro: le_trans[of 1])
next
  case (5 s)
  then show ?case by (simp add: json_string_def)
qed (auto simp: json_frac_def Let_def)

lemma update_fresh: "k \<notin> set (map fst ms) \<Longrightarrow> js_set k v ms = ms @ [(k, v)]"
  by (induction ms) auto

lemma decimal_head: "\<exists>c t. decimal n @ r = c # t \<and> is_digit c"
  using decimal_is_digit[of "hd (decimal n)" n] by (cases "decimal n") auto

lemma digit_solid: "is_digit c \<Longrightarrow> \<not> is_space c \<and> c \<noteq> CHR '']'' \<and> c \<noteq> CHR ''}'' \<and> c \<noteq> CHR 0x22 \<and>
    c \<noteq> CHR ''n'' \<and> c \<noteq> CHR ''t'' \<and> c \<noteq> CHR ''f'' \<and> c \<noteq> CHR ''['' \<and> c \<noteq> CHR ''{''"
  by (auto simp: is_digit_def is_space_def)

lemma json_head:
  "json_ok v \<Longrightarrow> \<exists>c t. json_text v = c # t \<and> \<not> is_space c \<and> c \<noteq> CHR '']'' \<and> c \<noteq> CHR ''}''"
proof (cases v)
  case (JNum i)
  then show ?thesis using decimal_head[of "nat i" "[]"] digit_solid by (auto simp: json_int_def is_space_def)
qed (auto simp: json_string_def is_space_def)

lemma parse_number_value: "stops r \<Longrightarrow> parse_value (Suc n) (json_int i @ r) = Some (JNum i, r)"
proof -
  assume r: "stops r"
  have "\<exists>c t. json_int i @ r = c # t \<and> \<not> is_space c \<and> c \<noteq> CHR 0x22 \<and>
      c \<noteq> CHR ''n'' \<and> c \<noteq> CHR ''t'' \<and> c \<noteq> CHR ''f'' \<and> c \<noteq> CHR ''['' \<and> c \<noteq> CHR ''{''"
    using decimal_head[of "nat i" r] digit_solid by (auto simp: json_int_def is_space_def)
  then obtain c t where c: "json_int i @ r = c # t" "\<not> is_space c" "c \<noteq> CHR 0x22" "c \<noteq> CHR ''n''" "c \<noteq> CHR ''t''"
    "c \<noteq> CHR ''f''" "c \<noteq> CHR ''[''" "c \<noteq> CHR ''{''" by blast
  then have "parse_value (Suc n) (json_int i @ r) = parse_number (json_int i @ r)" by simp
  with parse_json_int[OF r] show ?thesis by simp
qed

lemma parse_printed:
  "json_ok v \<Longrightarrow> stops r \<Longrightarrow> cost v \<le> n \<Longrightarrow> parse_value n (json_text v @ r) = Some (v, r)"
  "elems_ok vs \<Longrightarrow> vs \<noteq> [] \<Longrightarrow> elems_cost vs \<le> n \<Longrightarrow> parse_elems n (json_elems vs @ CHR '']'' # r) = Some (vs, r)"
  "members_ok ms \<Longrightarrow> ms \<noteq> [] \<Longrightarrow> distinct (map fst (acc @ ms)) \<Longrightarrow> members_cost ms \<le> n \<Longrightarrow>
    parse_members n acc (json_members ms @ CHR ''}'' # r) = Some (acc @ ms, r)"
proof (induction v and vs and ms arbitrary: n r and n r and n r acc rule: json_text_json_elems_json_members.induct)
  case 1
  then show ?case by (cases n) (simp_all add: is_space_def parse_word_def)
next
  case (2 b)
  then show ?case by (cases n) (simp_all add: is_space_def parse_word_def)
next
  case (3 i)
  then show ?case using parse_number_value by (cases n) auto
next
  case (5 s)
  then show ?case by (cases n) (simp_all add: is_space_def json_string_def)
next
  case (6 vs)
  then obtain k where n: "n = Suc k" "elems_cost vs \<le> k" by (cases n) auto
  show ?case
  proof (cases vs)
    case Nil
    then show ?thesis by (simp add: n is_space_def)
  next
    case (Cons v ws)
    then obtain c t where "json_text v = c # t" "\<not> is_space c" "c \<noteq> CHR '']''" using 6(2) json_head[of v] by auto
    then have "\<exists>t. json_elems vs = c # t" by (cases ws) (auto simp: Cons)
    then show ?thesis
      using 6(1)[of k r] 6(2) n \<open>\<not> is_space c\<close> \<open>c \<noteq> CHR '']''\<close> Cons by (auto simp: is_space_def)
  qed
next
  case (7 ms)
  then obtain k where n: "n = Suc k" "members_cost ms \<le> k" by (cases n) auto
  show ?case
  proof (cases ms)
    case Nil
    then show ?thesis by (simp add: n is_space_def)
  next
    case (Cons m ws)
    obtain t where "json_members ms = CHR 0x22 # t" by (cases m; cases ws) (auto simp: Cons json_string_def)
    then show ?thesis using 7(1)[of "[]" k r] 7(2) n Cons by (auto simp: is_space_def)
  qed
next
  case (9 v)
  then show ?case by (cases n) (simp_all add: is_space_def)
next
  case (10 v w vs)
  then show ?case by (cases n) (simp_all add: is_space_def)
next
  case (12 k v)
  then show ?case by (cases n) (simp_all add: is_space_def json_string_def update_fresh)
next
  case (13 k v m ms)
  then show ?case using 13(2)[where acc = "acc @ [(k, v)]"]
    by (cases n) (auto simp: is_space_def json_string_def update_fresh)
qed simp_all

lemma json_parse_text: "json_ok v \<Longrightarrow> json_parse (json_text v) = Some v"
  using parse_printed(1)[of v "[]" "Suc (2 * length (json_text v))"] cost_length(1)[of v]
  by (simp add: json_parse_def skip_def)

text \<open>Objects with distinct names round trip through text and bytes.\<close>

lemma json_bytes_roundtrip: "json_ok v \<Longrightarrow> Option.bind (utf8_decode (utf8_encode (json_text v))) json_parse = Some v"
  by (simp add: json_parse_text)

section \<open>White space\<close>

text \<open>The characters \<open>String.prototype.trim\<close> removes and \<open>\\s\<close> of a regular expression matches.\<close>

definition js_space :: "char \<Rightarrow> bool" where
  "js_space c \<longleftrightarrow> (9 \<le> code c \<and> code c \<le> 13) \<or> code c = 32 \<or> code c = 160"

definition js_trim :: "string \<Rightarrow> string" where
  "js_trim s = rev (dropWhile js_space (rev (dropWhile js_space s)))"

end
