(* ===== verification/Relay_Server.thy ===== *)
theory Relay_Server
  imports Relay_Store Relay_Auth Relay_RateLimit App_Json
begin

text \<open>
  The relay: packages/relay/src/validate.ts and relay.ts. One state record holds the store, the
  authentication service, the send limiter and the sockets; every route and every socket event
  is a function of the state and of what it reads from outside (clock, random bytes). Routes run
  one at a time: an \<open>await\<close> on the in-memory store resolves before the next request starts.
  The bodies of HTTP requests are what JSON parsing yields, with None for an absent field: their
  parsing, the body limit and the connection handling of Fastify are not modelled. The frames
  of a socket are texts, which the handler itself parses.
\<close>

section \<open>Validation of published keys\<close>

text \<open>A one-time key of a body is None when its \<open>id\<close> is no integer or its key no string.\<close>

record published_keys =
  pk_identity :: wire_identity
  pk_signedPreKey :: "wire_signed_prekey option"
  pk_signedKemPreKey :: "wire_signed_prekey option"
  pk_oneTimePreKeys :: "wire_one_time_prekey option list option"
  pk_oneTimeKemPreKeys :: "wire_one_time_prekey option list option"

datatype validation_error =
    MalformedIdentityEncoding | MissingSignedPreKeys | InvalidKeyMaterial
  | MalformedOneTimePreKey | MalformedOneTimePreKeyEncoding

definition or_nil :: "'a list option \<Rightarrow> 'a list" where
  "or_nil x = (case x of None \<Rightarrow> [] | Some l \<Rightarrow> l)"

lemma or_nil_simps [simp]: "or_nil None = []" "or_nil (Some l) = l"
  by (simp_all add: or_nil_def)

fun check_one_time :: "wire_one_time_prekey option list \<Rightarrow> validation_error option" where
  "check_one_time [] = None"
| "check_one_time (None # ks) = Some MalformedOneTimePreKey"
| "check_one_time (Some k # ks) = (case decodeOneTimePreKey k of
      Inl _ \<Rightarrow> Some MalformedOneTimePreKeyEncoding
    | Inr _ \<Rightarrow> check_one_time ks)"

text \<open>\<open>Inl\<close> inside: a validation error; the outer \<open>Inl\<close>: an exception of \<open>addressOf\<close>.\<close>

definition verifyPublishedPreKeys ::
  "noble \<Rightarrow> published_keys \<Rightarrow> (validation_error + string \<times> public_identity) result" where
  "verifyPublishedPreKeys N p = (case decodeIdentity (pk_identity p) of
      Inl _ \<Rightarrow> Inr (Inl MalformedIdentityEncoding)
    | Inr i \<Rightarrow> (case (pk_signedPreKey p, pk_signedKemPreKey p) of
        (Some s, Some k) \<Rightarrow>
          (case rbind (decodeSignedPreKey s) (\<lambda>s. rbind (decodeSignedPreKey k) (\<lambda>k.
              verifyPreKeyBundle N \<lparr>identity = i, signedPreKey = s, signedKemPreKey = k,
                oneTimePreKey = None, oneTimeKemPreKey = None\<rparr>)) of
            Inl _ \<Rightarrow> Inr (Inl InvalidKeyMaterial)
          | Inr _ \<Rightarrow> (case check_one_time (or_nil (pk_oneTimePreKeys p) @ or_nil (pk_oneTimeKemPreKeys p)) of
              Some e \<Rightarrow> Inr (Inl e)
            | None \<Rightarrow> rbind (addressOf N i) (\<lambda>a. Inr (Inr (a, i)))))
      | _ \<Rightarrow> Inr (Inl MissingSignedPreKeys)))"

section \<open>State\<close>

type_synonym conn = nat

record delivered_message =
  dm_id :: string
  dm_envelope :: wire_envelope
  dm_receivedAtHour :: int

datatype server_msg =
    Authenticated string
  | Deliver delivered_message
  | Accepted
  | Pong
  | ErrorMsg string

text \<open>
  \<open>sockets\<close> maps an address to its connections (a Set: no repetitions); \<open>conn_address\<close> is each
  connection's SocketState; \<open>sent\<close> what was sent, oldest first. A send to a dead socket throws
  inside its \<open>try\<close> and changes nothing.
\<close>

record relay_state =
  rs_store :: relay_store
  rs_auth :: auth_service
  rs_limiter :: rate_limiter
  sockets :: "(string, conn list) jsmap"
  conn_address :: "(conn, string) jsmap"
  sent :: "(conn \<times> server_msg) list"

text \<open>The clock and the random bytes a handler reads.\<close>

record env =
  e_now :: int
  e_now2 :: int
  e_random :: bytes

definition buildRelay :: "int option \<Rightarrow> relay_state" where
  "buildRelay sendRateLimit = \<lparr>rs_store = new_relay_store, rs_auth = new_auth,
     rs_limiter = new_limiter (case sendRateLimit of None \<Rightarrow> 120 | Some n \<Rightarrow> n) 60000,
     sockets = [], conn_address = [], sent = []\<rparr>"

definition toHour :: "int \<Rightarrow> int" where
  "toHour timestamp = (timestamp div 3600000) * 3600000"

definition deliveryOf :: "queued_message \<Rightarrow> delivered_message" where
  "deliveryOf m = \<lparr>dm_id = qm_id m, dm_envelope = qm_envelope m, dm_receivedAtHour = toHour (qm_receivedAt m)\<rparr>"

definition pushToAddress :: "string \<Rightarrow> server_msg \<Rightarrow> relay_state \<Rightarrow> relay_state" where
  "pushToAddress address m s = (case js_get (sockets s) address of
      None \<Rightarrow> s
    | Some cs \<Rightarrow> s\<lparr>sent := sent s @ map (\<lambda>c. (c, m)) cs\<rparr>)"

definition js_starts_with :: "string \<Rightarrow> string \<Rightarrow> bool" where
  "js_starts_with s p \<longleftrightarrow> take (length p) s = p"

definition requireAuth :: "env \<Rightarrow> string option \<Rightarrow> relay_state \<Rightarrow> string option \<times> relay_state" where
  "requireAuth e header s = (case header of
      None \<Rightarrow> (None, s)
    | Some h \<Rightarrow> if \<not> js_starts_with h ''Bearer '' then (None, s)
        else let (a, auth) = resolve (e_now e) (Some (drop 7 h)) (rs_auth s) in (a, s\<lparr>rs_auth := auth\<rparr>))"

section \<open>Routes\<close>

datatype body =
    RError string
  | RAddress string
  | RChallenge string int
  | RToken string int
  | RBundle prekey_bundle_response
  | RAccepted
  | RCounts nat nat
  | RMessages "delivered_message list"
  | RRemoved nat
  | RHealth

type_synonym response = "nat \<times> body"

record register_body =
  rb_identity :: "wire_identity option"
  rb_signedPreKey :: "wire_signed_prekey option"
  rb_signedKemPreKey :: "wire_signed_prekey option"
  rb_oneTimePreKeys :: "wire_one_time_prekey option list option"
  rb_oneTimeKemPreKeys :: "wire_one_time_prekey option list option"

record envelope_body =
  eb_recipient :: "string option"
  eb_ephemeralPublicKey :: "string option"
  eb_ciphertext :: "string option"

text \<open>Truthiness of a string field.\<close>

definition truthy :: "string option \<Rightarrow> bool" where
  "truthy x \<longleftrightarrow> x \<noteq> None \<and> x \<noteq> Some ''''"

definition internal_error :: response where
  "internal_error = (500, RError ''internal'')"

definition validation_failed :: "validation_error \<Rightarrow> response" where
  "validation_failed e = (400, RError (case e of
      MalformedIdentityEncoding \<Rightarrow> ''malformed identity encoding''
    | MissingSignedPreKeys \<Rightarrow> ''missing signed prekeys''
    | InvalidKeyMaterial \<Rightarrow> ''invalid key material''
    | MalformedOneTimePreKey \<Rightarrow> ''malformed one-time prekey''
    | MalformedOneTimePreKeyEncoding \<Rightarrow> ''malformed one-time prekey encoding''))"

definition well_formed :: "wire_one_time_prekey option list \<Rightarrow> wire_one_time_prekey list" where
  "well_formed ks = map the ks"

definition postAccounts :: "noble \<Rightarrow> register_body option \<Rightarrow> relay_state \<Rightarrow> response \<times> relay_state" where
  "postAccounts N body s = (case body of
      None \<Rightarrow> ((400, RError ''missing identity''), s)
    | Some b \<Rightarrow> (case rb_identity b of
        None \<Rightarrow> ((400, RError ''missing identity''), s)
      | Some i \<Rightarrow>
         (case verifyPublishedPreKeys N \<lparr>pk_identity = i, pk_signedPreKey = rb_signedPreKey b,
             pk_signedKemPreKey = rb_signedKemPreKey b, pk_oneTimePreKeys = rb_oneTimePreKeys b,
             pk_oneTimeKemPreKeys = rb_oneTimeKemPreKeys b\<rparr> of
           Inl _ \<Rightarrow> (internal_error, s)
         | Inr (Inl e) \<Rightarrow> (validation_failed e, s)
         | Inr (Inr (address, _)) \<Rightarrow>
             (case getAccount address (rs_store s) of
               Some _ \<Rightarrow> ((200, RAddress address), s)
             | None \<Rightarrow> ((201, RAddress address),
                 s\<lparr>rs_store := createAccount
                   \<lparr>ac_address = address, ac_identity = i,
                    ac_signedPreKey = the (rb_signedPreKey b), ac_signedKemPreKey = the (rb_signedKemPreKey b),
                    ac_oneTimePreKeys = slice 0 maxOneTimePreKeys (well_formed (or_nil (rb_oneTimePreKeys b))),
                    ac_oneTimeKemPreKeys = slice 0 maxOneTimePreKeys (well_formed (or_nil (rb_oneTimeKemPreKeys b)))\<rparr>
                   (rs_store s)\<rparr>)))))"

definition postChallenge :: "env \<Rightarrow> string option \<Rightarrow> relay_state \<Rightarrow> response \<times> relay_state" where
  "postChallenge e address s =
     (if \<not> truthy address then ((400, RError ''missing address''), s)
      else let ((c, x), auth) = issueChallenge (e_now e) (e_random e) (the address) (rs_auth s)
        in ((200, RChallenge c x), s\<lparr>rs_auth := auth\<rparr>))"

definition postAuth ::
  "noble \<Rightarrow> env \<Rightarrow> string option \<Rightarrow> string option \<Rightarrow> string option \<Rightarrow> relay_state \<Rightarrow> response \<times> relay_state" where
  "postAuth N e address chal signature s =
     (if \<not> truthy address \<or> \<not> truthy chal \<or> \<not> truthy signature then ((400, RError ''missing fields''), s)
      else case getAccount (the address) (rs_store s) of
        None \<Rightarrow> ((401, RError ''authentication failed''), s)
      | Some account \<Rightarrow>
          let (r, auth) = authenticate N (e_now e) (e_now2 e) (e_random e) (the address) (the chal) (the signature)
                (w_signingPublicKey (ac_identity account)) (rs_auth s);
              s = s\<lparr>rs_auth := auth\<rparr>
          in case r of None \<Rightarrow> ((401, RError ''authentication failed''), s)
             | Some (t, x) \<Rightarrow> ((200, RToken t x), s))"

definition getKeys :: "string \<Rightarrow> relay_state \<Rightarrow> response \<times> relay_state" where
  "getKeys address s = (case getAccount address (rs_store s) of
      None \<Rightarrow> ((404, RError ''not found''), s)
    | Some account \<Rightarrow>
        let ((k1, k2), store) = takeOneTimePreKeys (ac_address account) (rs_store s) in
        ((200, RBundle \<lparr>br_identity = ac_identity account, br_signedPreKey = ac_signedPreKey account,
           br_signedKemPreKey = ac_signedKemPreKey account, br_oneTimePreKey = k1, br_oneTimeKemPreKey = k2\<rparr>),
         s\<lparr>rs_store := store\<rparr>))"

record upload_body =
  ub_signedPreKey :: "wire_signed_prekey option"
  ub_signedKemPreKey :: "wire_signed_prekey option"
  ub_oneTimePreKeys :: "wire_one_time_prekey option list option"
  ub_oneTimeKemPreKeys :: "wire_one_time_prekey option list option"

definition empty_upload :: upload_body where
  "empty_upload = \<lparr>ub_signedPreKey = None, ub_signedKemPreKey = None, ub_oneTimePreKeys = None, ub_oneTimeKemPreKeys = None\<rparr>"

definition or_else :: "'a option \<Rightarrow> 'a \<Rightarrow> 'a" where
  "or_else x d = (case x of None \<Rightarrow> d | Some y \<Rightarrow> y)"

definition postKeys ::
  "noble \<Rightarrow> env \<Rightarrow> string option \<Rightarrow> upload_body option \<Rightarrow> relay_state \<Rightarrow> response \<times> relay_state" where
  "postKeys N e header body s0 = (let (address, s) = requireAuth e header s0 in
     if \<not> truthy address then ((401, RError ''unauthorized''), s)
     else case getAccount (the address) (rs_store s) of
       None \<Rightarrow> ((404, RError ''not found''), s)
     | Some account \<Rightarrow>
        let b = or_else body empty_upload in
        (case verifyPublishedPreKeys N \<lparr>pk_identity = ac_identity account,
            pk_signedPreKey = Some (or_else (ub_signedPreKey b) (ac_signedPreKey account)),
            pk_signedKemPreKey = Some (or_else (ub_signedKemPreKey b) (ac_signedKemPreKey account)),
            pk_oneTimePreKeys = Some (or_nil (ub_oneTimePreKeys b)),
            pk_oneTimeKemPreKeys = Some (or_nil (ub_oneTimeKemPreKeys b))\<rparr> of
          Inl _ \<Rightarrow> (internal_error, s)
        | Inr (Inl err) \<Rightarrow> (validation_failed err, s)
        | Inr (Inr _) \<Rightarrow> ((200, RAccepted),
            s\<lparr>rs_store := updatePreKeys (the address)
               \<lparr>up_signedPreKey = ub_signedPreKey b, up_signedKemPreKey = ub_signedKemPreKey b,
                up_oneTimePreKeys = map_option well_formed (ub_oneTimePreKeys b),
                up_oneTimeKemPreKeys = map_option well_formed (ub_oneTimeKemPreKeys b)\<rparr> (rs_store s)\<rparr>)))"

definition getKeyCount :: "env \<Rightarrow> string option \<Rightarrow> relay_state \<Rightarrow> response \<times> relay_state" where
  "getKeyCount e header s0 = (let (address, s) = requireAuth e header s0 in
     if \<not> truthy address then ((401, RError ''unauthorized''), s)
     else case getAccount (the address) (rs_store s) of
       None \<Rightarrow> ((404, RError ''not found''), s)
     | Some account \<Rightarrow> ((200, RCounts (length (ac_oneTimePreKeys account)) (length (ac_oneTimeKemPreKeys account))), s))"

text \<open>Queueing an envelope under a fresh identifier and pushing it to the recipient's sockets.\<close>

definition accept_envelope :: "env \<Rightarrow> wire_envelope \<Rightarrow> relay_state \<Rightarrow> relay_state" where
  "accept_envelope e envelope s =
     (let m = \<lparr>qm_id = toHex (e_random e), qm_envelope = envelope, qm_receivedAt = e_now e\<rparr>
      in pushToAddress (we_recipient envelope) (Deliver (deliveryOf m)) (s\<lparr>rs_store := enqueue m (rs_store s)\<rparr>))"

definition envelope_of :: "envelope_body \<Rightarrow> wire_envelope" where
  "envelope_of b = \<lparr>we_recipient = the (eb_recipient b), we_ephemeralPublicKey = eb_ephemeralPublicKey b,
     we_ciphertext = the (eb_ciphertext b)\<rparr>"

definition postMessages ::
  "env \<Rightarrow> string \<Rightarrow> envelope_body option \<Rightarrow> relay_state \<Rightarrow> response \<times> relay_state" where
  "postMessages e ip envelope s0 =
     (let (ok, limiter) = allow (e_now e) ip (rs_limiter s0); s = s0\<lparr>rs_limiter := limiter\<rparr> in
      if \<not> ok then ((429, RError ''rate limited''), s)
      else case envelope of
        None \<Rightarrow> ((400, RError ''malformed envelope''), s)
      | Some b \<Rightarrow>
         if \<not> truthy (eb_recipient b) \<or> \<not> truthy (eb_ciphertext b) \<or> \<not> truthy (eb_ephemeralPublicKey b)
         then ((400, RError ''malformed envelope''), s)
         else if length (the (eb_ciphertext b)) > maxEnvelopeBytes then ((413, RError ''envelope too large''), s)
         else case getAccount (the (eb_recipient b)) (rs_store s) of
           None \<Rightarrow> ((200, RAccepted), s)
         | Some _ \<Rightarrow> ((200, RAccepted), accept_envelope e (envelope_of b) s))"

definition getMessages :: "env \<Rightarrow> string option \<Rightarrow> relay_state \<Rightarrow> response \<times> relay_state" where
  "getMessages e header s0 = (let (address, s) = requireAuth e header s0 in
     if \<not> truthy address then ((401, RError ''unauthorized''), s)
     else ((200, RMessages (map deliveryOf (queued (the address) (rs_store s)))), s))"

definition postAcknowledge ::
  "env \<Rightarrow> string option \<Rightarrow> string list option \<Rightarrow> relay_state \<Rightarrow> response \<times> relay_state" where
  "postAcknowledge e header ids s0 = (let (address, s) = requireAuth e header s0 in
     if \<not> truthy address then ((401, RError ''unauthorized''), s)
     else case ids of None \<Rightarrow> ((400, RError ''missing ids''), s)
       | Some l \<Rightarrow> let (n, store) = acknowledge (the address) l (rs_store s)
           in ((200, RRemoved n), s\<lparr>rs_store := store\<rparr>))"

datatype request =
    PostAccounts "register_body option"
  | PostChallenge "string option"
  | PostAuth "string option" "string option" "string option"
  | GetKeys string
  | PostKeys "string option" "upload_body option"
  | GetKeyCount "string option"
  | PostMessages string "envelope_body option"
  | GetMessages "string option"
  | PostAcknowledge "string option" "string list option"
  | GetHealth

fun route :: "noble \<Rightarrow> env \<Rightarrow> request \<Rightarrow> relay_state \<Rightarrow> response \<times> relay_state" where
  "route N e (PostAccounts b) s = postAccounts N b s"
| "route N e (PostChallenge a) s = postChallenge e a s"
| "route N e (PostAuth a c g) s = postAuth N e a c g s"
| "route N e (GetKeys a) s = getKeys a s"
| "route N e (PostKeys h b) s = postKeys N e h b s"
| "route N e (GetKeyCount h) s = getKeyCount e h s"
| "route N e (PostMessages ip b) s = postMessages e ip b s"
| "route N e (GetMessages h) s = getMessages e h s"
| "route N e (PostAcknowledge h ids) s = postAcknowledge e h ids s"
| "route N e GetHealth s = ((200, RHealth), s)"

section \<open>The socket\<close>

text \<open>
  The handler gets the text of a frame and parses it itself. It is an async function nobody
  awaits: an exception in it (\<open>Inl\<close>) is an unhandled rejection, which ends the process. The
  result is None for the texts outside the model: those with a unicode escape for a character above
  255 (or a broken one), and \<open>send\<close> frames whose envelope has a member that is no string.

  \<open>v.k\<close> on a parsed value other than null: only objects have members of the names used here.
\<close>

definition prop_of :: "string \<Rightarrow> json \<Rightarrow> json option" where
  "prop_of k v = (case v of JObj ms \<Rightarrow> js_get ms k | _ \<Rightarrow> None)"

fun plain_escapes :: "string \<Rightarrow> bool" where
  "plain_escapes [] = True"
| "plain_escapes [c] = True"
| "plain_escapes (c # d # r) =
     (if c \<noteq> CHR 0x5C then plain_escapes (d # r)
      else (d = CHR ''u'' \<longrightarrow> take 2 r = ''00'') \<and> plain_escapes r)"

text \<open>\<open>auth.resolve\<close> looks the token up in a map of strings: any other value is unknown to it.\<close>

definition frame_token :: "json \<Rightarrow> string option" where
  "frame_token v = (case prop_of ''token'' v of Some (JStr t) \<Rightarrow> Some t | _ \<Rightarrow> None)"

text \<open>A member that is absent (\<open>Some None\<close>), a string, or outside the model (None).\<close>

fun text_member :: "json option \<Rightarrow> string option option" where
  "text_member None = Some None"
| "text_member (Some (JStr s)) = Some (Some s)"
| "text_member (Some _) = None"

definition frame_envelope :: "json \<Rightarrow> envelope_body option option" where
  "frame_envelope v = (case prop_of ''envelope'' v of
      Some (JObj ms) \<Rightarrow>
        (case (text_member (js_get ms ''recipient''), text_member (js_get ms ''ephemeralPublicKey''),
            text_member (js_get ms ''ciphertext'')) of
          (Some r, Some k, Some c) \<Rightarrow> Some (Some \<lparr>eb_recipient = r, eb_ephemeralPublicKey = k, eb_ciphertext = c\<rparr>)
        | _ \<Rightarrow> None)
    | _ \<Rightarrow> Some None)"

text \<open>
  The strings of \<open>new Set(ids ?? [])\<close>, which iterates over an array or over the characters of a
  string; None when it throws because the value cannot be iterated.
\<close>

fun json_str :: "json \<Rightarrow> string list" where
  "json_str (JStr s) = [s]"
| "json_str _ = []"

fun wanted_ids :: "json option \<Rightarrow> string list option" where
  "wanted_ids None = Some []"
| "wanted_ids (Some JNull) = Some []"
| "wanted_ids (Some (JArr vs)) = Some (concat (map json_str vs))"
| "wanted_ids (Some (JStr s)) = Some (map (\<lambda>c. [c]) s)"
| "wanted_ids (Some _) = None"

definition send_to :: "conn \<Rightarrow> server_msg \<Rightarrow> relay_state \<Rightarrow> relay_state" where
  "send_to c m s = s\<lparr>sent := sent s @ [(c, m)]\<rparr>"

definition authenticate_socket :: "env \<Rightarrow> conn \<Rightarrow> string option \<Rightarrow> relay_state \<Rightarrow> relay_state" where
  "authenticate_socket e c tok s0 =
     (let (address, auth) = resolve (e_now e) tok (rs_auth s0); s = s0\<lparr>rs_auth := auth\<rparr> in
      if \<not> truthy address then send_to c (ErrorMsg ''unauthorized'') s
      else let a = the address;
          conns = (case js_get (sockets s) a of None \<Rightarrow> [] | Some cs \<Rightarrow> cs);
          s = s\<lparr>conn_address := js_set c a (conn_address s),
                sockets := js_set a (if c \<in> set conns then conns else conns @ [c]) (sockets s)\<rparr>;
          s = send_to c (Authenticated a) s
        in s\<lparr>sent := sent s @ map (\<lambda>m. (c, Deliver (deliveryOf m))) (queued a (rs_store s))\<rparr>)"

definition send_socket :: "env \<Rightarrow> conn \<Rightarrow> envelope_body option \<Rightarrow> relay_state \<Rightarrow> relay_state" where
  "send_socket e c envelope s = (case envelope of
      None \<Rightarrow> send_to c (ErrorMsg ''malformed'') s
    | Some b \<Rightarrow>
        if \<not> truthy (eb_recipient b) \<or> \<not> truthy (eb_ciphertext b) then send_to c (ErrorMsg ''malformed'') s
        else if length (the (eb_ciphertext b)) > maxEnvelopeBytes then send_to c (ErrorMsg ''too_large'') s
        else let s = (case getAccount (the (eb_recipient b)) (rs_store s) of
               None \<Rightarrow> s | Some _ \<Rightarrow> accept_envelope e (envelope_of b) s)
          in send_to c Accepted s)"

text \<open>\<open>store.acknowledge\<close> makes the set only for an address that has a queue.\<close>

definition acknowledge_socket :: "conn \<Rightarrow> json option \<Rightarrow> relay_state \<Rightarrow> relay_state result" where
  "acknowledge_socket c ids s = (case js_get (conn_address s) c of
      None \<Rightarrow> Inr (send_to c (ErrorMsg ''unauthorized'') s)
    | Some a \<Rightarrow>
        if js_get (queues (rs_store s)) a = None then Inr s
        else (case wanted_ids ids of
            None \<Rightarrow> Inl OtherError
          | Some l \<Rightarrow> Inr (s\<lparr>rs_store := snd (acknowledge a l (rs_store s))\<rparr>)))"

text \<open>The branches on \<open>parsed.type\<close>; reading it throws for null.\<close>

definition socket_value :: "env \<Rightarrow> conn \<Rightarrow> json \<Rightarrow> relay_state \<Rightarrow> relay_state result option" where
  "socket_value e c v s =
     (if v = JNull then Some (Inl OtherError)
      else if prop_of ''type'' v = Some (JStr ''authenticate'') then Some (Inr (authenticate_socket e c (frame_token v) s))
      else if prop_of ''type'' v = Some (JStr ''ping'') then Some (Inr (send_to c Pong s))
      else if prop_of ''type'' v = Some (JStr ''send'') then map_option (\<lambda>b. Inr (send_socket e c b s)) (frame_envelope v)
      else if prop_of ''type'' v = Some (JStr ''acknowledge'') then Some (acknowledge_socket c (prop_of ''ids'' v) s)
      else Some (Inr (send_to c (ErrorMsg ''unknown'') s)))"

definition socketMessage :: "env \<Rightarrow> conn \<Rightarrow> string \<Rightarrow> relay_state \<Rightarrow> relay_state result option" where
  "socketMessage e c raw s =
     (if \<not> plain_escapes raw then None
      else case json_parse raw of
        None \<Rightarrow> Some (Inr (send_to c (ErrorMsg ''malformed'') s))
      | Some v \<Rightarrow> socket_value e c v s)"

definition socketClose :: "conn \<Rightarrow> relay_state \<Rightarrow> relay_state" where
  "socketClose c s = (case js_get (conn_address s) c of
      None \<Rightarrow> s
    | Some a \<Rightarrow> (case js_get (sockets s) a of
        None \<Rightarrow> s
      | Some cs \<Rightarrow> let cs' = filter (\<lambda>d. d \<noteq> c) cs in
          if cs' = [] then s\<lparr>sockets := js_delete a (sockets s)\<rparr>
          else s\<lparr>sockets := js_set a cs' (sockets s)\<rparr>))"

text \<open>The hourly housekeeping timer.\<close>

definition housekeeping :: "int \<Rightarrow> relay_state \<Rightarrow> relay_state" where
  "housekeeping now s = s\<lparr>rs_store := snd (expire now (rs_store s)), rs_auth := prune now (rs_auth s)\<rparr>"

end
