(* ===== verification/Relay_Safety.thy ===== *)
theory Relay_Safety
  imports Relay_Server
begin

text \<open>
  What holds of every state the relay can reach, whatever requests, frames, closings and timer
  ticks arrive in whatever order: the directory holds only verified keys under their own
  address, and messages leave only to connections and callers whose token was earned by the
  identity key of the address. Both are invariants over the trace of what happened.
\<close>

section \<open>Runs of the relay\<close>

text \<open>What happened, newest first: requests with their responses, frames, closings, timer ticks.\<close>

datatype relay_event =
    Request env request response
  | Frame env conn string
  | Closed conn
  | Tick int

inductive relay_trace :: "noble \<Rightarrow> relay_event list \<Rightarrow> relay_state \<Rightarrow> bool" for N where
  build: "relay_trace N [] (buildRelay n)"
| request: "relay_trace N tr s \<Longrightarrow> route N e rq s = (resp, s') \<Longrightarrow> relay_trace N (Request e rq resp # tr) s'"
| frame: "relay_trace N tr s \<Longrightarrow> socketMessage e c raw s = Some (Inr s') \<Longrightarrow> relay_trace N (Frame e c raw # tr) s'"
| closed: "relay_trace N tr s \<Longrightarrow> relay_trace N (Closed c # tr) (socketClose c s)"
| tick: "relay_trace N tr s \<Longrightarrow> relay_trace N (Tick now # tr) (housekeeping now s)"

definition relay_reach :: "noble \<Rightarrow> relay_state \<Rightarrow> bool" where
  "relay_reach N s \<longleftrightarrow> (\<exists>tr. relay_trace N tr s)"

lemma reach_build: "relay_reach N (buildRelay n)"
  unfolding relay_reach_def by (blast intro: relay_trace.build)

lemma reach_request: "relay_reach N s \<Longrightarrow> route N e rq s = (resp, s') \<Longrightarrow> relay_reach N s'"
  unfolding relay_reach_def by (blast intro: relay_trace.request)

text \<open>
  A token \<open>t\<close> was earned for the address \<open>a\<close> until \<open>x\<close>: a request got it by a signature that
  verifies, under a key that hashes to \<open>a\<close>, over the transcript of a challenge an earlier request
  was given for \<open>a\<close>, before that challenge expired.
\<close>

definition token_earned :: "noble \<Rightarrow> relay_event list \<Rightarrow> string \<Rightarrow> string \<Rightarrow> int \<Rightarrow> bool" where
  "token_earned N tr t a x \<longleftrightarrow> (\<exists>later earlier e c g sig p e1 x1.
     tr = later @ Request e (PostAuth (Some a) (Some c) (Some g)) (200, RToken t x) # earlier \<and>
     Request e1 (PostChallenge (Some a)) (200, RChallenge c x1) \<in> set earlier \<and> e_now e \<le> x1 \<and>
     fromBase64Url g = Inr sig \<and> addressOfKey N p = Inr a \<and>
     verify N p (challengeTranscript a (e_random e1)) sig)"

text \<open>A connection logged in for \<open>a\<close>: it sent such a token, before it expired.\<close>

definition logged_in :: "noble \<Rightarrow> relay_event list \<Rightarrow> conn \<Rightarrow> string \<Rightarrow> bool" where
  "logged_in N tr c a \<longleftrightarrow> (\<exists>later earlier e raw v t x.
     tr = later @ Frame e c raw # earlier \<and> json_parse raw = Some v \<and>
     prop_of ''type'' v = Some (JStr ''authenticate'') \<and> prop_of ''token'' v = Some (JStr t) \<and>
     token_earned N earlier t a x \<and> e_now e \<le> x)"

text \<open>An authorization header carries such a token.\<close>

definition header_earned :: "noble \<Rightarrow> relay_event list \<Rightarrow> env \<Rightarrow> string option \<Rightarrow> string \<Rightarrow> bool" where
  "header_earned N tr e header a \<longleftrightarrow>
     (\<exists>t x. header = Some (''Bearer '' @ t) \<and> token_earned N tr t a x \<and> e_now e \<le> x)"

lemma token_earned_mono: "token_earned N tr t a x \<Longrightarrow> token_earned N (ev # tr) t a x"
proof -
  assume "token_earned N tr t a x"
  then obtain later earlier e c g sig p e1 x1 where
    "tr = later @ Request e (PostAuth (Some a) (Some c) (Some g)) (200, RToken t x) # earlier"
    and w: "Request e1 (PostChallenge (Some a)) (200, RChallenge c x1) \<in> set earlier" "e_now e \<le> x1"
      "fromBase64Url g = Inr sig" "addressOfKey N p = Inr a" "verify N p (challengeTranscript a (e_random e1)) sig"
    unfolding token_earned_def by blast
  then have "ev # tr = (ev # later) @ Request e (PostAuth (Some a) (Some c) (Some g)) (200, RToken t x) # earlier" by simp
  with w show ?thesis unfolding token_earned_def by blast
qed

lemma logged_in_mono: "logged_in N tr c a \<Longrightarrow> logged_in N (ev # tr) c a"
proof -
  assume "logged_in N tr c a"
  then obtain later earlier e raw v t x where "tr = later @ Frame e c raw # earlier"
    and w: "json_parse raw = Some v" "prop_of ''type'' v = Some (JStr ''authenticate'')" "prop_of ''token'' v = Some (JStr t)"
      "token_earned N earlier t a x" "e_now e \<le> x"
    unfolding logged_in_def by blast
  then have "ev # tr = (ev # later) @ Frame e c raw # earlier" by simp
  with w show ?thesis unfolding logged_in_def by blast
qed

section \<open>The directory\<close>

definition decodable :: "wire_one_time_prekey list \<Rightarrow> bool" where
  "decodable ks \<longleftrightarrow> (\<forall>k \<in> set ks. \<exists>d. decodeOneTimePreKey k = Inr d)"

lemma decodable_simps [simp]:
  "decodable []" "decodable (k # ks) \<longleftrightarrow> (\<exists>d. decodeOneTimePreKey k = Inr d) \<and> decodable ks"
  "decodable (ks @ ls) \<longleftrightarrow> decodable ks \<and> decodable ls"
  by (auto simp: decodable_def)

lemma decodable_subset: "decodable ks \<Longrightarrow> set ls \<subseteq> set ks \<Longrightarrow> decodable ls"
  by (auto simp: decodable_def)

lemma decodable_parts [simp]: "decodable ks \<Longrightarrow> decodable (tl ks)" "decodable ks \<Longrightarrow> decodable (slice i j ks)"
  by (auto elim!: decodable_subset simp: slice_def dest: in_set_takeD in_set_dropD list.set_sel(2)[rotated]) (metis list.sel(2) list.set_sel(2))

lemma check_one_time_decodable: "check_one_time ks = None \<Longrightarrow> decodable (well_formed ks)"
  by (induction ks rule: check_one_time.induct) (auto simp: well_formed_def split: sum.splits)

definition verified_account :: "noble \<Rightarrow> string \<Rightarrow> account_record \<Rightarrow> bool" where
  "verified_account N a r \<longleftrightarrow> ac_address r = a \<and>
     length (ac_oneTimePreKeys r) \<le> maxOneTimePreKeys \<and> length (ac_oneTimeKemPreKeys r) \<le> maxOneTimePreKeys \<and>
     decodable (ac_oneTimePreKeys r) \<and> decodable (ac_oneTimeKemPreKeys r) \<and>
     (\<exists>i s k. decodeIdentity (ac_identity r) = Inr i \<and> addressOf N i = Inr a \<and>
        decodeSignedPreKey (ac_signedPreKey r) = Inr s \<and> decodeSignedPreKey (ac_signedKemPreKey r) = Inr k \<and>
        verifyPreKeyBundle N \<lparr>identity = i, signedPreKey = s, signedKemPreKey = k,
          oneTimePreKey = None, oneTimeKemPreKey = None\<rparr> = Inr ())"

definition store_safe :: "noble \<Rightarrow> relay_store \<Rightarrow> bool" where
  "store_safe N s \<longleftrightarrow> capacity_ok s \<and> (\<forall>a r. getAccount a s = Some r \<longrightarrow> verified_account N a r) \<and>
     (\<forall>a. \<forall>m \<in> set (mailbox s a). we_recipient (qm_envelope m) = a)"

lemma verifyPublished_ok:
  assumes "verifyPublishedPreKeys N p = Inr (Inr (a, i))"
  shows "\<exists>s k. decodeIdentity (pk_identity p) = Inr i \<and> addressOf N i = Inr a \<and>
    (\<exists>ws wk. pk_signedPreKey p = Some ws \<and> pk_signedKemPreKey p = Some wk \<and>
      decodeSignedPreKey ws = Inr s \<and> decodeSignedPreKey wk = Inr k) \<and>
    verifyPreKeyBundle N \<lparr>identity = i, signedPreKey = s, signedKemPreKey = k,
      oneTimePreKey = None, oneTimeKemPreKey = None\<rparr> = Inr () \<and>
    decodable (well_formed (or_nil (pk_oneTimePreKeys p))) \<and> decodable (well_formed (or_nil (pk_oneTimeKemPreKeys p)))"
proof -
  have "check_one_time (or_nil (pk_oneTimePreKeys p) @ or_nil (pk_oneTimeKemPreKeys p)) = None"
    using assms by (auto simp: verifyPublishedPreKeys_def split: sum.splits option.splits)
  from check_one_time_decodable[OF this]
  have "decodable (well_formed (or_nil (pk_oneTimePreKeys p))) \<and> decodable (well_formed (or_nil (pk_oneTimeKemPreKeys p)))"
    by (simp add: well_formed_def)
  with assms show ?thesis by (auto simp: verifyPublishedPreKeys_def rbind_eq_Inr split: sum.splits option.splits)
qed

lemma length_slice0: "length (slice 0 n xs) \<le> n"
  by (simp add: slice_def)

lemma store_safe_queue_ops:
  assumes "store_safe N s"
  shows "store_safe N (enqueue m s)" "store_safe N (snd (acknowledge a ids s))" "store_safe N (snd (expire now s))"
proof -
  have cap: "\<forall>a. length (mailbox s a) \<le> maxQueueLength" using assms by (simp add: store_safe_def capacity_ok_def)
  have own: "\<forall>a. \<forall>m \<in> set (mailbox s a). we_recipient (qm_envelope m) = a" using assms by (simp add: store_safe_def)
  have sub: "m' \<in> set q" if "m' \<in> set (newest q)" for m' and q :: "queued_message list"
    using that in_set_dropD unfolding newest_def by fast
  have "\<forall>a. \<forall>m' \<in> set (mailbox (enqueue m s) a). we_recipient (qm_envelope m') = a"

  proof (intro allI ballI)
    fix a m' assume "m' \<in> set (mailbox (enqueue m s) a)"
    then have "m' \<in> set (mailbox s a) \<or> m' = m \<and> a = we_recipient (qm_envelope m)"
      using sub[of m' "mailbox s (we_recipient (qm_envelope m)) @ [m]"] by (auto simp: mail.box_enq split: if_splits)
    then show "we_recipient (qm_envelope m') = a" using own by blast
  qed
  moreover have "capacity_ok (enqueue m s)" using cap mail.capacity_enq by (simp add: capacity_ok_def)
  ultimately show "store_safe N (enqueue m s)" using assms by (simp add: store_safe_def)
  show "store_safe N (snd (acknowledge a ids s))"
    using assms cap mail.capacity_ack[of s] by (auto simp: store_safe_def capacity_ok_def mail.box_ack)
  show "store_safe N (snd (expire now s))"
    using assms cap mail.capacity_exp[of s] by (auto simp: store_safe_def capacity_ok_def mail.box_exp)
qed

lemma store_safe_account_ops:
  assumes "store_safe N s"
  shows "verified_account N (ac_address r) r \<Longrightarrow> store_safe N (createAccount r s)"
    and "store_safe N (snd (takeOneTimePreKeys a s))"
    and "(\<And>r. getAccount a s = Some r \<Longrightarrow> verified_account N a (the (getAccount a (updatePreKeys a u s)))) \<Longrightarrow>
      store_safe N (updatePreKeys a u s)"
proof -
  note s = assms[unfolded store_safe_def]
  have "capacity_ok (createAccount r s) = capacity_ok s" "capacity_ok (snd (takeOneTimePreKeys a s)) = capacity_ok s"
    "capacity_ok (updatePreKeys a u s) = capacity_ok s"
    by (simp_all add: capacity_ok_def mailbox_unchanged)
  note c = this mailbox_unchanged
  show "verified_account N (ac_address r) r \<Longrightarrow> store_safe N (createAccount r s)"
    using s by (simp add: store_safe_def c)
  have "verified_account N a (r\<lparr>ac_oneTimePreKeys := tl (ac_oneTimePreKeys r), ac_oneTimeKemPreKeys := tl (ac_oneTimeKemPreKeys r)\<rparr>)"
    if "verified_account N a r" for r
    using that by (auto simp: verified_account_def)
  then show "store_safe N (snd (takeOneTimePreKeys a s))"
    using s by (auto simp: store_safe_def c getAccount_take)
  show "store_safe N (updatePreKeys a u s)"
    if "\<And>r. getAccount a s = Some r \<Longrightarrow> verified_account N a (the (getAccount a (updatePreKeys a u s)))"
    using s that by (auto simp: store_safe_def c getAccount_update)
qed

lemma verified_update:
  assumes "verified_account N a r" and "getAccount a s = Some r"
    and "verifyPublishedPreKeys N \<lparr>pk_identity = ac_identity r,
       pk_signedPreKey = Some (or_else sp (ac_signedPreKey r)), pk_signedKemPreKey = Some (or_else kp (ac_signedKemPreKey r)),
       pk_oneTimePreKeys = Some (or_nil u1), pk_oneTimeKemPreKeys = Some (or_nil u2)\<rparr> = Inr (Inr (a', i))"
  shows "verified_account N a (the (getAccount a (updatePreKeys a
    \<lparr>up_signedPreKey = sp, up_signedKemPreKey = kp, up_oneTimePreKeys = map_option well_formed u1,
     up_oneTimeKemPreKeys = map_option well_formed u2\<rparr> s)))"
proof -
  obtain s' k' where v: "decodeIdentity (ac_identity r) = Inr i" "addressOf N i = Inr a'"
    "decodeSignedPreKey (or_else sp (ac_signedPreKey r)) = Inr s'" "decodeSignedPreKey (or_else kp (ac_signedKemPreKey r)) = Inr k'"
    "verifyPreKeyBundle N \<lparr>identity = i, signedPreKey = s', signedKemPreKey = k', oneTimePreKey = None, oneTimeKemPreKey = None\<rparr> = Inr ()"
    "decodable (well_formed (or_nil u1))" "decodable (well_formed (or_nil u2))"
    using verifyPublished_ok[OF assms(3)] by auto
  with assms(1,2) show ?thesis
    using length_slice0 by (auto simp: verified_account_def getAccount_update or_else_def split: option.splits)
qed

text \<open>A bundle served from a verified account decodes, and fails the client's check by lengths only.\<close>

lemma served_keys:
  "fst (fst (takeOneTimePreKeys a st)) = Some k \<Longrightarrow> getAccount a st = Some r \<Longrightarrow> k \<in> set (ac_oneTimePreKeys r)"
  "snd (fst (takeOneTimePreKeys a st)) = Some k \<Longrightarrow> getAccount a st = Some r \<Longrightarrow> k \<in> set (ac_oneTimeKemPreKeys r)"
  by (auto simp: takeOneTimePreKeys_def getAccount_def shift_def Let_def split: option.splits list.splits)

lemma verify_bundle_split:
  "verifyPreKeyBundle N b = Inr () \<longleftrightarrow>
     verifyPreKeyBundle N (b\<lparr>oneTimePreKey := None, oneTimeKemPreKey := None\<rparr>) = Inr () \<and>
     (\<forall>k. oneTimePreKey b = Some k \<longrightarrow> length (otk_public k) = 32) \<and>
     (\<forall>k. oneTimeKemPreKey b = Some k \<longrightarrow> length (otk_public k) = 1568)"
  by (auto simp: verifyPreKeyBundle_def rbind_eq_Inr guard_eq_Inr Let_def split: option.splits)

lemma served_decodes:
  assumes "verified_account N a r" and "br_identity b = ac_identity r"
    and "br_signedPreKey b = ac_signedPreKey r" and "br_signedKemPreKey b = ac_signedKemPreKey r"
    and "\<forall>k. br_oneTimePreKey b = Some k \<longrightarrow> k \<in> set (ac_oneTimePreKeys r)"
    and "\<forall>k. br_oneTimeKemPreKey b = Some k \<longrightarrow> k \<in> set (ac_oneTimeKemPreKeys r)"
  shows "\<exists>bundle. decodeBundle b = Inr bundle \<and> addressOf N (identity bundle) = Inr a \<and>
    (verifyPreKeyBundle N bundle = Inr () \<longleftrightarrow>
      (\<forall>k. oneTimePreKey bundle = Some k \<longrightarrow> length (otk_public k) = 32) \<and>
      (\<forall>k. oneTimeKemPreKey bundle = Some k \<longrightarrow> length (otk_public k) = 1568))"
proof -
  obtain i s k where v: "decodeIdentity (ac_identity r) = Inr i" "addressOf N i = Inr a"
    "decodeSignedPreKey (ac_signedPreKey r) = Inr s" "decodeSignedPreKey (ac_signedKemPreKey r) = Inr k"
    "verifyPreKeyBundle N \<lparr>identity = i, signedPreKey = s, signedKemPreKey = k, oneTimePreKey = None, oneTimeKemPreKey = None\<rparr> = Inr ()"
    using assms(1) by (auto simp: verified_account_def)
  have opt: "\<exists>d. decode_optional x = Inr d" if "\<forall>k. x = Some k \<longrightarrow> k \<in> set ks" "decodable ks" for x ks
    using that by (cases x) (auto simp: decodable_def decode_optional_def)
  obtain d1 d2 where "decode_optional (br_oneTimePreKey b) = Inr d1" "decode_optional (br_oneTimeKemPreKey b) = Inr d2"
    using opt[OF assms(5)] opt[OF assms(6)] assms(1) by (auto simp: verified_account_def)
  with v assms(2-4) have "decodeBundle b = Inr \<lparr>identity = i, signedPreKey = s, signedKemPreKey = k, oneTimePreKey = d1, oneTimeKemPreKey = d2\<rparr>"
    by (simp add: decodeBundle_def)
  with v show ?thesis
    using verify_bundle_split[of N "\<lparr>identity = i, signedPreKey = s, signedKemPreKey = k, oneTimePreKey = d1, oneTimeKemPreKey = d2\<rparr>"] by simp
qed

section \<open>Sockets and tokens\<close>

text \<open>Every open challenge was given for its address, and every token earned.\<close>

definition auth_safe :: "noble \<Rightarrow> relay_event list \<Rightarrow> auth_service \<Rightarrow> bool" where
  "auth_safe N tr a \<longleftrightarrow> js_ok (challenges a) \<and> js_ok (tokens a) \<and>
     (\<forall>c r. js_get (challenges a) c = Some r \<longrightarrow>
        (\<exists>e. Request e (PostChallenge (Some (ch_address r))) (200, RChallenge c (ch_expiresAt r)) \<in> set tr \<and> ch_value r = e_random e)) \<and>
     (\<forall>t r. js_get (tokens a) t = Some r \<longrightarrow> token_earned N tr t (tk_address r) (tk_expiresAt r))"

definition sockets_safe :: "noble \<Rightarrow> relay_event list \<Rightarrow> relay_state \<Rightarrow> bool" where
  "sockets_safe N tr s \<longleftrightarrow>
     (\<forall>c a. (c, Authenticated a) \<in> set (sent s) \<longrightarrow> logged_in N tr c a) \<and>
     (\<forall>a cs. js_get (sockets s) a = Some cs \<longrightarrow> (\<forall>c \<in> set cs. (c, Authenticated a) \<in> set (sent s))) \<and>
     (\<forall>c a. js_get (conn_address s) c = Some a \<longrightarrow> (c, Authenticated a) \<in> set (sent s)) \<and>
     (\<forall>c m. (c, Deliver m) \<in> set (sent s) \<longrightarrow> (c, Authenticated (we_recipient (dm_envelope m))) \<in> set (sent s))"

definition relay_safe :: "noble \<Rightarrow> relay_event list \<Rightarrow> relay_state \<Rightarrow> bool" where
  "relay_safe N tr s \<longleftrightarrow> auth_safe N tr (rs_auth s) \<and> store_safe N (rs_store s) \<and> sockets_safe N tr s \<and>
     limiter_ok (rs_limiter s)"

lemma auth_safeD:
  assumes "auth_safe N tr a"
  shows "js_ok (challenges a)" "js_ok (tokens a)"
    "js_get (challenges a) c = Some r \<Longrightarrow>
      \<exists>e. Request e (PostChallenge (Some (ch_address r))) (200, RChallenge c (ch_expiresAt r)) \<in> set tr \<and> ch_value r = e_random e"
    "js_get (tokens a) t = Some q \<Longrightarrow> token_earned N tr t (tk_address q) (tk_expiresAt q)"
  using assms unfolding auth_safe_def by blast+

lemma auth_safe_mono: "auth_safe N tr a \<Longrightarrow> auth_safe N (ev # tr) a"
  unfolding auth_safe_def by (meson list.set_intros(2) token_earned_mono)

lemma sockets_safe_mono: "sockets_safe N tr s \<Longrightarrow> sockets_safe N (ev # tr) s"
  unfolding sockets_safe_def using logged_in_mono by blast

lemma relay_safe_mono: "relay_safe N tr s \<Longrightarrow> relay_safe N (ev # tr) s"
  unfolding relay_safe_def using auth_safe_mono sockets_safe_mono by blast

text \<open>An auth service that only lost challenges and tokens.\<close>

lemma auth_safe_less:
  assumes "auth_safe N tr a" and "js_ok (challenges b)" and "js_ok (tokens b)"
    and "\<And>c r. js_get (challenges b) c = Some r \<Longrightarrow> js_get (challenges a) c = Some r"
    and "\<And>t r. js_get (tokens b) t = Some r \<Longrightarrow> js_get (tokens a) t = Some r"
  shows "auth_safe N tr b"
  unfolding auth_safe_def using assms(2-3) auth_safeD(3,4)[OF assms(1)] assms(4,5) by blast

lemma auth_safe_resolve:
  assumes "auth_safe N tr a" and "resolve now tok a = (r, a')"
  shows "auth_safe N tr a'"
proof (rule auth_safe_less[OF assms(1)])
  show "js_ok (challenges a')" using auth_safeD(1)[OF assms(1)] resolve_facts(1)[OF assms(2)] by simp
  show "js_ok (tokens a')"
    using assms(2) auth_safeD(2)[OF assms(1)] by (auto simp: resolve_def split: option.splits if_splits)
qed (use resolve_facts[OF assms(2)] in auto)

lemma auth_safe_prune:
  assumes "auth_safe N tr a"
  shows "auth_safe N tr (prune now a)"
proof (rule auth_safe_less[OF assms])
  note ok = auth_safeD(1,2)[OF assms]
  show "js_ok (challenges (prune now a))" "js_ok (tokens (prune now a))" using ok by (simp_all add: prune_def)
  show "js_get (challenges (prune now a)) c = Some r \<Longrightarrow> js_get (challenges a) c = Some r"
    "js_get (tokens (prune now a)) t = Some q \<Longrightarrow> js_get (tokens a) t = Some q" for c r t q
    using ok map_of_filter_Some[of "challenges a"] map_of_filter_Some[of "tokens a"]
    by (simp_all add: prune_def js_ok_def)
qed

lemma resolve_earned:
  assumes "auth_safe N tr a" and "resolve now tok a = (Some addr, a')"
  shows "\<exists>t x. tok = Some t \<and> token_earned N tr t addr x \<and> now \<le> x"
proof -
  obtain t r where t: "tok = Some t" "js_get (tokens a) t = Some r" "tk_address r = addr" "now \<le> tk_expiresAt r"
    using resolve_facts(3)[OF assms(2) refl] by blast
  with auth_safeD(4)[OF assms(1) t(2)] show ?thesis by auto
qed

lemma sockets_safe_same:
  assumes "sockets_safe N tr s" and "sockets s' = sockets s" "conn_address s' = conn_address s" "sent s' = sent s"
  shows "sockets_safe N tr s'"
  using assms by (simp add: sockets_safe_def)

lemma sockets_safe_plain:
  assumes "sockets_safe N tr s" and "\<And>a. m \<noteq> Authenticated a" and "\<And>d. m \<noteq> Deliver d"
  shows "sockets_safe N tr (send_to c m s)"
  using assms by (auto simp: sockets_safe_def send_to_def)

lemma sockets_safe_push:
  assumes "sockets_safe N tr s"
  shows "sockets_safe N tr (pushToAddress (we_recipient (dm_envelope m)) (Deliver m) s)"
  using assms by (auto simp: sockets_safe_def pushToAddress_def split: option.splits)

lemma js_starts_with_split: "js_starts_with h p \<Longrightarrow> h = p @ drop (length p) h"
  unfolding js_starts_with_def by (metis append_take_drop_id)

lemma requireAuth_facts:
  assumes "requireAuth e header s = (r, s')" and "relay_safe N tr s"
  shows "relay_safe N tr s'" and "r = Some a \<Longrightarrow> header_earned N tr e header a" and "rs_store s' = rs_store s"
proof -
  have fields: "rs_store s' = rs_store s" "sockets s' = sockets s" "conn_address s' = conn_address s"
      "sent s' = sent s" "rs_limiter s' = rs_limiter s"
    using assms(1) by (auto simp: requireAuth_def Let_def case_prod_unfold split: option.splits if_splits)
  show "rs_store s' = rs_store s" by (rule fields(1))
  have "auth_safe N tr (rs_auth s') \<and> (r = Some a \<longrightarrow> header_earned N tr e header a)"
  proof (cases "header = None \<or> \<not> js_starts_with (the header) ''Bearer ''")
    case True
    with assms show ?thesis by (auto simp: requireAuth_def relay_safe_def split: option.splits if_splits)
  next
    case False
    then obtain x where x: "header = Some x" "js_starts_with x ''Bearer ''" by auto
    with assms(1) have r: "resolve (e_now e) (Some (drop 7 x)) (rs_auth s) = (r, rs_auth s')"
      by (auto simp: requireAuth_def Let_def case_prod_unfold)
    have "header = Some (''Bearer '' @ drop 7 x)"
      using js_starts_with_split[OF x(2)] x(1) by (simp del: append_Cons append_Nil add: eval_nat_numeral)
    with r assms(2) auth_safe_resolve[OF _ r] resolve_earned[of N tr "rs_auth s" "e_now e" "Some (drop 7 x)" a "rs_auth s'"]
    show ?thesis unfolding relay_safe_def header_earned_def by auto
  qed
  with fields assms(2) show "relay_safe N tr s'" and "r = Some a \<Longrightarrow> header_earned N tr e header a"
    using sockets_safe_same[of N tr s s'] by (auto simp: relay_safe_def)
qed

section \<open>Every event keeps the relay safe\<close>

lemma relay_safe_store:
  "relay_safe N tr s \<Longrightarrow> store_safe N st \<Longrightarrow> relay_safe N tr (s\<lparr>rs_store := st\<rparr>)"
  using sockets_safe_same[of N tr s "s\<lparr>rs_store := st\<rparr>"] by (simp add: relay_safe_def)

lemma relay_safe_sockets:
  "relay_safe N tr s \<Longrightarrow> sockets_safe N tr s' \<Longrightarrow> rs_store s' = rs_store s \<Longrightarrow> rs_auth s' = rs_auth s \<Longrightarrow>
    rs_limiter s' = rs_limiter s \<Longrightarrow> relay_safe N tr s'"
  by (simp add: relay_safe_def)

lemma relay_safe_auth:
  "relay_safe N tr s \<Longrightarrow> auth_safe N tr au \<Longrightarrow> relay_safe N tr (s\<lparr>rs_auth := au\<rparr>)"
  using sockets_safe_same[of N tr s "s\<lparr>rs_auth := au\<rparr>"] by (simp add: relay_safe_def)

lemma relay_safe_send: "relay_safe N tr s \<Longrightarrow> (\<And>a. m \<noteq> Authenticated a) \<Longrightarrow> (\<And>d. m \<noteq> Deliver d) \<Longrightarrow> relay_safe N tr (send_to c m s)"
  by (rule relay_safe_sockets) (auto simp: relay_safe_def send_to_def intro: sockets_safe_plain[unfolded send_to_def])

lemma postAccounts_safe:
  assumes "relay_safe N tr s"
  shows "relay_safe N tr (snd (postAccounts N b s))"
proof -
  have created: "relay_safe N tr (s\<lparr>rs_store := createAccount \<lparr>ac_address = a, ac_identity = i,
      ac_signedPreKey = the (rb_signedPreKey b'), ac_signedKemPreKey = the (rb_signedKemPreKey b'),
      ac_oneTimePreKeys = slice 0 maxOneTimePreKeys (well_formed (or_nil o1)),
      ac_oneTimeKemPreKeys = slice 0 maxOneTimePreKeys (well_formed (or_nil o2))\<rparr> (rs_store s)\<rparr>)"
    if "verifyPublishedPreKeys N \<lparr>pk_identity = i, pk_signedPreKey = rb_signedPreKey b',
       pk_signedKemPreKey = rb_signedKemPreKey b', pk_oneTimePreKeys = o1, pk_oneTimeKemPreKeys = o2\<rparr> = Inr (Inr (a, j))"
    for a i b' o1 o2 j
  proof (intro relay_safe_store store_safe_account_ops(1))
    show "relay_safe N tr s" by (rule assms)
    show "store_safe N (rs_store s)" using assms by (simp add: relay_safe_def)
  qed (use verifyPublished_ok[OF that] length_slice0 in \<open>auto simp: verified_account_def\<close>)
  show ?thesis
    using assms by (auto simp: postAccounts_def intro: created split: option.splits sum.splits prod.splits)
qed

lemma auth_safe_issue:
  assumes "auth_safe N tr a" and "Request e (PostChallenge (Some b)) (200, RChallenge c x) \<in> set tr"
  shows "auth_safe N tr (a\<lparr>challenges := js_set c \<lparr>ch_address = b, ch_value = e_random e, ch_expiresAt = x\<rparr> (challenges a)\<rparr>)"
  using assms unfolding auth_safe_def by auto

lemma postChallenge_safe:
  assumes "relay_safe N tr s"
  shows "relay_safe N (Request e (PostChallenge a) (fst (postChallenge e a s)) # tr) (snd (postChallenge e a s))"
proof (cases "truthy a")
  case True
  then obtain b where b: "a = Some b" by (auto simp: truthy_def)
  let ?ev = "Request e (PostChallenge a) (fst (postChallenge e a s))"
  let ?au = "snd (issueChallenge (e_now e) (e_random e) b (rs_auth s))"
  have old: "auth_safe N (?ev # tr) (rs_auth s)" using assms auth_safe_mono by (auto simp: relay_safe_def)
  have "Request e (PostChallenge (Some b)) (200, RChallenge (toBase64Url (e_random e)) (e_now e + challengeTtlMs)) \<in> set (?ev # tr)"
    using True by (simp add: postChallenge_def issueChallenge_def b Let_def)
  from auth_safe_issue[OF old this] have "auth_safe N (?ev # tr) ?au" by (simp add: issueChallenge_def Let_def)
  from relay_safe_auth[OF relay_safe_mono[OF assms] this] True show ?thesis
    by (simp add: postChallenge_def b case_prod_unfold Let_def)
qed (use relay_safe_mono[OF assms] in \<open>simp add: postChallenge_def\<close>)

text \<open>A granted token is earned by the very request that got it.\<close>

lemma granted_earned:
  assumes "relay_safe N tr s" and acct: "getAccount a (rs_store s) = Some acct"
    and au: "authenticate N (e_now e) (e_now2 e) (e_random e) a c g (w_signingPublicKey (ac_identity acct)) (rs_auth s) = (Some (t, x), au)"
  shows "token_earned N (Request e (PostAuth (Some a) (Some c) (Some g)) (200, RToken t x) # tr) t a x"
proof -
  have "auth_safe N tr (rs_auth s)" using assms(1) by (simp add: relay_safe_def)
  note safe = auth_safeD[OF this]
  obtain r sig p where g: "js_get (challenges (rs_auth s)) c = Some r" "\<not> ch_expiresAt r < e_now e" "ch_address r = a"
    "fromBase64Url g = Inr sig" "fromBase64Url (w_signingPublicKey (ac_identity acct)) = Inr p"
    "verify N p (challengeTranscript a (ch_value r)) sig"
    using authenticate_granted[OF au] by blast
  have "addressOfKey N p = Inr a"
    using assms(1) acct g(5) by (auto simp: relay_safe_def store_safe_def verified_account_def decodeIdentity_def
        rbind_eq_Inr addressOf_def dest!: spec)
  moreover obtain e1 where "Request e1 (PostChallenge (Some a)) (200, RChallenge c (ch_expiresAt r)) \<in> set tr" "ch_value r = e_random e1"
    using safe(3)[OF g(1)] g(3) by blast
  ultimately show ?thesis unfolding token_earned_def
    by (intro exI[of _ "[]"] exI[of _ tr] exI[of _ e] exI[of _ c] exI[of _ g] exI[of _ sig] exI[of _ p] exI[of _ e1]
        exI[of _ "ch_expiresAt r"]) (use g in auto)
qed

lemma postAuth_safe:
  assumes "relay_safe N tr s"
  shows "relay_safe N (Request e (PostAuth a c g) (fst (postAuth N e a c g s)) # tr) (snd (postAuth N e a c g s))"
proof (cases "\<not> truthy a \<or> \<not> truthy c \<or> \<not> truthy g \<or> getAccount (the a) (rs_store s) = None")
  case True
  with relay_safe_mono[OF assms] show ?thesis by (auto simp: postAuth_def)
next
  case False
  then obtain a' c' g' where f: "a = Some a'" "c = Some c'" "g = Some g'"
    by (cases a; cases c; cases g) (simp_all add: truthy_def)
  then obtain acct where acct: "getAccount a' (rs_store s) = Some acct" using False by auto
  obtain r au where au: "authenticate N (e_now e) (e_now2 e) (e_random e) a' c' g' (w_signingPublicKey (ac_identity acct)) (rs_auth s) = (r, au)"
    by (metis prod.exhaust)
  let ?ev = "Request e (PostAuth a c g) (fst (postAuth N e a c g s))"
  have post: "postAuth N e a c g s = ((case r of None \<Rightarrow> (401, RError ''authentication failed'') | Some (t, x) \<Rightarrow> (200, RToken t x)),
      s\<lparr>rs_auth := au\<rparr>)"
    using False by (simp add: postAuth_def f acct au split: option.split)
  have "auth_safe N tr (rs_auth s)" using assms by (simp add: relay_safe_def)
  note old = auth_safe_mono[OF this, of ?ev]
  have ch: "challenges au = js_delete c' (challenges (rs_auth s))" by (rule authenticate_challenges[OF au])
  have "auth_safe N (?ev # tr) au"
  proof (cases r)
    case None
    note tk = authenticate_refused[OF au[unfolded None]]
    show ?thesis by (rule auth_safe_less[OF old]) (use auth_safeD(1,2)[OF old] in \<open>auto simp: ch tk split: if_splits\<close>)
  next
    case (Some tx)
    obtain t x where tx: "r = Some (t, x)" using Some by (cases tx) auto
    have earned: "token_earned N (?ev # tr) t a' x"
      using granted_earned[OF assms acct au[unfolded tx]] unfolding post[unfolded f] fst_conv tx f by simp
    have tk: "tokens au = js_set t \<lparr>tk_address = a', tk_expiresAt = x\<rparr> (tokens (rs_auth s))"
      using authenticate_granted[OF au[unfolded tx]] by blast
    show ?thesis using old earned unfolding auth_safe_def ch tk by (auto split: if_splits)
  qed
  from relay_safe_auth[OF relay_safe_mono[OF assms] this] show ?thesis by (simp add: post)
qed

lemma getKeys_safe: "relay_safe N tr s \<Longrightarrow> relay_safe N tr (snd (getKeys a s))"
proof -
  assume s: "relay_safe N tr s"
  then have "store_safe N (snd (takeOneTimePreKeys b (rs_store s)))" for b
    by (simp add: relay_safe_def store_safe_account_ops(2))
  with relay_safe_store[OF s] s show ?thesis
    by (auto simp: getKeys_def Let_def case_prod_unfold split: option.splits)
qed

lemma postKeys_safe:
  assumes "relay_safe N tr s"
  shows "relay_safe N tr (snd (postKeys N e hdr b s))"
proof -
  obtain r s1 where r: "requireAuth e hdr s = (r, s1)" by fastforce
  note s1 = requireAuth_facts(1)[OF r assms]
  have upd: "relay_safe N tr (s1\<lparr>rs_store := updatePreKeys a \<lparr>up_signedPreKey = sp, up_signedKemPreKey = kp,
      up_oneTimePreKeys = map_option well_formed u1, up_oneTimeKemPreKeys = map_option well_formed u2\<rparr> (rs_store s1)\<rparr>)"
    if a: "getAccount a (rs_store s1) = Some acct"
      and v: "verifyPublishedPreKeys N \<lparr>pk_identity = ac_identity acct,
       pk_signedPreKey = Some (or_else sp (ac_signedPreKey acct)), pk_signedKemPreKey = Some (or_else kp (ac_signedKemPreKey acct)),
       pk_oneTimePreKeys = Some (or_nil u1), pk_oneTimeKemPreKeys = Some (or_nil u2)\<rparr> = Inr (Inr (a', i))"
    for a acct sp kp u1 u2 a' i
  proof (rule relay_safe_store[OF s1], rule store_safe_account_ops(3))
    show st: "store_safe N (rs_store s1)" using s1 by (simp add: relay_safe_def)
    then have "verified_account N a acct" using a by (simp add: store_safe_def)
    from verified_update[OF this a v]
    show "verified_account N a (the (getAccount a (updatePreKeys a \<lparr>up_signedPreKey = sp, up_signedKemPreKey = kp,
      up_oneTimePreKeys = map_option well_formed u1, up_oneTimeKemPreKeys = map_option well_formed u2\<rparr> (rs_store s1))))" by simp
  qed
  show ?thesis using s1 upd
    by (auto simp: postKeys_def r Let_def split: option.splits sum.splits prod.splits)
qed

lemma accept_envelope_safe: "relay_safe N tr s \<Longrightarrow> relay_safe N tr (accept_envelope e env s)"
proof -
  assume s: "relay_safe N tr s"
  let ?m = "\<lparr>qm_id = toHex (e_random e), qm_envelope = env, qm_receivedAt = e_now e\<rparr>"
  let ?s1 = "s\<lparr>rs_store := enqueue ?m (rs_store s)\<rparr>"
  have s1: "relay_safe N tr ?s1" using s by (intro relay_safe_store store_safe_queue_ops(1)) (auto simp: relay_safe_def)
  have env: "we_recipient env = we_recipient (dm_envelope (deliveryOf ?m))" by (simp add: deliveryOf_def)
  have "sockets_safe N tr (pushToAddress (we_recipient env) (Deliver (deliveryOf ?m)) ?s1)"
    unfolding env by (rule sockets_safe_push) (use s1 in \<open>simp add: relay_safe_def\<close>)
  then show ?thesis unfolding accept_envelope_def Let_def
    by (rule relay_safe_sockets[OF s1]) (auto simp: pushToAddress_def split: option.splits)
qed

lemma postMessages_safe: "relay_safe N tr s \<Longrightarrow> relay_safe N tr (snd (postMessages e ip b s))"
proof -
  assume s: "relay_safe N tr s"
  let ?s1 = "s\<lparr>rs_limiter := snd (allow (e_now e) ip (rs_limiter s))\<rparr>"
  have s1: "relay_safe N tr ?s1"
    using s allow_ok sockets_safe_same[of N tr s ?s1] by (auto simp: relay_safe_def)
  with accept_envelope_safe[OF s1] show ?thesis
    by (auto simp: postMessages_def Let_def case_prod_unfold split: option.splits)
qed

lemma postAcknowledge_safe: "relay_safe N tr s \<Longrightarrow> relay_safe N tr (snd (postAcknowledge e hdr ids s))"
proof -
  assume s: "relay_safe N tr s"
  obtain r s1 where r: "requireAuth e hdr s = (r, s1)" by fastforce
  note s1 = requireAuth_facts(1)[OF r s]
  then have "store_safe N (snd (acknowledge a l (rs_store s1)))" for a l
    by (simp add: relay_safe_def store_safe_queue_ops(2))
  with relay_safe_store[OF s1] s1 show ?thesis
    by (auto simp: postAcknowledge_def r Let_def case_prod_unfold split: option.splits)
qed

lemma route_safe:
  assumes "relay_safe N tr s"
  shows "relay_safe N (Request e rq (fst (route N e rq s)) # tr) (snd (route N e rq s))"
proof (cases rq)
  case (PostChallenge a)
  then show ?thesis using postChallenge_safe[OF assms] by simp
next
  case (PostAuth a c g)
  then show ?thesis using postAuth_safe[OF assms] by simp
next
  case (GetKeyCount hdr)
  obtain r s1 where r: "requireAuth e hdr s = (r, s1)" by fastforce
  then show ?thesis using relay_safe_mono[OF requireAuth_facts(1)[OF r assms]] GetKeyCount
    by (auto simp: getKeyCount_def split: option.splits)
next
  case (GetMessages hdr)
  obtain r s1 where r: "requireAuth e hdr s = (r, s1)" by fastforce
  then show ?thesis using relay_safe_mono[OF requireAuth_facts(1)[OF r assms]] GetMessages by (auto simp: getMessages_def)
qed (use assms postAccounts_safe getKeys_safe postKeys_safe postMessages_safe postAcknowledge_safe in
    \<open>auto intro!: relay_safe_mono\<close>)

lemma frame_logs_in:
  assumes "auth_safe N tr (rs_auth s)" and "json_parse raw = Some v" and "prop_of ''type'' v = Some (JStr ''authenticate'')"
    and "resolve (e_now e) (frame_token v) (rs_auth s) = (Some a, au)"
  shows "logged_in N (Frame e c raw # tr) c a"
proof -
  obtain t x where t: "frame_token v = Some t" "token_earned N tr t a x" "e_now e \<le> x"
    using resolve_earned[OF assms(1,4)] by blast
  then have "prop_of ''token'' v = Some (JStr t)" by (auto simp: frame_token_def split: option.splits json.splits)
  with t assms(2,3) show ?thesis unfolding logged_in_def
    by (intro exI[of _ "[]"] exI[of _ tr] exI[of _ e] exI[of _ raw] exI[of _ v] exI[of _ t] exI[of _ x]) simp
qed

lemma authenticate_socket_safe:
  assumes safe: "relay_safe N tr s" and v: "json_parse raw = Some v" "prop_of ''type'' v = Some (JStr ''authenticate'')"
  shows "relay_safe N (Frame e c raw # tr) (authenticate_socket e c (frame_token v) s)"
proof -
  let ?tr = "Frame e c raw # tr" and ?tok = "frame_token v"
  obtain r au where r: "resolve (e_now e) ?tok (rs_auth s) = (r, au)" by fastforce
  note s0 = relay_safe_mono[OF safe, of "Frame e c raw"]
  have au: "auth_safe N ?tr au" using s0 r auth_safe_resolve unfolding relay_safe_def by blast
  note s1 = relay_safe_auth[OF s0 au]
  show ?thesis
  proof (cases "truthy r")
    case False
    with relay_safe_send[OF s1, of "ErrorMsg ''unauthorized''" c] show ?thesis
      by (simp add: authenticate_socket_def r)
  next
    case True
    then obtain a where a: "r = Some a" by (auto simp: truthy_def)
    have p: "logged_in N ?tr c a"
      using frame_logs_in[OF _ v r[unfolded a]] safe by (simp add: relay_safe_def)
    have own: "\<forall>m \<in> set (mailbox (rs_store s) a). we_recipient (qm_envelope m) = a"
      using safe by (simp add: relay_safe_def store_safe_def)
    have k: "sockets_safe N ?tr s" using s0 by (simp add: relay_safe_def)
    define conns where "conns = (case js_get (sockets s) a of None \<Rightarrow> [] | Some cs \<Rightarrow> cs)"
    have conns: "\<forall>d \<in> set conns. (d, Authenticated a) \<in> set (sent s)"
      using k by (cases "js_get (sockets s) a") (simp_all add: conns_def sockets_safe_def)
    define conns' where "conns' = (if c \<in> set conns then conns else conns @ [c])"
    have conns': "\<forall>d \<in> set conns'. d = c \<or> (d, Authenticated a) \<in> set (sent s)" using conns by (auto simp: conns'_def)
    have eq: "authenticate_socket e c ?tok s = s\<lparr>rs_auth := au, conn_address := js_set c a (conn_address s),
        sockets := js_set a conns' (sockets s),
        sent := sent s @ (c, Authenticated a) # map (\<lambda>m. (c, Deliver (deliveryOf m))) (mailbox (rs_store s) a)\<rparr>"
      using True by (cases "js_get (sockets s) a")
        (simp_all add: authenticate_socket_def r a conns'_def conns_def Let_def send_to_def mailbox_def)
    have "sockets_safe N ?tr (authenticate_socket e c ?tok s)"
      using k p own conns' unfolding sockets_safe_def eq by (auto simp: deliveryOf_def split: if_splits)
    then show ?thesis
      by (rule relay_safe_sockets[OF s1]) (use True in \<open>auto simp: authenticate_socket_def r send_to_def Let_def\<close>)
  qed
qed

lemma socketMessage_cases:
  assumes "socketMessage e c raw s = Some (Inr s')"
  obtains (auth) v where "json_parse raw = Some v" "prop_of ''type'' v = Some (JStr ''authenticate'')"
      "s' = authenticate_socket e c (frame_token v) s"
  | (send) b where "s' = send_socket e c b s"
  | (ack) v where "json_parse raw = Some v" "prop_of ''type'' v = Some (JStr ''acknowledge'')"
      "acknowledge_socket c (prop_of ''ids'' v) s = Inr s'"
  | (reply) m where "s' = send_to c m s" "\<And>a. m \<noteq> Authenticated a" "\<And>d. m \<noteq> Deliver d"
  using assms by (auto simp: socketMessage_def socket_value_def split: option.splits if_splits)

lemma socketMessage_safe:
  assumes safe: "relay_safe N tr s" and "socketMessage e c raw s = Some (Inr s')"
  shows "relay_safe N (Frame e c raw # tr) s'"
  using assms(2)
proof (cases rule: socketMessage_cases)
  case (auth v)
  with authenticate_socket_safe[OF safe] show ?thesis by simp
next
  case (send b)
  have "relay_safe N tr (send_socket e c b s)"
    using safe accept_envelope_safe relay_safe_send
    by (auto simp: send_socket_def Let_def split: option.splits)
  with send relay_safe_mono show ?thesis by simp
next
  case (ack v)
  have "store_safe N (snd (acknowledge a l (rs_store s)))" for a l
    using safe by (simp add: relay_safe_def store_safe_queue_ops(2))
  with ack(3) safe have "relay_safe N tr s'" using relay_safe_store[OF safe] relay_safe_send[OF safe]
    by (auto simp: acknowledge_socket_def split: option.splits if_splits)
  then show ?thesis by (rule relay_safe_mono)
next
  case (reply m)
  then show ?thesis using relay_safe_send[OF safe] relay_safe_mono by simp
qed

lemma socketClose_safe:
  assumes "relay_safe N tr s"
  shows "relay_safe N tr (socketClose c s)"
proof -
  have k: "sockets_safe N tr s" using assms by (simp add: relay_safe_def)
  have "sockets_safe N tr (socketClose c s)"
    using k unfolding sockets_safe_def by (auto simp: socketClose_def Let_def split: option.splits if_splits)
  then show ?thesis
    by (rule relay_safe_sockets[OF assms]) (auto simp: socketClose_def Let_def split: option.splits)
qed

lemma housekeeping_safe:
  assumes "relay_safe N tr s"
  shows "relay_safe N tr (housekeeping now s)"
proof -
  have "auth_safe N tr (prune now (rs_auth s))"
    using assms auth_safe_prune by (simp add: relay_safe_def)
  moreover have "store_safe N (snd (expire now (rs_store s)))"
    using assms by (simp add: relay_safe_def store_safe_queue_ops(3))
  ultimately show ?thesis
    using assms sockets_safe_same[of N tr s "housekeeping now s"] by (simp add: relay_safe_def housekeeping_def)
qed

lemma buildRelay_safe: "relay_safe N [] (buildRelay n)"
  by (auto simp: relay_safe_def buildRelay_def auth_safe_def new_auth_def store_safe_def sockets_safe_def new_store_capacity
      new_limiter_ok mailbox_def queued_def new_relay_store_def getAccount_def)
    (simp add: capacity_ok_def mailbox_def queued_def)

lemma relay_trace_safe: "relay_trace N tr s \<Longrightarrow> relay_safe N tr s"
proof (induction rule: relay_trace.induct)
  case (build n)
  show ?case by (rule buildRelay_safe)
next
  case (request tr s e rq resp s')
  then show ?case using route_safe[of N tr s e rq] by simp
next
  case (frame tr s e c raw s')
  then show ?case using socketMessage_safe by blast
next
  case (closed tr s c)
  then show ?case using relay_safe_mono[OF socketClose_safe] by blast
next
  case (tick tr s now)
  then show ?case using relay_safe_mono[OF housekeeping_safe] by blast
qed

section \<open>Properties of the relay\<close>

text \<open>An acknowledgement over a socket touches the mailbox of the address the connection logged in for.\<close>

lemma socket_ack_mailbox:
  assumes "relay_trace N tr s" and "json_parse raw = Some v" and "prop_of ''type'' v = Some (JStr ''acknowledge'')"
    and "socketMessage e c raw s = Some (Inr s')" and "mailbox (rs_store s') a \<noteq> mailbox (rs_store s) a"
  shows "logged_in N tr c a"
proof -
  have ne: "v \<noteq> JNull" using assms(3) by (auto simp: prop_of_def)
  have "acknowledge_socket c (prop_of ''ids'' v) s = Inr s'"
    using assms(2-4) ne by (simp add: socketMessage_def socket_value_def split: if_splits)
  then have "js_get (conn_address s) c = Some a"
    using assms(5) by (auto simp: acknowledge_socket_def mail.box_ack send_to_def split: option.splits if_splits)
  then show ?thesis using relay_trace_safe[OF assms(1)] unfolding relay_safe_def sockets_safe_def by blast
qed


text \<open>C23
  The directory serves bundles a client can use: after any run of the relay, a bundle served
  for an address is decoded by the client's decoder, one-time keys included, its identity hashes
  to that address, and the client's verifier accepts it exactly if the one-time keys in it have
  the lengths of their kinds, which is the one thing the relay does not check. So one client
  cannot publish keys under another's address. The pools hold at most 500 keys, the queues at
  most 2000 messages, the limiter at most 100000 clients.
\<close>

theorem served_bundle_verifies:
  assumes "relay_reach N s"
  shows "(getKeys a s = ((200, RBundle b), s') \<longrightarrow>
      (\<exists>bundle. decodeBundle b = Inr bundle \<and> addressOf N (identity bundle) = Inr a \<and>
        (verifyPreKeyBundle N bundle = Inr () \<longleftrightarrow>
          (\<forall>k. oneTimePreKey bundle = Some k \<longrightarrow> length (otk_public k) = 32) \<and>
          (\<forall>k. oneTimeKemPreKey bundle = Some k \<longrightarrow> length (otk_public k) = 1568)))) \<and>
    length (ec_pool a (rs_store s)) \<le> 500 \<and> length (kem_pool a (rs_store s)) \<le> 500 \<and>
    length (queued a (rs_store s)) \<le> 2000 \<and> length (buckets (rs_limiter s)) \<le> 100000"
proof -
  obtain tr where tr: "relay_trace N tr s" using assms unfolding relay_reach_def by blast
  note safe = relay_trace_safe[OF tr]
  have acc: "verified_account N a r" if "getAccount a (rs_store s) = Some r" for r
    using safe that by (simp add: relay_safe_def store_safe_def)
  have "\<exists>bundle. decodeBundle b = Inr bundle \<and> addressOf N (identity bundle) = Inr a \<and>
        (verifyPreKeyBundle N bundle = Inr () \<longleftrightarrow>
          (\<forall>k. oneTimePreKey bundle = Some k \<longrightarrow> length (otk_public k) = 32) \<and>
          (\<forall>k. oneTimeKemPreKey bundle = Some k \<longrightarrow> length (otk_public k) = 1568))"
    if served: "getKeys a s = ((200, RBundle b), s')"
  proof -
    obtain r where r: "getAccount a (rs_store s) = Some r" using served by (auto simp: getKeys_def split: option.splits)
    then have "ac_address r = a" using acc by (simp add: verified_account_def)
    then have "b = \<lparr>br_identity = ac_identity r, br_signedPreKey = ac_signedPreKey r, br_signedKemPreKey = ac_signedKemPreKey r,
        br_oneTimePreKey = fst (fst (takeOneTimePreKeys a (rs_store s))), br_oneTimeKemPreKey = snd (fst (takeOneTimePreKeys a (rs_store s)))\<rparr>"
      using served r by (simp add: getKeys_def Let_def case_prod_unfold)
    then show ?thesis using served_keys[OF _ r] by (intro served_decodes[OF acc[OF r]]) simp_all
  qed
  moreover have "length (ec_pool a (rs_store s)) \<le> 500" "length (kem_pool a (rs_store s)) \<le> 500"
    using acc by (auto simp: ec_pool_def kem_pool_def verified_account_def maxOneTimePreKeys_def split: option.splits)
  moreover have "length (queued a (rs_store s)) \<le> 2000" "length (buckets (rs_limiter s)) \<le> 100000"
    using safe by (auto simp: relay_safe_def store_safe_def capacity_ok_def mailbox_def maxQueueLength_def limiter_ok_def MAX_TRACKED_KEYS_def)
  ultimately show ?thesis by blast
qed

text \<open>
  The directory cannot be probed: what the relay answers to a submitted message, and to a
  request for a challenge, does not depend on which accounts or messages it stores.
\<close>

lemma responses_hide_accounts:
  "fst (postMessages e ip b (s\<lparr>rs_store := st\<rparr>)) = fst (postMessages e ip b s) \<and>
   fst (postChallenge e a s) = fst (postChallenge e a t)"
  by (auto simp: postMessages_def postChallenge_def issueChallenge_def Let_def case_prod_unfold split: option.splits)


lemma requireAuth_bearer:
  "resolve (e_now e) (Some tok) (rs_auth s) = (Some a, rs_auth s) \<Longrightarrow> requireAuth e (Some (''Bearer '' @ tok)) s = (Some a, s)"
  by (simp add: requireAuth_def js_starts_with_def)

text \<open>The request body a client sends for an envelope.\<close>

definition body_of :: "sealed_envelope \<Rightarrow> envelope_body" where
  "body_of env = (let w = encodeEnvelope env in
     \<lparr>eb_recipient = Some (we_recipient w), eb_ephemeralPublicKey = we_ephemeralPublicKey w, eb_ciphertext = Some (we_ciphertext w)\<rparr>)"

lemma toBase64Url_empty: "toBase64Url b = '''' \<longleftrightarrow> b = []"
  using length_toBase64Url[of b] by (cases b) auto

lemma post_queues:
  assumes "fst (allow (e_now e) ip (rs_limiter s))" and "getAccount (recipientAddress env) (rs_store s) = Some acct"
    and "recipientAddress env \<noteq> ''''" and "se_ephemeralPublicKey env \<noteq> []" and "se_ciphertext env \<noteq> []"
    and "(4 * length (se_ciphertext env) + 2) div 3 \<le> maxEnvelopeBytes"
  shows "\<exists>s1. postMessages e ip (Some (body_of env)) s = ((200, RAccepted), s1) \<and> rs_auth s1 = rs_auth s \<and>
    queued (recipientAddress env) (rs_store s1) = newest (queued (recipientAddress env) (rs_store s) @
      [\<lparr>qm_id = toHex (e_random e), qm_envelope = encodeEnvelope env, qm_receivedAt = e_now e\<rparr>])"
proof -
  let ?a = "recipientAddress env"
  let ?m = "\<lparr>qm_id = toHex (e_random e), qm_envelope = encodeEnvelope env, qm_receivedAt = e_now e\<rparr>"
  let ?lim = "snd (allow (e_now e) ip (rs_limiter s))"
  define s1 where "s1 = accept_envelope e (encodeEnvelope env) (s\<lparr>rs_limiter := ?lim\<rparr>)"
  have w: "we_recipient (encodeEnvelope env) = ?a" by (simp add: encodeEnvelope_def)
  have "envelope_of (body_of env) = encodeEnvelope env" by (simp add: envelope_of_def body_of_def Let_def)
  then have post: "postMessages e ip (Some (body_of env)) s = ((200, RAccepted), s1)"
    using assms by (simp add: postMessages_def s1_def body_of_def Let_def case_prod_unfold truthy_def encodeEnvelope_def
        toBase64Url_empty length_toBase64Url)
  have f: "rs_auth s1 = rs_auth s" "rs_store s1 = enqueue ?m (rs_store s)"
    by (auto simp: s1_def accept_envelope_def pushToAddress_def Let_def split: option.splits)
  have "queued ?a (rs_store s1) = newest (queued ?a (rs_store s) @ [?m])"
    using mail.box_enq[of ?m "rs_store s" ?a] by (simp add: f(2) mailbox_def w)
  with post f(1) show ?thesis by blast
qed

lemma message_relayed_lemma:
  assumes "fst (allow (e_now e) ip (rs_limiter s))" and "getAccount (recipientAddress env) (rs_store s) = Some acct"
    and "recipientAddress env \<noteq> ''''" and "se_ephemeralPublicKey env \<noteq> []" and "se_ciphertext env \<noteq> []"
    and "(4 * length (se_ciphertext env) + 2) div 3 \<le> maxEnvelopeBytes"
    and "resolve (e_now e2) (Some tok) (rs_auth s) = (Some (recipientAddress env), rs_auth s)"
  shows "\<exists>s1 ms s2. postMessages e ip (Some (body_of env)) s = ((200, RAccepted), s1) \<and>
    getMessages e2 (Some (''Bearer '' @ tok)) s1 = ((200, RMessages ms), s1) \<and>
    ms \<noteq> [] \<and> decodeEnvelope (dm_envelope (last ms)) = Inr env \<and>
    postAcknowledge e2 (Some (''Bearer '' @ tok)) (Some [dm_id (last ms)]) s1 = ((200, RRemoved (length ms - length (queued (recipientAddress env) (rs_store s2)))), s2) \<and>
    (\<forall>m \<in> set (queued (recipientAddress env) (rs_store s2)). qm_id m \<noteq> dm_id (last ms))"
proof -
  let ?a = "recipientAddress env"
  let ?m = "\<lparr>qm_id = toHex (e_random e), qm_envelope = encodeEnvelope env, qm_receivedAt = e_now e\<rparr>"
  obtain s1 where post: "postMessages e ip (Some (body_of env)) s = ((200, RAccepted), s1)"
    and f: "rs_auth s1 = rs_auth s" and box: "queued ?a (rs_store s1) = newest (queued ?a (rs_store s) @ [?m])"
    using post_queues[OF assms(1-6)] by blast
  obtain before where before: "queued ?a (rs_store s1) = before @ [?m]"
    using newest_keeps[of "[]" "queued ?a (rs_store s)" ?m] box by (auto simp: maxQueueLength_def)
  have auth: "requireAuth e2 (Some (''Bearer '' @ tok)) s1 = (Some ?a, s1)"
    by (rule requireAuth_bearer) (simp add: f assms(7))
  let ?ms = "map deliveryOf (queued ?a (rs_store s1))"
  let ?ids = "[dm_id (last ?ms)]"
  let ?st = "snd (acknowledge ?a ?ids (rs_store s1))"
  have get: "getMessages e2 (Some (''Bearer '' @ tok)) s1 = ((200, RMessages ?ms), s1)"
    using assms(3) by (simp only: getMessages_def auth) (simp add: truthy_def)
  have last: "?ms \<noteq> []" "decodeEnvelope (dm_envelope (last ?ms)) = Inr env" by (simp_all add: before deliveryOf_def)
  have kept: "queued ?a ?st = filter (\<lambda>m. qm_id m \<notin> set ?ids) (queued ?a (rs_store s1))"
    using mail.box_ack[of ?a ?ids "rs_store s1" ?a] by (simp add: mailbox_def)
  have "fst (acknowledge ?a ?ids (rs_store s1)) = length ?ms - length (queued ?a ?st)"
    using mail.ack_count[of ?a ?ids "rs_store s1"] by (simp add: mailbox_def)
  then have ack: "postAcknowledge e2 (Some (''Bearer '' @ tok)) (Some ?ids) s1 =
      ((200, RRemoved (length ?ms - length (queued ?a (rs_store (s1\<lparr>rs_store := ?st\<rparr>))))), s1\<lparr>rs_store := ?st\<rparr>)"
    using assms(3) by (simp only: postAcknowledge_def auth) (simp add: truthy_def Let_def case_prod_unfold)
  have gone: "\<forall>m \<in> set (queued ?a (rs_store (s1\<lparr>rs_store := ?st\<rparr>))). qm_id m \<noteq> dm_id (last ?ms)"
    using kept by simp
  show ?thesis
    by (rule exI[of _ s1], rule exI[of _ ?ms], rule exI[of _ "s1\<lparr>rs_store := ?st\<rparr>"]) (intro conjI post get last ack gone)
qed

section \<open>A client comes online\<close>

lemma published_verify:
  assumes "verifyPreKeyBundle N \<lparr>identity = i, signedPreKey = p, signedKemPreKey = q,
      oneTimePreKey = None, oneTimeKemPreKey = None\<rparr> = Inr ()" and "addressOf N i = Inr a"
  shows "verifyPublishedPreKeys N \<lparr>pk_identity = encodeIdentity i, pk_signedPreKey = Some (encodeSignedPreKey p),
      pk_signedKemPreKey = Some (encodeSignedPreKey q), pk_oneTimePreKeys = None, pk_oneTimeKemPreKeys = None\<rparr> = Inr (Inr (a, i))"
  using assms by (simp add: verifyPublishedPreKeys_def)

lemma address_exists:
  assumes "library_ok N" and "identity_ok N i"
  shows "\<exists>a. addressOf N (publicIdentityOf i) = Inr a \<and> a \<noteq> ''''"
proof -
  have "length (sha256 N b) = 32" for b using library_okD(10)[OF assms(1)] by (simp add: hash_sized_def)
  then have "length (toBase32 (slice 0 ADDRESS_BYTES (sha256 N b))) = 26" for b
    by (simp add: length_toBase32 slice_def ADDRESS_BYTES_def)
  then have "toBase32 (slice 0 ADDRESS_BYTES (sha256 N b)) \<noteq> ''''" for b by (metis list.size(3) zero_neq_numeral)
  moreover have "length (publicKey (signing i)) = 32"
    using assms(2) verify_key_lengths(1)[of N "publicIdentityOf i"] by (simp add: identity_ok_def)
  ultimately show ?thesis by (simp add: addressOf_def addressOfKey_def hash256_def)
qed

text \<open>The account of a client that published no one-time keys.\<close>

definition signed_account :: "string \<Rightarrow> public_identity \<Rightarrow> signed_prekey \<Rightarrow> signed_prekey \<Rightarrow> account_record" where
  "signed_account a i p q = \<lparr>ac_address = a, ac_identity = encodeIdentity i, ac_signedPreKey = encodeSignedPreKey p,
     ac_signedKemPreKey = encodeSignedPreKey q, ac_oneTimePreKeys = [], ac_oneTimeKemPreKeys = []\<rparr>"

text \<open>Registering, asking for a challenge and signing it, on a fresh relay.\<close>

lemma client_online:
  assumes lib: "library_ok N" and i: "identity_ok N i"
    and v: "verifyPreKeyBundle N \<lparr>identity = publicIdentityOf i, signedPreKey = p, signedKemPreKey = q,
      oneTimePreKey = None, oneTimeKemPreKey = None\<rparr> = Inr ()"
  shows "\<exists>a s t. relay_reach N s \<and> addressOf N (publicIdentityOf i) = Inr a \<and> a \<noteq> '''' \<and>
    getAccount a (rs_store s) = Some (signed_account a (publicIdentityOf i) p q) \<and>
    resolve 0 (Some t) (rs_auth s) = (Some a, rs_auth s) \<and>
    rs_limiter s = new_limiter 120 60000 \<and> queued a (rs_store s) = []"
proof -
  obtain a where a: "addressOf N (publicIdentityOf i) = Inr a" "a \<noteq> ''''" using address_exists[OF lib i] by blast
  let ?e = "\<lparr>e_now = 0, e_now2 = 0, e_random = [7]\<rparr>"
  let ?b = "\<lparr>rb_identity = Some (encodeIdentity (publicIdentityOf i)), rb_signedPreKey = Some (encodeSignedPreKey p),
     rb_signedKemPreKey = Some (encodeSignedPreKey q), rb_oneTimePreKeys = None, rb_oneTimeKemPreKeys = None\<rparr>"
  let ?acct = "signed_account a (publicIdentityOf i) p q"
  define s1 where "s1 = (buildRelay None)\<lparr>rs_store := createAccount ?acct new_relay_store\<rparr>"
  have r1: "route N ?e (PostAccounts (Some ?b)) (buildRelay None) = ((201, RAddress a), s1)"
    by (simp add: postAccounts_def published_verify[OF v a(1)] s1_def buildRelay_def getAccount_def new_relay_store_def
        well_formed_def slice_def signed_account_def)
  define c where "c = toBase64Url [7]"
  define s2 where "s2 = s1\<lparr>rs_auth := snd (issueChallenge 0 [7] a (rs_auth s1))\<rparr>"
  have ch: "issueChallenge 0 [7] a (rs_auth s1) = ((c, challengeTtlMs), rs_auth s2)"
    and r2: "route N ?e (PostChallenge (Some a)) s1 = ((200, RChallenge c challengeTtlMs), s2)"
    using a(2) by (simp_all add: postChallenge_def truthy_def issueChallenge_def Let_def c_def s2_def)
  have sk: "length (secretKey (signing i)) = 32" "publicKey (signing i) = ed25519_public N (secretKey (signing i))"
    using i by (simp_all add: identity_ok_def)
  then obtain g where g: "sign N (secretKey (signing i)) (challengeTranscript a [7]) = Inr g" by (simp add: sign_Inr)
  have ttl: "0 \<le> challengeTtlMs" "0 \<le> 0 + tokenTtlMs" by (simp_all add: challengeTtlMs_def tokenTtlMs_def)
  obtain t a2 where t: "authenticate N 0 0 [7] a c (toBase64Url g) (toBase64Url (ed25519_public N (secretKey (signing i)))) (rs_auth s2) = (Some t, a2)"
    "resolve 0 (Some (fst t)) a2 = (Some a, a2)"
    using honest_login[OF lib sk(1) ch ttl(1) g ttl(2), of "[7]"] by auto
  have acc: "getAccount a (rs_store s2) = Some ?acct" by (simp add: s2_def s1_def getAccount_def createAccount_def signed_account_def)
  have "length g = 64" using library_okD(5)[OF lib] g by (simp add: sign_Inr ed25519_sized_def)
  then have ne: "toBase64Url g \<noteq> ''''" "c \<noteq> ''''" by (auto simp: toBase64Url_empty c_def)
  let ?s3 = "s2\<lparr>rs_auth := a2\<rparr>"
  have r3: "route N ?e (PostAuth (Some a) (Some c) (Some (toBase64Url g))) s2 = ((200, RToken (fst t) (snd t)), ?s3)"
    using a(2) ne t(1) by (simp add: postAuth_def acc truthy_def sk(2)[symmetric] encodeIdentity_def signed_account_def case_prod_unfold)
  have "relay_reach N ?s3"
    using reach_request[OF reach_request[OF reach_request[OF reach_build r1] r2] r3] .
  moreover have "rs_limiter ?s3 = new_limiter 120 60000" by (simp add: s2_def s1_def buildRelay_def)
  moreover have "queued a (rs_store ?s3) = []" by (simp add: s2_def s1_def queued_def createAccount_def new_relay_store_def)
  ultimately show ?thesis using a acc t(2) by (intro exI[of _ a] exI[of _ ?s3] exI[of _ "fst t"]) simp
qed

section \<open>The hypotheses can hold\<close>

lemma demo_online:
  "\<exists>a s t. relay_reach demo_library s \<and> addressOf demo_library (publicIdentityOf demo_bob) = Inr a \<and> a \<noteq> '''' \<and>
    getAccount a (rs_store s) = Some (signed_account a (publicIdentityOf demo_bob) (fst demo_spk) (fst demo_kem)) \<and>
    resolve 0 (Some t) (rs_auth s) = (Some a, rs_auth s) \<and>
    rs_limiter s = new_limiter 120 60000 \<and> queued a (rs_store s) = []"
proof -
  obtain p kp q kq where k: "demo_spk = (p, kp)" "demo_kem = (q, kq)" by (metis prod.exhaust)
  from created_prekeys[OF demo_library_ok demo_identities_ok(2) demo_fresh_length demo_keys[unfolded k]]
  have "verifyPreKeyBundle demo_library \<lparr>identity = publicIdentityOf demo_bob, signedPreKey = p, signedKemPreKey = q,
      oneTimePreKey = None, oneTimeKemPreKey = None\<rparr> = Inr ()" by blast
  from client_online[OF demo_library_ok demo_identities_ok(2) this] show ?thesis unfolding k fst_conv .
qed

definition demo_wire :: "string \<Rightarrow> sealed_envelope" where
  "demo_wire a = \<lparr>recipientAddress = a, se_ephemeralPublicKey = [1], se_ciphertext = [2]\<rparr>"

abbreviation demo_env :: env where
  "demo_env \<equiv> \<lparr>e_now = 0, e_now2 = 0, e_random = [9]\<rparr>"

lemma demo_relayed:
  assumes "rs_limiter s = new_limiter 120 60000" and "getAccount a (rs_store s) = Some acct" and "a \<noteq> ''''"
    and "resolve 0 (Some t) (rs_auth s) = (Some a, rs_auth s)"
  shows "fst (allow (e_now demo_env) ''ip'' (rs_limiter s))" "getAccount (recipientAddress (demo_wire a)) (rs_store s) = Some acct"
    "recipientAddress (demo_wire a) \<noteq> ''''" "se_ephemeralPublicKey (demo_wire a) \<noteq> []" "se_ciphertext (demo_wire a) \<noteq> []"
    "(4 * length (se_ciphertext (demo_wire a)) + 2) div 3 \<le> maxEnvelopeBytes"
    "resolve (e_now demo_env) (Some t) (rs_auth s) = (Some (recipientAddress (demo_wire a)), rs_auth s)"
  using assms by (simp_all add: demo_wire_def allow_def new_limiter_def Let_def maxEnvelopeBytes_def)


theorem served_bundle_verifies_witness:
  "\<exists>a s b s' bundle. relay_reach demo_library s \<and> getKeys a s = ((200, RBundle b), s') \<and>
    decodeBundle b = Inr bundle \<and> addressOf demo_library (identity bundle) = Inr a"
proof -
  obtain a s acct where s: "relay_reach demo_library s" "getAccount a (rs_store s) = Some acct"
    using demo_online by blast
  obtain b s' where b: "getKeys a s = ((200, RBundle b), s')"
    by (simp add: getKeys_def s(2) case_prod_unfold Let_def)
  from served_bundle_verifies[OF s(1), of a b s'] b s(1) show ?thesis by blast
qed

end
