(* ===== verification/App_Policies.thy ===== *)
theory App_Policies
  imports App_Json Veil_Vault Veil_SafetyNumber Veil_Base64
begin

text \<open>
  The pure rules of the mobile app: apps/mobile/src/core/lockPolicy.ts, unlockPolicy.ts,
  pairing.ts, display.ts, with the two places that apply them: the lifecycle lock of
  platform/screenSecurity.ts and the unlock path of App.tsx. Clock readings are arguments.
\<close>

section \<open>When to lock: lockPolicy.ts, screenSecurity.ts\<close>

definition BACKGROUND_LOCK_GRACE_MS :: int where "BACKGROUND_LOCK_GRACE_MS = 30000"

definition shouldLock :: "int option \<Rightarrow> int \<Rightarrow> int \<Rightarrow> bool" where
  "shouldLock backgroundedAt currentTime graceMs = (case backgroundedAt of
      None \<Rightarrow> False
    | Some b \<Rightarrow> if currentTime < b then True else currentTime - b \<ge> graceMs)"

text \<open>The closure of \<open>startLifecycleLock\<close>; \<open>locks\<close> counts the calls of \<open>onLock\<close>.\<close>

record lifecycle =
  lc_backgroundedAt :: "int option"
  lc_timer :: bool
  lc_locks :: nat

definition new_lifecycle :: lifecycle where
  "new_lifecycle = \<lparr>lc_backgroundedAt = None, lc_timer = False, lc_locks = 0\<rparr>"

datatype app_event = Active int | Inactive int | TimerFires

definition onLock :: "lifecycle \<Rightarrow> lifecycle" where
  "onLock l = l\<lparr>lc_locks := lc_locks l + 1\<rparr>"

fun lifecycle_event :: "int \<Rightarrow> app_event \<Rightarrow> lifecycle \<Rightarrow> lifecycle" where
  "lifecycle_event graceMs (Active now) l =
     (let l = (if lc_timer l then l\<lparr>lc_timer := False\<rparr> else l);
          l = (if shouldLock (lc_backgroundedAt l) now graceMs then onLock l else l)
      in l\<lparr>lc_backgroundedAt := None\<rparr>)"
| "lifecycle_event graceMs (Inactive now) l =
     (if lc_backgroundedAt l = None then l\<lparr>lc_backgroundedAt := Some now, lc_timer := True\<rparr> else l)"
| "lifecycle_event graceMs TimerFires l = (if lc_timer l then onLock (l\<lparr>lc_timer := False\<rparr>) else l)"

section \<open>Unlock attempts: unlockPolicy.ts\<close>

record attempt_state =
  failures :: int
  lastFailureAt :: int

record unlock_policy =
  freeAttempts :: int
  baseLockoutMs :: int
  maxLockoutMs :: int
  wipeAfterFailures :: "int option"

definition DEFAULT_UNLOCK_POLICY :: unlock_policy where
  "DEFAULT_UNLOCK_POLICY = \<lparr>freeAttempts = 3, baseLockoutMs = 15000, maxLockoutMs = 300000, wipeAfterFailures = None\<rparr>"

definition EMPTY_ATTEMPT_STATE :: attempt_state where
  "EMPTY_ATTEMPT_STATE = \<lparr>failures = 0, lastFailureAt = 0\<rparr>"

definition lockoutRemainingMs :: "attempt_state \<Rightarrow> int \<Rightarrow> unlock_policy \<Rightarrow> int" where
  "lockoutRemainingMs state currentTime policy =
     (if failures state \<le> freeAttempts policy then 0
      else let over = failures state - freeAttempts policy;
               exponent = min (over - 1) 20;
               lockout = min (baseLockoutMs policy * 2 ^ nat exponent) (maxLockoutMs policy);
               elapsed = currentTime - lastFailureAt state
           in if elapsed < 0 then lockout else max 0 (lockout - elapsed))"

definition canAttempt :: "attempt_state \<Rightarrow> int \<Rightarrow> unlock_policy \<Rightarrow> bool" where
  "canAttempt state currentTime policy \<longleftrightarrow> lockoutRemainingMs state currentTime policy = 0"

definition recordFailure :: "attempt_state \<Rightarrow> int \<Rightarrow> attempt_state" where
  "recordFailure state currentTime = \<lparr>failures = failures state + 1, lastFailureAt = currentTime\<rparr>"

definition recordSuccess :: attempt_state where
  "recordSuccess = EMPTY_ATTEMPT_STATE"

definition shouldWipe :: "attempt_state \<Rightarrow> unlock_policy \<Rightarrow> bool" where
  "shouldWipe state policy = (case wipeAfterFailures policy of
      None \<Rightarrow> False | Some n \<Rightarrow> failures state \<ge> n)"

text \<open>A number with its floor; every number a JSON text can hold in the model is finite.\<close>

fun json_floor :: "json \<Rightarrow> int option" where
  "json_floor (JNum i) = Some i"
| "json_floor (JFrac m e) = Some (m div 10 ^ e)"
| "json_floor _ = None"

definition parseAttemptState :: "string option \<Rightarrow> int \<Rightarrow> unlock_policy \<Rightarrow> attempt_state" where
  "parseAttemptState raw currentTime policy =
     (let failClosed = \<lparr>failures = freeAttempts policy + 1, lastFailureAt = currentTime\<rparr> in
      case raw of
        None \<Rightarrow> EMPTY_ATTEMPT_STATE
      | Some text \<Rightarrow> (case json_parse text of
          Some (JObj ms) \<Rightarrow>
            (case (Option.bind (js_get ms ''failures'') json_floor, Option.bind (js_get ms ''lastFailureAt'') json_floor) of
               (Some f, Some t) \<Rightarrow> if f < 0 \<or> t < 0 then failClosed else \<lparr>failures = f, lastFailureAt = t\<rparr>
             | _ \<Rightarrow> failClosed)
        | _ \<Rightarrow> failClosed))"

definition serialiseAttemptState :: "attempt_state \<Rightarrow> string" where
  "serialiseAttemptState state = json_text
     (JObj [(''failures'', JNum (failures state)), (''lastFailureAt'', JNum (lastFailureAt state))])"

definition plural :: "int \<Rightarrow> string \<Rightarrow> string" where
  "plural n unit_name = json_int n @ '' '' @ unit_name @ (if n = 1 then '''' else ''s'')"

text \<open>\<open>Math.ceil(a / b)\<close>.\<close>

definition ceil_div :: "int \<Rightarrow> int \<Rightarrow> int" where
  "ceil_div a b = - ((- a) div b)"

definition formatLockout :: "int \<Rightarrow> string" where
  "formatLockout remainingMs = (let seconds = ceil_div remainingMs 1000 in
     if seconds < 60 then plural seconds ''second'' else plural (ceil_div seconds 60) ''minute'')"

section \<open>The unlock path: App.tsx, start\<close>

text \<open>
  The keystore entries it reads and writes; the wrapper is kept as base64 text, here as its
  bytes, with None for an entry that is absent or the empty text, which the code tests by its
  truth value. \<open>clk i\<close> is the \<open>i\<close>-th reading of the clock. What happens after the vault is open
  (messenger, socket) is not part of this function.
\<close>

record keystore =
  ks_wrapper :: "bytes option"
  ks_attempts :: "string option"

datatype unlock_outcome =
    TooMany string
  | Incorrect "string option"
  | Opened vault
  | StartFailed error

definition start_unlock ::
  "noble \<Rightarrow> (nat \<Rightarrow> int) \<Rightarrow> bytes \<Rightarrow> bytes \<Rightarrow> string \<Rightarrow> keystore \<Rightarrow> unlock_outcome \<times> keystore" where
  "start_unlock N clk salt key passphrase ks =
     (let policy = DEFAULT_UNLOCK_POLICY; attempts = parseAttemptState (ks_attempts ks) (clk 0) policy in
      case ks_wrapper ks of
        Some stored \<Rightarrow>
          if \<not> canAttempt attempts (clk 1) policy
          then (TooMany (formatLockout (lockoutRemainingMs attempts (clk 2) policy)), ks)
          else (case rbind (decodeWrappedVault stored) (unlockVault N (utf8_encode passphrase)) of
              Inl _ \<Rightarrow>
                let attempts = recordFailure attempts (clk 2);
                    ks = ks\<lparr>ks_attempts := Some (serialiseAttemptState attempts)\<rparr>;
                    remaining = lockoutRemainingMs attempts (clk 3) policy
                in (Incorrect (if remaining > 0 then Some (formatLockout remaining) else None), ks)
            | Inr v \<Rightarrow> (Opened v, ks\<lparr>ks_attempts := Some (serialiseAttemptState recordSuccess)\<rparr>))
      | None \<Rightarrow> (case rbind (createVault N salt key (utf8_encode passphrase)) (\<lambda>(v, w).
            rbind (encodeWrappedVault w) (\<lambda>b. Inr (v, b))) of
          Inl e \<Rightarrow> (StartFailed e, ks)
        | Inr (v, b) \<Rightarrow> (Opened v, ks\<lparr>ks_wrapper := Some b\<rparr>)))"

section \<open>Pairing: pairing.ts\<close>

record pairing_state =
  ps_peerAddress :: string
  ps_peerIdentityKey :: string
  ps_pairedAt :: int
  ps_displayName :: string

text \<open>A decision is None to allow, or the reason of the refusal.\<close>

datatype refusal = NotPaired | Stranger | KeyChanged

definition decideInbound :: "pairing_state option \<Rightarrow> string \<Rightarrow> string \<Rightarrow> refusal option" where
  "decideInbound pairing senderAddress senderIdentityKey = (case pairing of
      None \<Rightarrow> Some NotPaired
    | Some p \<Rightarrow> if senderAddress \<noteq> ps_peerAddress p then Some Stranger
        else if senderIdentityKey \<noteq> ps_peerIdentityKey p then Some KeyChanged else None)"

definition decideOutbound :: "pairing_state option \<Rightarrow> string \<Rightarrow> refusal option" where
  "decideOutbound pairing peerAddress = (case pairing of
      None \<Rightarrow> Some NotPaired
    | Some p \<Rightarrow> if peerAddress \<noteq> ps_peerAddress p then Some Stranger else None)"

definition createPairing :: "string \<Rightarrow> string \<Rightarrow> string \<Rightarrow> int \<Rightarrow> pairing_state result" where
  "createPairing peerAddress peerIdentityKey displayName now =
     (if peerAddress = '''' \<or> peerIdentityKey = '''' then Inl MalformedInputError
      else Inr \<lparr>ps_peerAddress = peerAddress, ps_peerIdentityKey = peerIdentityKey, ps_pairedAt = now,
        ps_displayName = (if displayName = '''' then slice 0 8 peerAddress else displayName)\<rparr>)"

section \<open>Display: display.ts\<close>

text \<open>The slices of a positive width; with width 0 the loop of the code does not end (None).\<close>

function chunks :: "nat \<Rightarrow> string \<Rightarrow> string list" where
  "chunks k s = (if s = [] then [] else take (Suc k) s # chunks k (drop (Suc k) s))"
  by pat_completeness auto
termination
  by (relation "measure (\<lambda>(k, s). length s)") auto

declare chunks.simps [simp del]

definition groupSafetyNumber :: "string \<Rightarrow> string list" where
  "groupSafetyNumber v = chunks 4 v"

definition chunkCode :: "string \<Rightarrow> nat \<Rightarrow> string list option" where
  "chunkCode s width = (case width of 0 \<Rightarrow> if s = [] then Some [] else None | Suc k \<Rightarrow> Some (chunks k s))"

definition looksLikeCode :: "string \<Rightarrow> bool" where
  "looksLikeCode input \<longleftrightarrow> length input > 64 \<and> list_all base64url_char input"

definition relativeTime :: "int \<Rightarrow> int \<Rightarrow> string" where
  "relativeTime timestamp now = (let seconds = max 0 ((now - timestamp) div 1000) in
     if seconds < 60 then ''now''
     else if seconds < 3600 then json_int (seconds div 60) @ ''m''
     else if seconds < 86400 then json_int (seconds div 3600) @ ''h''
     else json_int (seconds div 86400) @ ''d'')"

section \<open>Locking\<close>

fun is_active :: "app_event \<Rightarrow> bool" where
  "is_active (Active now) = True"
| "is_active _ = False"

lemma background_run:
  assumes "\<forall>e \<in> set mid. \<not> is_active e" and "lc_backgroundedAt l = Some b"
  shows "lc_backgroundedAt (fold (lifecycle_event g) mid l) = Some b \<and>
    lc_locks l \<le> lc_locks (fold (lifecycle_event g) mid l) \<and>
    (TimerFires \<notin> set mid \<longrightarrow> lc_locks (fold (lifecycle_event g) mid l) = lc_locks l)"
  using assms
proof (induction mid arbitrary: l)
  case (Cons e mid)
  have "lc_backgroundedAt (lifecycle_event g e l) = Some b \<and> lc_locks l \<le> lc_locks (lifecycle_event g e l) \<and>
      (e \<noteq> TimerFires \<longrightarrow> lc_locks (lifecycle_event g e l) = lc_locks l)"
    using Cons.prems by (cases e) (auto simp: onLock_def)
  with Cons.IH[of "lifecycle_event g e l"] Cons.prems(1) show ?case by auto
qed simp

text \<open>C19
  The lifecycle lock: after the app leaves the foreground at \<open>b\<close>, whatever timer and lifecycle
  events follow, the vault has been locked by the time it is active again if the grace period
  has passed or the clock went backwards, whether or not the timer ever ran; if neither the
  timer ran nor the period passed it stays unlocked, and no timer is left pending.
\<close>

theorem background_locks:
  assumes "lc_backgroundedAt l = None" and "\<forall>e \<in> set mid. \<not> is_active e"
    and "l' = fold (lifecycle_event g) (Inactive b # mid @ [Active now]) l"
  shows "(now < b \<or> g \<le> now - b \<longrightarrow> lc_locks l < lc_locks l') \<and>
    (b \<le> now \<and> now - b < g \<and> TimerFires \<notin> set mid \<longrightarrow> lc_locks l' = lc_locks l) \<and>
    lc_backgroundedAt l' = None \<and> \<not> lc_timer l'"
proof -
  let ?l1 = "l\<lparr>lc_backgroundedAt := Some b, lc_timer := True\<rparr>"
  let ?l2 = "fold (lifecycle_event g) mid ?l1"
  have l': "l' = lifecycle_event g (Active now) ?l2" using assms(1,3) by simp
  have "lc_backgroundedAt ?l2 = Some b" "lc_locks l \<le> lc_locks ?l2" "TimerFires \<notin> set mid \<longrightarrow> lc_locks ?l2 = lc_locks l"
    using background_run[OF assms(2), of ?l1 b g] by simp_all
  then show ?thesis by (auto simp: l' Let_def shouldLock_def onLock_def)
qed

theorem background_locks_witness:
  "lc_locks (fold (lifecycle_event 30000) [Inactive 1000, Inactive 2000, Active 40000] new_lifecycle) > 0 \<and>
   lc_locks (fold (lifecycle_event 30000) [Inactive 1000, Active 5000] new_lifecycle) = 0"
  using background_locks[OF _ _ refl, of new_lifecycle "[Inactive 2000]" 40000 1000 30000]
    background_locks[OF _ _ refl, of new_lifecycle "[]" 5000 1000 30000]
  by (simp add: new_lifecycle_def)

section \<open>Throttling\<close>

lemma parse_serialised [simp]:
  "0 \<le> failures st \<Longrightarrow> 0 \<le> lastFailureAt st \<Longrightarrow> parseAttemptState (Some (serialiseAttemptState st)) now p = st"
proof -
  assume "0 \<le> failures st" "0 \<le> lastFailureAt st"
  moreover have "json_parse (serialiseAttemptState st) =
      Some (JObj [(''failures'', JNum (failures st)), (''lastFailureAt'', JNum (lastFailureAt st))])"
    unfolding serialiseAttemptState_def by (rule json_parse_text) simp
  ultimately show ?thesis by (simp add: parseAttemptState_def)
qed

text \<open>A run of unlock attempts: the outcome of each, with the time it was stamped with.\<close>

fun unlock_run :: "noble \<Rightarrow> (string \<times> (nat \<Rightarrow> int)) list \<Rightarrow> keystore \<Rightarrow> (unlock_outcome \<times> int) list \<times> keystore" where
  "unlock_run N [] ks = ([], ks)"
| "unlock_run N ((p, clk) # xs) ks =
     (let (out, ks1) = start_unlock N clk [] [] p ks; (outs, ks2) = unlock_run N xs ks1
      in ((out, clk 2) # outs, ks2))"

fun guessed :: "unlock_outcome \<times> int \<Rightarrow> bool" where
  "guessed (Incorrect m, t) = True"
| "guessed _ = False"

definition guess_times :: "noble \<Rightarrow> (string \<times> (nat \<Rightarrow> int)) list \<Rightarrow> keystore \<Rightarrow> int list" where
  "guess_times N xs ks = map snd (filter guessed (fst (unlock_run N xs ks)))"

definition wrong_guess :: "noble \<Rightarrow> bytes \<Rightarrow> string \<times> (nat \<Rightarrow> int) \<Rightarrow> bool" where
  "wrong_guess N w = (\<lambda>(p, clk). (\<exists>e. rbind (decodeWrappedVault w) (unlockVault N (utf8_encode p)) = Inl e) \<and>
     clk 1 \<le> clk 2 \<and> 0 \<le> clk 2)"

definition lock_after :: "nat \<Rightarrow> int" where
  "lock_after n = (if n \<le> 3 then 0 else min (15000 * 2 ^ min (n - 4) 20) 300000)"

fun waited :: "nat \<Rightarrow> int" where
  "waited 0 = 0"
| "waited (Suc n) = waited n + lock_after n"

lemma canAttempt_waits:
  assumes "canAttempt \<lparr>failures = int n, lastFailureAt = t\<rparr> now DEFAULT_UNLOCK_POLICY" and "n > 3"
  shows "t + lock_after n \<le> now"
proof -
  have "nat (min (int n - 3 - 1) 20) = min (n - 4) 20" using assms(2) by (simp add: nat_diff_distrib')
  then have "lockoutRemainingMs \<lparr>failures = int n, lastFailureAt = t\<rparr> now DEFAULT_UNLOCK_POLICY =
      (if now - t < 0 then lock_after n else max 0 (lock_after n - (now - t)))"
    using assms(2) by (simp add: lockoutRemainingMs_def DEFAULT_UNLOCK_POLICY_def lock_after_def Let_def)
  moreover have "lock_after n > 0" using assms(2) by (simp add: lock_after_def)
  ultimately show ?thesis using assms(1) by (auto simp: canAttempt_def split: if_splits)
qed

lemma lock_after_simps: "lock_after 4 = 15000" "lock_after 5 = 30000" "lock_after 6 = 60000" "lock_after 7 = 120000"
    "lock_after 8 = 240000" "n \<ge> 9 \<Longrightarrow> lock_after n = 300000"
proof -
  assume n: "n \<ge> 9"
  have "(2 :: int) ^ 5 \<le> 2 ^ min (n - 4) 20" using n by (intro power_increasing) auto
  then show "lock_after n = 300000" using n by (simp add: lock_after_def)
qed (simp_all add: lock_after_def)

lemma lock_after_doubles: "4 \<le> n \<Longrightarrow> lock_after n = min (15000 * 2 ^ (n - 4)) 300000"
proof (cases "n - 4 \<le> 20")
  case False
  moreover have "(2 :: int) ^ 20 \<le> 2 ^ (n - 4)" using False by (intro power_increasing) auto
  ultimately show "4 \<le> n \<Longrightarrow> ?thesis" by (simp add: lock_after_def)
qed (simp add: lock_after_def)

lemma lock_after_nonneg: "0 \<le> lock_after n"
  by (simp add: lock_after_def)

lemma waited_nonneg: "0 \<le> waited n"
  by (induction n) (use lock_after_nonneg in auto)

lemma waited_9: "waited 9 = 465000"
proof -
  have "waited 4 = 0" by (simp add: eval_nat_numeral lock_after_def)
  moreover have "waited 9 = waited 4 + lock_after 4 + lock_after 5 + lock_after 6 + lock_after 7 + lock_after 8"
    by (simp only: eval_nat_numeral waited.simps BitM.simps add.assoc)
  ultimately show ?thesis by (simp add: lock_after_simps)
qed

lemma waited_bound: "300000 * (int n - 8) \<le> waited n"
proof (cases "n \<ge> 9")
  case True
  have "waited (9 + k) = 465000 + 300000 * int k" for k
  proof (induction k)
    case (Suc k)
    have "waited (9 + Suc k) = waited (9 + k) + lock_after (9 + k)" by (simp only: add_Suc_right waited.simps)
    with Suc lock_after_simps(6)[of "9 + k"] show ?case by (simp only: of_nat_Suc algebra_simps)
  qed (simp add: waited_9)
  from this[of "n - 9"] True show ?thesis by (simp add: of_nat_diff)
next
  case False
  then show ?thesis using waited_nonneg[of n] by (auto intro: order_trans[of _ 0])
qed

text \<open>One wrong attempt on a stored counter.\<close>

abbreviation stored_attempts :: "nat \<Rightarrow> int \<Rightarrow> string option" where
  "stored_attempts n t \<equiv> Some (serialiseAttemptState \<lparr>failures = int n, lastFailureAt = t\<rparr>)"

lemma wrong_attempt:
  assumes "ks_wrapper ks = Some w" and "wrong_guess N w (p, clk)" and "0 \<le> t"
    and "ks_attempts ks = stored_attempts n t \<or> (ks_attempts ks = None \<and> n = 0 \<and> t = 0)"
  obtains (refused) m where "start_unlock N clk s k p ks = (TooMany m, ks)"
  | (guessed) m where "start_unlock N clk s k p ks = (Incorrect m, ks\<lparr>ks_attempts := stored_attempts (Suc n) (clk 2)\<rparr>)"
      "n > 3 \<Longrightarrow> t + lock_after n \<le> clk 2" "0 \<le> clk 2"
proof -
  let ?st = "\<lparr>failures = int n, lastFailureAt = t\<rparr>"
  have st: "parseAttemptState (ks_attempts ks) (clk 0) DEFAULT_UNLOCK_POLICY = ?st"
    using assms(3,4) by (auto simp: parseAttemptState_def[of None] EMPTY_ATTEMPT_STATE_def Let_def)
  obtain e where e: "rbind (decodeWrappedVault w) (unlockVault N (utf8_encode p)) = Inl e"
    and clk: "clk 1 \<le> clk 2" "0 \<le> clk 2" using assms(2) by (auto simp: wrong_guess_def)
  show ?thesis
  proof (cases "canAttempt ?st (clk 1) DEFAULT_UNLOCK_POLICY")
    case True
    then show ?thesis
      using canAttempt_waits[OF True] clk st e assms(1)
      by (intro guessed) (auto simp: start_unlock_def Let_def recordFailure_def algebra_simps)
  next
    case False
    then show ?thesis using st assms(1) by (intro refused) (auto simp: start_unlock_def Let_def)
  qed
qed

lemma guess_times_Cons:
  "guess_times N ((p, clk) # xs) ks = (case start_unlock N clk [] [] p ks of
     (Incorrect m, ks') \<Rightarrow> clk 2 # guess_times N xs ks' | (out, ks') \<Rightarrow> guess_times N xs ks')"
  by (auto simp: guess_times_def case_prod_unfold Let_def split: unlock_outcome.splits)

text \<open>The guesses keep their distances: the one after \<open>n\<close> failures waits \<open>lock_after n\<close>.\<close>

fun gaps :: "nat \<Rightarrow> int \<Rightarrow> int list \<Rightarrow> bool" where
  "gaps n t [] \<longleftrightarrow> True"
| "gaps n t (u # ts) \<longleftrightarrow> (n > 3 \<longrightarrow> t + lock_after n \<le> u) \<and> gaps (Suc n) u ts"

lemma gaps_nth:
  "gaps n t ts \<Longrightarrow> Suc i < length ts \<Longrightarrow> 3 \<le> n + i \<Longrightarrow> ts ! i + lock_after (Suc (n + i)) \<le> ts ! Suc i"
proof (induction ts arbitrary: n t i)
  case (Cons u ts)
  show ?case
  proof (cases i)
    case 0
    then obtain v vs where "ts = v # vs" using Cons.prems(2) by (cases ts) auto
    then show ?thesis using Cons.prems 0 by auto
  next
    case (Suc j)
    then show ?thesis using Cons.IH[of "Suc n" u j] Cons.prems by simp
  qed
qed simp

definition waits_from :: "nat \<Rightarrow> int \<Rightarrow> int list \<Rightarrow> bool" where
  "waits_from n t ts \<longleftrightarrow>
     (n > 3 \<longrightarrow> waited (n + length ts) - waited n \<le> last (t # ts) - t) \<and>
     (n \<le> 3 \<and> 3 < n + length ts \<longrightarrow> waited (n + length ts) \<le> last ts - ts ! (3 - n))"

lemma waited_4: "waited 4 = 0" "n \<le> 3 \<Longrightarrow> lock_after n = 0"
  by (simp_all add: eval_nat_numeral lock_after_def)

lemma waits_from_Cons:
  assumes "waits_from (Suc n) u ts" and "n > 3 \<Longrightarrow> t + lock_after n \<le> u"
  shows "waits_from n t (u # ts)"
proof (cases "n > 3")
  case True
  then show ?thesis using assms by (auto simp: waits_from_def)
next
  case False
  then consider "n = 3" | "n < 3" by linarith
  then show ?thesis
  proof cases
    case 1
    with assms(1) waited_4 show ?thesis by (simp add: waits_from_def eval_nat_numeral)
  next
    case 2
    then have "3 - n = Suc (3 - Suc n)" by simp
    with 2 assms(1) show ?thesis by (auto simp: waits_from_def)
  qed
qed

lemma gaps_waits: "gaps n t ts \<Longrightarrow> waits_from n t ts"
proof (induction ts arbitrary: n t)
  case (Cons u ts)
  then show ?case by (intro waits_from_Cons) auto
qed (simp add: waits_from_def)

lemma guesses_wait:
  assumes "ks_wrapper ks = Some w" and "\<forall>x \<in> set xs. wrong_guess N w x" and "0 \<le> t"
    and "ks_attempts ks = stored_attempts n t \<or> (ks_attempts ks = None \<and> n = 0 \<and> t = 0)"
  shows "gaps n t (guess_times N xs ks)"
  using assms
proof (induction xs arbitrary: ks n t)
  case Nil
  then show ?case by (simp add: guess_times_def)
next
  case (Cons x xs)
  obtain p clk where x: "x = (p, clk)" by (cases x)
  have wrong: "wrong_guess N w (p, clk)" using Cons.prems(2) by (simp add: x)
  show ?case
  proof (rule wrong_attempt[OF Cons.prems(1) wrong Cons.prems(3,4), where s = "[]" and k = "[]"])
    fix m assume "start_unlock N clk [] [] p ks = (TooMany m, ks)"
    then have "guess_times N (x # xs) ks = guess_times N xs ks" by (simp add: x guess_times_Cons)
    with Cons show ?thesis by simp
  next
    fix m let ?ks = "ks\<lparr>ks_attempts := stored_attempts (Suc n) (clk 2)\<rparr>"
    assume a: "start_unlock N clk [] [] p ks = (Incorrect m, ?ks)" "n > 3 \<Longrightarrow> t + lock_after n \<le> clk 2" "0 \<le> clk 2"
    have "gaps (Suc n) (clk 2) (guess_times N xs ?ks)" using Cons.prems a(3) by (intro Cons.IH) auto
    with a(1,2) show ?thesis by (simp add: x guess_times_Cons)
  qed
qed

text \<open>C17
  Guessing is throttled, across restarts and whatever the attacker types: over any run of
  attempts with wrong passphrases on a keystore that starts without failures, the first four
  guesses are free, and each later one, after \<open>i\<close> failures, is checked no earlier than 15
  seconds times \<open>2 ^ (i - 4)\<close>, at most five minutes, after the guess before it. So at least
  \<open>n - 8\<close> times five minutes pass from the fourth guess to the \<open>n\<close>-th, and at most 296
  passphrases can be checked within a day of the fourth.
\<close>

theorem guesses_throttled:
  assumes "ks_wrapper ks = Some w" and "ks_attempts ks = None \<or> ks_attempts ks = Some (serialiseAttemptState recordSuccess)"
    and "\<forall>x \<in> set xs. wrong_guess N w x" and "ts = guess_times N xs ks"
  shows "(\<forall>i. 4 \<le> i \<and> i < length ts \<longrightarrow> ts ! (i - 1) + min (15000 * 2 ^ (i - 4)) 300000 \<le> ts ! i) \<and>
    (length ts \<ge> 4 \<longrightarrow> 300000 * (int (length ts) - 8) \<le> last ts - ts ! 3 \<and>
      (last ts - ts ! 3 \<le> 86400000 \<longrightarrow> length ts \<le> 296))"
proof -
  have "ks_attempts ks = stored_attempts 0 0 \<or> (ks_attempts ks = None \<and> (0::nat) = 0 \<and> (0::int) = 0)"
    using assms(2) by (auto simp: recordSuccess_def EMPTY_ATTEMPT_STATE_def)
  from guesses_wait[OF assms(1,3) _ this] assms(4) have g: "gaps 0 0 ts" by simp
  have each: "ts ! (i - 1) + min (15000 * 2 ^ (i - 4)) 300000 \<le> ts ! i" if "4 \<le> i \<and> i < length ts" for i
  proof -
    from that obtain j where "i = Suc j" "3 \<le> j" by (cases i) auto
    with gaps_nth[OF g, of j] that lock_after_doubles[of i] show ?thesis by simp
  qed
  have total: "300000 * (int (length ts) - 8) \<le> last ts - ts ! 3" if "length ts \<ge> 4"
    using gaps_waits[OF g] waited_bound[of "length ts"] that by (simp add: waits_from_def)
  from total show ?thesis using each by auto
qed

text \<open>C18
  A counter that does not parse locks the owner out for good: every attempt, with whatever
  passphrase and at whatever time, is refused before the passphrase is looked at, and the
  counter stays as it is, so no waiting helps.
\<close>

theorem corrupt_counter_locks_out:
  assumes "ks_wrapper ks = Some w" and "ks_attempts ks = Some text" and "json_parse text = None"
    and "\<forall>(p, clk) \<in> set xs. clk 1 - clk 0 < 15000"
  shows "snd (unlock_run N xs ks) = ks \<and> (\<forall>x \<in> set (fst (unlock_run N xs ks)). \<exists>m t. x = (TooMany m, t))"
  using assms(4)
proof (induction xs)
  case (Cons x xs)
  obtain p clk where x: "x = (p, clk)" by (cases x)
  have "parseAttemptState (Some text) (clk 0) DEFAULT_UNLOCK_POLICY = \<lparr>failures = 4, lastFailureAt = clk 0\<rparr>"
    using assms(3) by (simp add: parseAttemptState_def DEFAULT_UNLOCK_POLICY_def)
  moreover have "\<not> canAttempt \<lparr>failures = 4, lastFailureAt = clk 0\<rparr> (clk 1) DEFAULT_UNLOCK_POLICY"
    using Cons.prems by (simp add: canAttempt_def lockoutRemainingMs_def DEFAULT_UNLOCK_POLICY_def Let_def x)
  ultimately obtain m where "start_unlock N clk [] [] p ks = (TooMany m, ks)"
    using assms(1,2) by (simp add: start_unlock_def Let_def)
  moreover have "snd (unlock_run N xs ks) = ks" "\<forall>x \<in> set (fst (unlock_run N xs ks)). \<exists>m t. x = (TooMany m, t)"
    using Cons by simp_all
  ultimately show ?case by (simp add: x case_prod_unfold Let_def)
qed simp

definition demo_keystore :: keystore where
  "demo_keystore = \<lparr>ks_wrapper = Some [], ks_attempts = None\<rparr>"

lemma demo_wrong: "0 \<le> t \<Longrightarrow> wrong_guess demo_library [] (p, \<lambda>i. t)"
  by (simp add: wrong_guess_def decodeWrappedVault_def r_fixed_def r_take_def new_reader_def VAULT_MAGIC_def utf8_encode_def utf8_char_def)

theorem guesses_throttled_witness:
  "guess_times demo_library [(''a'', \<lambda>_. 0), (''b'', \<lambda>_. 1), (''c'', \<lambda>_. 2), (''d'', \<lambda>_. 3), (''e'', \<lambda>_. 4), (''f'', \<lambda>_. 15003)] demo_keystore
     = [0, 1, 2, 3, 15003] \<and> 3 + min (15000 * 2 ^ 0) 300000 \<le> (15003 :: int)"
proof -
  let ?xs = "[(''a'', \<lambda>_. 0), (''b'', \<lambda>_. 1), (''c'', \<lambda>_. 2), (''d'', \<lambda>_. 3), (''e'', \<lambda>_. 4), (''f'', \<lambda>_. 15003)]"
  have bad: "rbind (decodeWrappedVault []) (unlockVault demo_library (utf8_encode p)) = Inl MalformedInputError" for p
    by (simp add: decodeWrappedVault_def r_fixed_def r_take_def new_reader_def VAULT_MAGIC_def utf8_encode_def utf8_char_def)
  have g: "guess_times demo_library ?xs demo_keystore = [0, 1, 2, 3, 15003]"
    by (simp add: guess_times_Cons start_unlock_def demo_keystore_def bad parseAttemptState_def[of None] EMPTY_ATTEMPT_STATE_def
        recordFailure_def canAttempt_def lockoutRemainingMs_def DEFAULT_UNLOCK_POLICY_def Let_def)
      (simp add: guess_times_def)
  have "\<forall>x \<in> set ?xs. wrong_guess demo_library [] x" by (simp add: demo_wrong)
  from guesses_throttled[OF _ _ this refl, of demo_keystore]
  have "\<forall>i. 4 \<le> i \<and> i < length (guess_times demo_library ?xs demo_keystore) \<longrightarrow>
      guess_times demo_library ?xs demo_keystore ! (i - 1) + min (15000 * 2 ^ (i - 4)) 300000
        \<le> guess_times demo_library ?xs demo_keystore ! i"
    by (simp add: demo_keystore_def)
  from this[rule_format, of 4] show ?thesis by (simp add: g)
qed

theorem corrupt_counter_locks_out_witness:
  "fst (start_unlock demo_library (\<lambda>i. 99) [] [] ''pw'' (demo_keystore\<lparr>ks_attempts := Some ''x''\<rparr>)) = TooMany ''15 seconds''"
proof -
  let ?ks = "demo_keystore\<lparr>ks_attempts := Some ''x''\<rparr>"
  have bad: "json_parse ''x'' = None"
    by (simp add: json_parse_def skip_def is_space_def parse_number_def is_digit_def eval_nat_numeral)
  have "fst (unlock_run demo_library [(''pw'', \<lambda>i. 99)] ?ks) = [(fst (start_unlock demo_library (\<lambda>i. 99) [] [] ''pw'' ?ks), 99)]"
    by (simp add: case_prod_unfold Let_def)
  moreover have "fst (start_unlock demo_library (\<lambda>i. 99) [] [] ''pw'' ?ks) = TooMany ''15 seconds''"
    by (simp add: start_unlock_def demo_keystore_def parseAttemptState_def bad canAttempt_def lockoutRemainingMs_def
        DEFAULT_UNLOCK_POLICY_def Let_def formatLockout_def ceil_div_def plural_def json_int_def decimal.simps digit_char_def)
  ultimately show ?thesis
    using corrupt_counter_locks_out[of ?ks "[]" "''x''" "[(''pw'', \<lambda>i. 99)]" demo_library] bad by (simp add: demo_keystore_def)
qed

section \<open>Codes and addresses\<close>

lemma chunks_concat: "concat (chunks k s) = s"
  by (induction k s rule: chunks.induct) (subst chunks.simps, simp)

lemma digit_groups_chunks: "digit_groups s i = chunks 4 (drop i s)"
proof (induction s i rule: digit_groups.induct)
  case (1 s i)
  then show ?case
    by (subst digit_groups.simps, subst chunks.simps) (simp add: slice_def GROUP_SIZE_def add.commute)
qed

text \<open>The display of the app and the formatter of the library agree.\<close>

lemma formatSafetyNumber_groups: "formatSafetyNumber n = js_join '' '' (groupSafetyNumber n)"
  by (simp add: formatSafetyNumber_def groupSafetyNumber_def digit_groups_chunks)

lemma address_length:
  assumes "hash_sized N" and "addressOf N i = Inr a"
  shows "length a = 26"
  using assms by (auto simp: addressOf_def addressOfKey_def Let_def hash256_def length_toBase32 slice_def
      ADDRESS_BYTES_def hash_sized_def split: if_splits)

lemma address_no_code: "hash_sized N \<Longrightarrow> addressOf N i = Inr a \<Longrightarrow> \<not> looksLikeCode a"
  using address_length by (simp add: looksLikeCode_def)

lemma payload_of_identity:
  assumes "verifyIdentityBinding N i = Inr True"
  shows "\<exists>b. verificationQrPayload i = Inr b \<and> looksLikeCode (toBase64Url b) \<and> parseVerificationQrPayload N b = Inr i"
proof -
  note l = verify_key_lengths[OF assms]
  then have "qr_fits i" by (auto simp: qr_fits_def intro: fits_small)
  then obtain b where b: "verificationQrPayload i = Inr b" "length b \<ge> 128"
    using l by (simp add: verificationQrPayload_eq)
  then have "length (toBase64Url b) > 64" by (simp add: length_toBase64Url)
  moreover have "parseVerificationQrPayload N b = Inr i"
    using b(1) assms by (simp add: parseVerificationQrPayload_scan flip: scan_qr_iff)
  ultimately show ?thesis using b(1) toBase64Url_plain by (simp add: looksLikeCode_def)
qed

end
