(* ===== verification/App_Keystore.thy ===== *)
theory App_Keystore
  imports App_Policies
begin

text \<open>
  The keystore behind the vault and the attempt counter: apps/mobile/src/platform/secureStore.ts,
  with the start-up effect of App.tsx that reads it through both modes, and the reads and writes
  around \<open>start_unlock\<close> that go through one mode only; and \<open>preventScreenCapture\<close> of
  platform/screenSecurity.ts. The keystore itself is the platform's: what a read in one mode does
  with an entry written in the other is an argument, and so is whether the device has a credential.
\<close>

section \<open>Modes and entries\<close>

datatype keystore_mode = Authenticated | Unauthenticated

datatype cross_read = ReadsIt | NotFound | Fails

record key_platform =
  kp_canAuth :: "bool result"
  kp_cross :: "keystore_mode \<Rightarrow> cross_read"

definition canRequireAuthentication :: "key_platform \<Rightarrow> bool" where
  "canRequireAuthentication p = (case kp_canAuth p of Inl e \<Rightarrow> False | Inr b \<Rightarrow> b)"

text \<open>\<open>KeystoreSecretStore.open\<close>: the store is its mode.\<close>

definition open_mode :: "key_platform \<Rightarrow> keystore_mode" where
  "open_mode p = (if canRequireAuthentication p then Authenticated else Unauthenticated)"

text \<open>An entry is the mode it was written in and its value.\<close>

type_synonym 'v entry = "(keystore_mode \<times> 'v) option"

definition entry_get :: "key_platform \<Rightarrow> keystore_mode \<Rightarrow> 'v entry \<Rightarrow> 'v option result" where
  "entry_get p mode e = (case e of
      None \<Rightarrow> Inr None
    | Some (w, v) \<Rightarrow> if w = mode then Inr (Some v)
        else (case kp_cross p mode of ReadsIt \<Rightarrow> Inr (Some v) | NotFound \<Rightarrow> Inr None | Fails \<Rightarrow> Inl OtherError))"

definition entry_set :: "keystore_mode \<Rightarrow> 'v \<Rightarrow> 'v entry \<Rightarrow> 'v entry" where
  "entry_set mode v e = Some (mode, v)"

definition entry_delete :: "keystore_mode \<Rightarrow> 'v entry \<Rightarrow> 'v entry" where
  "entry_delete mode e = None"

definition readEitherMode :: "key_platform \<Rightarrow> 'v entry \<Rightarrow> 'v option" where
  "readEitherMode p e = (case entry_get p (open_mode p) e of
      Inr (Some v) \<Rightarrow> Some v
    | _ \<Rightarrow> if open_mode p = Unauthenticated then None
        else (case entry_get p Unauthenticated e of Inr v \<Rightarrow> v | Inl err \<Rightarrow> None))"

text \<open>An entry of the weaker mode is found whatever the stronger mode makes of it.\<close>

lemma readEitherMode_weak: "readEitherMode p (Some (Unauthenticated, v)) = Some v"
  by (cases "open_mode p"; cases "kp_cross p Authenticated") (simp_all add: readEitherMode_def entry_get_def)

lemma readEitherMode_own: "readEitherMode p (Some (open_mode p, v)) = Some v"
  by (simp add: readEitherMode_def entry_get_def)

section \<open>The start of the app over it\<close>

record device_keystore =
  dk_vault :: "bytes entry"
  dk_attempts :: "string entry"

text \<open>Whether the start-up effect shows the unlock screen.\<close>

definition boots_to_unlock :: "key_platform \<Rightarrow> device_keystore \<Rightarrow> bool" where
  "boots_to_unlock p d = (case readEitherMode p (dk_vault d) of None \<Rightarrow> False | Some b \<Rightarrow> b \<noteq> [])"

text \<open>
  \<open>start\<close>, from the opening of the keystore to the opened vault: both entries are read in the mode
  of the opened store; the counter is written after a failed and after a successful unlocking,
  the wrapper after the creation of a vault.
\<close>

definition start_on ::
  "key_platform \<Rightarrow> noble \<Rightarrow> (nat \<Rightarrow> int) \<Rightarrow> bytes \<Rightarrow> bytes \<Rightarrow> string \<Rightarrow> device_keystore \<Rightarrow> unlock_outcome \<times> device_keystore" where
  "start_on p N clk salt key passphrase d =
     (let mode = open_mode p in
      case entry_get p mode (dk_vault d) of
        Inl e \<Rightarrow> (StartFailed e, d)
      | Inr w \<Rightarrow> (case entry_get p mode (dk_attempts d) of
          Inl e \<Rightarrow> (StartFailed e, d)
        | Inr a \<Rightarrow> (case start_unlock N clk salt key passphrase \<lparr>ks_wrapper = w, ks_attempts = a\<rparr> of
            (Opened v, ks) \<Rightarrow> (Opened v,
              if w = None then d\<lparr>dk_vault := entry_set mode (the (ks_wrapper ks)) (dk_vault d)\<rparr>
              else d\<lparr>dk_attempts := entry_set mode (the (ks_attempts ks)) (dk_attempts d)\<rparr>)
          | (Incorrect wait, ks) \<Rightarrow> (Incorrect wait, d\<lparr>dk_attempts := entry_set mode (the (ks_attempts ks)) (dk_attempts d)\<rparr>)
          | (out, ks) \<Rightarrow> (out, d))))"

section \<open>Creating and reopening\<close>

lemma start_creates:
  assumes "library_ok N" and "length salt = 16" and "length key = 32"
    and "entry_get p (open_mode p) (dk_vault d) = Inr None" and "entry_get p (open_mode p) (dk_attempts d) = Inr a"
  shows "\<exists>w b. encodeWrappedVault w = Inr b \<and> b \<noteq> [] \<and> unlockVault N (utf8_encode passphrase) w = Inr \<lparr>dataKey = key\<rparr> \<and>
    decodeWrappedVault b = Inr w \<and>
    start_on p N clk salt key passphrase d = (Opened \<lparr>dataKey = key\<rparr>, d\<lparr>dk_vault := Some (open_mode p, b)\<rparr>)"
proof -
  obtain w b where w: "wrap_key N salt (utf8_encode passphrase) key = Inr w" "unlockVault N (utf8_encode passphrase) w = Inr \<lparr>dataKey = key\<rparr>"
    "encodeWrappedVault w = Inr b" "decodeWrappedVault b = Inr w"
    using wrap_unlocks[OF assms(1-3)] by blast
  moreover have "b \<noteq> []" using w(3) by (auto simp: encodeWrappedVault_eq VAULT_MAGIC_def utf8_encode_def utf8_char_def split: if_splits)
  moreover have "start_on p N clk salt key passphrase d = (Opened \<lparr>dataKey = key\<rparr>, d\<lparr>dk_vault := Some (open_mode p, b)\<rparr>)"
    using assms(4,5) w by (simp add: start_on_def start_unlock_def createVault_def entry_set_def Let_def)
  ultimately show ?thesis using w by blast
qed

lemma fresh_attempts: "canAttempt (parseAttemptState None t DEFAULT_UNLOCK_POLICY) now DEFAULT_UNLOCK_POLICY"
  by (simp add: parseAttemptState_def canAttempt_def lockoutRemainingMs_def EMPTY_ATTEMPT_STATE_def DEFAULT_UNLOCK_POLICY_def)

lemma start_reopens:
  assumes "entry_get p (open_mode p) (dk_vault d) = Inr (Some b)" and "entry_get p (open_mode p) (dk_attempts d) = Inr None"
    and "decodeWrappedVault b = Inr w" and "unlockVault N (utf8_encode passphrase) w = Inr v"
  shows "start_on p N clk salt key passphrase d =
    (Opened v, d\<lparr>dk_attempts := Some (open_mode p, serialiseAttemptState recordSuccess)\<rparr>)"
  using assms fresh_attempts[of "clk 0" "clk 1"]
  by (simp add: start_on_def start_unlock_def entry_set_def Let_def)

text \<open>C38
  Setting a device passcode loses the account, unless the keystore reads across modes. A vault
  created on a device without a credential reopens with its passphrase; once the device has one,
  the start-up check still finds it and shows the unlock screen, but \<open>start\<close> reads in the stronger
  mode only: where such a read finds nothing, any passphrase is accepted, a new vault with a new
  key is created and the wrapper of the old one is overwritten; where it fails, every start fails.
\<close>

theorem passcode_orphans_vault:
  assumes "library_ok N" and "length salt = 16" and "length key = 32" and "length salt2 = 16" and "length key2 = 32"
    and "kp_canAuth before = Inr False" and "kp_canAuth with_passcode = Inr True"
  shows "\<exists>d. start_on before N clk salt key passphrase \<lparr>dk_vault = None, dk_attempts = None\<rparr> = (Opened \<lparr>dataKey = key\<rparr>, d) \<and>
    fst (start_on before N clk2 salt2 key2 passphrase d) = Opened \<lparr>dataKey = key\<rparr> \<and> boots_to_unlock with_passcode d \<and>
    (case kp_cross with_passcode Authenticated of
       ReadsIt \<Rightarrow> fst (start_on with_passcode N clk2 salt2 key2 passphrase d) = Opened \<lparr>dataKey = key\<rparr>
     | NotFound \<Rightarrow> \<exists>b. start_on with_passcode N clk2 salt2 key2 anything d =
         (Opened \<lparr>dataKey = key2\<rparr>, d\<lparr>dk_vault := Some (Authenticated, b)\<rparr>)
     | Fails \<Rightarrow> start_on with_passcode N clk2 salt2 key2 anything d = (StartFailed OtherError, d))"
proof -
  have m: "open_mode before = Unauthenticated" "open_mode with_passcode = Authenticated"
    using assms(6,7) by (simp_all add: open_mode_def canRequireAuthentication_def)
  let ?d0 = "\<lparr>dk_vault = None, dk_attempts = None\<rparr> :: device_keystore"
  obtain w b where w: "b \<noteq> []" "unlockVault N (utf8_encode passphrase) w = Inr \<lparr>dataKey = key\<rparr>" "decodeWrappedVault b = Inr w"
    "start_on before N clk salt key passphrase ?d0 = (Opened \<lparr>dataKey = key\<rparr>, ?d0\<lparr>dk_vault := Some (Unauthenticated, b)\<rparr>)"
    using start_creates[OF assms(1-3), of before ?d0 None passphrase clk] m(1) by (auto simp: entry_get_def)
  let ?d = "\<lparr>dk_vault = Some (Unauthenticated, b), dk_attempts = None\<rparr> :: device_keystore"
  have again: "fst (start_on before N clk2 salt2 key2 passphrase ?d) = Opened \<lparr>dataKey = key\<rparr>"
    using start_reopens[of before ?d b w N passphrase "\<lparr>dataKey = key\<rparr>"] w(2,3) m(1) by (simp add: entry_get_def)
  have boots: "boots_to_unlock with_passcode ?d" using w(1) by (simp add: boots_to_unlock_def readEitherMode_weak)
  have "case kp_cross with_passcode Authenticated of
       ReadsIt \<Rightarrow> fst (start_on with_passcode N clk2 salt2 key2 passphrase ?d) = Opened \<lparr>dataKey = key\<rparr>
     | NotFound \<Rightarrow> \<exists>b. start_on with_passcode N clk2 salt2 key2 anything ?d = (Opened \<lparr>dataKey = key2\<rparr>, ?d\<lparr>dk_vault := Some (Authenticated, b)\<rparr>)
     | Fails \<Rightarrow> start_on with_passcode N clk2 salt2 key2 anything ?d = (StartFailed OtherError, ?d)"
  proof (cases "kp_cross with_passcode Authenticated")
    case ReadsIt
    then show ?thesis using start_reopens[of with_passcode ?d b w N passphrase "\<lparr>dataKey = key\<rparr>"] w(2,3) m(2)
      by (simp add: entry_get_def)
  next
    case NotFound
    then have "entry_get with_passcode (open_mode with_passcode) (dk_vault ?d) = Inr None"
      "entry_get with_passcode (open_mode with_passcode) (dk_attempts ?d) = Inr None" by (simp_all add: entry_get_def m(2))
    from start_creates[OF assms(1,4,5) this, of anything clk2] m(2) NotFound show ?thesis by auto
  next
    case Fails
    then show ?thesis by (simp add: start_on_def entry_get_def m(2) Let_def)
  qed
  with w(4) again boots show ?thesis by auto
qed

theorem passcode_orphans_vault_witness:
  "\<exists>d b. start_on \<lparr>kp_canAuth = Inr False, kp_cross = \<lambda>m. NotFound\<rparr> demo_library (\<lambda>i. 0) (replicate 16 1) (replicate 32 2) ''correct horse''
      \<lparr>dk_vault = None, dk_attempts = None\<rparr> = (Opened \<lparr>dataKey = replicate 32 2\<rparr>, d) \<and>
    start_on \<lparr>kp_canAuth = Inr True, kp_cross = \<lambda>m. NotFound\<rparr> demo_library (\<lambda>i. 0) (replicate 16 3) (replicate 32 4) ''wrong'' d =
      (Opened \<lparr>dataKey = replicate 32 4\<rparr>, d\<lparr>dk_vault := Some (Authenticated, b)\<rparr>)"
proof -
  let ?p = "\<lparr>kp_canAuth = Inr False, kp_cross = \<lambda>m. NotFound\<rparr>" and ?q = "\<lparr>kp_canAuth = Inr True, kp_cross = \<lambda>m. NotFound\<rparr>"
  have h: "length (replicate 16 (1 :: byte)) = 16" "length (replicate 32 (2 :: byte)) = 32" "length (replicate 16 (3 :: byte)) = 16"
    "length (replicate 32 (4 :: byte)) = 32" "kp_canAuth ?p = Inr False" "kp_canAuth ?q = Inr True" by simp_all
  have c: "kp_cross ?q Authenticated = NotFound" by simp
  from passcode_orphans_vault[OF demo_library_ok h, of "\<lambda>i. 0" "''correct horse''" "\<lambda>i. 0" "''wrong''", unfolded c cross_read.case]
  show ?thesis by blast
qed

section \<open>Screen protection\<close>

text \<open>What the three platform calls of \<open>preventScreenCapture\<close> answer, and what it reports.\<close>

definition preventScreenCapture :: "bool result \<Rightarrow> unit result \<Rightarrow> unit result \<Rightarrow> bool" where
  "preventScreenCapture available prevent protect = (case available of
      Inl e \<Rightarrow> False
    | Inr b \<Rightarrow> if \<not> b then False else (case prevent of Inl e \<Rightarrow> False
        | Inr u \<Rightarrow> (case protect of Inl e \<Rightarrow> False | Inr u \<Rightarrow> True)))"

lemma preventScreenCapture_iff:
  "preventScreenCapture available prevent protect \<longleftrightarrow> available = Inr True \<and> prevent = Inr () \<and> protect = Inr ()"
  by (auto simp: preventScreenCapture_def split: sum.splits if_splits)

section \<open>The random source\<close>

text \<open>
  \<open>assertSecureRandomAvailable\<close>, platform/random.ts: the platform's source, if there is one, fills
  a probe that must not stay zero.
\<close>

definition assertSecureRandomAvailable :: "(bytes \<Rightarrow> bytes) option \<Rightarrow> unit result" where
  "assertSecureRandomAvailable source = (case source of
      None \<Rightarrow> Inl OtherError
    | Some fill \<Rightarrow> if list_all (\<lambda>b. b = 0) (fill (replicate 32 0)) then Inl OtherError else Inr ())"

lemma no_silent_random:
  "assertSecureRandomAvailable None = Inl OtherError \<and> assertSecureRandomAvailable (Some id) = Inl OtherError"
  by (simp add: assertSecureRandomAvailable_def list_all_iff)

end
