(* ===== verification/App_Types.thy ===== *)
theory App_Types
  imports App_Json
begin

text \<open>
  The domain types of the app and the payloads inside the encrypted channel:
  apps/mobile/src/core/types.ts. \<open>decodePayload\<close> checks the discriminant only and casts; the
  view \<open>payload_of\<close> reads the members a payload of its kind declares and is None where they do
  not have their declared types.
\<close>

section \<open>Domain types\<close>

datatype verification_state = Unverified | Verified | Changed

record contact =
  ct_address :: string
  ct_displayName :: string
  ct_identityKey :: string
  ct_verification :: verification_state
  ct_identityChangedAt :: "int option"

datatype message_direction = Outgoing | Incoming

datatype message_status = Pending | Sent | Delivered | Read | Failed

record app_message =
  msg_id :: string
  msg_conversationAddress :: string
  msg_direction :: message_direction
  msg_body :: string
  msg_timestamp :: int
  msg_status :: message_status
  msg_expiresAt :: "int option"

record conversation =
  cv_address :: string
  cv_lastMessageAt :: int
  cv_lastMessagePreview :: string
  cv_unreadCount :: int
  cv_disappearAfterSeconds :: int

datatype call_state = Idle | RingingOutgoing | RingingIncoming | Connecting | Connected | Ended

record call_info =
  ci_callId :: string
  ci_peerAddress :: string
  ci_direction :: message_direction
  ci_state :: call_state
  ci_sas :: "string option"
  ci_sasDigits :: "string option"
  ci_sasConfirmed :: bool
  ci_startedAt :: "int option"
  ci_endedAt :: "int option"
  ci_endReason :: "string option"

section \<open>Payloads\<close>

datatype receipt = ReceiptDelivered | ReceiptRead

datatype payload =
    PText string string "int option"
  | PReceipt "string list" receipt
  | PTyping bool
  | PCallOffer string string string string
  | PCallAnswer string string string
  | PCallIce string string
  | PCallHangup string string

fun receipt_name :: "receipt \<Rightarrow> string" where
  "receipt_name ReceiptDelivered = ''delivered''"
| "receipt_name ReceiptRead = ''read''"

text \<open>The object literals the senders build, members in their order.\<close>

fun payload_json :: "payload \<Rightarrow> json" where
  "payload_json (PText messageId body expires) = JObj
     ([(''kind'', JStr ''text''), (''messageId'', JStr messageId), (''body'', JStr body)] @
      (case expires of None \<Rightarrow> [] | Some n \<Rightarrow> [(''expiresInSeconds'', JNum n)]))"
| "payload_json (PReceipt ids r) = JObj
     [(''kind'', JStr ''receipt''), (''messageIds'', JArr (map JStr ids)), (''receipt'', JStr (receipt_name r))]"
| "payload_json (PTyping b) = JObj [(''kind'', JStr ''typing''), (''typing'', JBool b)]"
| "payload_json (PCallOffer callId secret sdp fp) = JObj
     [(''kind'', JStr ''call-offer''), (''callId'', JStr callId), (''mediaSecret'', JStr secret),
      (''sdp'', JStr sdp), (''dtlsFingerprint'', JStr fp)]"
| "payload_json (PCallAnswer callId sdp fp) = JObj
     [(''kind'', JStr ''call-answer''), (''callId'', JStr callId), (''sdp'', JStr sdp), (''dtlsFingerprint'', JStr fp)]"
| "payload_json (PCallIce callId c) = JObj
     [(''kind'', JStr ''call-ice''), (''callId'', JStr callId), (''candidate'', JStr c)]"
| "payload_json (PCallHangup callId r) = JObj
     [(''kind'', JStr ''call-hangup''), (''callId'', JStr callId), (''reason'', JStr r)]"

definition encodePayload :: "payload \<Rightarrow> bytes" where
  "encodePayload p = utf8_encode (json_text (payload_json p))"

definition known_kinds :: "string list" where
  "known_kinds = [''text'', ''receipt'', ''typing'', ''call-offer'', ''call-answer'', ''call-ice'', ''call-hangup'']"

text \<open>An array has no member \<open>kind\<close>; every other value is no object.\<close>

definition decodePayload :: "bytes \<Rightarrow> json result" where
  "decodePayload b = (case Option.bind (utf8_decode b) json_parse of
      Some (JObj ms) \<Rightarrow> (case js_get ms ''kind'' of
          Some (JStr kind) \<Rightarrow> if kind \<in> set known_kinds then Inr (JObj ms) else Inl OtherError
        | _ \<Rightarrow> Inl OtherError)
    | _ \<Rightarrow> Inl OtherError)"

section \<open>Reading a payload\<close>

definition str_member :: "(string \<times> json) list \<Rightarrow> string \<Rightarrow> string option" where
  "str_member ms k = (case js_get ms k of Some (JStr s) \<Rightarrow> Some s | _ \<Rightarrow> None)"

fun strings_of :: "json list \<Rightarrow> string list option" where
  "strings_of [] = Some []"
| "strings_of (JStr s # vs) = map_option (Cons s) (strings_of vs)"
| "strings_of _ = None"

definition read_text :: "(string \<times> json) list \<Rightarrow> payload option" where
  "read_text ms = (case (str_member ms ''messageId'', str_member ms ''body'', js_get ms ''expiresInSeconds'') of
      (Some i, Some b, None) \<Rightarrow> Some (PText i b None)
    | (Some i, Some b, Some (JNum n)) \<Rightarrow> Some (PText i b (Some n))
    | _ \<Rightarrow> None)"

definition read_receipt :: "(string \<times> json) list \<Rightarrow> payload option" where
  "read_receipt ms = (case (js_get ms ''messageIds'', str_member ms ''receipt'') of
      (Some (JArr vs), Some r) \<Rightarrow>
         Option.bind (strings_of vs) (\<lambda>ids.
           if r = ''delivered'' then Some (PReceipt ids ReceiptDelivered)
           else if r = ''read'' then Some (PReceipt ids ReceiptRead) else None)
    | _ \<Rightarrow> None)"

definition read_typing :: "(string \<times> json) list \<Rightarrow> payload option" where
  "read_typing ms = (case js_get ms ''typing'' of Some (JBool b) \<Rightarrow> Some (PTyping b) | _ \<Rightarrow> None)"

definition read_call :: "string \<Rightarrow> (string \<times> json) list \<Rightarrow> payload option" where
  "read_call kind ms = (case str_member ms ''callId'' of
      None \<Rightarrow> None
    | Some c \<Rightarrow>
       if kind = ''call-offer'' then
         (case (str_member ms ''mediaSecret'', str_member ms ''sdp'', str_member ms ''dtlsFingerprint'') of
            (Some m, Some s, Some f) \<Rightarrow> Some (PCallOffer c m s f) | _ \<Rightarrow> None)
       else if kind = ''call-answer'' then
         (case (str_member ms ''sdp'', str_member ms ''dtlsFingerprint'') of
            (Some s, Some f) \<Rightarrow> Some (PCallAnswer c s f) | _ \<Rightarrow> None)
       else if kind = ''call-ice'' then map_option (PCallIce c) (str_member ms ''candidate'')
       else if kind = ''call-hangup'' then map_option (PCallHangup c) (str_member ms ''reason'')
       else None)"

definition payload_of :: "json \<Rightarrow> payload option" where
  "payload_of v = (case v of
      JObj ms \<Rightarrow> (case str_member ms ''kind'' of
          Some kind \<Rightarrow>
            if kind = ''text'' then read_text ms
            else if kind = ''receipt'' then read_receipt ms
            else if kind = ''typing'' then read_typing ms
            else read_call kind ms
        | None \<Rightarrow> None)
    | _ \<Rightarrow> None)"

lemmas payload_readers = payload_of_def str_member_def read_text_def read_receipt_def read_typing_def read_call_def

lemma elems_ok_strings: "elems_ok (map JStr ss)"
  by (induction ss) auto

lemma strings_of_strings [simp]: "strings_of (map JStr ss) = Some ss"
  by (induction ss) auto

lemma payload_json_ok: "json_ok (payload_json p)"
  by (cases p) (auto simp: elems_ok_strings split: option.split)

lemma payload_view [simp]: "payload_of (payload_json p) = Some p"
proof (cases p)
  case (PReceipt ids r)
  then show ?thesis by (cases r) (simp_all add: payload_readers)
qed (simp_all add: payload_readers split: option.split)

lemma payload_kind: "\<exists>ms kind. payload_json p = JObj ms \<and> js_get ms ''kind'' = Some (JStr kind) \<and> kind \<in> set known_kinds"
  by (cases p) (simp_all add: known_kinds_def)

lemma decode_encode_payload [simp]: "decodePayload (encodePayload p) = Inr (payload_json p)"
proof -
  obtain ms kind where m: "payload_json p = JObj ms" "js_get ms ''kind'' = Some (JStr kind)" "kind \<in> set known_kinds"
    using payload_kind by blast
  have "Option.bind (utf8_decode (encodePayload p)) json_parse = Some (JObj ms)"
    unfolding encodePayload_def m(1)[symmetric] by (rule json_bytes_roundtrip[OF payload_json_ok])
  then show ?thesis by (simp add: decodePayload_def m)
qed

text \<open>
  Payloads round trip: what a peer decodes from an encoded payload is that payload, two payloads
  never encode alike, and decoding accepts exactly the texts of objects of a known kind.
\<close>

lemma payload_roundtrip:
  "(\<exists>v. decodePayload (encodePayload p) = Inr v \<and> payload_of v = Some p) \<and>
   (encodePayload p = encodePayload q \<longleftrightarrow> p = q) \<and>
   (decodePayload b = Inr v \<longleftrightarrow> Option.bind (utf8_decode b) json_parse = Some v \<and>
      (\<exists>ms kind. v = JObj ms \<and> js_get ms ''kind'' = Some (JStr kind) \<and> kind \<in> set known_kinds))"
proof -
  have "p = q" if "encodePayload p = encodePayload q"
    using that decode_encode_payload[of p] decode_encode_payload[of q] payload_view[of p] payload_view[of q] by simp
  moreover have "decodePayload b = Inr v \<longleftrightarrow> Option.bind (utf8_decode b) json_parse = Some v \<and>
      (\<exists>ms kind. v = JObj ms \<and> js_get ms ''kind'' = Some (JStr kind) \<and> kind \<in> set known_kinds)"
    by (auto simp: decodePayload_def split: option.splits json.splits)
  ultimately show ?thesis by auto
qed

end
