(* ===== verification/App_Screens.thy ===== *)
theory App_Screens
  imports App_Policies App_Types
begin

text \<open>
  What the screens decide: apps/mobile/src/screens and ui/components.tsx. Layout, colours and the
  texts of notices are outside; a notice is its tone, a label or glyph outside the characters of
  the model is a constructor. The texts a user has typed are arguments.
\<close>

section \<open>Shared pieces\<close>

datatype tone = Info | Caution | Danger

datatype badge_glyph = CheckMark | QuestionMark | ExclamationMark

definition verification_presentation :: "verification_state \<Rightarrow> badge_glyph \<times> string" where
  "verification_presentation state = (case state of
      Verified \<Rightarrow> (CheckMark, ''Verified'')
    | Unverified \<Rightarrow> (QuestionMark, ''Not verified'')
    | Changed \<Rightarrow> (ExclamationMark, ''Key changed''))"

text \<open>A button can be pressed unless it is disabled or loading.\<close>

definition pressable :: "bool option \<Rightarrow> bool option \<Rightarrow> bool" where
  "pressable disabled loading \<longleftrightarrow> disabled \<noteq> Some True \<and> loading \<noteq> Some True"

lemma badges_differ: "verification_presentation a = verification_presentation b \<Longrightarrow> a = b"
  by (simp add: verification_presentation_def split: verification_state.splits)

section \<open>Onboarding\<close>

datatype onboarding_mode = CreateMode | UnlockMode

definition MIN_PASSPHRASE_LENGTH :: nat where "MIN_PASSPHRASE_LENGTH = 10"

definition onboarding_ready :: "onboarding_mode \<Rightarrow> bool \<Rightarrow> string \<Rightarrow> string \<Rightarrow> bool" where
  "onboarding_ready mode busy passphrase confirmation =
     (if mode = CreateMode then MIN_PASSPHRASE_LENGTH \<le> length passphrase \<and> confirmation = passphrase \<and> \<not> busy
      else 0 < length passphrase \<and> \<not> busy)"

definition onboarding_errors :: "onboarding_mode \<Rightarrow> string \<Rightarrow> string \<Rightarrow> bool \<times> bool" where
  "onboarding_errors mode passphrase confirmation =
     (mode = CreateMode \<and> 0 < length passphrase \<and> length passphrase < MIN_PASSPHRASE_LENGTH,
      mode = CreateMode \<and> 0 < length confirmation \<and> confirmation \<noteq> passphrase)"

text \<open>A new vault gets a passphrase typed twice and shown without an error.\<close>

lemma ready_without_error: "onboarding_ready mode busy p c \<Longrightarrow> onboarding_errors mode p c = (False, False)"
  by (auto simp: onboarding_ready_def onboarding_errors_def split: if_splits)

section \<open>Pairing and new conversations\<close>

definition pair_ready :: "string \<Rightarrow> bool \<Rightarrow> bool" where
  "pair_ready theirCode busy \<longleftrightarrow> 64 < length (js_trim theirCode) \<and> \<not> busy"

definition shown_code :: "string \<Rightarrow> string list option" where
  "shown_code c = chunkCode c 32"

datatype start_kind = CodeKind | AddressKind

definition start_kind_of :: "string \<Rightarrow> start_kind" where
  "start_kind_of typed = (if looksLikeCode (js_trim typed) then CodeKind else AddressKind)"

definition start_tone :: "string \<Rightarrow> tone option" where
  "start_tone typed = (if js_trim typed = [] then None
     else Some (case start_kind_of typed of CodeKind \<Rightarrow> Info | AddressKind \<Rightarrow> Caution))"

definition start_ready :: "string \<Rightarrow> bool option \<Rightarrow> bool" where
  "start_ready typed busy = pressable (Some (js_trim typed = [] \<or> busy = Some True)) busy"

section \<open>Conversations\<close>

type_synonym conversation_row = "conversation \<times> contact option"

definition row_changed :: "conversation_row \<Rightarrow> bool" where
  "row_changed r \<longleftrightarrow> map_option ct_verification (snd r) = Some Changed"

text \<open>The number of contacts in the warning, if it is shown.\<close>

definition changed_warning :: "conversation_row list \<Rightarrow> nat option" where
  "changed_warning rows = (let changed = filter row_changed rows
     in if length changed > 0 then Some (length changed) else None)"

record row_view =
  rw_name :: string
  rw_time :: string
  rw_preview :: string
  rw_badge :: "badge_glyph \<times> string"
  rw_unread :: "int option"

definition row_view :: "int \<Rightarrow> conversation_row \<Rightarrow> row_view" where
  "row_view now r = (case r of (c, contact) \<Rightarrow>
     \<lparr>rw_name = (case contact of Some p \<Rightarrow> ct_displayName p | None \<Rightarrow> slice 0 12 (cv_address c)),
      rw_time = relativeTime (cv_lastMessageAt c) now,
      rw_preview = (if cv_lastMessagePreview c = [] then ''No messages'' else cv_lastMessagePreview c),
      rw_badge = verification_presentation (case contact of Some p \<Rightarrow> ct_verification p | None \<Rightarrow> Unverified),
      rw_unread = (if cv_unreadCount c > 0 then Some (cv_unreadCount c) else None)\<rparr>)"

text \<open>
  A key change is never silent: the warning counts the rows of changed contacts, and each of
  them, and no other, carries the badge that says so.
\<close>

lemma key_change_shown:
  "(changed_warning rows = None \<longleftrightarrow> \<not> list_ex row_changed rows) \<and>
   (changed_warning rows = Some n \<longrightarrow> n = length (filter row_changed rows)) \<and>
   (rw_badge (row_view now r) = verification_presentation Changed \<longleftrightarrow> row_changed r)"
proof -
  have "rw_badge (row_view now r) = verification_presentation Changed \<longleftrightarrow> row_changed r"
    by (auto simp: row_view_def row_changed_def dest: badges_differ split: prod.split option.split)
  then show ?thesis by (auto simp: changed_warning_def Let_def filter_empty_conv list_ex_iff split: if_splits)
qed

section \<open>A chat\<close>

definition DISAPPEAR_OPTIONS :: "(string \<times> int) list" where
  "DISAPPEAR_OPTIONS = [(''Off'', 0), (''1m'', 60), (''1h'', 3600), (''1d'', 86400), (''1w'', 604800)]"

datatype status_glyph = DottedCircle | OneCheck | TwoChecks | Cross

definition statusGlyph :: "message_status \<Rightarrow> status_glyph" where
  "statusGlyph s = (case s of Pending \<Rightarrow> DottedCircle | Sent \<Rightarrow> OneCheck | Delivered \<Rightarrow> TwoChecks | Read \<Rightarrow> TwoChecks | Failed \<Rightarrow> Cross)"

definition chat_submit :: "string \<Rightarrow> string option" where
  "chat_submit draft = (let body = js_trim draft in if length body = 0 then None else Some body)"

definition chat_banner :: "verification_state \<Rightarrow> tone option" where
  "chat_banner state = (if state = Changed then Some Danger else if state = Unverified then Some Caution else None)"

definition send_enabled :: "string \<Rightarrow> bool option \<Rightarrow> bool" where
  "send_enabled draft busy \<longleftrightarrow> \<not> (length (js_trim draft) = 0 \<or> busy = Some True)"

definition active_options :: "int \<Rightarrow> string list" where
  "active_options disappearAfterSeconds = map fst (filter (\<lambda>choice. disappearAfterSeconds = snd choice) DISAPPEAR_OPTIONS)"

definition bubble :: "app_message \<Rightarrow> bool \<times> bool \<times> status_glyph option" where
  "bubble m = (let outgoing = (msg_direction m = Outgoing) in
     (outgoing, msg_expiresAt m \<noteq> None, if outgoing then Some (statusGlyph (msg_status m)) else None))"

section \<open>Verification\<close>

text \<open>Four lines of three groups.\<close>

definition number_lines :: "string \<Rightarrow> string list" where
  "number_lines number = (let groups = groupSafetyNumber number in
     map (\<lambda>line. js_join '' '' (slice (line * 3) (line * 3 + 3) groups)) [0, 1, 2, 3])"

text \<open>The card shows the number once there is one; an empty number counts as none.\<close>

definition number_card :: "string option \<Rightarrow> string list option" where
  "number_card shown = (case shown of
      None \<Rightarrow> None | Some n \<Rightarrow> if n = [] then None else Some (number_lines n))"

datatype verify_button = AcceptButton | MarkButton bool

definition verify_button :: "contact \<Rightarrow> string option \<Rightarrow> verify_button" where
  "verify_button c number = (if ct_verification c = Changed then AcceptButton
     else MarkButton (\<not> (number = None \<or> ct_verification c = Verified)))"

lemma length_chunks: "length (chunks k s) = (length s + k) div Suc k"
proof (induction k s rule: chunks.induct)
  case (1 k s)
  show ?case
  proof (cases "s = []")
    case False
    then have "length (chunks k s) = Suc ((length s - Suc k + k) div Suc k)"
      using 1 by (subst chunks.simps) simp
    also have "\<dots> = (length s + k) div Suc k"
    proof (cases "Suc k \<le> length s")
      case True
      then have "length s + k = (length s - Suc k + k) + Suc k" by simp
      then show ?thesis by (metis div_add_self2 Suc_eq_plus1 nat.distinct(1))
    next
      case False
      have "Suc k * 1 \<le> length s + k" "length s + k < Suc k * Suc 1"
        using False \<open>s \<noteq> []\<close> by (cases s; simp)+
      then have "(length s + k) div Suc k = 1" by (rule div_nat_eqI[rotated -1, rotated -1])
      then show ?thesis using False by simp
    qed
    finally show ?thesis .
  qed (subst chunks.simps, simp)
qed

text \<open>The lines show the whole safety number: the 12 groups in order, and so all 60 digits.\<close>

lemma number_shown:
  assumes "length number = 60"
  shows "length (groupSafetyNumber number) = 12 \<and>
    concat (map (\<lambda>line. slice (line * 3) (line * 3 + 3) (groupSafetyNumber number)) [0, 1, 2, 3]) = groupSafetyNumber number \<and>
    concat (groupSafetyNumber number) = number"
proof -
  have l: "length (groupSafetyNumber number) = 12" using assms by (simp add: groupSafetyNumber_def length_chunks)
  then obtain a b c d e f g h i j k m where "groupSafetyNumber number = [a, b, c, d, e, f, g, h, i, j, k, m]"
    by (auto simp: length_Suc_conv eval_nat_numeral)
  then have "concat (map (\<lambda>line. slice (line * 3) (line * 3 + 3) (groupSafetyNumber number)) [0, 1, 2, 3]) = groupSafetyNumber number"
    by (simp add: slice_def)
  with l show ?thesis by (simp add: groupSafetyNumber_def chunks_concat)
qed

section \<open>A call\<close>

datatype call_label = LCalling | LIncoming | LConnecting | LConnected | LEnded "string option" | LNone

definition stateLabel :: "call_info \<Rightarrow> call_label" where
  "stateLabel c = (case ci_state c of
      RingingOutgoing \<Rightarrow> LCalling | RingingIncoming \<Rightarrow> LIncoming | Connecting \<Rightarrow> LConnecting | Connected \<Rightarrow> LConnected
    | Ended \<Rightarrow> LEnded (ci_endReason c) | Idle \<Rightarrow> LNone)"

definition duration :: "call_info \<Rightarrow> int \<Rightarrow> string" where
  "duration c now = (case ci_startedAt c of
      None \<Rightarrow> []
    | Some t \<Rightarrow> if ci_state c \<noteq> Connected then []
        else let seconds = max 0 ((now - t) div 1000); minutes = seconds div 60
          in json_int minutes @ '':'' @ pad_start 2 CHR ''0'' (json_int (seconds mod 60)))"

record call_view =
  cw_words :: "(string option \<times> string option) option"
  cw_notice :: "tone option"
  cw_confirm :: bool
  cw_answer :: bool
  cw_mute :: "string option"
  cw_close :: string

definition call_view :: "call_info \<Rightarrow> bool \<Rightarrow> call_view" where
  "call_view c muted = (let showSas = (ci_sas c \<noteq> None \<and> ci_state c \<noteq> Ended) in
     \<lparr>cw_words = (if showSas then Some (ci_sas c, ci_sasDigits c) else None),
      cw_notice = (if showSas then Some (if ci_sasConfirmed c then Info else Caution) else None),
      cw_confirm = (showSas \<and> \<not> ci_sasConfirmed c),
      cw_answer = (ci_state c = RingingIncoming),
      cw_mute = (if ci_state c = RingingIncoming then None else Some (if muted then ''Unmute'' else ''Mute'')),
      cw_close = (if ci_state c = Ended then ''Close'' else ''Hang up'')\<rparr>)"

text \<open>
  The screen never claims more than was established: it says verified only while the words are
  on the screen and the user has confirmed them.
\<close>

lemma call_not_overclaimed:
  "cw_notice (call_view c muted) = Some Info \<longleftrightarrow> ci_sas c \<noteq> None \<and> ci_state c \<noteq> Ended \<and> ci_sasConfirmed c"
  by (simp add: call_view_def Let_def)

end
