(* ===== verification/App_Shell.thy ===== *)
theory App_Shell
  imports App_Keystore App_Screens
begin

text \<open>
  The app shell: apps/mobile/src/App.tsx, with the guards of the screens that call it. It holds
  the route, what is on the screen, and references to the messenger, the call manager, the vault
  and the socket. An async callback runs without interruption up to its next \<open>await\<close>; the rest
  of it is a pending continuation, and the pending ones are resumed in any order, other events
  between them (an \<open>await\<close> of a function that returns at once is no such point). React renders
  after each of these steps. The messenger, the keystore and the other objects are outside:
  their replies are events, what is asked of them is logged. The replies are arbitrary, which is
  more than the objects give: after a lock, for one, the messenger's lists come without the rows
  that do not decrypt under the wiped key (App_Storage).
\<close>

section \<open>State\<close>

datatype app_route = Loading | Onboarding onboarding_mode | Conversations | Chat string | Verify string
  | Pair | MyCode | NewConversation | CallRoute

text \<open>What the error line shows: the message of a caught error, or a text of the shell's own.\<close>

datatype shown = Caught error | Says string

text \<open>What is asked of the object with a number: every start makes one set of objects.\<close>

datatype ask =
    AInitialise | ALoadPins | ASync | AListConversations | AListContacts | APurgeExpired
  | AHistory string | AMarkRead string | ASendText string string "int option" | APairWithCode string string
  | AAddContactFromCode string | AStartConversation string | ASetDisappearTimer string int
  | AMarkVerified string | AAcceptIdentityChange string | APeerIdentity string | AHandleDelivered string

datatype shell_effect =
    Asked nat ask
  | SocketConnected nat
  | SocketAcknowledged nat string
  | SocketClosed nat
  | SessionsDestroyed nat
  | VaultLocked nat
  | CallPlaced nat string
  | CallAnswered nat
  | CallEnded nat string
  | CallMuted nat bool
  | CallConfirmed nat
  | CallSignalled nat string
  | CodeShared nat
  | Unhandled error

text \<open>What follows an awaited \<open>refreshLists()\<close>: nothing, or the end of one of three callbacks.\<close>

datatype after_lists = Ignored | StartEnds | PairEnds | OpensChat string

datatype shell_cont =
    BootRead
  | StartOpened string
  | StartUnlocked
  | StartInitialised nat
  | StartPinned nat string
  | StartConnected nat
  | StartSynced nat
  | RefreshedConversations nat after_lists
  | RefreshedContacts after_lists
  | ChatHistory nat string bool
  | ChatRead string bool
  | TextSent nat string
  | SentHistory
  | Paired nat
  | PairWarmed
  | ContactAdded string
  | CallWarmed string
  | SignalWarmed string
  | DeliveryHandled nat string
  | Purged
  | ThenRefresh

datatype shell_reply =
    RepDone
  | RepThrow error
  | RepFlag bool
  | RepMode keystore_mode
  | RepOutcome unlock_outcome
  | RepAddress string
  | RepConversations "conversation list"
  | RepContacts "contact list"
  | RepMessages "app_message list"
  | RepCount nat

record shell =
  sh_route :: app_route
  sh_error :: "shown option"
  sh_busy :: bool
  sh_conversations :: "conversation list"
  sh_contacts :: "(string, contact) jsmap"
  sh_messages :: "app_message list"
  sh_call :: "call_info option"
  sh_muted :: bool
  sh_myAddress :: string
  sh_screenProtected :: bool
  sh_keystoreMode :: keystore_mode
  sh_messenger :: "nat option"
  sh_callManager :: "nat option"
  sh_vault :: "nat option"
  sh_socket :: "nat option"
  sh_warm :: "nat option"
  sh_starts :: nat
  sh_pending :: "shell_cont list"
  sh_log :: "shell_effect list"

text \<open>The first effect has already asked the keystore for the vault wrapper.\<close>

definition new_shell :: shell where
  "new_shell = \<lparr>sh_route = Loading, sh_error = None, sh_busy = False, sh_conversations = [], sh_contacts = [],
     sh_messages = [], sh_call = None, sh_muted = False, sh_myAddress = [], sh_screenProtected = True,
     sh_keystoreMode = Authenticated, sh_messenger = None, sh_callManager = None, sh_vault = None, sh_socket = None,
     sh_warm = None, sh_starts = 0, sh_pending = [BootRead], sh_log = []\<rparr>"

abbreviation shell_emit :: "shell_effect \<Rightarrow> shell \<Rightarrow> shell" where
  "shell_emit e s \<equiv> s\<lparr>sh_log := sh_log s @ [e]\<rparr>"

abbreviation shell_await :: "shell_cont \<Rightarrow> shell \<Rightarrow> shell" where
  "shell_await k s \<equiv> s\<lparr>sh_pending := sh_pending s @ [k]\<rparr>"

abbreviation shell_ask :: "nat \<Rightarrow> ask \<Rightarrow> shell_cont \<Rightarrow> shell \<Rightarrow> shell" where
  "shell_ask n q k s \<equiv> shell_await k (shell_emit (Asked n q) s)"

text \<open>\<open>ref.current?.op(...)\<close>.\<close>

definition on_ref :: "nat option \<Rightarrow> (nat \<Rightarrow> shell \<Rightarrow> shell) \<Rightarrow> shell \<Rightarrow> shell" where
  "on_ref r f s = (case r of None \<Rightarrow> s | Some n \<Rightarrow> f n s)"

section \<open>Callbacks\<close>

text \<open>
  \<open>openChat\<close>; the flag says whether it is awaited inside the block of the new-conversation
  screen, which catches what it throws and clears \<open>busy\<close> at the end.
\<close>

definition open_chat :: "string \<Rightarrow> bool \<Rightarrow> shell \<Rightarrow> shell" where
  "open_chat address inner s = (case sh_messenger s of
      None \<Rightarrow> if inner then s\<lparr>sh_busy := False\<rparr> else s
    | Some n \<Rightarrow> shell_ask n (AHistory address) (ChatHistory n address inner) s)"

text \<open>\<open>paired\<close>: whether the messenger has a paired peer.\<close>

fun after_refresh :: "after_lists \<Rightarrow> bool \<Rightarrow> shell \<Rightarrow> shell" where
  "after_refresh Ignored paired s = s"
| "after_refresh StartEnds paired s = s\<lparr>sh_route := (if paired then Conversations else Pair), sh_busy := False\<rparr>"
| "after_refresh PairEnds paired s = s\<lparr>sh_route := Conversations, sh_busy := False\<rparr>"
| "after_refresh (OpensChat address) paired s = open_chat address True s"

definition refresh_lists :: "after_lists \<Rightarrow> bool \<Rightarrow> shell \<Rightarrow> shell" where
  "refresh_lists k paired s = (case sh_messenger s of
      None \<Rightarrow> after_refresh k paired s
    | Some n \<Rightarrow> shell_ask n AListConversations (RefreshedConversations n k) s)"

text \<open>Whether a continuation runs inside a \<open>try\<close> that shows the error and clears \<open>busy\<close>.\<close>

fun caught :: "shell_cont \<Rightarrow> bool" where
  "caught BootRead = True"
| "caught (StartOpened p) = True"
| "caught StartUnlocked = True"
| "caught (StartInitialised n) = True"
| "caught (StartPinned n a) = True"
| "caught (StartConnected n) = True"
| "caught (StartSynced n) = True"
| "caught (RefreshedConversations n k) = (k \<noteq> Ignored)"
| "caught (RefreshedContacts k) = (k \<noteq> Ignored)"
| "caught (ChatHistory n a inner) = inner"
| "caught (ChatRead a inner) = inner"
| "caught (Paired n) = True"
| "caught PairWarmed = True"
| "caught (ContactAdded a) = True"
| "caught _ = False"

text \<open>The start-up effect does not touch \<open>busy\<close>, which is false until the first start.\<close>

definition shell_fail :: "shell_cont \<Rightarrow> error \<Rightarrow> shell \<Rightarrow> shell" where
  "shell_fail k e s = (if caught k
     then s\<lparr>sh_error := Some (Caught e), sh_busy := (if k = BootRead then sh_busy s else False)\<rparr>
     else shell_emit (Unhandled e) s)"

text \<open>
  \<open>start\<close> from the opened keystore to the outcome of \<open>start_unlock\<close> (App_Policies), and on to the
  messenger of the opened vault.
\<close>

definition start_outcome :: "unlock_outcome \<Rightarrow> shell \<Rightarrow> shell" where
  "start_outcome out s = (case out of
      TooMany wait \<Rightarrow> s\<lparr>sh_error := Some (Says (''Too many incorrect attempts. Try again in '' @ wait @ ''.'')), sh_busy := False\<rparr>
    | Incorrect None \<Rightarrow> s\<lparr>sh_error := Some (Says ''Incorrect passphrase.''), sh_busy := False\<rparr>
    | Incorrect (Some wait) \<Rightarrow> s\<lparr>sh_error := Some (Says (''Incorrect passphrase. Try again in '' @ wait @ ''.'')), sh_busy := False\<rparr>
    | StartFailed e \<Rightarrow> s\<lparr>sh_error := Some (Caught e), sh_busy := False\<rparr>
    | Opened v \<Rightarrow> let n = sh_starts s in
        shell_ask n AInitialise (StartInitialised n) (s\<lparr>sh_starts := Suc n, sh_vault := Some n, sh_messenger := Some n\<rparr>))"

definition start_online :: "nat \<Rightarrow> string \<Rightarrow> shell \<Rightarrow> shell" where
  "start_online n address s = shell_await (StartConnected n) (shell_emit (SocketConnected n)
     (s\<lparr>sh_myAddress := address, sh_warm := Some n, sh_callManager := Some n, sh_socket := Some n\<rparr>))"

text \<open>\<open>warmPeerIdentity\<close>, then the continuation; before the first start it is a function that does nothing.\<close>

definition warm_then :: "string \<Rightarrow> shell_cont \<Rightarrow> (shell \<Rightarrow> shell) \<Rightarrow> shell \<Rightarrow> shell" where
  "warm_then address k now s = (case sh_warm s of None \<Rightarrow> now s | Some n \<Rightarrow> shell_ask n (APeerIdentity address) k s)"

definition lock_shell :: "shell \<Rightarrow> shell" where
  "lock_shell s =
     (let s = (on_ref (sh_socket s) (\<lambda>n. shell_emit (SocketClosed n)) s)\<lparr>sh_socket := None\<rparr>;
          s = (on_ref (sh_messenger s) (\<lambda>n. shell_emit (SessionsDestroyed n)) s)\<lparr>sh_messenger := None, sh_callManager := None\<rparr>;
          s = (on_ref (sh_vault s) (\<lambda>n. shell_emit (VaultLocked n)) s)\<lparr>sh_vault := None\<rparr>
      in s\<lparr>sh_conversations := [], sh_contacts := [], sh_messages := [], sh_call := None, sh_error := None,
           sh_route := Onboarding UnlockMode\<rparr>)"

definition contact_map :: "contact list \<Rightarrow> (string, contact) jsmap" where
  "contact_map cs = fold (\<lambda>c. js_set (ct_address c) c) cs []"

text \<open>A continuation resumed with what it awaited; a reply of another type does not occur.\<close>

definition resume_value :: "shell_cont \<Rightarrow> shell_reply \<Rightarrow> bool \<Rightarrow> shell \<Rightarrow> shell" where
  "resume_value k r paired s = (case k of
      BootRead \<Rightarrow> (case r of RepFlag existing \<Rightarrow> s\<lparr>sh_route := Onboarding (if existing then UnlockMode else CreateMode)\<rparr> | _ \<Rightarrow> s)
    | StartOpened passphrase \<Rightarrow> (case r of RepMode mode \<Rightarrow> shell_await StartUnlocked (s\<lparr>sh_keystoreMode := mode\<rparr>) | _ \<Rightarrow> s)
    | StartUnlocked \<Rightarrow> (case r of RepOutcome out \<Rightarrow> start_outcome out s | _ \<Rightarrow> s)
    | StartInitialised n \<Rightarrow> (case r of RepAddress address \<Rightarrow> shell_ask n ALoadPins (StartPinned n address) s | _ \<Rightarrow> s)
    | StartPinned n address \<Rightarrow> start_online n address s
    | StartConnected n \<Rightarrow> shell_ask n ASync (StartSynced n) s
    | StartSynced n \<Rightarrow> refresh_lists StartEnds paired s
    | RefreshedConversations n a \<Rightarrow> (case r of
          RepConversations cs \<Rightarrow> shell_ask n AListContacts (RefreshedContacts a) (s\<lparr>sh_conversations := cs\<rparr>) | _ \<Rightarrow> s)
    | RefreshedContacts a \<Rightarrow> (case r of
          RepContacts cs \<Rightarrow> after_refresh a paired (s\<lparr>sh_contacts := contact_map cs\<rparr>) | _ \<Rightarrow> s)
    | ChatHistory n address inner \<Rightarrow> (case r of
          RepMessages ms \<Rightarrow> shell_ask n (AMarkRead address) (ChatRead address inner) (s\<lparr>sh_messages := ms\<rparr>) | _ \<Rightarrow> s)
    | ChatRead address inner \<Rightarrow> s\<lparr>sh_route := Chat address, sh_busy := (if inner then False else sh_busy s)\<rparr>
    | TextSent n address \<Rightarrow> shell_ask n (AHistory address) SentHistory s
    | SentHistory \<Rightarrow> (case r of RepMessages ms \<Rightarrow> refresh_lists Ignored paired (s\<lparr>sh_messages := ms\<rparr>) | _ \<Rightarrow> s)
    | Paired n \<Rightarrow> (case r of
          RepAddress address \<Rightarrow> warm_then address PairWarmed (refresh_lists PairEnds paired) s | _ \<Rightarrow> s)
    | PairWarmed \<Rightarrow> refresh_lists PairEnds paired s
    | ContactAdded address \<Rightarrow> refresh_lists (OpensChat (case r of RepAddress added \<Rightarrow> added | _ \<Rightarrow> address)) paired s
    | CallWarmed address \<Rightarrow> on_ref (sh_callManager s) (\<lambda>n. shell_emit (CallPlaced n address)) s
    | SignalWarmed address \<Rightarrow> on_ref (sh_callManager s) (\<lambda>n. shell_emit (CallSignalled n address)) s
    | DeliveryHandled n i \<Rightarrow> refresh_lists Ignored paired (shell_emit (SocketAcknowledged n i) s)
    | Purged \<Rightarrow> (case r of RepCount removed \<Rightarrow> if removed > 0 then refresh_lists Ignored paired s else s | _ \<Rightarrow> s)
    | ThenRefresh \<Rightarrow> refresh_lists Ignored paired s)"

text \<open>A rejection: sending a text catches its own and goes on.\<close>

definition resume_shell :: "shell_cont \<Rightarrow> shell_reply \<Rightarrow> bool \<Rightarrow> shell \<Rightarrow> shell" where
  "resume_shell k r paired s = (case r of
      RepThrow e \<Rightarrow> (case k of
          TextSent n address \<Rightarrow> resume_value k RepDone paired (s\<lparr>sh_error := Some (Caught e)\<rparr>)
        | _ \<Rightarrow> shell_fail k e s)
    | _ \<Rightarrow> resume_value k r paired s)"

section \<open>What is on the screen\<close>

datatype warning = ScreenNotProtected | NoDevicePasscode

definition warnings :: "shell \<Rightarrow> warning list" where
  "warnings s = (if sh_screenProtected s then [] else [ScreenNotProtected]) @
     (if sh_keystoreMode s = Authenticated then [] else [NoDevicePasscode])"

datatype screen =
    SLoading
  | SOnboarding onboarding_mode bool "shown option"
  | SCall call_info string bool
  | SChat contact "app_message list" int
  | SVerify contact
  | SPair bool "shown option"
  | SMyCode string
  | SNewConversation bool "shown option"
  | SConversations "(conversation \<times> contact option) list" string "warning list" "shown option"

definition find_conversation :: "string \<Rightarrow> shell \<Rightarrow> conversation option" where
  "find_conversation address s = find (\<lambda>c. cv_address c = address) (sh_conversations s)"

definition disappear_of :: "string \<Rightarrow> shell \<Rightarrow> int" where
  "disappear_of address s = (case find_conversation address s of None \<Rightarrow> 0 | Some c \<Rightarrow> cv_disappearAfterSeconds c)"

definition conversations_screen :: "shell \<Rightarrow> screen" where
  "conversations_screen s = SConversations
     (map (\<lambda>c. (c, js_get (sh_contacts s) (cv_address c))) (sh_conversations s)) (sh_myAddress s) (warnings s) (sh_error s)"

text \<open>The call screen needs a call: without one its route shows the conversations.\<close>

definition render :: "shell \<Rightarrow> screen" where
  "render s = (case sh_route s of
      Loading \<Rightarrow> SLoading
    | Onboarding mode \<Rightarrow> SOnboarding mode (sh_busy s) (sh_error s)
    | Chat a \<Rightarrow> (case js_get (sh_contacts s) a of
          Some c \<Rightarrow> SChat c (sh_messages s) (disappear_of a s) | None \<Rightarrow> conversations_screen s)
    | Verify a \<Rightarrow> (case js_get (sh_contacts s) a of Some c \<Rightarrow> SVerify c | None \<Rightarrow> conversations_screen s)
    | Pair \<Rightarrow> SPair (sh_busy s) (sh_error s)
    | MyCode \<Rightarrow> SMyCode (sh_myAddress s)
    | NewConversation \<Rightarrow> SNewConversation (sh_busy s) (sh_error s)
    | Conversations \<Rightarrow> conversations_screen s
    | CallRoute \<Rightarrow> (case sh_call s of
          None \<Rightarrow> conversations_screen s
        | Some c \<Rightarrow> SCall c (case js_get (sh_contacts s) (ci_peerAddress c) of
              Some p \<Rightarrow> ct_displayName p | None \<Rightarrow> slice 0 10 (ci_peerAddress c)) (sh_muted s)))"

text \<open>Rendering a chat or a verification of an unknown contact sets the route back.\<close>

definition settle :: "shell \<Rightarrow> shell" where
  "settle s = (case sh_route s of
      Chat a \<Rightarrow> if js_get (sh_contacts s) a = None then s\<lparr>sh_route := Conversations\<rparr> else s
    | Verify a \<Rightarrow> if js_get (sh_contacts s) a = None then s\<lparr>sh_route := Conversations\<rparr> else s
    | _ \<Rightarrow> s)"

section \<open>Events\<close>

text \<open>
  What the user does on a screen, what the objects of a start report, the lock of
  screenSecurity.ts and the timers. \<open>Reported\<close> to \<open>CallError\<close> carry the number of their objects.
\<close>

datatype blocked = BlockedStranger | BlockedKeyChanged string

datatype tap =
    TapSubmit string string
  | TapOpen string
  | TapNewConversation bool
  | TapShowMyCode
  | TapBack
  | TapVerify
  | TapCall
  | TapSend string
  | TapChangeDisappear int
  | TapMarkVerified "string option"
  | TapAcceptChange "string option"
  | TapPair string string
  | TapShare
  | TapStartConversation string
  | TapAnswer
  | TapHangUp
  | TapToggleMute
  | TapConfirmSas

datatype shell_event =
    Resumed nat shell_reply bool
  | LockFires
  | Unmounted
  | ScreenProtection bool
  | PurgeTick
  | Reported nat
  | Blocked nat blocked
  | CallPayload nat string
  | DeliveredFrame nat string
  | CallStateChange nat call_info
  | CallSas nat call_info
  | CallError nat error
  | Tap tap

text \<open>\<open>start\<close>, up to the opening of the keystore.\<close>

definition start :: "string \<Rightarrow> shell \<Rightarrow> shell" where
  "start passphrase s = shell_await (StartOpened passphrase) (s\<lparr>sh_busy := True, sh_error := None\<rparr>)"

definition on_send :: "string \<Rightarrow> string \<Rightarrow> shell \<Rightarrow> shell" where
  "on_send address draft s = (let secs = disappear_of address s in
     case chat_submit draft of None \<Rightarrow> s
     | Some body \<Rightarrow> on_ref (sh_messenger s) (\<lambda>n. shell_ask n (ASendText address body (if secs > 0 then Some secs else None)) (TextSent n address)) s)"

definition on_pair :: "string \<Rightarrow> string \<Rightarrow> shell \<Rightarrow> shell" where
  "on_pair theirCode displayName s = on_ref (sh_messenger s)
     (\<lambda>n s. shell_ask n (APairWithCode (js_trim theirCode) (js_trim displayName)) (Paired n) (s\<lparr>sh_busy := True, sh_error := None\<rparr>)) s"

definition on_start_conversation :: "string \<Rightarrow> shell \<Rightarrow> shell" where
  "on_start_conversation typed s = (let input = js_trim typed in on_ref (sh_messenger s)
     (\<lambda>n s. shell_ask n (if looksLikeCode input then AAddContactFromCode input else AStartConversation input) (ContactAdded input)
        (s\<lparr>sh_busy := True, sh_error := None\<rparr>)) s)"

definition tap_chat :: "string \<Rightarrow> tap \<Rightarrow> shell \<Rightarrow> shell" where
  "tap_chat a t s = (case t of
      TapBack \<Rightarrow> s\<lparr>sh_route := Conversations\<rparr>
    | TapVerify \<Rightarrow> s\<lparr>sh_route := Verify a\<rparr>
    | TapSend draft \<Rightarrow> on_send a draft s
    | TapCall \<Rightarrow> warm_then a (CallWarmed a) (\<lambda>s. on_ref (sh_callManager s) (\<lambda>n. shell_emit (CallPlaced n a)) s) s
    | TapChangeDisappear k \<Rightarrow> on_ref (sh_messenger s) (\<lambda>n. shell_ask n (ASetDisappearTimer a k) ThenRefresh) s
    | _ \<Rightarrow> s)"

text \<open>The number on the verification screen is the state of its own that is modelled below.\<close>

definition tap_verify :: "contact \<Rightarrow> string \<Rightarrow> tap \<Rightarrow> shell \<Rightarrow> shell" where
  "tap_verify c a t s = (case t of
      TapBack \<Rightarrow> s\<lparr>sh_route := Chat a\<rparr>
    | TapMarkVerified number \<Rightarrow> if verify_button c number = MarkButton True
        then on_ref (sh_messenger s) (\<lambda>n. shell_ask n (AMarkVerified a) ThenRefresh) s else s
    | TapAcceptChange number \<Rightarrow> if verify_button c number = AcceptButton
        then on_ref (sh_messenger s) (\<lambda>n. shell_ask n (AAcceptIdentityChange a) ThenRefresh) s else s
    | _ \<Rightarrow> s)"

definition tap_call :: "call_info \<Rightarrow> tap \<Rightarrow> shell \<Rightarrow> shell" where
  "tap_call c t s = (case t of
      TapAnswer \<Rightarrow> if cw_answer (call_view c (sh_muted s)) then on_ref (sh_callManager s) (\<lambda>n. shell_emit (CallAnswered n)) s else s
    | TapHangUp \<Rightarrow> (on_ref (sh_callManager s) (\<lambda>n. shell_emit (CallEnded n ''hung up'')) s)\<lparr>sh_route := Conversations\<rparr>
    | TapToggleMute \<Rightarrow> if cw_mute (call_view c (sh_muted s)) = None then s
        else on_ref (sh_callManager s) (\<lambda>n. shell_emit (CallMuted n (\<not> sh_muted s))) (s\<lparr>sh_muted := \<not> sh_muted s\<rparr>)
    | TapConfirmSas \<Rightarrow> if cw_confirm (call_view c (sh_muted s)) then on_ref (sh_callManager s) (\<lambda>n. shell_emit (CallConfirmed n)) s else s
    | _ \<Rightarrow> s)"

definition tap_conversations :: "tap \<Rightarrow> shell \<Rightarrow> shell" where
  "tap_conversations t s = (case t of
      TapOpen address \<Rightarrow> open_chat address False s
    | TapNewConversation paired \<Rightarrow>
        s\<lparr>sh_error := None, sh_route := (if sh_messenger s \<noteq> None \<and> paired then MyCode else Pair)\<rparr>
    | TapShowMyCode \<Rightarrow> s\<lparr>sh_route := MyCode\<rparr>
    | _ \<Rightarrow> s)"

definition tap_pair :: "bool \<Rightarrow> tap \<Rightarrow> shell \<Rightarrow> shell" where
  "tap_pair busy t s = (case t of
      TapPair theirCode displayName \<Rightarrow> if pair_ready theirCode busy then on_pair theirCode displayName s else s
    | TapShare \<Rightarrow> on_ref (sh_messenger s) (\<lambda>n. shell_emit (CodeShared n)) s
    | _ \<Rightarrow> s)"

definition tap_my_code :: "tap \<Rightarrow> shell \<Rightarrow> shell" where
  "tap_my_code t s = (case t of
      TapBack \<Rightarrow> s\<lparr>sh_route := Conversations\<rparr>
    | TapShare \<Rightarrow> on_ref (sh_messenger s) (\<lambda>n. shell_emit (CodeShared n)) s
    | _ \<Rightarrow> s)"

definition tap_new_conversation :: "bool \<Rightarrow> tap \<Rightarrow> shell \<Rightarrow> shell" where
  "tap_new_conversation busy t s = (case t of
      TapBack \<Rightarrow> s\<lparr>sh_route := Conversations\<rparr>
    | TapStartConversation typed \<Rightarrow> if start_ready typed (Some busy) then on_start_conversation typed s else s
    | _ \<Rightarrow> s)"

definition tap_onboarding :: "onboarding_mode \<Rightarrow> bool \<Rightarrow> tap \<Rightarrow> shell \<Rightarrow> shell" where
  "tap_onboarding mode busy t s = (case t of
      TapSubmit passphrase confirmation \<Rightarrow> if onboarding_ready mode busy passphrase confirmation then start passphrase s else s
    | _ \<Rightarrow> s)"

text \<open>A tap reaches the screen that is shown.\<close>

definition on_tap :: "tap \<Rightarrow> shell \<Rightarrow> shell" where
  "on_tap t s = (case render s of
      SLoading \<Rightarrow> s
    | SOnboarding mode busy e \<Rightarrow> tap_onboarding mode busy t s
    | SCall c name muted \<Rightarrow> tap_call c t s
    | SChat c ms secs \<Rightarrow> (case sh_route s of Chat a \<Rightarrow> tap_chat a t s | _ \<Rightarrow> s)
    | SVerify c \<Rightarrow> (case sh_route s of Verify a \<Rightarrow> tap_verify c a t s | _ \<Rightarrow> s)
    | SPair busy e \<Rightarrow> tap_pair busy t s
    | SMyCode me \<Rightarrow> tap_my_code t s
    | SNewConversation busy e \<Rightarrow> tap_new_conversation busy t s
    | SConversations rows me w e \<Rightarrow> tap_conversations t s)"

definition shell_handle :: "shell_event \<Rightarrow> shell \<Rightarrow> shell" where
  "shell_handle ev s = (case ev of
      Resumed i r paired \<Rightarrow> if i < length (sh_pending s)
        then resume_shell (sh_pending s ! i) r paired (s\<lparr>sh_pending := take i (sh_pending s) @ drop (Suc i) (sh_pending s)\<rparr>)
        else s
    | LockFires \<Rightarrow> lock_shell s
    | Unmounted \<Rightarrow> on_ref (sh_vault s) (\<lambda>n. shell_emit (VaultLocked n)) (on_ref (sh_socket s) (\<lambda>n. shell_emit (SocketClosed n)) s)
    | ScreenProtection ok \<Rightarrow> s\<lparr>sh_screenProtected := ok\<rparr>
    | PurgeTick \<Rightarrow> on_ref (sh_messenger s) (\<lambda>n. shell_ask n APurgeExpired Purged) s
    | Reported n \<Rightarrow> refresh_lists Ignored False s
    | Blocked n b \<Rightarrow> (case b of BlockedKeyChanged detail \<Rightarrow> s\<lparr>sh_error := Some (Says detail)\<rparr> | BlockedStranger \<Rightarrow> s)
    | CallPayload n peer \<Rightarrow>
        warm_then peer (SignalWarmed peer) (\<lambda>s. on_ref (sh_callManager s) (\<lambda>n. shell_emit (CallSignalled n peer)) s) s
    | DeliveredFrame n i \<Rightarrow> shell_ask n (AHandleDelivered i) (DeliveryHandled n i) s
    | CallStateChange n c \<Rightarrow> s\<lparr>sh_call := Some c, sh_route := (if ci_state c \<noteq> Ended then CallRoute else sh_route s)\<rparr>
    | CallSas n c \<Rightarrow> s\<lparr>sh_call := Some c\<rparr>
    | CallError n e \<Rightarrow> s\<lparr>sh_error := Some (Caught e)\<rparr>
    | Tap t \<Rightarrow> on_tap t s)"

definition shell_step :: "shell_event \<Rightarrow> shell \<Rightarrow> shell" where
  "shell_step e s = settle (shell_handle e s)"

definition shell_run :: "shell_event list \<Rightarrow> shell \<Rightarrow> shell" where
  "shell_run evs s = fold shell_step evs s"

section \<open>What a callback leaves alone\<close>

lemma on_ref_emit [simp]:
  "sh_vault (on_ref r (\<lambda>n. shell_emit (f n)) s) = sh_vault s" "sh_route (on_ref r (\<lambda>n. shell_emit (f n)) s) = sh_route s"
  "sh_pending (on_ref r (\<lambda>n. shell_emit (f n)) s) = sh_pending s" "sh_messenger (on_ref r (\<lambda>n. shell_emit (f n)) s) = sh_messenger s"
  "sh_callManager (on_ref r (\<lambda>n. shell_emit (f n)) s) = sh_callManager s" "sh_call (on_ref r (\<lambda>n. shell_emit (f n)) s) = sh_call s"
  "sh_conversations (on_ref r (\<lambda>n. shell_emit (f n)) s) = sh_conversations s" "sh_contacts (on_ref r (\<lambda>n. shell_emit (f n)) s) = sh_contacts s"
  "sh_messages (on_ref r (\<lambda>n. shell_emit (f n)) s) = sh_messages s" "sh_myAddress (on_ref r (\<lambda>n. shell_emit (f n)) s) = sh_myAddress s"
  "sh_screenProtected (on_ref r (\<lambda>n. shell_emit (f n)) s) = sh_screenProtected s" "sh_keystoreMode (on_ref r (\<lambda>n. shell_emit (f n)) s) = sh_keystoreMode s"
  by (simp_all add: on_ref_def split: option.split)

lemma on_ref_vault: "(\<And>n s. sh_vault (f n s) = sh_vault s) \<Longrightarrow> sh_vault (on_ref r f s) = sh_vault s"
  by (simp add: on_ref_def split: option.split)

lemma open_chat_vault [simp]: "sh_vault (open_chat a inner s) = sh_vault s"
  by (simp add: open_chat_def split: option.split)

lemma after_vault [simp]: "sh_vault (after_refresh k paired s) = sh_vault s"
  by (cases k) simp_all

lemma refresh_vault [simp]: "sh_vault (refresh_lists k paired s) = sh_vault s"
  by (simp add: refresh_lists_def split: option.split)

lemma warm_vault: "(\<And>s. sh_vault (f s) = sh_vault s) \<Longrightarrow> sh_vault (warm_then a k f s) = sh_vault s"
  by (simp add: warm_then_def split: option.split)

lemma settle_simps [simp]:
  "sh_vault (settle s) = sh_vault s" "sh_pending (settle s) = sh_pending s" "sh_messenger (settle s) = sh_messenger s"
  "sh_callManager (settle s) = sh_callManager s" "sh_call (settle s) = sh_call s" "sh_conversations (settle s) = sh_conversations s"
  "sh_contacts (settle s) = sh_contacts s" "sh_messages (settle s) = sh_messages s" "sh_log (settle s) = sh_log s"
  by (simp_all add: settle_def split: app_route.split)

lemma lock_simps [simp]:
  "sh_vault (lock_shell s) = None" "sh_messenger (lock_shell s) = None" "sh_callManager (lock_shell s) = None" "sh_conversations (lock_shell s) = []"
  "sh_contacts (lock_shell s) = []" "sh_messages (lock_shell s) = []" "sh_call (lock_shell s) = None" "sh_route (lock_shell s) = Onboarding UnlockMode"
  "sh_pending (lock_shell s) = sh_pending s" "sh_myAddress (lock_shell s) = sh_myAddress s" "sh_error (lock_shell s) = None"
  "sh_screenProtected (lock_shell s) = sh_screenProtected s" "sh_keystoreMode (lock_shell s) = sh_keystoreMode s"
  by (simp_all add: lock_shell_def Let_def)

section \<open>Screens and the vault\<close>

text \<open>Continuations that put nothing on the screen while nothing is unlocked.\<close>

fun harmless :: "shell_cont \<Rightarrow> bool" where
  "harmless BootRead = True"
| "harmless (StartOpened p) = True"
| "harmless StartUnlocked = True"
| "harmless (CallWarmed a) = True"
| "harmless (SignalWarmed a) = True"
| "harmless (DeliveryHandled n i) = True"
| "harmless Purged = True"
| "harmless ThenRefresh = True"
| "harmless _ = False"

definition entry_route :: "app_route \<Rightarrow> bool" where
  "entry_route r \<longleftrightarrow> r = Loading \<or> r = Onboarding CreateMode \<or> r = Onboarding UnlockMode"

definition locked_down :: "shell \<Rightarrow> bool" where
  "locked_down s \<longleftrightarrow> sh_messenger s = None \<and> sh_callManager s = None \<and> entry_route (sh_route s) \<and>
     sh_conversations s = [] \<and> sh_contacts s = [] \<and> sh_messages s = [] \<and> sh_call s = None \<and> list_all harmless (sh_pending s)"

text \<open>
  An event is calm unless it locks the app while a callback that will show something is still
  waiting, or comes from a call manager the app has let go of.
\<close>

definition calm :: "shell_event \<Rightarrow> shell \<Rightarrow> bool" where
  "calm e s = (case e of
      LockFires \<Rightarrow> list_all harmless (sh_pending s)
    | CallStateChange n c \<Rightarrow> sh_callManager s = Some n
    | CallSas n c \<Rightarrow> sh_callManager s = Some n
    | _ \<Rightarrow> True)"

inductive calm_reach :: "shell \<Rightarrow> bool" where
  start: "calm_reach new_shell"
| step: "calm_reach s \<Longrightarrow> calm e s \<Longrightarrow> calm_reach (shell_step e s)"

lemma settle_entry: "entry_route (sh_route s) \<Longrightarrow> settle s = s"
  by (auto simp: entry_route_def settle_def)

lemma locked_down_settle: "locked_down s \<Longrightarrow> locked_down (settle s)"
  by (simp add: locked_down_def settle_entry)

lemma resume_value_vault: "sh_vault s \<noteq> None \<Longrightarrow> sh_vault (resume_value k r paired s) \<noteq> None"
  by (cases k) (simp_all add: resume_value_def start_outcome_def start_online_def warm_vault Let_def
      split: shell_reply.split unlock_outcome.split option.split)

lemma shell_fail_vault [simp]: "sh_vault (shell_fail k e s) = sh_vault s"
  by (simp add: shell_fail_def)

lemma resume_shell_vault: "sh_vault s \<noteq> None \<Longrightarrow> sh_vault (resume_shell k r paired s) \<noteq> None"
  by (cases r; cases k) (simp_all add: resume_shell_def resume_value_vault)

lemma on_tap_vault [simp]: "sh_vault (on_tap t s) = sh_vault s"
  by (simp add: on_tap_def tap_onboarding_def tap_call_def tap_chat_def tap_verify_def tap_pair_def tap_my_code_def
      tap_new_conversation_def tap_conversations_def start_def on_send_def on_pair_def on_start_conversation_def Let_def
      on_ref_vault warm_vault split: screen.split app_route.split tap.split option.split)

lemma vault_kept:
  assumes "sh_vault s \<noteq> None" and "e \<noteq> LockFires"
  shows "sh_vault (shell_handle e s) \<noteq> None"
  using assms by (cases e) (simp_all add: shell_handle_def resume_shell_vault[unfolded not_None_eq] on_ref_vault warm_vault split: blocked.split)

lemma locked_down_resume:
  assumes "locked_down s" and "harmless k"
  shows "sh_vault (resume_shell k r paired s) \<noteq> None \<or> locked_down (resume_shell k r paired s)"
proof -
  have "sh_vault (resume_value k r paired s) \<noteq> None \<or> locked_down (resume_value k r paired s)"
    using assms by (cases k) (simp_all add: resume_value_def locked_down_def entry_route_def start_outcome_def refresh_lists_def
        on_ref_def Let_def split: shell_reply.split unlock_outcome.split option.split)
  moreover have "locked_down (shell_fail k e s)" for e using assms(1) by (simp add: shell_fail_def locked_down_def)
  ultimately show ?thesis using assms(2) by (cases r; cases k) (simp_all add: resume_shell_def)
qed

lemma locked_down_render: "locked_down s \<Longrightarrow> render s = SLoading \<or> (\<exists>mode. render s = SOnboarding mode (sh_busy s) (sh_error s))"
  by (auto simp: locked_down_def entry_route_def render_def)

lemma locked_down_event:
  assumes "locked_down s" and "calm e s"
  shows "sh_vault (shell_handle e s) \<noteq> None \<or> locked_down (shell_handle e s)"
proof (cases e)
  case (Resumed i r paired)
  let ?u = "s\<lparr>sh_pending := take i (sh_pending s) @ drop (Suc i) (sh_pending s)\<rparr>"
  show ?thesis
  proof (cases "i < length (sh_pending s)")
    case True
    have "list_all harmless (take i (sh_pending s) @ sh_pending s ! i # drop (Suc i) (sh_pending s))"
      using assms(1) True by (simp add: locked_down_def id_take_nth_drop[symmetric])
    then have "locked_down ?u" "harmless (sh_pending s ! i)" using assms(1) by (simp_all add: locked_down_def)
    from locked_down_resume[OF this] show ?thesis using True Resumed by (simp add: shell_handle_def)
  qed (use assms Resumed in \<open>simp add: shell_handle_def\<close>)
next
  case LockFires
  then show ?thesis using assms(2) by (simp add: shell_handle_def calm_def locked_down_def entry_route_def)
next
  case Unmounted
  then show ?thesis using assms(1) by (simp add: shell_handle_def locked_down_def)
next
  case (CallPayload n peer)
  then show ?thesis using assms(1) by (simp add: shell_handle_def locked_down_def warm_then_def on_ref_def split: option.split)
next
  case (Tap t)
  then show ?thesis using assms(1) locked_down_render[OF assms(1)]
    by (auto simp: shell_handle_def on_tap_def tap_onboarding_def start_def locked_down_def split: tap.split)
next
  case (Blocked n b)
  then show ?thesis using assms(1) by (simp add: shell_handle_def locked_down_def split: blocked.split)
qed (use assms in \<open>simp_all add: shell_handle_def locked_down_def calm_def on_ref_def refresh_lists_def\<close>)

lemma calm_reach_locked:
  assumes "calm_reach s"
  shows "sh_vault s \<noteq> None \<or> locked_down s"
  using assms
proof (induction rule: calm_reach.induct)
  case start
  then show ?case by (simp add: locked_down_def new_shell_def entry_route_def)
next
  case (step s e)
  then have "sh_vault (shell_handle e s) \<noteq> None \<or> locked_down (shell_handle e s)"
    using vault_kept[of s e] locked_down_event[of s e] by (cases "e = LockFires") (auto simp: shell_handle_def calm_def locked_down_def entry_route_def)
  then show ?case using locked_down_settle by (auto simp: shell_step_def)
qed

text \<open>C36
  The vault must be unlocked before any screen that can read messages: in every state reached by
  calm events (the app is not locked while a callback that will show something is waiting, and
  call events come from the call manager in use), without an opened vault only the loading and
  the unlock screen are shown, and no conversation, contact, message or call is held.
\<close>

theorem screens_need_vault:
  assumes "calm_reach s" and "sh_vault s = None"
  shows "(render s = SLoading \<or> (\<exists>mode. render s = SOnboarding mode (sh_busy s) (sh_error s))) \<and>
    sh_conversations s = [] \<and> sh_contacts s = [] \<and> sh_messages s = [] \<and> sh_call s = None"
  using calm_reach_locked[OF assms(1)] assms(2) locked_down_render[of s] by (auto simp: locked_down_def)

section \<open>A callback that outlives the lock\<close>

lemma lock_step: "shell_step LockFires s = lock_shell s"
  by (simp add: shell_step_def shell_handle_def settle_entry entry_route_def)

lemma resumed_at:
  assumes "sh_pending s = p @ k # q"
  shows "shell_step (Resumed (length p) r paired) s = settle (resume_shell k r paired (s\<lparr>sh_pending := p @ q\<rparr>))"
  by (simp add: shell_step_def shell_handle_def assms)

lemma pending_split: "i < length xs \<Longrightarrow> \<exists>p q. xs = p @ xs ! i # q \<and> i = length p"
  by (rule exI[of _ "take i xs"], rule exI[of _ "drop (Suc i) xs"]) (simp add: id_take_nth_drop[symmetric])

lemma run_lock: "shell_run (LockFires # evs) s = shell_run evs (lock_shell s)"
  by (simp add: shell_run_def lock_step)

text \<open>With no messenger the lists are not asked for, and the end of \<open>start\<close> sets its route.\<close>

lemma sync_finishes:
  assumes "sh_pending s = p @ StartSynced n # q" and "sh_messenger s = None"
  shows "shell_run [Resumed (length p) RepDone paired] s =
    s\<lparr>sh_pending := p @ q, sh_route := (if paired then Conversations else Pair), sh_busy := False\<rparr>"
  unfolding shell_run_def fold.simps comp_apply id_apply resumed_at[OF assms(1)]
  by (simp add: resume_shell_def resume_value_def refresh_lists_def settle_def assms(2))

text \<open>C37
  A lock does not stop a start that is under way. If the app locks while the first sync of a
  start is waiting for the relay, the vault is wiped and the unlock screen comes up; but when
  the sync finishes, \<open>start\<close> goes on: it reads no lists, because the messenger has been let go of,
  and leaves the unlock screen, without a passphrase and with no vault, for the conversations
  screen of a paired device, now empty, or for the pairing screen.
\<close>

theorem lock_undone:
  assumes "i < length (sh_pending s)" and "sh_pending s ! i = StartSynced n" and "sh_vault s = Some v"
    and "s' = shell_run [LockFires, Resumed i RepDone paired] s"
  shows "render (shell_step LockFires s) = SOnboarding UnlockMode (sh_busy s) None \<and>
    VaultLocked v \<in> set (sh_log (shell_step LockFires s)) \<and> sh_vault s' = None \<and> sh_messenger s' = None \<and>
    render s' = (if paired then SConversations [] (sh_myAddress s) (warnings s) None else SPair False None)"
proof -
  obtain p q where p: "sh_pending (lock_shell s) = p @ StartSynced n # q" "i = length p"
    using pending_split[OF assms(1)] assms(2) by auto
  have s': "s' = (lock_shell s)\<lparr>sh_pending := p @ q, sh_route := (if paired then Conversations else Pair), sh_busy := False\<rparr>"
    unfolding assms(4) run_lock p(2) by (rule sync_finishes[OF p(1)]) simp
  have "sh_busy (lock_shell s) = sh_busy s" "VaultLocked v \<in> set (sh_log (lock_shell s))"
    using assms(3) by (simp_all add: lock_shell_def Let_def on_ref_def split: option.split)
  then show ?thesis
    by (simp add: lock_step s' render_def conversations_screen_def warnings_def)
qed

section \<open>An unlocking interrupted by the lock\<close>

fun always_calm :: "shell_event \<Rightarrow> bool" where
  "always_calm LockFires = False"
| "always_calm (CallStateChange n c) = False"
| "always_calm (CallSas n c) = False"
| "always_calm _ = True"

lemma calm_run: "calm_reach s \<Longrightarrow> list_all always_calm evs \<Longrightarrow> calm_reach (shell_run evs s)"
proof (induction evs arbitrary: s)
  case (Cons e evs)
  have "calm e s" using Cons.prems(2) by (cases e) (simp_all add: calm_def)
  with Cons show ?case by (simp add: shell_run_def calm_reach.step)
qed (simp add: shell_run_def)

text \<open>The events of an unlocking, up to the request for the first list.\<close>

definition demo_events :: "shell_event list" where
  "demo_events = [Resumed 0 (RepFlag True) False, Tap (TapSubmit ''secret'' ''''), Resumed 0 (RepMode Authenticated) False,
     Resumed 0 (RepOutcome (Opened \<lparr>dataKey = []\<rparr>)) False, Resumed 0 (RepAddress ''me'') False, Resumed 0 RepDone False,
     Resumed 0 RepDone False, Resumed 0 RepDone False]"

lemmas demo_defs = shell_run_def shell_step_def shell_handle_def resume_shell_def resume_value_def new_shell_def on_tap_def
  render_def tap_onboarding_def onboarding_ready_def start_def start_outcome_def start_online_def refresh_lists_def settle_def Let_def

text \<open>One event earlier the sync is under way.\<close>

lemma demo_syncing:
  "sh_pending (shell_run (butlast demo_events) new_shell) = [StartSynced 0]"
  "sh_vault (shell_run (butlast demo_events) new_shell) = Some 0"
  by (simp_all add: demo_events_def demo_defs)

theorem screens_need_vault_witness:
  "\<exists>s. calm_reach s \<and> sh_vault s = None \<and> sh_log s \<noteq> [] \<and> render s = SOnboarding UnlockMode False None"
proof -
  let ?evs = "demo_events @ [Resumed 0 (RepConversations []) True, Resumed 0 (RepContacts []) True]"
  let ?s = "shell_run ?evs new_shell"
  have r: "calm_reach ?s" by (rule calm_run[OF calm_reach.start]) (simp add: demo_events_def)
  have s: "sh_pending ?s = []" "sh_vault ?s = Some 0" "sh_busy ?s = False"
    by (simp_all add: demo_events_def demo_defs)
  have l: "calm_reach (lock_shell ?s)" using calm_reach.step[OF r, of LockFires] s(1) by (simp add: calm_def lock_step)
  have "sh_log (lock_shell ?s) \<noteq> []" "sh_busy (lock_shell ?s) = False"
    using s by (simp_all add: lock_shell_def Let_def on_ref_def split: option.split)
  moreover have "(render (lock_shell ?s) = SLoading \<or> (\<exists>mode. render (lock_shell ?s) = SOnboarding mode (sh_busy (lock_shell ?s)) (sh_error (lock_shell ?s)))) \<and>
      sh_conversations (lock_shell ?s) = [] \<and> sh_contacts (lock_shell ?s) = [] \<and> sh_messages (lock_shell ?s) = [] \<and> sh_call (lock_shell ?s) = None"
    by (rule screens_need_vault[OF l]) simp
  moreover have "render (lock_shell ?s) = SOnboarding UnlockMode (sh_busy (lock_shell ?s)) None" by (simp add: render_def)
  ultimately show ?thesis using l by (intro exI[of _ "lock_shell ?s"]) simp
qed

theorem lock_undone_witness:
  "\<exists>s'. s' = shell_run (butlast demo_events @ [LockFires, Resumed 0 RepDone True]) new_shell \<and> sh_vault s' = None \<and>
    (\<exists>me w. render s' = SConversations [] me w None)"
proof -
  have "0 < length (sh_pending (shell_run (butlast demo_events) new_shell))"
    "sh_pending (shell_run (butlast demo_events) new_shell) ! 0 = StartSynced 0" by (simp_all only: demo_syncing(1)) simp_all
  from lock_undone[OF this demo_syncing(2) refl, of True] show ?thesis by (simp add: shell_run_def)
qed

section \<open>A screen nobody reaches\<close>

lemma on_ref_route: "(\<And>n s. sh_route (f n s) = sh_route s) \<Longrightarrow> sh_route (on_ref r f s) = sh_route s"
  by (simp add: on_ref_def split: option.split)

lemma open_chat_route [simp]: "sh_route (open_chat a inner s) = sh_route s"
  by (simp add: open_chat_def split: option.split)

lemma refresh_route: "sh_route s \<noteq> NewConversation \<Longrightarrow> sh_route (refresh_lists k paired s) \<noteq> NewConversation"
  by (cases k) (simp_all add: refresh_lists_def split: option.split)

lemma after_route: "sh_route s \<noteq> NewConversation \<Longrightarrow> sh_route (after_refresh k paired s) \<noteq> NewConversation"
  by (cases k) simp_all

lemma warm_route: "(\<And>s. sh_route s \<noteq> NewConversation \<Longrightarrow> sh_route (f s) \<noteq> NewConversation) \<Longrightarrow>
    sh_route s \<noteq> NewConversation \<Longrightarrow> sh_route (warm_then a k f s) \<noteq> NewConversation"
  by (simp add: warm_then_def split: option.split)

lemma resume_value_route: "sh_route s \<noteq> NewConversation \<Longrightarrow> sh_route (resume_value k r paired s) \<noteq> NewConversation"
  by (cases k) (simp_all add: resume_value_def start_outcome_def start_online_def warm_route refresh_route after_route Let_def
      split: shell_reply.split unlock_outcome.split option.split)

lemma resume_shell_route: "sh_route s \<noteq> NewConversation \<Longrightarrow> sh_route (resume_shell k r paired s) \<noteq> NewConversation"
  by (cases r; cases k) (simp_all add: resume_shell_def shell_fail_def resume_value_route)

lemma on_tap_route: "sh_route s \<noteq> NewConversation \<Longrightarrow> sh_route (on_tap t s) \<noteq> NewConversation"
  by (cases "sh_route s"; cases t) (simp_all add: on_tap_def render_def conversations_screen_def tap_onboarding_def tap_call_def tap_chat_def tap_verify_def tap_pair_def tap_my_code_def
      tap_conversations_def start_def on_send_def on_pair_def Let_def on_ref_route warm_route split: option.split)

text \<open>
  No sequence of events reaches the new-conversation screen, so contacts are added by pairing
  only.
\<close>

lemma new_conversation_unreachable: "sh_route (shell_run evs new_shell) \<noteq> NewConversation"
proof -
  have step: "sh_route (shell_step e s) \<noteq> NewConversation" if "sh_route s \<noteq> NewConversation" for e s
  proof -
    have "sh_route (shell_handle e s) \<noteq> NewConversation"
      using that by (cases e) (simp_all add: shell_handle_def resume_shell_route on_tap_route on_ref_route warm_route refresh_route split: blocked.split)
    then show ?thesis by (simp add: shell_step_def settle_def split: app_route.split)
  qed
  have "sh_route s \<noteq> NewConversation \<Longrightarrow> sh_route (shell_run evs s) \<noteq> NewConversation" for s
    by (induction evs arbitrary: s) (simp_all add: shell_run_def step)
  then show ?thesis by (simp add: new_shell_def)
qed

section \<open>The safety number on the verify screen\<close>

text \<open>
  \<open>VerifyContainer\<close>: its effect runs whenever the screen is rendered, forgets the number on
  display and asks for the one of the contact; a run that was replaced is cancelled. A run is its
  address and whether it is cancelled.
\<close>

record verify_box =
  vb_number :: "string option"
  vb_runs :: "(string \<times> bool) list"

datatype verify_event = VerifyRendered string | NumberLoaded nat "string option" | VerifyClosed

definition cancel_runs :: "(string \<times> bool) list \<Rightarrow> (string \<times> bool) list" where
  "cancel_runs rs = map (\<lambda>(a, c). (a, True)) rs"

fun verify_step :: "verify_event \<Rightarrow> verify_box \<Rightarrow> verify_box" where
  "verify_step (VerifyRendered address) v = v\<lparr>vb_number := None, vb_runs := cancel_runs (vb_runs v) @ [(address, False)]\<rparr>"
| "verify_step (NumberLoaded i number) v =
     (if i < length (vb_runs v) \<and> \<not> snd (vb_runs v ! i) then v\<lparr>vb_number := number\<rparr> else v)"
| "verify_step VerifyClosed v = v\<lparr>vb_runs := cancel_runs (vb_runs v)\<rparr>"

text \<open>
  Only the answer for the contact rendered last is ever displayed: an answer is taken only by
  the last run, whose address is the one on the screen.
\<close>

lemma safety_number_of_contact:
  assumes "v = fold verify_step (evs @ [VerifyRendered address]) \<lparr>vb_number = None, vb_runs = []\<rparr>"
    and "vb_number (verify_step (NumberLoaded i (Some number)) v) = Some number"
  shows "vb_runs v ! i = (address, False) \<and> i = length (vb_runs v) - 1"
proof -
  obtain w where v: "v = verify_step (VerifyRendered address) w" using assms(1) by simp
  have "i < length (vb_runs v) \<and> \<not> snd (vb_runs v ! i)" using assms(2) by (auto simp: v split: if_splits)
  then show ?thesis by (auto simp: v cancel_runs_def nth_append less_Suc_eq split: if_splits prod.splits)
qed

end
