(* ===== verification/App_Transport.thy ===== *)
theory App_Transport
  imports App_Json
begin

text \<open>
  The network transports: apps/mobile/src/platform/transport.ts. The HTTP transport is the
  function from the options of a request to the arguments of \<open>fetch\<close>; the socket transport is a
  state machine over the events of the platform's WebSockets and timers. \<open>fetch\<close>, WebSocket and
  \<open>setTimeout\<close> are the platform's: a WebSocket follows its standard (opens once, reports messages
  only while open, closes once, is CLOSING after \<open>close()\<close>), and every pending timer may fire at
  any moment.
\<close>

section \<open>HTTP: FetchTransport\<close>

record fetch_call =
  fc_url :: string
  fc_method :: string
  fc_headers :: "(string, string) jsmap"
  fc_body :: "string option"

text \<open>Members of the second object come after, and replace, those of the first.\<close>

definition js_spread :: "('k, 'v) jsmap \<Rightarrow> ('k, 'v) jsmap \<Rightarrow> ('k, 'v) jsmap" where
  "js_spread a b = fold (\<lambda>(k, v). js_set k v) b a"

definition fetch_request ::
  "string \<Rightarrow> string \<Rightarrow> string \<Rightarrow> json option \<Rightarrow> (string, string) jsmap \<Rightarrow> fetch_call" where
  "fetch_request baseUrl verb path body headers =
     \<lparr>fc_url = baseUrl @ path, fc_method = verb,
      fc_headers = js_spread (if body \<noteq> None then [(''content-type'', ''application/json'')] else []) headers,
      fc_body = map_option json_text body\<rparr>"

text \<open>\<open>json()\<close> of the response: a body that does not parse counts as an empty object.\<close>

definition response_json :: "string \<Rightarrow> json" where
  "response_json text = (case json_parse text of Some v \<Rightarrow> v | None \<Rightarrow> JObj [])"

lemma js_spread_get: "js_get (js_spread a b) k = (case js_get (rev b) k of Some v \<Rightarrow> Some v | None \<Rightarrow> js_get a k)"
proof (induction b arbitrary: a)
  case (Cons p b)
  obtain k' v where p: "p = (k', v)" by (cases p)
  have "js_spread a (p # b) = js_spread (js_set k' v a) b" by (simp add: js_spread_def p)
  with Cons.IH[of "js_set k' v a"] show ?case
    by (auto simp: p map_add_def split: option.splits)
qed (simp add: js_spread_def)

text \<open>
  What a request shows beyond its route: no header at all without a body and headers of the
  caller, and a body parses back to what was sent.
\<close>

lemma request_shows_no_more:
  "(js_get (fc_headers (fetch_request base verb path body headers)) name = Some v \<longrightarrow>
     (name, v) \<in> set headers \<or> (body \<noteq> None \<and> name = ''content-type'' \<and> v = ''application/json'')) \<and>
   (body = Some b \<and> json_ok b \<longrightarrow> Option.bind (fc_body (fetch_request base verb path body headers)) json_parse = Some b)"
  by (auto simp: fetch_request_def js_spread_get json_parse_text split: option.splits if_splits dest: map_of_SomeD)

section \<open>The socket: WebSocketTransport\<close>

datatype ready_state = CONNECTING | OPEN | CLOSING | CLOSED

datatype socket_effect =
    SockSent nat string
  | SockMessage json
  | SockOnClose

text \<open>
  \<open>wt_sockets\<close> lists every WebSocket made, a number is a reference to one; \<open>wt_timers\<close> are the
  pending timeouts, all of which run \<open>open\<close>, with their delays.
\<close>

record socket_transport =
  wt_sockets :: "ready_state list"
  wt_socket :: "nat option"
  wt_closedByUs :: bool
  wt_retryDelayMs :: int
  wt_timers :: "int list"
  wt_log :: "socket_effect list"

definition new_socket_transport :: socket_transport where
  "new_socket_transport = \<lparr>wt_sockets = [], wt_socket = None, wt_closedByUs = False, wt_retryDelayMs = 1000,
     wt_timers = [], wt_log = []\<rparr>"

text \<open>The inner function \<open>open\<close>, which does not look at \<open>closedByUs\<close>.\<close>

definition open_socket :: "socket_transport \<Rightarrow> socket_transport" where
  "open_socket s = s\<lparr>wt_sockets := wt_sockets s @ [CONNECTING], wt_socket := Some (length (wt_sockets s))\<rparr>"

definition socket_connect :: "socket_transport \<Rightarrow> socket_transport" where
  "socket_connect s = open_socket (s\<lparr>wt_closedByUs := False\<rparr>)"

text \<open>An empty token is falsy.\<close>

definition on_open :: "string option \<Rightarrow> nat \<Rightarrow> socket_transport \<Rightarrow> socket_transport" where
  "on_open token i s = (let s = s\<lparr>wt_retryDelayMs := 1000\<rparr> in
     case token of
       None \<Rightarrow> s
     | Some t \<Rightarrow> if t = '''' then s
         else s\<lparr>wt_log := wt_log s @ [SockSent i (json_text (JObj [(''type'', JStr ''authenticate''), (''token'', JStr t)]))]\<rparr>)"

text \<open>A frame that does not parse is ignored, and so is an exception of the handler.\<close>

definition on_message :: "string \<Rightarrow> socket_transport \<Rightarrow> socket_transport" where
  "on_message data s = (case json_parse data of
      None \<Rightarrow> s
    | Some v \<Rightarrow> s\<lparr>wt_log := wt_log s @ [SockMessage v]\<rparr>)"

definition on_close :: "socket_transport \<Rightarrow> socket_transport" where
  "on_close s = (let s = s\<lparr>wt_log := wt_log s @ [SockOnClose]\<rparr> in
     if wt_closedByUs s then s
     else s\<lparr>wt_timers := wt_timers s @ [wt_retryDelayMs s], wt_retryDelayMs := min (wt_retryDelayMs s * 2) 60000\<rparr>)"

definition socket_send :: "json \<Rightarrow> socket_transport \<Rightarrow> socket_transport" where
  "socket_send message s = (case wt_socket s of
      None \<Rightarrow> s
    | Some i \<Rightarrow> if wt_sockets s ! i = OPEN then s\<lparr>wt_log := wt_log s @ [SockSent i (json_text message)]\<rparr> else s)"

definition shut :: "ready_state \<Rightarrow> ready_state" where
  "shut r = (if r = CONNECTING \<or> r = OPEN then CLOSING else r)"

definition socket_close :: "socket_transport \<Rightarrow> socket_transport" where
  "socket_close s = (let s = s\<lparr>wt_closedByUs := True\<rparr> in
     case wt_socket s of None \<Rightarrow> s | Some i \<Rightarrow> s\<lparr>wt_sockets := (wt_sockets s)[i := shut (wt_sockets s ! i)]\<rparr>)"

text \<open>
  What can happen: the events of the platform, which do nothing where the platform does not
  raise them, and the calls of the app. \<open>Opens\<close> carries what \<open>getToken\<close> answers.
\<close>

datatype socket_event =
    Opens nat "string option"
  | Receives nat string
  | Closes nat
  | RetryFires nat
  | Sends json
  | CloseCalled

fun socket_step :: "socket_event \<Rightarrow> socket_transport \<Rightarrow> socket_transport" where
  "socket_step (Opens i token) s =
     (if i < length (wt_sockets s) \<and> wt_sockets s ! i = CONNECTING
      then on_open token i (s\<lparr>wt_sockets := (wt_sockets s)[i := OPEN]\<rparr>) else s)"
| "socket_step (Receives i data) s =
     (if i < length (wt_sockets s) \<and> wt_sockets s ! i = OPEN then on_message data s else s)"
| "socket_step (Closes i) s =
     (if i < length (wt_sockets s) \<and> wt_sockets s ! i \<noteq> CLOSED
      then on_close (s\<lparr>wt_sockets := (wt_sockets s)[i := CLOSED]\<rparr>) else s)"
| "socket_step (RetryFires k) s =
     (if k < length (wt_timers s) then open_socket (s\<lparr>wt_timers := take k (wt_timers s) @ drop (Suc k) (wt_timers s)\<rparr>) else s)"
| "socket_step (Sends message) s = socket_send message s"
| "socket_step CloseCalled s = socket_close s"

text \<open>The life of a transport: connected once, as the app does, then any events.\<close>

definition socket_run :: "socket_event list \<Rightarrow> socket_transport" where
  "socket_run evs = fold socket_step evs (socket_connect new_socket_transport)"

lemmas socket_defs = on_open_def on_message_def on_close_def socket_send_def socket_close_def open_socket_def Let_def

section \<open>One connection at a time\<close>

text \<open>Connections alive and attempts scheduled.\<close>

definition alive :: "socket_transport \<Rightarrow> nat" where
  "alive s = length (filter (\<lambda>r. r \<noteq> CLOSED) (wt_sockets s)) + length (wt_timers s)"

text \<open>
  Every socket but the last is closed; while a socket is alive no retry is pending, and without
  one there is one until the transport is closed.
\<close>

definition socket_ok :: "socket_transport \<Rightarrow> bool" where
  "socket_ok s \<longleftrightarrow> 1000 \<le> wt_retryDelayMs s \<and> wt_retryDelayMs s \<le> 60000 \<and> set (wt_timers s) \<subseteq> {1000..60000} \<and>
     (\<exists>old r. wt_sockets s = old @ [r] \<and> wt_socket s = Some (length old) \<and> set old \<subseteq> {CLOSED} \<and>
        (r \<noteq> CLOSED \<longrightarrow> wt_timers s = []) \<and> (r = CLOSED \<longrightarrow> length (wt_timers s) \<le> 1) \<and>
        (r = CLOSED \<and> \<not> wt_closedByUs s \<longrightarrow> wt_timers s \<noteq> []))"

lemma only_last:
  assumes "set old \<subseteq> {CLOSED}" and "i < length (old @ [r])" and "(old @ [r]) ! i \<noteq> CLOSED"
  shows "i = length old"
  using assms by (cases "i < length old") (auto simp: nth_append dest: nth_mem)

lemma socket_ok_connect: "socket_ok (socket_connect new_socket_transport)"
  by (simp add: socket_ok_def socket_connect_def open_socket_def new_socket_transport_def)

lemma socket_ok_step:
  assumes "socket_ok s"
  shows "socket_ok (socket_step e s)"
proof -
  from assms obtain old r where s: "wt_sockets s = old @ [r]" "wt_socket s = Some (length old)" "set old \<subseteq> {CLOSED}"
    "1000 \<le> wt_retryDelayMs s" "wt_retryDelayMs s \<le> 60000" "set (wt_timers s) \<subseteq> {1000..60000}"
    "r \<noteq> CLOSED \<longrightarrow> wt_timers s = []" "r = CLOSED \<longrightarrow> length (wt_timers s) \<le> 1" "r = CLOSED \<and> \<not> wt_closedByUs s \<longrightarrow> wt_timers s \<noteq> []"
    unfolding socket_ok_def by blast
  note last = only_last[OF s(3), of _ r]
  show ?thesis
  proof (cases e)
    case (Opens i t)
    then show ?thesis using assms s last[of i] by (auto simp: socket_ok_def socket_defs split: option.splits)
  next
    case (Receives i d)
    then show ?thesis using assms by (auto simp: socket_ok_def socket_defs split: option.splits)
  next
    case (Closes i)
    then show ?thesis using assms s last[of i] by (auto simp: socket_ok_def socket_defs)
  next
    case (RetryFires k)
    show ?thesis
    proof (cases "k < length (wt_timers s)")
      case True
      then have c: "r = CLOSED" "take k (wt_timers s) @ drop (Suc k) (wt_timers s) = []"
        using s(7,8) by (cases "wt_timers s"; auto)+
      show ?thesis unfolding RetryFires socket_step.simps if_P[OF True] c(2)
        using s(1-5) c(1) by (simp add: socket_ok_def open_socket_def)
    qed (use RetryFires assms in simp)
  next
    case (Sends m)
    then show ?thesis using assms by (auto simp: socket_ok_def socket_defs split: option.splits if_splits)
  next
    case CloseCalled
    then show ?thesis using assms s by (auto simp: socket_ok_def socket_defs shut_def)
  qed
qed

lemma socket_ok_run: "socket_ok (socket_run evs)"
proof -
  have "socket_ok s \<Longrightarrow> socket_ok (fold socket_step evs s)" for s
    by (induction evs arbitrary: s) (simp_all add: socket_ok_step)
  then show ?thesis by (simp add: socket_run_def socket_ok_connect)
qed

text \<open>
  Reconnection: whatever the network and the timers do, a transport has at most one connection
  or scheduled attempt at any time, and exactly one as long as the app has not closed it, so it
  never stops trying and never tries twice; every delay lies between one second and one minute.
\<close>

lemma one_connection:
  "alive (socket_run evs) \<le> 1 \<and> (wt_closedByUs (socket_run evs) \<or> alive (socket_run evs) = 1) \<and>
   set (wt_timers (socket_run evs)) \<subseteq> {1000..60000}"
proof -
  from socket_ok_run[of evs] obtain old r where s: "wt_sockets (socket_run evs) = old @ [r]" "set old \<subseteq> {CLOSED}"
    "set (wt_timers (socket_run evs)) \<subseteq> {1000..60000}" "r \<noteq> CLOSED \<longrightarrow> wt_timers (socket_run evs) = []"
    "r = CLOSED \<longrightarrow> length (wt_timers (socket_run evs)) \<le> 1"
    "r = CLOSED \<and> \<not> wt_closedByUs (socket_run evs) \<longrightarrow> wt_timers (socket_run evs) \<noteq> []"
    unfolding socket_ok_def by blast
  have "filter (\<lambda>r. r \<noteq> CLOSED) old = []" using s(2) by (auto simp: filter_empty_conv)
  then have "alive (socket_run evs) = (if r = CLOSED then length (wt_timers (socket_run evs)) else 1)"
    using s(1,4) by (simp add: alive_def)
  with s(3,5,6) show ?thesis by (auto simp: le_Suc_eq)
qed

section \<open>Closing\<close>

text \<open>Closed for good: nothing is open or opening, nothing is scheduled.\<close>

definition silent :: "socket_transport \<Rightarrow> bool" where
  "silent s \<longleftrightarrow> wt_closedByUs s \<and> wt_timers s = [] \<and> set (wt_sockets s) \<subseteq> {CLOSING, CLOSED} \<and>
     (\<forall>i. wt_socket s = Some i \<longrightarrow> i < length (wt_sockets s))"

lemma silent_step:
  assumes "silent s"
  shows "silent (socket_step e s) \<and> (\<exists>l. wt_log (socket_step e s) = wt_log s @ l \<and> set l \<subseteq> {SockOnClose})"
proof -
  have n: "wt_sockets s ! i \<noteq> CONNECTING" "wt_sockets s ! i \<noteq> OPEN" if "i < length (wt_sockets s)" for i
    using assms nth_mem[OF that] by (auto simp: silent_def)
  show ?thesis
  proof (cases e)
    case (Closes i)
    then show ?thesis using assms
      by (auto simp: silent_def socket_defs dest: set_update_subset_insert[THEN subsetD])
  next
    case CloseCalled
    then show ?thesis using assms n
      by (auto simp: silent_def socket_defs shut_def split: option.splits dest: set_update_subset_insert[THEN subsetD])
  qed (use assms n in \<open>force simp: silent_def socket_send_def split: option.splits\<close>)+
qed

lemma silent_run:
  "silent s \<Longrightarrow> \<exists>l. wt_log (fold socket_step evs s) = wt_log s @ l \<and> set l \<subseteq> {SockOnClose}"
proof (induction evs arbitrary: s)
  case (Cons e evs)
  obtain l where l: "silent (socket_step e s)" "wt_log (socket_step e s) = wt_log s @ l" "set l \<subseteq> {SockOnClose}"
    using silent_step[OF Cons.prems, of e] by blast
  obtain l' where "wt_log (fold socket_step evs (socket_step e s)) = wt_log (socket_step e s) @ l'" "set l' \<subseteq> {SockOnClose}"
    using Cons.IH[OF l(1)] by blast
  with l show ?case by (intro exI[of _ "l @ l'"]) auto
qed simp

lemma closed_silent:
  assumes "socket_ok s" and "wt_timers s = []"
  shows "silent (socket_close s)"
proof -
  from assms(1) obtain old r where s: "wt_sockets s = old @ [r]" "wt_socket s = Some (length old)" "set old \<subseteq> {CLOSED}"
    unfolding socket_ok_def by blast
  have "shut r \<in> {CLOSING, CLOSED}" by (cases r) (simp_all add: shut_def)
  with s assms(2) show ?thesis by (auto simp: silent_def socket_close_def Let_def)
qed

lemma parse_empty_object: "json_parse ''{}'' = Some (JObj [])"
  using json_parse_text[of "JObj []"] by simp

text \<open>C39
  Closing the transport is final exactly when no retry is pending: then, whatever happens
  after \<open>close()\<close>, nothing is sent or received any more. With a retry pending, which is the case
  whenever the network is down, \<open>close()\<close> cancels nothing: the timer opens a new socket, which
  on opening presents the current token to the relay, and the messages it receives are handed
  to the app.
\<close>

theorem close_final_iff:
  assumes "s = socket_run before" and "t \<noteq> ''''" and "json_parse raw = Some v"
  shows "(wt_timers s = [] \<longleftrightarrow>
      (\<forall>evs. set (drop (length (wt_log s)) (wt_log (fold socket_step evs (socket_close s)))) \<subseteq> {SockOnClose})) \<and>
    (wt_timers s \<noteq> [] \<longrightarrow>
      wt_log (fold socket_step [RetryFires 0, Opens (length (wt_sockets s)) (Some t), Receives (length (wt_sockets s)) raw] (socket_close s)) =
        wt_log s @ [SockSent (length (wt_sockets s)) (json_text (JObj [(''type'', JStr ''authenticate''), (''token'', JStr t)])), SockMessage v])"
proof -
  let ?n = "length (wt_sockets s)"
  let ?evs = "[RetryFires 0, Opens ?n (Some t), Receives ?n raw]"
  have log: "wt_log (socket_close s) = wt_log s" by (simp add: socket_close_def Let_def split: option.split)
  have quiet: "set (drop (length (wt_log s)) (wt_log (fold socket_step evs (socket_close s)))) \<subseteq> {SockOnClose}"
    if "wt_timers s = []" for evs
    using silent_run[OF closed_silent[OF _ that], of evs] socket_ok_run assms(1) log by (metis append_eq_conv_conj)
  have again: "wt_log (fold socket_step ?evs (socket_close s)) =
      wt_log s @ [SockSent ?n (json_text (JObj [(''type'', JStr ''authenticate''), (''token'', JStr t)])), SockMessage v]"
    if "wt_timers s \<noteq> []"
  proof -
    have "wt_timers (socket_close s) = wt_timers s" and n: "length (wt_sockets (socket_close s)) = ?n"
      by (simp_all add: socket_close_def Let_def split: option.split)
    then obtain d ds where "wt_timers (socket_close s) = d # ds" using \<open>wt_timers s \<noteq> []\<close> by (cases "wt_timers s") auto
    with n show ?thesis using assms(2,3) by (simp add: log open_socket_def on_open_def on_message_def Let_def nth_append)
  qed
  then have "\<not> set (drop (length (wt_log s)) (wt_log (fold socket_step ?evs (socket_close s)))) \<subseteq> {SockOnClose}"
    if "wt_timers s \<noteq> []" using that by simp
  then show ?thesis using quiet again by blast
qed

theorem close_final_iff_witness:
  "\<exists>s. s = socket_run [Closes 0] \<and> wt_timers s = [1000] \<and>
    wt_log (fold socket_step [RetryFires 0, Opens 1 (Some ''t''), Receives 1 ''{}''] (socket_close s)) =
      [SockOnClose, SockSent 1 (json_text (JObj [(''type'', JStr ''authenticate''), (''token'', JStr ''t'')])), SockMessage (JObj [])]"
proof -
  let ?s = "socket_run [Closes 0]"
  have s: "wt_timers ?s = [1000]" "length (wt_sockets ?s) = 1" "wt_log ?s = [SockOnClose]"
    by (simp_all add: socket_run_def socket_connect_def new_socket_transport_def socket_defs)
  from close_final_iff[OF refl _ parse_empty_object, of "''t''" "[Closes 0]"] show ?thesis
    by (simp add: s del: socket_step.simps)
qed

end
