(* ===== verification/App_Media.thy ===== *)
theory App_Media
  imports Veil_CallKeys App_Json
begin

text \<open>
  The media engine: apps/mobile/src/platform/webrtc.ts. WebRTC itself is the platform's: the
  session descriptions it makes, the media tracks it opens, and for each RTP sender and receiver
  whether \<open>createEncodedStreams\<close> hands out its frames are arguments. What is modelled is
  everything the engine does around them, above all which frames pass through SFrame.
\<close>

section \<open>Frames on the wire\<close>

text \<open>\<open>setBigUint64\<close> stores the counter modulo 2^64.\<close>

definition packFrame :: "int \<Rightarrow> bytes \<Rightarrow> bytes" where
  "packFrame counter payload = be_bytes 8 (nat (counter mod 2 ^ 64)) @ payload"

definition unpackFrame :: "bytes \<Rightarrow> encrypted_frame result" where
  "unpackFrame b = (if length b < 8 then Inl OtherError
     else Inr \<lparr>ef_counter = int (be_value (slice 0 8 b)), ef_payload = drop 8 b\<rparr>)"

lemma unpack_pack:
  assumes "0 \<le> counter" and "counter < 2 ^ 64"
  shows "unpackFrame (packFrame counter payload) = Inr \<lparr>ef_counter = counter, ef_payload = payload\<rparr>"
proof -
  have "nat counter < 256 ^ 8" using assms by (simp add: nat_less_iff)
  then show ?thesis using assms
    by (simp add: unpackFrame_def packFrame_def slice_def be_value_be_bytes)
qed

lemma pack_unpack: "unpackFrame b = Inr f \<Longrightarrow> packFrame (ef_counter f) (ef_payload f) = b"
proof -
  assume "unpackFrame b = Inr f"
  then have f: "8 \<le> length b" "f = \<lparr>ef_counter = int (be_value (take 8 b)), ef_payload = drop 8 b\<rparr>"
    by (auto simp: unpackFrame_def slice_def split: if_splits)
  then have l: "length (take 8 b) = 8" by simp
  have "be_bytes 8 (be_value (take 8 b)) = take 8 b" using be_bytes_be_value[of "take 8 b"] unfolding l .
  moreover have "be_value (take 8 b) < 256 ^ 8"
    using be_value_be_bytes[of 8 "be_value (take 8 b)"] unfolding calculation by (metis mod_less_divisor zero_less_numeral zero_less_power)
  then have "int (be_value (take 8 b)) mod 2 ^ 64 = int (be_value (take 8 b))" by simp
  ultimately show ?thesis by (simp add: packFrame_def f(2))
qed

section \<open>What the platform offers\<close>

text \<open>Whether \<open>RTCRtpSender.prototype.createEncodedStreams\<close> is a function, and \<open>RTCRtpScriptTransform\<close> defined.\<close>

record media_platform =
  mp_createEncodedStreams :: bool
  mp_scriptTransform :: bool

definition detectFrameTransformSupport :: "media_platform \<Rightarrow> bool" where
  "detectFrameTransformSupport p = (if mp_createEncodedStreams p then True else mp_scriptTransform p)"

text \<open>
  The fingerprint of a session description: \<open>a=fingerprint:\<close> at the start of a line, a word,
  white space (which may run over the end of the line) and another word, at the first place
  where they are found.
\<close>

definition fingerprint_at :: "string \<Rightarrow> (string \<times> string) option" where
  "fingerprint_at s =
     (let p = ''a=fingerprint:''; r = drop (length p) s; alg = takeWhile (\<lambda>c. \<not> js_space c) r;
          r = dropWhile (\<lambda>c. \<not> js_space c) r; fp = takeWhile (\<lambda>c. \<not> js_space c) (dropWhile js_space r)
      in if take (length p) s = p \<and> alg \<noteq> [] \<and> fp \<noteq> [] then Some (alg, fp) else None)"

definition line_end :: "char \<Rightarrow> bool" where
  "line_end c \<longleftrightarrow> code c = 10 \<or> code c = 13"

fun find_fingerprint :: "bool \<Rightarrow> string \<Rightarrow> (string \<times> string) option" where
  "find_fingerprint start [] = None"
| "find_fingerprint start (c # cs) =
     (case (if start then fingerprint_at (c # cs) else None) of
        Some m \<Rightarrow> Some m | None \<Rightarrow> find_fingerprint (line_end c) cs)"

definition extractDtlsFingerprint :: "string \<Rightarrow> string result" where
  "extractDtlsFingerprint sdp = (case find_fingerprint True sdp of
      None \<Rightarrow> Inl OtherError | Some (alg, fp) \<Rightarrow> Inr (alg @ '' '' @ fp))"

text \<open>The attribute of an ordinary session description is found after lines of any other kind.\<close>

lemma find_fingerprint_skip:
  assumes "\<And>rest. fingerprint_at (s @ CHR 0x0D # rest) = None \<or> \<not> b" and "\<forall>c \<in> set s. \<not> line_end c"
  shows "find_fingerprint b (s @ CHR 0x0D # CHR 0x0A # rest) = find_fingerprint True rest"
proof -
  have f: "find_fingerprint False (u @ CHR 0x0D # CHR 0x0A # rest) = find_fingerprint True rest" if "\<forall>c \<in> set u. \<not> line_end c" for u
    using that
  proof (induction u)
    case Nil
    have "fingerprint_at (CHR 0x0A # rest) = None" by (simp add: fingerprint_at_def Let_def)
    then show ?case by (simp add: line_end_def)
  qed simp
  show ?thesis
  proof (cases s)
    case Nil
    have "fingerprint_at (CHR 0x0D # CHR 0x0A # rest) = None" "fingerprint_at (CHR 0x0A # rest) = None"
      by (simp_all add: fingerprint_at_def Let_def)
    with Nil show ?thesis by (simp add: line_end_def)
  next
    case (Cons c u)
    have "(if b then fingerprint_at (c # u @ CHR 0x0D # CHR 0x0A # rest) else None) = None"
      using assms(1)[of "CHR 0x0A # rest"] Cons by auto
    with f[of u] assms(2) Cons show ?thesis by simp
  qed
qed

section \<open>The engine\<close>

text \<open>
  \<open>me_stream\<close> are the enabled flags of the local audio tracks; \<open>me_piped_out\<close> and \<open>me_piped_in\<close>
  tell for each RTP sender and receiver of the last installation whether its frames are
  transformed; \<open>me_dropped\<close> are the keys of contexts the engine no longer refers to.
\<close>

record media_engine =
  me_supports :: bool
  me_stream :: "bool list option"
  me_sender :: "sframe_sender option"
  me_receiver :: "sframe_receiver option"
  me_piped_out :: "bool list"
  me_piped_in :: "bool list"
  me_closed :: bool
  me_dropped :: "bytes list"

definition new_media_engine :: "media_platform \<Rightarrow> media_engine" where
  "new_media_engine p = \<lparr>me_supports = detectFrameTransformSupport p, me_stream = None, me_sender = None,
     me_receiver = None, me_piped_out = [], me_piped_in = [], me_closed = False, me_dropped = []\<rparr>"

text \<open>\<open>tracks\<close>: how many audio tracks the platform opens; each is added to the connection once.\<close>

definition ensureLocalAudio :: "nat \<Rightarrow> media_engine \<Rightarrow> media_engine" where
  "ensureLocalAudio tracks e = (case me_stream e of
      Some s \<Rightarrow> e | None \<Rightarrow> e\<lparr>me_stream := Some (replicate tracks True)\<rparr>)"

text \<open>\<open>createOffer\<close> and \<open>createAnswer\<close>, with the description the platform makes (undefined counts as empty).\<close>

definition local_description :: "nat \<Rightarrow> string option \<Rightarrow> media_engine \<Rightarrow> (string \<times> string) result \<times> media_engine" where
  "local_description tracks sdp e = (let e = ensureLocalAudio tracks e; text = (case sdp of None \<Rightarrow> [] | Some s \<Rightarrow> s) in
     (rbind (extractDtlsFingerprint text) (\<lambda>fp. Inr (text, fp)), e))"

definition setMuted :: "bool \<Rightarrow> media_engine \<Rightarrow> media_engine" where
  "setMuted muted e = e\<lparr>me_stream := map_option (map (\<lambda>_. \<not> muted)) (me_stream e)\<rparr>"

text \<open>
  \<open>outs\<close> and \<open>ins\<close>: for each sender and receiver of the connection, whether
  \<open>createEncodedStreams?.()\<close> gives its streams; without them the loop goes on.
\<close>

definition installFrameKeys ::
  "bool list \<Rightarrow> bool list \<Rightarrow> bytes \<Rightarrow> bytes \<Rightarrow> media_engine \<Rightarrow> unit result \<times> media_engine" where
  "installFrameKeys outs ins outKey inKey e =
     (if \<not> me_supports e then (Inl OtherError, e)
      else case createSender outKey of
          Inl err \<Rightarrow> (Inl err, e)
        | Inr s \<Rightarrow> let e = e\<lparr>me_dropped := me_dropped e @ (case me_sender e of None \<Rightarrow> [] | Some old \<Rightarrow> [ss_key old]), me_sender := Some s\<rparr> in
            (case createReceiver inKey of
              Inl err \<Rightarrow> (Inl err, e)
            | Inr r \<Rightarrow> let e = e\<lparr>me_dropped := me_dropped e @ (case me_receiver e of None \<Rightarrow> [] | Some old \<Rightarrow> [sr_key old]), me_receiver := Some r\<rparr> in
                (Inr (), e\<lparr>me_piped_out := outs, me_piped_in := ins\<rparr>)))"

text \<open>A frame of the encoder of a sender, and what leaves the device, if anything does.\<close>

definition sendFrame :: "noble \<Rightarrow> nat \<Rightarrow> bytes \<Rightarrow> media_engine \<Rightarrow> bytes option \<times> media_engine" where
  "sendFrame N j frame e =
     (if j < length (me_piped_out e) \<and> me_piped_out e ! j then
        (case me_sender e of
           None \<Rightarrow> (None, e)
         | Some s \<Rightarrow> (case encryptFrame N s frame [] of
               (Inl err, s') \<Rightarrow> (None, e\<lparr>me_sender := Some s'\<rparr>)
             | (Inr f, s') \<Rightarrow> (Some (packFrame (ef_counter f) (ef_payload f)), e\<lparr>me_sender := Some s'\<rparr>)))
      else (Some frame, e))"

text \<open>A frame from the network at a receiver, and what reaches the decoder: whatever fails is dropped.\<close>

definition receiveFrame :: "noble \<Rightarrow> nat \<Rightarrow> bytes \<Rightarrow> media_engine \<Rightarrow> bytes option \<times> media_engine" where
  "receiveFrame N j b e =
     (if j < length (me_piped_in e) \<and> me_piped_in e ! j then
        (case unpackFrame b of
           Inl err \<Rightarrow> (None, e)
         | Inr f \<Rightarrow> (case me_receiver e of
               None \<Rightarrow> (None, e)
             | Some r \<Rightarrow> (case decryptFrame N r f [] of
                   (Inl err, r') \<Rightarrow> (None, e\<lparr>me_receiver := Some r'\<rparr>)
                 | (Inr p, r') \<Rightarrow> (Some p, e\<lparr>me_receiver := Some r'\<rparr>))))
      else (Some b, e))"

definition close_engine :: "media_engine \<Rightarrow> media_engine" where
  "close_engine e = e\<lparr>me_stream := None, me_sender := None, me_receiver := None, me_closed := True,
     me_dropped := me_dropped e @ (case me_sender e of None \<Rightarrow> [] | Some s \<Rightarrow> [ss_key (destroySender s)]) @
       (case me_receiver e of None \<Rightarrow> [] | Some r \<Rightarrow> [sr_key (destroyReceiver r)])\<rparr>"

text \<open>\<open>onconnectionstatechange\<close>: Some True calls the connected handler, Some False the disconnected one.\<close>

definition connection_change :: "string \<Rightarrow> bool option" where
  "connection_change state = (if state = ''connected'' then Some True
     else if state = ''failed'' \<or> state = ''closed'' \<or> state = ''disconnected'' then Some False else None)"

section \<open>Media through two engines\<close>

fun send_frames :: "noble \<Rightarrow> nat \<Rightarrow> bytes list \<Rightarrow> media_engine \<Rightarrow> bytes option list \<times> media_engine" where
  "send_frames N j [] e = ([], e)"
| "send_frames N j (f # fs) e = (let (w, e1) = sendFrame N j f e; (ws, e2) = send_frames N j fs e1 in (w # ws, e2))"

fun receive_frames :: "noble \<Rightarrow> nat \<Rightarrow> bytes list \<Rightarrow> media_engine \<Rightarrow> bytes option list \<times> media_engine" where
  "receive_frames N j [] e = ([], e)"
| "receive_frames N j (b # bs) e = (let (p, e1) = receiveFrame N j b e; (ps, e2) = receive_frames N j bs e1 in (p # ps, e2))"

definition piped :: "bool list \<Rightarrow> nat \<Rightarrow> bool" where
  "piped xs j \<longleftrightarrow> j < length xs \<and> xs ! j"

definition ok_value :: "'a result \<Rightarrow> 'a option" where
  "ok_value r = (case r of Inl e \<Rightarrow> None | Inr x \<Rightarrow> Some x)"

lemma send_frames_sframe:
  assumes "piped (me_piped_out e) j" and "me_sender e = Some s"
  shows "fst (send_frames N j fs e) = map (\<lambda>r. map_option (\<lambda>f. packFrame (ef_counter f) (ef_payload f)) (ok_value r))
    (fst (media_out N s (map (\<lambda>f. (f, [])) fs)))"
  using assms
proof (induction fs arbitrary: e s)
  case (Cons f fs)
  obtain r s1 where r: "encryptFrame N s f [] = (r, s1)" by (cases "encryptFrame N s f []")
  have "sendFrame N j f e = (map_option (\<lambda>f. packFrame (ef_counter f) (ef_payload f)) (ok_value r), e\<lparr>me_sender := Some s1\<rparr>)"
    using Cons.prems r by (simp add: sendFrame_def piped_def ok_value_def split: sum.split)
  moreover have "fst (send_frames N j fs (e\<lparr>me_sender := Some s1\<rparr>)) =
      map (\<lambda>r. map_option (\<lambda>f. packFrame (ef_counter f) (ef_payload f)) (ok_value r)) (fst (media_out N s1 (map (\<lambda>f. (f, [])) fs)))"
    by (rule Cons.IH) (simp_all add: Cons.prems)
  ultimately show ?case using r by (simp add: case_prod_unfold Let_def)
qed simp

lemma receive_frames_sframe:
  assumes "piped (me_piped_in e) j" and "me_receiver e = Some r" and "\<forall>f \<in> set fs. 0 \<le> ef_counter f \<and> ef_counter f < 2 ^ 64"
  shows "fst (receive_frames N j (map (\<lambda>f. packFrame (ef_counter f) (ef_payload f)) fs) e) =
    map ok_value (fst (media_in N r (map (\<lambda>f. (f, [])) fs)))"
  using assms
proof (induction fs arbitrary: e r)
  case (Cons f fs)
  obtain x r1 where x: "decryptFrame N r f [] = (x, r1)" by (cases "decryptFrame N r f []")
  have "unpackFrame (packFrame (ef_counter f) (ef_payload f)) = Inr f" using Cons.prems(3) by (simp add: unpack_pack)
  then have "receiveFrame N j (packFrame (ef_counter f) (ef_payload f)) e = (ok_value x, e\<lparr>me_receiver := Some r1\<rparr>)"
    using Cons.prems x by (simp add: receiveFrame_def piped_def ok_value_def split: sum.split)
  moreover have "fst (receive_frames N j (map (\<lambda>f. packFrame (ef_counter f) (ef_payload f)) fs) (e\<lparr>me_receiver := Some r1\<rparr>)) =
      map ok_value (fst (media_in N r1 (map (\<lambda>f. (f, [])) fs)))"
    by (rule Cons.IH) (use Cons.prems in simp_all)
  ultimately show ?case using x by (simp add: case_prod_unfold Let_def)
qed simp

lemma installFrameKeys_ok:
  assumes "me_supports e" and "createSender a = Inr s" and "createReceiver b = Inr r"
  shows "\<exists>e'. installFrameKeys outs ins a b e = (Inr (), e') \<and> me_sender e' = Some s \<and> me_receiver e' = Some r \<and>
    me_piped_out e' = outs \<and> me_piped_in e' = ins"
  using assms by (simp add: installFrameKeys_def Let_def)

text \<open>C11
  Voice from microphone to ear: both ends of a call install the keys the call derives; then the
  frames of a sender that is transformed (up to 2^48 of them) leave the one device encrypted,
  24 bytes longer, and whatever of them arrives at a transformed receiver of the other, in any
  order and with any losses within the replay window, is played there unchanged.
\<close>

theorem media_reaches_peer:
  assumes "library_ok N" and "call_fits p" and "length fs \<le> 2 ^ 48"
    and "distinct ids" and "\<forall>k \<in> set ids. k < length fs"
    and "\<forall>a b. a < b \<longrightarrow> b < length ids \<longrightarrow> ids ! a < ids ! b + 1024"
    and "detectFrameTransformSupport here" and "detectFrameTransformSupport there" and "piped outs j" and "piped ins' i"
  shows "\<exists>kr ke e1 e2 wire. deriveCallKeys N p role = Inr kr \<and> deriveCallKeys N p (peer_role role) = Inr ke \<and>
    installFrameKeys outs ins (sendKey kr) (receiveKey kr) (new_media_engine here) = (Inr (), e1) \<and>
    installFrameKeys outs' ins' (sendKey ke) (receiveKey ke) (new_media_engine there) = (Inr (), e2) \<and>
    fst (send_frames N j fs e1) = map Some wire \<and> map length wire = map (\<lambda>f. length f + 24) fs \<and>
    fst (receive_frames N i (map (\<lambda>k. wire ! k) ids) e2) = map (\<lambda>k. Some (fs ! k)) ids"
proof -
  let ?fs = "map (\<lambda>f. (f, [] :: bytes)) fs" and ?pack = "\<lambda>f. packFrame (ef_counter f) (ef_payload f)"
  have l: "length ?fs \<le> 2 ^ 48" "\<forall>k \<in> set ids. k < length ?fs" using assms(3,5) by simp_all
  obtain kr ke s r es where k: "deriveCallKeys N p role = Inr kr" "deriveCallKeys N p (peer_role role) = Inr ke"
    "createSender (sendKey kr) = Inr s" "length (receiveKey kr) = 32" "createReceiver (receiveKey ke) = Inr r" "length (sendKey ke) = 32"
    "fst (media_out N s ?fs) = map Inr es"
    "fst (media_in N r (map (\<lambda>i. (es ! i, snd (?fs ! i))) ids)) = map (\<lambda>i. Inr (fst (?fs ! i))) ids" "length es = length ?fs"
    "\<And>i. i < length ?fs \<Longrightarrow> ef_counter (es ! i) = int i \<and> length (ef_payload (es ! i)) = length (fst (?fs ! i)) + 16"
    using call_media_delivered[OF assms(1,2) l(1) assms(4) l(2) assms(6), of role] by blast
  have sup: "me_supports (new_media_engine here)" "me_supports (new_media_engine there)"
    using assms(7,8) by (simp_all add: new_media_engine_def)
  obtain kr' ks' where kr: "createReceiver (receiveKey kr) = Inr kr'" and ks: "createSender (sendKey ke) = Inr ks'"
    using k(4,6) by (simp add: createReceiver_def createSender_def)
  obtain e1 where e1: "installFrameKeys outs ins (sendKey kr) (receiveKey kr) (new_media_engine here) = (Inr (), e1)"
    "me_sender e1 = Some s" "me_piped_out e1 = outs"
    using installFrameKeys_ok[OF sup(1) k(3) kr, of outs ins] by blast
  obtain e2 where e2: "installFrameKeys outs' ins' (sendKey ke) (receiveKey ke) (new_media_engine there) = (Inr (), e2)"
    "me_receiver e2 = Some r" "me_piped_in e2 = ins'"
    using installFrameKeys_ok[OF sup(2) ks k(5), of outs' ins'] by blast
  have in_range: "\<forall>f \<in> set (map (\<lambda>i. es ! i) ids). 0 \<le> ef_counter f \<and> ef_counter f < 2 ^ 64"
  proof -
    have "int k < 2 ^ 64" if "k \<in> set ids" for k
    proof -
      from assms(3,5) that have "k < 281474976710656" by fastforce
      then have "int k < 18446744073709551616" by linarith
      then show ?thesis by simp
    qed
    then show ?thesis using k(10) l(2) by auto
  qed
  have wl: "map length (map ?pack es) = map (\<lambda>f. length f + 24) fs"
    using k(9,10) by (intro nth_equalityI) (simp_all add: packFrame_def)
  have ws: "fst (send_frames N j fs e1) = map Some (map ?pack es)"
    using send_frames_sframe[of e1 j s N fs] e1(2,3) assms(9) k(7) by (simp add: ok_value_def)
  have wi: "map (\<lambda>k. map ?pack es ! k) ids = map ?pack (map (\<lambda>i. es ! i) ids)"
    using l(2) k(9) by simp
  have wr: "fst (receive_frames N i (map ?pack (map (\<lambda>i. es ! i) ids)) e2) = map (\<lambda>k. Some (fs ! k)) ids"
  proof -
    have a: "map (\<lambda>i. (es ! i, snd (?fs ! i))) ids = map (\<lambda>f. (f, [])) (map (\<lambda>i. es ! i) ids)" using l(2) by simp
    have "fst (receive_frames N i (map ?pack (map (\<lambda>i. es ! i) ids)) e2) = map ok_value (map (\<lambda>i. Inr (fst (?fs ! i))) ids)"
      using receive_frames_sframe[OF _ e2(2) in_range, of i N] e2(3) assms(10) k(8)[unfolded a] by simp
    also have "\<dots> = map (\<lambda>k. Some (fs ! k)) ids" using l(2) by (simp add: ok_value_def)
    finally show ?thesis .
  qed
  show ?thesis
    by (rule exI[of _ kr], rule exI[of _ ke], rule exI[of _ e1], rule exI[of _ e2], rule exI[of _ "map ?pack es"],
      intro conjI, rule k(1), rule k(2), rule e1(1), rule e2(1), rule ws, rule wl, unfold wi, rule wr)
qed

section \<open>Which frames are encrypted\<close>

text \<open>
  A transformed sender lets no frame out as it is: what it sends, if anything, is longer. One
  that is not transformed sends every frame as it is; the same holds of receivers.
\<close>

lemma sends_plain_iff:
  assumes "library_ok N" and "me_sender e = Some s"
  shows "fst (sendFrame N j frame e) = Some frame \<longleftrightarrow> \<not> piped (me_piped_out e) j"
proof (cases "piped (me_piped_out e) j")
  case True
  obtain r s' where r: "encryptFrame N s frame [] = (r, s')" by (cases "encryptFrame N s frame []")
  have "packFrame (ef_counter f) (ef_payload f) \<noteq> frame" if "r = Inr f" for f
  proof
    assume "packFrame (ef_counter f) (ef_payload f) = frame"
    then have "length (packFrame (ef_counter f) (ef_payload f)) = length frame" by simp
    with encryptFrame_shape[OF assms(1), of s frame "[]" f s'] r that show False by (simp add: packFrame_def)
  qed
  then show ?thesis using True assms(2) r by (simp add: sendFrame_def piped_def split: sum.split)
qed (auto simp: sendFrame_def piped_def)

lemma receives_plain_iff: "(\<forall>b. fst (receiveFrame N i b e) = Some b) \<longleftrightarrow> \<not> piped (me_piped_in e) i"
proof (cases "piped (me_piped_in e) i")
  case True
  then have "fst (receiveFrame N i [] e) = None" by (simp add: receiveFrame_def piped_def unpackFrame_def)
  with True show ?thesis by (auto intro!: exI[of _ "[]"])
qed (auto simp: receiveFrame_def piped_def)

text \<open>On a platform every sender and receiver has \<open>createEncodedStreams\<close> or none has.\<close>

definition encoded_streams :: "media_platform \<Rightarrow> nat \<Rightarrow> bool list" where
  "encoded_streams p n = replicate n (mp_createEncodedStreams p)"

text \<open>C12
  Support is not encryption. Wherever the engine reports frame encryption, which is what lets a
  call be placed or answered, installing the keys succeeds; but the frames are encrypted exactly
  if the platform has \<open>createEncodedStreams\<close>. With \<open>RTCRtpScriptTransform\<close> alone, which also counts
  as support, every sender sends its frames as they are and every receiver plays whatever comes.
\<close>

theorem media_encrypted_iff:
  assumes "library_ok N" and "detectFrameTransformSupport p" and "length a = 32" and "length b = 32"
  shows "\<exists>e. installFrameKeys (encoded_streams p n) (encoded_streams p k) a b (new_media_engine p) = (Inr (), e) \<and>
    (\<forall>j < n. \<forall>frame. (fst (sendFrame N j frame e) = Some frame) = (\<not> mp_createEncodedStreams p)) \<and>
    (\<forall>i < k. (\<forall>bytes. fst (receiveFrame N i bytes e) = Some bytes) = (\<not> mp_createEncodedStreams p))"
proof -
  have c: "me_supports (new_media_engine p)" "createSender a = Inr \<lparr>ss_key = a, ss_counter = 0\<rparr>"
    "createReceiver b = Inr \<lparr>sr_key = b, highestCounter = -1, seen = []\<rparr>"
    using assms(2-4) by (simp_all add: new_media_engine_def createSender_def createReceiver_def)
  obtain e where e: "installFrameKeys (encoded_streams p n) (encoded_streams p k) a b (new_media_engine p) = (Inr (), e)"
    "me_sender e = Some \<lparr>ss_key = a, ss_counter = 0\<rparr>" "me_piped_out e = encoded_streams p n" "me_piped_in e = encoded_streams p k"
    using installFrameKeys_ok[OF c, of "encoded_streams p n" "encoded_streams p k"] by blast
  have "piped (encoded_streams p m) j = mp_createEncodedStreams p" if "j < m" for m j
    using that by (simp add: piped_def encoded_streams_def)
  with e show ?thesis by (simp add: sends_plain_iff[OF assms(1) e(2)] receives_plain_iff)
qed

section \<open>Fingerprints, muting, closing\<close>

lemma takeWhile_word: "\<forall>c \<in> set w. \<not> js_space c \<Longrightarrow> js_space c \<Longrightarrow>
    takeWhile (\<lambda>c. \<not> js_space c) (w @ c # r) = w \<and> dropWhile (\<lambda>c. \<not> js_space c) (w @ c # r) = c # r"
  by (simp add: takeWhile_append2 dropWhile_append2)

text \<open>
  The attribute line of a session description gives the fingerprint that is bound into the call
  keys, and a description without one is refused.
\<close>

lemma fingerprint_line:
  assumes "alg \<noteq> []" and "fp \<noteq> []" and "\<forall>c \<in> set (alg @ fp). \<not> js_space c"
  shows "extractDtlsFingerprint (''a=fingerprint:'' @ alg @ '' '' @ fp @ CHR 0x0D # rest) = Inr (alg @ '' '' @ fp)"
proof -
  have s: "js_space CHR '' ''" "js_space CHR 0x0D" by (simp_all add: js_space_def)
  obtain c u where fp: "fp = c # u" "\<not> js_space c" using assms(2,3) by (cases fp) auto
  have "fingerprint_at (''a=fingerprint:'' @ alg @ '' '' @ fp @ CHR 0x0D # rest) = Some (alg, fp)"
    using takeWhile_word[of alg "CHR '' ''" "fp @ CHR 0x0D # rest"] takeWhile_word[of fp "CHR 0x0D" rest] assms s fp
    by (simp add: fingerprint_at_def Let_def)
  then show ?thesis by (simp add: extractDtlsFingerprint_def)
qed

lemma no_fingerprint: "extractDtlsFingerprint [] = Inl OtherError"
  by (simp add: extractDtlsFingerprint_def)

text \<open>
  Closing zeroes the keys it lets go of; a second installation lets go of the keys of the first
  one as they are.
\<close>

lemma closed_keys_zero:
  "set (concat (me_dropped e)) \<subseteq> {0} \<Longrightarrow> set (concat (me_dropped (close_engine e))) \<subseteq> {0}"
  by (auto simp: close_engine_def destroySender_def destroyReceiver_def zeroed_def split: option.split)

lemma rekey_leaves_keys:
  assumes "me_supports e" and "me_sender e = Some s" and "me_receiver e = Some r" and "length a = 32" and "length b = 32"
  shows "me_dropped (snd (installFrameKeys outs ins a b e)) = me_dropped e @ [ss_key s, sr_key r]"
  using assms by (simp add: installFrameKeys_def createSender_def createReceiver_def Let_def)

section \<open>The demonstration call\<close>

definition demo_platform :: media_platform where
  "demo_platform = \<lparr>mp_createEncodedStreams = True, mp_scriptTransform = False\<rparr>"

theorem media_reaches_peer_witness:
  "\<exists>kr ke e1 e2 wire. deriveCallKeys demo_library demo_call Callee = Inr kr \<and> deriveCallKeys demo_library demo_call Caller = Inr ke \<and>
    installFrameKeys [True] [True] (sendKey kr) (receiveKey kr) (new_media_engine demo_platform) = (Inr (), e1) \<and>
    installFrameKeys [True] [True] (sendKey ke) (receiveKey ke) (new_media_engine demo_platform) = (Inr (), e2) \<and>
    fst (send_frames demo_library 0 [[1], [2], [3]] e1) = map Some wire \<and>
    fst (receive_frames demo_library 0 [wire ! 2, wire ! 0] e2) = [Some [3], Some [1]]"
proof -
  let ?fs = "[[1], [2], [3]] :: bytes list" and ?ids = "[2, 0] :: nat list"
  have o: "\<forall>a b. a < b \<longrightarrow> b < length ?ids \<longrightarrow> ?ids ! a < ?ids ! b + 1024"
  proof (intro allI impI)
    fix a b :: nat assume "a < b" "b < length ?ids"
    then have "a = 0" "b = 1" by simp_all
    then show "?ids ! a < ?ids ! b + 1024" by simp
  qed
  have h: "length ?fs \<le> 2 ^ 48" "distinct ?ids" "\<forall>k \<in> set ?ids. k < length ?fs"
    "detectFrameTransformSupport demo_platform" "piped [True] 0"
    by (simp_all add: demo_platform_def detectFrameTransformSupport_def piped_def)
  from media_reaches_peer[OF demo_library_ok demo_call_fits h(1,2,3) o h(4,4,5,5), of Callee "[True]" "[True]"]
  obtain kr ke e1 e2 wire where "deriveCallKeys demo_library demo_call Callee = Inr kr"
    "deriveCallKeys demo_library demo_call (peer_role Callee) = Inr ke"
    "installFrameKeys [True] [True] (sendKey kr) (receiveKey kr) (new_media_engine demo_platform) = (Inr (), e1)"
    "installFrameKeys [True] [True] (sendKey ke) (receiveKey ke) (new_media_engine demo_platform) = (Inr (), e2)"
    "fst (send_frames demo_library 0 ?fs e1) = map Some wire"
    "fst (receive_frames demo_library 0 (map (\<lambda>k. wire ! k) ?ids) e2) = map (\<lambda>k. Some (?fs ! k)) ?ids" by blast
  then show ?thesis unfolding peer_role.simps
    by (intro exI[of _ kr] exI[of _ ke] exI[of _ e1] exI[of _ e2] exI[of _ wire]) simp
qed

theorem media_encrypted_iff_witness:
  "\<exists>e. installFrameKeys [False] [False] (replicate 32 1) (replicate 32 2)
      (new_media_engine \<lparr>mp_createEncodedStreams = False, mp_scriptTransform = True\<rparr>) = (Inr (), e) \<and>
    fst (sendFrame demo_library 0 [1, 2, 3] e) = Some [1, 2, 3] \<and> fst (receiveFrame demo_library 0 [6, 6, 6] e) = Some [6, 6, 6]"
proof -
  let ?p = "\<lparr>mp_createEncodedStreams = False, mp_scriptTransform = True\<rparr>"
  have "detectFrameTransformSupport ?p" "length (replicate 32 (1 :: byte)) = 32" "length (replicate 32 (2 :: byte)) = 32"
    by (simp_all add: detectFrameTransformSupport_def)
  from media_encrypted_iff[OF demo_library_ok this, of 1 1]
  show ?thesis by (auto simp: encoded_streams_def)
qed

end
