(* ===== verification/App_Android.thy ===== *)
theory App_Android
  imports App_Transport
begin

text \<open>
  The Android hardening of the build: the parts of apps/mobile/plugins/withAndroidPrivacy.js that
  transform the parsed manifest, and apps/mobile/plugins/withProguardRules.js. A node of the
  manifest is its attribute object, if it has one; the plug-in mechanism, which hands the manifest
  over and writes it back, is outside, and so is the merging of the manifests of the libraries
  during the build.
\<close>

section \<open>Permissions\<close>

type_synonym attributes = "(string, string) jsmap"

text \<open>\<open>entry?.$\<close>: None for a missing attribute object.\<close>

type_synonym manifest_node = "attributes option"

definition attribute :: "string \<Rightarrow> manifest_node \<Rightarrow> string option" where
  "attribute name entry = Option.bind entry (\<lambda>a. js_get a name)"

definition FORBIDDEN_PERMISSIONS :: "string list" where
  "FORBIDDEN_PERMISSIONS =
    [''android.permission.SYSTEM_ALERT_WINDOW'', ''android.permission.READ_EXTERNAL_STORAGE'',
     ''android.permission.WRITE_EXTERNAL_STORAGE'', ''android.permission.READ_CONTACTS'',
     ''android.permission.WRITE_CONTACTS'', ''android.permission.GET_ACCOUNTS'',
     ''android.permission.READ_PHONE_STATE'', ''android.permission.READ_PHONE_NUMBERS'',
     ''android.permission.ACCESS_FINE_LOCATION'', ''android.permission.ACCESS_COARSE_LOCATION'',
     ''android.permission.CAMERA'', ''android.permission.READ_SMS'', ''android.permission.RECEIVE_SMS'',
     ''android.permission.QUERY_ALL_PACKAGES'']"

definition REQUIRED_PERMISSIONS :: "string list" where
  "REQUIRED_PERMISSIONS =
    [''android.permission.INTERNET'', ''android.permission.RECORD_AUDIO'',
     ''android.permission.MODIFY_AUDIO_SETTINGS'', ''android.permission.FOREGROUND_SERVICE'',
     ''android.permission.FOREGROUND_SERVICE_MICROPHONE'', ''android.permission.POST_NOTIFICATIONS'']"

definition permission_name :: "manifest_node \<Rightarrow> string option" where
  "permission_name = attribute ''android:name''"

definition allowed_entry :: "manifest_node \<Rightarrow> bool" where
  "allowed_entry entry \<longleftrightarrow> permission_name entry \<notin> Some ` set FORBIDDEN_PERMISSIONS"

definition marked_removed :: "manifest_node \<Rightarrow> bool" where
  "marked_removed entry \<longleftrightarrow> attribute ''tools:node'' entry = Some ''remove''"

definition permission_entry :: "string \<Rightarrow> manifest_node" where
  "permission_entry name = Some [(''android:name'', name)]"

text \<open>The names \<open>present\<close> are those before the first addition, and required names are distinct.\<close>

definition withPermissions :: "manifest_node list option \<Rightarrow> manifest_node list" where
  "withPermissions uses =
     (let entries = (case uses of None \<Rightarrow> [] | Some es \<Rightarrow> es);
          entries = filter allowed_entry entries;
          entries = filter (\<lambda>e. \<not> marked_removed e) entries;
          present = map permission_name entries
      in entries @ map permission_entry (filter (\<lambda>name. Some name \<notin> set present) REQUIRED_PERMISSIONS))"

section \<open>Application and activity\<close>

text \<open>\<open>Object.assign\<close> is the spread of App_Transport.\<close>

definition HARDENED_APPLICATION :: attributes where
  "HARDENED_APPLICATION =
    [(''android:usesCleartextTraffic'', ''false''),
     (''android:networkSecurityConfig'', ''@xml/veil_network_security_config''),
     (''android:allowBackup'', ''false''),
     (''android:fullBackupContent'', ''@xml/veil_backup_rules''),
     (''android:dataExtractionRules'', ''@xml/veil_data_extraction_rules''),
     (''android:hasFragileUserData'', ''false'')]"

record application_node =
  app_attributes :: attributes
  app_metaData :: "manifest_node list option"
  app_activity :: "manifest_node list option"

definition set_attribute :: "string \<Rightarrow> string \<Rightarrow> manifest_node \<Rightarrow> manifest_node" where
  "set_attribute name v entry = map_option (js_set name v) entry"

definition harden_meta :: "manifest_node \<Rightarrow> manifest_node" where
  "harden_meta entry =
     (let name = permission_name entry;
          entry = (if name = Some ''expo.modules.updates.ENABLED'' then set_attribute ''android:value'' ''false'' entry else entry)
      in if name = Some ''expo.modules.updates.EXPO_UPDATES_CHECK_ON_LAUNCH''
         then set_attribute ''android:value'' ''NEVER'' entry else entry)"

definition harden_activity :: "manifest_node \<Rightarrow> manifest_node" where
  "harden_activity activity = (case activity of
      None \<Rightarrow> None
    | Some a \<Rightarrow> if js_get a ''android:name'' = Some ''.MainActivity''
        then Some (js_spread a
          [(''android:exported'', ''true''), (''android:excludeFromRecents'', ''false''), (''android:clearTaskOnLaunch'', ''true''),
           (''android:configChanges'', (case js_get a ''android:configChanges'' of
               Some c \<Rightarrow> c | None \<Rightarrow> ''keyboard|keyboardHidden|orientation|screenSize''))])
        else Some a)"

definition withApplicationHardening :: "application_node \<Rightarrow> application_node" where
  "withApplicationHardening application = application\<lparr>
     app_attributes := js_spread (app_attributes application) HARDENED_APPLICATION,
     app_metaData := Some (map harden_meta (case app_metaData application of None \<Rightarrow> [] | Some m \<Rightarrow> m)),
     app_activity := map_option (map harden_activity) (app_activity application)\<rparr>"

section \<open>Keep rules\<close>

text \<open>Text is kept as lines; \<open>includes\<close> looks for a text inside one of them.\<close>

definition RULES_MARKER :: string where
  "RULES_MARKER = ''Generated by plugins/withProguardRules.js''"

fun has_infix :: "string \<Rightarrow> string \<Rightarrow> bool" where
  "has_infix p [] = (p = [])"
| "has_infix p (c # cs) = (take (length p) (c # cs) = p \<or> has_infix p cs)"

definition PROGUARD_RULES :: "string list" where
  "PROGUARD_RULES = [
    '''',
    ''# ---------------------------------------------------------------------------'',
    ''# Veil release rules. Generated by plugins/withProguardRules.js.'',
    ''# ---------------------------------------------------------------------------'',
    '''',
    ''# React Native and Hermes reach these from JS by name.'',
    ''-keep class com.facebook.react.** { *; }'',
    ''-keep class com.facebook.hermes.** { *; }'',
    ''-keep class com.facebook.jni.** { *; }'',
    ''-keepclassmembers class * { @com.facebook.react.uimanager.annotations.ReactProp <methods>; }'',
    ''-keepclassmembers class * { @com.facebook.react.bridge.ReactMethod <methods>; }'',
    ''-keep @com.facebook.proguard.annotations.DoNotStrip class *'',
    ''-keepclassmembers class * { @com.facebook.proguard.annotations.DoNotStrip *; }'',
    '''',
    ''# Expo modules are resolved reflectively through the modules registry.'',
    ''-keep class expo.modules.** { *; }'',
    ''-keepclassmembers class * { @expo.modules.core.interfaces.ExpoMethod <methods>; }'',
    '''',
    ''# WebRTC. The peer connection and its observers are invoked from native code,'',
    ''# so renaming them breaks call setup in ways that only appear at runtime.'',
    ''-keep class org.webrtc.** { *; }'',
    ''-keep class com.oney.WebRTCModule.** { *; }'',
    ''-dontwarn org.webrtc.**'',
    '''',
    ''# SQLite bindings used by expo-sqlite.'',
    ''-keep class io.requery.android.database.** { *; }'',
    ''-dontwarn io.requery.**'',
    '''',
    ''# Keep annotations and generic signatures. Stripping these breaks reflective'',
    ''# lookups and produces failures far from their cause.'',
    ''-keepattributes *Annotation*,Signature,InnerClasses,EnclosingMethod'',
    '''',
    ''# Strip logging from release builds. Nothing in this app should log message'',
    ''# content, but removing the calls entirely means a stray debug log added later'',
    ''# cannot leak into logcat, which any app with READ_LOGS could read on older'',
    ''# Android versions.'',
    ''-assumenosideeffects class android.util.Log {'',
    ''    public static *** d(...);'',
    ''    public static *** v(...);'',
    ''    public static *** i(...);'',
    ''}'',
    '''']"

text \<open>The rules file before, if it exists, and after.\<close>

definition withProguardRules :: "string list option \<Rightarrow> string list option" where
  "withProguardRules file =
     (let existing = (case file of None \<Rightarrow> [''''] | Some l \<Rightarrow> l) in
      if list_ex (has_infix RULES_MARKER) existing then file else Some (existing @ PROGUARD_RULES))"

lemma rules_written_once: "withProguardRules (withProguardRules file) = withProguardRules file"
proof -
  have "has_infix RULES_MARKER ''# Veil release rules. Generated by plugins/withProguardRules.js.''"
    by (simp add: RULES_MARKER_def)
  then have "list_ex (has_infix RULES_MARKER) PROGUARD_RULES" by (simp add: PROGUARD_RULES_def)
  then show ?thesis by (simp add: withProguardRules_def Let_def split: option.split)
qed

section \<open>What the hardening achieves\<close>

lemma required_not_forbidden: "set REQUIRED_PERMISSIONS \<inter> set FORBIDDEN_PERMISSIONS = {}"
  by (simp add: REQUIRED_PERMISSIONS_def FORBIDDEN_PERMISSIONS_def)

lemma permission_entry_simps [simp]:
  "permission_name (permission_entry n) = Some n" "marked_removed (permission_entry n) = False"
  by (simp_all add: permission_name_def attribute_def permission_entry_def marked_removed_def)

lemma withPermissions_kept:
  assumes "\<forall>e \<in> set es. allowed_entry e \<and> \<not> marked_removed e" and "Some ` set REQUIRED_PERMISSIONS \<subseteq> permission_name ` set es"
  shows "withPermissions (Some es) = es"
proof -
  have "filter (\<lambda>n. Some n \<notin> permission_name ` set es) REQUIRED_PERMISSIONS = []"
    using assms(2) by (auto simp: filter_empty_conv)
  moreover have "filter (\<lambda>e. allowed_entry e \<and> \<not> marked_removed e) es = es" "{e \<in> set es. allowed_entry e \<and> \<not> marked_removed e} = set es"
    using assms(1) by (auto simp: filter_id_conv)
  ultimately show ?thesis by (simp add: withPermissions_def Let_def)
qed

lemma withPermissions_names:
  "(e \<in> set (withPermissions uses) \<longrightarrow> allowed_entry e \<and> \<not> marked_removed e) \<and>
   Some ` set REQUIRED_PERMISSIONS \<subseteq> permission_name ` set (withPermissions uses)"
proof
  show "e \<in> set (withPermissions uses) \<longrightarrow> allowed_entry e \<and> \<not> marked_removed e"
    using required_not_forbidden by (auto simp: withPermissions_def Let_def allowed_entry_def)
  show "Some ` set REQUIRED_PERMISSIONS \<subseteq> permission_name ` set (withPermissions uses)"
    by (auto simp: withPermissions_def Let_def image_Un image_image split: option.split)
qed

text \<open>
  The permissions of the app's manifest: whatever it declared, afterwards no forbidden permission
  and no removal marker is in it, every required permission is, the entries it had otherwise
  stand first in their order, only required permissions were added, and applying the plug-in
  again changes nothing.
\<close>

lemma permissions_hardened:
  "permission_name ` set (withPermissions uses) \<inter> Some ` set FORBIDDEN_PERMISSIONS = {} \<and>
   filter marked_removed (withPermissions uses) = [] \<and>
   Some ` set REQUIRED_PERMISSIONS \<subseteq> permission_name ` set (withPermissions uses) \<and>
   (\<exists>added. withPermissions uses =
      filter (\<lambda>e. allowed_entry e \<and> \<not> marked_removed e) (case uses of None \<Rightarrow> [] | Some es \<Rightarrow> es) @ added \<and>
      set added \<subseteq> permission_entry ` set REQUIRED_PERMISSIONS) \<and>
   withPermissions (Some (withPermissions uses)) = withPermissions uses"
proof (intro conjI)
  note n = withPermissions_names[of _ uses]
  show "permission_name ` set (withPermissions uses) \<inter> Some ` set FORBIDDEN_PERMISSIONS = {}"
    using n by (fastforce simp: allowed_entry_def)
  show "filter marked_removed (withPermissions uses) = []" using n by (auto simp: filter_empty_conv)
  show "Some ` set REQUIRED_PERMISSIONS \<subseteq> permission_name ` set (withPermissions uses)" using n by blast
  show "withPermissions (Some (withPermissions uses)) = withPermissions uses" using n by (intro withPermissions_kept) blast+
  show "\<exists>added. withPermissions uses =
      filter (\<lambda>e. allowed_entry e \<and> \<not> marked_removed e) (case uses of None \<Rightarrow> [] | Some es \<Rightarrow> es) @ added \<and>
      set added \<subseteq> permission_entry ` set REQUIRED_PERMISSIONS"
    unfolding withPermissions_def Let_def filter_filter by (intro exI conjI, rule refl) auto
qed

lemma js_spread_other: "k \<notin> fst ` set b \<Longrightarrow> js_get (js_spread a b) k = js_get a k"
  by (simp add: js_spread_get option.case_eq_if) (metis image_set map_of_eq_None_iff set_rev rev_map option.distinct(1))

text \<open>The application: backups, cleartext traffic and update checks are off, other attributes stay.\<close>

lemma application_hardened:
  "js_get (app_attributes (withApplicationHardening a)) ''android:allowBackup'' = Some ''false'' \<and>
   js_get (app_attributes (withApplicationHardening a)) ''android:usesCleartextTraffic'' = Some ''false'' \<and>
   (k \<notin> fst ` set HARDENED_APPLICATION \<longrightarrow> js_get (app_attributes (withApplicationHardening a)) k = js_get (app_attributes a) k)"
  by (simp add: withApplicationHardening_def js_spread_get js_spread_other) (simp add: HARDENED_APPLICATION_def)

lemma updates_disabled:
  assumes "permission_name (Some e) = Some ''expo.modules.updates.ENABLED''"
  shows "attribute ''android:value'' (harden_meta (Some e)) = Some ''false''"
  using assms by (simp add: harden_meta_def set_attribute_def attribute_def permission_name_def Let_def)

section \<open>Libraries\<close>

text \<open>
  The documented behaviour of the manifest merger: a permission that a library declares is in
  the merged manifest, unless the app's manifest marks it with \<open>tools:node="remove"\<close>.
\<close>

definition manifest_merger :: "(manifest_node list \<Rightarrow> string list \<Rightarrow> string list) \<Rightarrow> bool" where
  "manifest_merger merge \<longleftrightarrow> (\<forall>main libs p. p \<in> set libs \<longrightarrow>
     (p \<in> set (merge main libs)) = (\<not> list_ex (\<lambda>e. permission_name e = Some p \<and> marked_removed e) main))"

lemma manifest_merger_exists: "\<exists>merge. manifest_merger merge"
  by (rule exI[of _ "\<lambda>main. filter (\<lambda>p. \<not> list_ex (\<lambda>e. permission_name e = Some p \<and> marked_removed e) main)"])
    (simp add: manifest_merger_def)

text \<open>
  The plug-in lets in what it means to keep out. A forbidden permission that a library declares,
  and that the app's manifest has marked for removal, is missing from the merged manifest; after
  the plug-in, which drops the marker, it is in.
\<close>

lemma removal_markers_lost:
  assumes "manifest_merger merge" and "e \<in> set es" and "permission_name e = Some p" and "marked_removed e" and "p \<in> set libs"
  shows "p \<notin> set (merge es libs) \<and> p \<in> set (merge (withPermissions (Some es)) libs)"
proof -
  have "list_ex (\<lambda>e. permission_name e = Some p \<and> marked_removed e) es" using assms(2-4) by (auto simp: list_ex_iff)
  moreover have "\<not> list_ex (\<lambda>e. permission_name e = Some p \<and> marked_removed e) (withPermissions (Some es))"
    using withPermissions_names[of _ "Some es"] by (auto simp: list_ex_iff)
  ultimately show ?thesis using assms(1,5) by (simp add: manifest_merger_def)
qed

end
