(* ===== verification/App_Gradle.thy ===== *)
theory App_Gradle
  imports App_Android App_Json
begin

text \<open>
  The rest of apps/mobile/plugins/withAndroidPrivacy.js: the XML resources it writes and the
  edits of build.gradle. Texts are lists of lines joined by newlines. The regular expressions of
  the file use literals, greedy runs of a character class and lazy runs of any character, in
  sequence; \<open>rx_match\<close> is backtracking over these, \<open>rx_replace\<close> is \<open>replace\<close> without the global
  flag. The plug-in mechanism, which reads and writes the project, is outside.
\<close>

section \<open>Regular expressions\<close>

datatype rx =
    Exactly string
  | Many "char \<Rightarrow> bool"
  | Few "nat option"

fun longer :: "char \<Rightarrow> string list \<times> string \<Rightarrow> string list \<times> string" where
  "longer c (p # ps, rest) = ((c # p) # ps, rest)"
| "longer c ([], rest) = ([], rest)"

text \<open>The pieces that the elements matched at the beginning of the text, and the text after them.\<close>

function rx_match :: "rx list \<Rightarrow> string \<Rightarrow> (string list \<times> string) option" where
  "rx_match [] s = Some ([], s)"
| "rx_match (Exactly l # rs) s =
     (if take (length l) s = l then map_option (apfst ((#) l)) (rx_match rs (drop (length l) s)) else None)"
| "rx_match (Many P # rs) s =
     (case (case s of [] \<Rightarrow> None | c # cs \<Rightarrow> if P c then map_option (longer c) (rx_match (Many P # rs) cs) else None) of
        Some r \<Rightarrow> Some r
      | None \<Rightarrow> map_option (apfst ((#) [])) (rx_match rs s))"
| "rx_match (Few n # rs) s =
     (case rx_match rs s of
        Some r \<Rightarrow> Some (apfst ((#) []) r)
      | None \<Rightarrow> (case s of
          [] \<Rightarrow> None
        | c # cs \<Rightarrow> if n = Some 0 then None else map_option (longer c) (rx_match (Few (map_option (\<lambda>k. k - 1) n) # rs) cs)))"
  by pat_completeness auto
termination by (relation "measure (\<lambda>(rs, s). length rs + length s)") auto

declare rx_match.simps(3,4) [simp del]

lemmas rx_match_simps = rx_match.simps(3)[of P rs "[]" for P rs] rx_match.simps(3)[of P rs "c # cs" for P rs c cs]
  rx_match.simps(4)[of n rs "[]" for n rs] rx_match.simps(4)[of n rs "c # cs" for n rs c cs]

declare rx_match_simps [simp]

text \<open>The first place where they match: the text before it, the pieces, the text after.\<close>

fun rx_find :: "rx list \<Rightarrow> string \<Rightarrow> (string \<times> string list \<times> string) option" where
  "rx_find rs s = (case rx_match rs s of
      Some (ps, rest) \<Rightarrow> Some ([], ps, rest)
    | None \<Rightarrow> (case s of [] \<Rightarrow> None | c # cs \<Rightarrow> map_option (apfst ((#) c)) (rx_find rs cs)))"

declare rx_find.simps [simp del]

definition rx_replace :: "rx list \<Rightarrow> (string list \<Rightarrow> string) \<Rightarrow> string \<Rightarrow> string" where
  "rx_replace rs f s = (case rx_find rs s of None \<Rightarrow> s | Some (before, ps, rest) \<Rightarrow> before @ f ps @ rest)"

section \<open>Resources\<close>

abbreviation nl :: string where "nl \<equiv> [CHR 0x0A]"

definition text_of :: "string list \<Rightarrow> string" where
  "text_of = js_join nl"

definition NETWORK_SECURITY_CONFIG :: "string list" where
  "NETWORK_SECURITY_CONFIG = [
    ''<?xml version=\"1.0\" encoding=\"utf-8\"?>'',
    ''<!--'',
    ''  Generated by plugins/withAndroidPrivacy.js - do not edit by hand.'',
    ''-->'',
    ''<network-security-config>'',
    ''  <base-config cleartextTrafficPermitted=\"false\">'',
    ''    <trust-anchors>'',
    ''      <certificates src=\"system\" />'',
    ''      <!--'',
    ''        User-installed CAs are deliberately NOT trusted. This is what stops a'',
    ''        device-installed root certificate from silently intercepting the'',
    ''        connection to the relay.'',
    ''      -->'',
    ''    </trust-anchors>'',
    ''  </base-config>'',
    '''',
    ''  <!--'',
    ''    Certificate pinning for your relay. Uncomment and set the SPKI digests for'',
    ''    your own deployment. Always include a backup pin, or a certificate rotation'',
    ''    will lock every installed client out.'',
    '''',
    ''  <domain-config cleartextTrafficPermitted=\"false\">'',
    ''    <domain includeSubdomains=\"true\">relay.example</domain>'',
    ''    <pin-set expiration=\"2027-01-01\">'',
    ''      <pin digest=\"SHA-256\">BASE64_SPKI_PIN_PRIMARY</pin>'',
    ''      <pin digest=\"SHA-256\">BASE64_SPKI_PIN_BACKUP</pin>'',
    ''    </pin-set>'',
    ''  </domain-config>'',
    ''  -->'',
    ''</network-security-config>'',
    '''']"

definition BACKUP_RULES :: "string list" where
  "BACKUP_RULES = [
    ''<?xml version=\"1.0\" encoding=\"utf-8\"?>'',
    ''<!--'',
    ''  Generated by plugins/withAndroidPrivacy.js - do not edit by hand.'',
    '''',
    ''  Nothing this app stores may leave the device through Android Backup: not the'',
    ''  encrypted message database, not the keystore wrapper, not shared prefs.'',
    ''-->'',
    ''<full-backup-content>'',
    ''  <exclude domain=\"root\" path=\".\" />'',
    ''  <exclude domain=\"file\" path=\".\" />'',
    ''  <exclude domain=\"database\" path=\".\" />'',
    ''  <exclude domain=\"sharedpref\" path=\".\" />'',
    ''  <exclude domain=\"external\" path=\".\" />'',
    ''</full-backup-content>'',
    '''']"

definition DATA_EXTRACTION_RULES :: "string list" where
  "DATA_EXTRACTION_RULES = [
    ''<?xml version=\"1.0\" encoding=\"utf-8\"?>'',
    ''<!--'',
    ''  Generated by plugins/withAndroidPrivacy.js - do not edit by hand.'',
    '''',
    ''  device-transfer is excluded as well as cloud-backup: a new-phone transfer'',
    ''  would otherwise copy the encrypted database onto a device whose keystore'',
    ''  cannot open it, leaving ciphertext lying around for no benefit.'',
    ''-->'',
    ''<data-extraction-rules>'',
    ''  <cloud-backup>'',
    ''    <exclude domain=\"root\" path=\".\" />'',
    ''    <exclude domain=\"file\" path=\".\" />'',
    ''    <exclude domain=\"database\" path=\".\" />'',
    ''    <exclude domain=\"sharedpref\" path=\".\" />'',
    ''    <exclude domain=\"external\" path=\".\" />'',
    ''  </cloud-backup>'',
    ''  <device-transfer>'',
    ''    <exclude domain=\"root\" path=\".\" />'',
    ''    <exclude domain=\"file\" path=\".\" />'',
    ''    <exclude domain=\"database\" path=\".\" />'',
    ''    <exclude domain=\"sharedpref\" path=\".\" />'',
    ''    <exclude domain=\"external\" path=\".\" />'',
    ''  </device-transfer>'',
    ''</data-extraction-rules>'',
    '''']"

text \<open>The files of the project by their path from its root.\<close>

type_synonym project_files = "(string, string) jsmap"

definition xml_path :: "string \<Rightarrow> string" where
  "xml_path name = ''app/src/main/res/xml/'' @ name"

definition withSecurityXmlResources :: "project_files \<Rightarrow> project_files" where
  "withSecurityXmlResources files =
     (let files = js_set (xml_path ''veil_network_security_config.xml'') (text_of NETWORK_SECURITY_CONFIG) files;
          files = js_set (xml_path ''veil_backup_rules.xml'') (text_of BACKUP_RULES) files;
          files = js_set (xml_path ''veil_data_extraction_rules.xml'') (text_of DATA_EXTRACTION_RULES) files;
          files = js_set (xml_path ''secure_store_backup_rules.xml'') (text_of BACKUP_RULES) files
      in js_set (xml_path ''secure_store_data_extraction_rules.xml'') (text_of DATA_EXTRACTION_RULES) files)"

section \<open>Release signing\<close>

definition RELEASE_SIGNING_BLOCK :: "string list" where
  "RELEASE_SIGNING_BLOCK = [
    '''',
    ''    signingConfigs {'',
    ''        debug {'',
    ''            storeFile file('debug.keystore')'',
    ''            storePassword 'android'' @ [CHR 0x27],
    ''            keyAlias 'androiddebugkey'' @ [CHR 0x27],
    ''            keyPassword 'android'' @ [CHR 0x27],
    ''        }'',
    ''        release {'',
    ''            // Supplied by the environment or ~/.gradle/gradle.properties.'',
    ''            // Never commit a release keystore or its password.'',
    ''            def storePath = System.getenv(\"VEIL_KEYSTORE_PATH\") ?: project.findProperty(\"VEIL_KEYSTORE_PATH\")'',
    ''            def storePass = System.getenv(\"VEIL_KEYSTORE_PASSWORD\") ?: project.findProperty(\"VEIL_KEYSTORE_PASSWORD\")'',
    ''            def alias = System.getenv(\"VEIL_KEY_ALIAS\") ?: project.findProperty(\"VEIL_KEY_ALIAS\")'',
    ''            def keyPass = System.getenv(\"VEIL_KEY_PASSWORD\") ?: project.findProperty(\"VEIL_KEY_PASSWORD\")'',
    ''            if (storePath != null && storePass != null && alias != null && keyPass != null) {'',
    ''                storeFile file(storePath)'',
    ''                storePassword storePass'',
    ''                keyAlias alias'',
    ''                keyPassword keyPass'',
    ''            }'',
    ''        }'',
    ''    }'']"

definition RELEASE_CHECK :: "string list" where
  "RELEASE_CHECK = [
    ''// Release builds are signed with the key supplied via'',
    ''// VEIL_KEYSTORE_* (see plugins/withAndroidPrivacy.js). The template's'',
    ''// default signed releases with the committed debug keystore, whose'',
    ''// password is public - that would let anyone forge an update.'',
    ''signingConfig signingConfigs.release'',
    ''doFirst {'',
    ''    if (signingConfigs.release.storeFile == null) {'',
    ''        throw new GradleException('',
    ''            \"Refusing to build a release without a signing key. Set \" +'',
    ''            \"VEIL_KEYSTORE_PATH, VEIL_KEYSTORE_PASSWORD, VEIL_KEY_ALIAS \" +'',
    ''            \"and VEIL_KEY_PASSWORD.\"'',
    ''        )'',
    ''    }'',
    ''}'']"

definition signingConfigsPattern :: "rx list" where
  "signingConfigsPattern =
    [Exactly (text_of ['''', ''    signingConfigs {'', ''        debug {'']), Few None, Exactly (text_of ['''', ''        }'', ''    }''])]"

definition no_newline :: "char \<Rightarrow> bool" where
  "no_newline c \<longleftrightarrow> [c] \<noteq> nl"

definition releasePattern :: "rx list" where
  "releasePattern =
    [Exactly (text_of [''release {'', '''']), Many js_space, Exactly ''// Caution! In production'', Many no_newline, Exactly nl,
     Many js_space, Exactly ''// see'', Many no_newline, Exactly nl, Many js_space, Exactly ''signingConfig signingConfigs.debug'']"

definition fallbackPattern :: "rx list" where
  "fallbackPattern = [Exactly ''release {'', Few (Some 400), Exactly ''signingConfig signingConfigs.debug'']"

text \<open>The second piece is the indentation, put before each line.\<close>

definition checked_release :: "string list \<Rightarrow> string" where
  "checked_release ps = hd ps @ text_of (map (\<lambda>line. ps ! 1 @ line) RELEASE_CHECK)"

definition withReleaseSigning :: "string \<Rightarrow> string" where
  "withReleaseSigning contents =
     (let contents = rx_replace signingConfigsPattern (\<lambda>ps. text_of RELEASE_SIGNING_BLOCK) contents;
          contents = rx_replace releasePattern checked_release contents
      in rx_replace fallbackPattern (\<lambda>ps. hd ps @ ps ! 1 @ ''signingConfig signingConfigs.release'') contents)"

record android_project =
  ap_files :: project_files
  ap_permissions :: "manifest_node list option"
  ap_application :: application_node
  ap_gradle :: string

definition withAndroidPrivacy :: "android_project \<Rightarrow> android_project" where
  "withAndroidPrivacy config =
     (let next = config\<lparr>ap_files := withSecurityXmlResources (ap_files config)\<rparr>;
          next = next\<lparr>ap_permissions := Some (withPermissions (ap_permissions next))\<rparr>;
          next = next\<lparr>ap_application := withApplicationHardening (ap_application next)\<rparr>
      in next\<lparr>ap_gradle := withReleaseSigning (ap_gradle next)\<rparr>)"

section \<open>What the edits do\<close>

text \<open>A match gives one piece per element, and the pieces with the rest are the text.\<close>

definition rx_good :: "nat \<Rightarrow> string \<Rightarrow> (string list \<times> string) option \<Rightarrow> bool" where
  "rx_good n s r \<longleftrightarrow> (case r of None \<Rightarrow> True | Some (ps, rest) \<Rightarrow> length ps = n \<and> concat ps @ rest = s)"

named_theorems rx_intros

lemma good_none [rx_intros]: "rx_good n s None"
  by (simp add: rx_good_def)

lemma good_longer [rx_intros]: "rx_good (Suc n) cs r \<Longrightarrow> rx_good (Suc n) (c # cs) (map_option (longer c) r)"
  by (auto simp: rx_good_def length_Suc_conv split: option.splits)

lemma good_piece: "rx_good n s r \<Longrightarrow> rx_good (Suc n) (p @ s) (map_option (apfst ((#) p)) r)"
  by (auto simp: rx_good_def split: option.splits)

lemma good_or [rx_intros]:
  "rx_good n s r \<Longrightarrow> (r = None \<Longrightarrow> rx_good n s t) \<Longrightarrow> rx_good n s (case r of Some x \<Rightarrow> Some x | None \<Rightarrow> t)"
  by (cases r) auto

lemma match_good: "rx_good (length rs) s (rx_match rs s)"
proof (induction rs s rule: rx_match.induct)
  case (2 l rs s)
  show ?case
  proof (cases "take (length l) s = l")
    case True
    then have s: "l @ drop (length l) s = s" using append_take_drop_id[of "length l" s] by simp
    have "rx_match (Exactly l # rs) s = map_option (apfst ((#) l)) (rx_match rs (drop (length l) s))"
      by (simp add: True)
    moreover have "rx_good (Suc (length rs)) s (map_option (apfst ((#) l)) (rx_match rs (drop (length l) s)))"
      using good_piece[OF 2[OF True], of l] by (simp only: s)
    ultimately show ?thesis by (simp only: length_Cons)
  qed (simp add: good_none)
next
  case (3 P rs s)
  show ?case
  proof (subst rx_match.simps(3), unfold length_Cons, rule good_or)
    show "rx_good (Suc (length rs)) s (case s of [] \<Rightarrow> None | c # cs \<Rightarrow> if P c then map_option (longer c) (rx_match (Many P # rs) cs) else None)"
    proof (cases s)
      case (Cons c cs)
      show ?thesis unfolding Cons using 3(1)[OF Cons] by (simp add: rx_intros del: rx_match_simps)
    qed (simp add: rx_intros)
    show "rx_good (Suc (length rs)) s (map_option (apfst ((#) [])) (rx_match rs s))"
      if "(case s of [] \<Rightarrow> None | c # cs \<Rightarrow> if P c then map_option (longer c) (rx_match (Many P # rs) cs) else None) = None"
      using good_piece[OF 3(2)[OF that], of "[]"] by simp
  qed
next
  case (4 n rs s)
  show ?case
  proof (cases "rx_match rs s")
    case None
    show ?thesis using 4(2)[OF None] None by (cases s) (auto intro!: rx_intros)
  next
    case (Some r)
    then show ?thesis using good_piece[OF 4(1), of "[]"] by (simp add: rx_match.simps(4)[of n rs s])
  qed
qed (simp add: rx_good_def)

lemma match_pieces: "rx_match rs s = Some (ps, rest) \<Longrightarrow> length ps = length rs \<and> concat ps @ rest = s"
  using match_good[of rs s] by (simp add: rx_good_def)

lemma find_match: "rx_find rs s = Some (before, ps, rest) \<Longrightarrow>
    \<exists>t. s = before @ t \<and> rx_match rs t = Some (ps, rest)"
proof (induction s arbitrary: before)
  case Nil
  then show ?case by (auto simp: rx_find.simps[of rs "[]"] split: option.splits)
next
  case (Cons c cs)
  show ?case
  proof (cases "rx_match rs (c # cs)")
    case None
    with Cons.prems obtain b where "rx_find rs cs = Some (b, ps, rest)" "before = c # b"
      by (auto simp: rx_find.simps[of rs "c # cs"])
    with Cons.IH show ?thesis by simp
  next
    case (Some r)
    with Cons.prems have "r = (ps, rest)" "before = []" by (auto simp: rx_find.simps[of rs "c # cs"] split: prod.splits)
    with Some show ?thesis by simp
  qed
qed

lemma few_bound: "rx_match (Few (Some k) # rs) s = Some (p # ps, rest) \<Longrightarrow> length p \<le> k"
proof (induction s arbitrary: k p)
  case Nil
  then show ?case by (auto split: option.splits)
next
  case (Cons c cs)
  show ?case
  proof (cases "rx_match rs (c # cs)")
    case None
    with Cons.prems obtain r where r: "k \<noteq> 0" "rx_match (Few (Some (k - 1)) # rs) cs = Some r" "longer c r = (p # ps, rest)"
      by (auto split: if_splits)
    with match_pieces obtain q qs where "r = (q # qs, rest)" "p = c # q" "qs = ps"
      by (cases r; cases "fst r") (auto simp: length_Suc_conv)
    with r Cons.IH[of "k - 1" q] show ?thesis by auto
  qed (use Cons.prems in auto)
qed

lemma match_exactly: "rx_match (Exactly l # rs) s = Some (p # ps, rest) \<Longrightarrow> p = l \<and> rx_match rs (drop (length l) s) = Some (ps, rest)"
  by (auto simp: apfst_def split: if_splits)

lemma match_few: "rx_match (Few n # rs) s = Some (p # ps, rest) \<Longrightarrow> \<exists>t. rx_match rs t = Some (ps, rest)"
proof (induction s arbitrary: n p)
  case Nil
  then show ?case by (auto split: option.splits)
next
  case (Cons c cs)
  show ?case
  proof (cases "rx_match rs (c # cs)")
    case None
    with Cons.prems obtain r where r: "rx_match (Few (map_option (\<lambda>k. k - 1) n) # rs) cs = Some r" "longer c r = (p # ps, rest)"
      by (auto split: if_splits)
    with match_pieces obtain q qs where "r = (q # qs, rest)" "qs = ps"
      by (cases r; cases "fst r") (auto simp: length_Suc_conv)
    with r Cons.IH show ?thesis by blast
  qed (use Cons.prems in auto)
qed

text \<open>
  The fallback: the first debug signing at most 400 characters after a \<open>release {\<close> becomes release
  signing, and nothing else changes.
\<close>

lemma fallback_edit:
  assumes "rx_find fallbackPattern s = Some (before, ps, rest)"
  shows "\<exists>gap. length gap \<le> 400 \<and>
    s = before @ ''release {'' @ gap @ ''signingConfig signingConfigs.debug'' @ rest \<and>
    rx_replace fallbackPattern (\<lambda>ps. hd ps @ ps ! 1 @ ''signingConfig signingConfigs.release'') s =
      before @ ''release {'' @ gap @ ''signingConfig signingConfigs.release'' @ rest"
proof -
  obtain t where t: "s = before @ t" "rx_match fallbackPattern t = Some (ps, rest)" using find_match[OF assms] by blast
  obtain p gap q where ps: "ps = [p, gap, q]" "t = p @ gap @ q @ rest"
    using match_pieces[OF t(2)] by (auto simp: fallbackPattern_def length_Suc_conv)
  have p: "p = ''release {''" "q = ''signingConfig signingConfigs.debug''" "length gap \<le> 400"
  proof -
    show "p = ''release {''" using t(2) match_exactly unfolding fallbackPattern_def ps(1) by blast
    have f: "rx_match [Few (Some 400), Exactly ''signingConfig signingConfigs.debug''] (drop (length ''release {'') t) = Some ([gap, q], rest)"
      using t(2) match_exactly unfolding fallbackPattern_def ps(1) by blast
    from match_few[OF f] match_exactly show "q = ''signingConfig signingConfigs.debug''" by blast
    from few_bound[OF f] show "length gap \<le> 400" .
  qed
  show ?thesis using t(1) ps p assms by (intro exI[of _ gap]) (simp add: rx_replace_def)
qed

text \<open>Every resource that the hardened application refers to is among the files written.\<close>

definition resource_of :: "string \<Rightarrow> string option" where
  "resource_of v = (if take 5 v = ''@xml/'' then Some (drop 5 v) else None)"

lemma resources_resolve:
  "list_all (\<lambda>(k, v). case resource_of v of None \<Rightarrow> True
     | Some n \<Rightarrow> js_get (withSecurityXmlResources files) (xml_path (n @ ''.xml'')) \<noteq> None) HARDENED_APPLICATION"
  by (simp add: HARDENED_APPLICATION_def resource_of_def withSecurityXmlResources_def xml_path_def Let_def)

text \<open>
  The comment of a template decides whether a release build without a key is refused. With the
  comment the pattern expects, the release block gets the check; with another one it is signed with
  the release configuration, and nothing in the file refuses the build.
\<close>

definition demo_gradle :: "string list \<Rightarrow> string" where
  "demo_gradle remarks = text_of ([''release {''] @ remarks @ [''  signingConfig signingConfigs.debug'', ''}''])"

lemma release_checked:
  "rx_replace releasePattern checked_release (demo_gradle [''  // Caution! In production'', ''  // see x'']) =
   text_of ([''release {''] @ map (\<lambda>line. ''  '' @ line) RELEASE_CHECK @ [''}''])"
  by code_simp

lemma release_unchecked:
  "withReleaseSigning (demo_gradle [''  // use your own key'']) =
   text_of [''release {'', ''  // use your own key'', ''  signingConfig signingConfigs.release'', ''}'']"
  by code_simp

end
