(* ===== verification/App_Calls.thy ===== *)
theory App_Calls
  imports App_Types Veil_CallKeys Veil_Base64
begin

text \<open>
  The voice call state machine: apps/mobile/src/core/callManager.ts. An async method runs
  without interruption up to its next \<open>await\<close>; the rest of it is a pending continuation, and
  the pending ones resume in any order, between them any other event. Every \<open>await\<close> whose
  continuation still does something is one constructor of \<open>cont\<close>. The media engine and the
  signalling channel are outside: their replies are events, what is asked of them is logged.
  Media secrets are buffers in a heap, because \<open>placeCall\<close> keeps a reference to the buffer that
  \<open>endCall\<close> wipes.
\<close>

section \<open>State\<close>

record call_options =
  selfIdentity :: public_identity
  resolvePeerIdentity :: "string \<Rightarrow> public_identity option"
  requireFrameEncryption :: "bool option"

datatype call_effect =
    ESignal string payload
  | ECreateOffer nat
  | ECreateAnswer nat string
  | EAcceptAnswer nat string
  | EAddCandidate nat string
  | EInstallKeys nat bytes bytes
  | ESetMuted nat bool
  | ECloseEngine nat
  | EStateChange call_info
  | ESasAvailable call_info
  | EOnError error
  | EThrow error

text \<open>What is left of a method after an \<open>await\<close>, with the local variables it still reads.\<close>

datatype cont =
    PlaceRefused
  | PlaceOffered string string nat
  | PlaceSent
  | AnswerRefused call_info
  | AnswerRefusalSent
  | AnswerCreated call_info
  | AnswerInstalled call_info call_info string string
  | AnswerSent
  | AnswerAccepted
  | CallerInstalled call_info
  | CandidateSent
  | EndNotified string
  | EndClosed string

datatype reply = RSdp string string | RDone | RThrow error

record call_mgr =
  cm_current :: "call_info option"
  cm_engine :: "nat option"
  cm_keys :: "call_key_material option"
  cm_mediaSecret :: "nat option"
  cm_localFingerprint :: "string option"
  cm_remoteFingerprint :: "string option"
  cm_pendingOfferSdp :: "string option"
  cm_heap :: "bytes list"
  cm_engines :: "(bool \<times> (string \<times> string) option) list"
  cm_pending :: "cont list"
  cm_log :: "call_effect list"

definition new_call_mgr :: call_mgr where
  "new_call_mgr = \<lparr>cm_current = None, cm_engine = None, cm_keys = None, cm_mediaSecret = None,
     cm_localFingerprint = None, cm_remoteFingerprint = None, cm_pendingOfferSdp = None, cm_heap = [],
     cm_engines = [], cm_pending = [], cm_log = []\<rparr>"

abbreviation emit :: "call_effect \<Rightarrow> call_mgr \<Rightarrow> call_mgr" where
  "emit e m \<equiv> m\<lparr>cm_log := cm_log m @ [e]\<rparr>"

abbreviation await :: "cont \<Rightarrow> call_mgr \<Rightarrow> call_mgr" where
  "await k m \<equiv> m\<lparr>cm_pending := cm_pending m @ [k]\<rparr>"

text \<open>\<open>this.engine?.op(...)\<close>: nothing happens without an engine.\<close>

definition on_engine :: "(nat \<Rightarrow> call_effect) \<Rightarrow> call_mgr \<Rightarrow> call_mgr" where
  "on_engine f m = (case cm_engine m of None \<Rightarrow> m | Some e \<Rightarrow> emit (f e) m)"

definition active :: "call_info option \<Rightarrow> bool" where
  "active c = (case c of None \<Rightarrow> False | Some i \<Rightarrow> ci_state i \<noteq> Ended)"

definition require_frames :: "call_options \<Rightarrow> bool" where
  "require_frames opts = (case requireFrameEncryption opts of None \<Rightarrow> True | Some b \<Rightarrow> b)"

definition setState :: "call_state \<Rightarrow> (call_info \<Rightarrow> call_info) \<Rightarrow> call_mgr \<Rightarrow> call_mgr" where
  "setState st extra m = (case cm_current m of
      None \<Rightarrow> m
    | Some c \<Rightarrow> let c' = (extra c)\<lparr>ci_state := st\<rparr> in emit (EStateChange c') (m\<lparr>cm_current := Some c'\<rparr>))"

definition new_call :: "string \<Rightarrow> string \<Rightarrow> message_direction \<Rightarrow> call_state \<Rightarrow> int \<Rightarrow> call_info" where
  "new_call cid peer dir st now = \<lparr>ci_callId = cid, ci_peerAddress = peer, ci_direction = dir, ci_state = st,
     ci_sas = None, ci_sasDigits = None, ci_sasConfirmed = False, ci_startedAt = Some now, ci_endedAt = None, ci_endReason = None\<rparr>"

text \<open>A new engine gets the next number; the handlers attached to it are closed over the peer and the call.\<close>

definition create_engine :: "bool \<Rightarrow> call_mgr \<Rightarrow> nat \<times> call_mgr" where
  "create_engine supports m = (length (cm_engines m), m\<lparr>cm_engines := cm_engines m @ [(supports, None)]\<rparr>)"

definition attachEngineHandlers :: "nat \<Rightarrow> string \<Rightarrow> string \<Rightarrow> call_mgr \<Rightarrow> call_mgr" where
  "attachEngineHandlers e peer cid m =
     m\<lparr>cm_engines := (cm_engines m)[e := (fst (cm_engines m ! e), Some (peer, cid))]\<rparr>"

section \<open>Placing a call\<close>

definition placeCall ::
  "call_options \<Rightarrow> string \<Rightarrow> bool \<Rightarrow> bytes \<Rightarrow> bytes \<Rightarrow> int \<Rightarrow> call_mgr \<Rightarrow> call_mgr" where
  "placeCall opts peer supports idBytes secret now m =
     (if active (cm_current m) then emit (EThrow OtherError) m
      else let (e, m) = create_engine supports m in
        if require_frames opts \<and> \<not> supports then await PlaceRefused (emit (ECloseEngine e) m)
        else let cid = toHex idBytes;
                 m = m\<lparr>cm_current := Some (new_call cid peer Outgoing RingingOutgoing now), cm_engine := Some e\<rparr>;
                 m = attachEngineHandlers e peer cid m;
                 m = m\<lparr>cm_mediaSecret := Some (length (cm_heap m)), cm_heap := cm_heap m @ [createCallSecrets secret]\<rparr>
          in await (PlaceOffered peer cid (length (cm_heap m) - 1)) (emit (ECreateOffer e) m))"

text \<open>Resumed with the offer: \<open>buf\<close> is the secret's buffer, read now.\<close>

definition place_offered :: "string \<Rightarrow> string \<Rightarrow> nat \<Rightarrow> string \<Rightarrow> string \<Rightarrow> call_mgr \<Rightarrow> call_mgr" where
  "place_offered peer cid buf sdp fp m =
     await PlaceSent (emit (ESignal peer (PCallOffer cid (toBase64Url (cm_heap m ! buf)) sdp fp))
       (m\<lparr>cm_localFingerprint := Some fp\<rparr>))"

definition place_sent :: "call_mgr \<Rightarrow> call_mgr" where
  "place_sent m = (case cm_current m of None \<Rightarrow> m | Some c \<Rightarrow> emit (EStateChange c) m)"

section \<open>Media keys\<close>

text \<open>A string is truthy when it is not empty.\<close>

definition truthy_str :: "string option \<Rightarrow> bool" where
  "truthy_str s \<longleftrightarrow> s \<noteq> None \<and> s \<noteq> Some ''''"

text \<open>The parameters \<open>deriveAndInstallKeys\<close> passes on.\<close>

definition key_params :: "call_options \<Rightarrow> public_identity \<Rightarrow> call_role \<Rightarrow> call_info \<Rightarrow> bytes \<Rightarrow> string \<Rightarrow> string \<Rightarrow> call_params" where
  "key_params opts peer role c secret local remote =
     \<lparr>mediaRootSecret = secret,
      callerIdentity = (if role = Caller then selfIdentity opts else peer),
      calleeIdentity = (if role = Caller then peer else selfIdentity opts),
      callId = utf8_encode (ci_callId c),
      callerDtlsFingerprint = utf8_encode (if role = Caller then local else remote),
      calleeDtlsFingerprint = utf8_encode (if role = Caller then remote else local)\<rparr>"

text \<open>Up to the \<open>await\<close> of \<open>installFrameKeys\<close>; \<open>k\<close> is the continuation for the call captured here.\<close>

definition deriveAndInstallKeys ::
  "noble \<Rightarrow> call_options \<Rightarrow> call_role \<Rightarrow> (call_info \<Rightarrow> cont) \<Rightarrow> call_mgr \<Rightarrow> call_mgr" where
  "deriveAndInstallKeys N opts role k m =
     (case (cm_current m, cm_mediaSecret m) of
        (Some c, Some buf) \<Rightarrow>
          if \<not> truthy_str (cm_localFingerprint m) \<or> \<not> truthy_str (cm_remoteFingerprint m) then emit (EThrow OtherError) m
          else (case resolvePeerIdentity opts (ci_peerAddress c) of
              None \<Rightarrow> emit (EThrow OtherError) m
            | Some peer \<Rightarrow>
                (case deriveCallKeys N (key_params opts peer role c (cm_heap m ! buf)
                    (the (cm_localFingerprint m)) (the (cm_remoteFingerprint m))) role of
                  Inl e \<Rightarrow> emit (EThrow e) m
                | Inr keys \<Rightarrow> await (k c)
                    (on_engine (\<lambda>e. EInstallKeys e (sendKey keys) (receiveKey keys)) (m\<lparr>cm_keys := Some keys\<rparr>))))
      | _ \<Rightarrow> emit (EThrow OtherError) m)"

text \<open>After it; None when \<open>this.keys\<close> is gone and reading its words throws.\<close>

definition keys_installed :: "call_info \<Rightarrow> call_mgr \<Rightarrow> call_mgr option" where
  "keys_installed c m = (case cm_keys m of
      None \<Rightarrow> None
    | Some keys \<Rightarrow> let c' = c\<lparr>ci_sas := Some (sas keys), ci_sasDigits := Some (sasDigits keys)\<rparr>
        in Some (emit (EStateChange c') (emit (ESasAvailable c') (m\<lparr>cm_current := Some c'\<rparr>))))"

section \<open>Ending a call\<close>

definition end_close :: "string \<Rightarrow> call_mgr \<Rightarrow> call_mgr" where
  "end_close reason m = await (EndClosed reason) (on_engine ECloseEngine m)"

definition endCall :: "string \<Rightarrow> bool \<Rightarrow> call_mgr \<Rightarrow> call_mgr" where
  "endCall reason notify m = (case cm_current m of
      None \<Rightarrow> m
    | Some c \<Rightarrow>
        if notify \<and> ci_state c \<noteq> Ended
        then await (EndNotified reason) (emit (ESignal (ci_peerAddress c) (PCallHangup (ci_callId c) reason)) m)
        else end_close reason m)"

definition wipe_buffer :: "nat option \<Rightarrow> bytes list \<Rightarrow> bytes list" where
  "wipe_buffer b h = (case b of None \<Rightarrow> h | Some i \<Rightarrow> h[i := zeroed (h ! i)])"

definition end_closed :: "string \<Rightarrow> int \<Rightarrow> call_mgr \<Rightarrow> call_mgr" where
  "end_closed reason now m = setState Ended (\<lambda>c. c\<lparr>ci_endedAt := Some now, ci_endReason := Some reason\<rparr>)
     (m\<lparr>cm_engine := None, cm_heap := wipe_buffer (cm_mediaSecret m) (cm_heap m), cm_keys := None, cm_mediaSecret := None,
        cm_localFingerprint := None, cm_remoteFingerprint := None, cm_pendingOfferSdp := None\<rparr>)"

section \<open>Receiving a call\<close>

text \<open>The malformed secret throws after \<open>this.current\<close> has been set.\<close>

definition onOffer :: "string \<Rightarrow> string \<Rightarrow> string \<Rightarrow> string \<Rightarrow> string \<Rightarrow> int \<Rightarrow> call_mgr \<Rightarrow> call_mgr" where
  "onOffer peer cid secret sdp fp now m =
     (if active (cm_current m) then emit (ESignal peer (PCallHangup cid ''busy'')) m
      else let c = new_call cid peer Incoming RingingIncoming now; m = m\<lparr>cm_current := Some c\<rparr> in
        case fromBase64Url secret of
          Inl e \<Rightarrow> emit (EThrow e) m
        | Inr s \<Rightarrow> emit (EStateChange c) (m\<lparr>cm_mediaSecret := Some (length (cm_heap m)), cm_heap := cm_heap m @ [s],
            cm_remoteFingerprint := Some fp, cm_pendingOfferSdp := Some sdp\<rparr>))"

definition answerCall :: "call_options \<Rightarrow> bool \<Rightarrow> call_mgr \<Rightarrow> call_mgr" where
  "answerCall opts supports m = (case cm_current m of
      None \<Rightarrow> emit (EThrow OtherError) m
    | Some c \<Rightarrow>
        if ci_state c \<noteq> RingingIncoming \<or> \<not> truthy_str (cm_pendingOfferSdp m) then emit (EThrow OtherError) m
        else let (e, m) = create_engine supports m in
          if require_frames opts \<and> \<not> supports then await (AnswerRefused c) (emit (ECloseEngine e) m)
          else await (AnswerCreated c) (emit (ECreateAnswer e (the (cm_pendingOfferSdp m)))
            (attachEngineHandlers e (ci_peerAddress c) (ci_callId c) (m\<lparr>cm_engine := Some e\<rparr>))))"

definition answer_created :: "noble \<Rightarrow> call_options \<Rightarrow> call_info \<Rightarrow> string \<Rightarrow> string \<Rightarrow> call_mgr \<Rightarrow> call_mgr" where
  "answer_created N opts c sdp fp m = deriveAndInstallKeys N opts Callee (\<lambda>c'. AnswerInstalled c c' sdp fp)
     (m\<lparr>cm_localFingerprint := Some fp, cm_pendingOfferSdp := None\<rparr>)"

definition answer_installed :: "call_info \<Rightarrow> call_info \<Rightarrow> string \<Rightarrow> string \<Rightarrow> call_mgr \<Rightarrow> call_mgr" where
  "answer_installed c c' sdp fp m = (case keys_installed c' m of
      None \<Rightarrow> emit (EThrow OtherError) m
    | Some m \<Rightarrow> await AnswerSent (emit (ESignal (ci_peerAddress c) (PCallAnswer (ci_callId c) sdp fp)) m))"

definition onAnswer :: "string \<Rightarrow> string \<Rightarrow> string \<Rightarrow> string \<Rightarrow> call_mgr \<Rightarrow> call_mgr" where
  "onAnswer peer cid sdp fp m = (case cm_current m of
      None \<Rightarrow> m
    | Some c \<Rightarrow>
        if ci_callId c \<noteq> cid \<or> ci_peerAddress c \<noteq> peer then m
        else await AnswerAccepted (on_engine (\<lambda>e. EAcceptAnswer e sdp) (m\<lparr>cm_remoteFingerprint := Some fp\<rparr>)))"

definition caller_installed :: "call_info \<Rightarrow> call_mgr \<Rightarrow> call_mgr" where
  "caller_installed c m = (case keys_installed c m of
      None \<Rightarrow> emit (EThrow OtherError) m
    | Some m \<Rightarrow> setState Connecting id m)"

fun handleSignal :: "string \<Rightarrow> payload \<Rightarrow> int \<Rightarrow> call_mgr \<Rightarrow> call_mgr" where
  "handleSignal peer (PCallOffer cid secret sdp fp) now m = onOffer peer cid secret sdp fp now m"
| "handleSignal peer (PCallAnswer cid sdp fp) now m = onAnswer peer cid sdp fp m"
| "handleSignal peer (PCallIce cid candidate) now m =
     (if map_option ci_callId (cm_current m) = Some cid then on_engine (\<lambda>e. EAddCandidate e candidate) m else m)"
| "handleSignal peer (PCallHangup cid reason) now m =
     (if map_option ci_callId (cm_current m) = Some cid then endCall reason False m else m)"
| "handleSignal peer _ now m = m"

definition confirmSas :: "call_mgr \<Rightarrow> call_mgr" where
  "confirmSas m = (case cm_current m of
      None \<Rightarrow> m
    | Some c \<Rightarrow> let c' = c\<lparr>ci_sasConfirmed := True\<rparr> in emit (EStateChange c') (m\<lparr>cm_current := Some c'\<rparr>))"

section \<open>Events\<close>

fun resume :: "noble \<Rightarrow> call_options \<Rightarrow> cont \<Rightarrow> reply \<Rightarrow> int \<Rightarrow> call_mgr \<Rightarrow> call_mgr" where
  "resume N opts (EndNotified reason) r now m = end_close reason m"
| "resume N opts CandidateSent (RThrow e) now m = emit (EOnError e) m"
| "resume N opts k (RThrow e) now m = emit (EThrow e) m"
| "resume N opts PlaceRefused r now m = emit (EThrow OtherError) m"
| "resume N opts (PlaceOffered peer cid buf) (RSdp sdp fp) now m = place_offered peer cid buf sdp fp m"
| "resume N opts PlaceSent r now m = place_sent m"
| "resume N opts (AnswerRefused c) r now m = await AnswerRefusalSent
     (emit (ESignal (ci_peerAddress c) (PCallHangup (ci_callId c) ''frame-encryption-unavailable'')) m)"
| "resume N opts AnswerRefusalSent r now m = emit (EThrow OtherError)
     (setState Ended (\<lambda>c. c\<lparr>ci_endReason := Some ''frame-encryption-unavailable''\<rparr>) m)"
| "resume N opts (AnswerCreated c) (RSdp sdp fp) now m = answer_created N opts c sdp fp m"
| "resume N opts (AnswerInstalled c c' sdp fp) r now m = answer_installed c c' sdp fp m"
| "resume N opts AnswerSent r now m = setState Connecting id m"
| "resume N opts AnswerAccepted r now m = deriveAndInstallKeys N opts Caller CallerInstalled m"
| "resume N opts (CallerInstalled c) r now m = caller_installed c m"
| "resume N opts (EndClosed reason) r now m = end_closed reason now m"
| "resume N opts k r now m = m"

datatype call_event =
    PlaceCall string bool bytes bytes int
  | AnswerCall bool
  | Signalled string payload int
  | Resume nat reply int
  | LocalCandidate nat string
  | EngineConnected nat
  | EngineDisconnected nat
  | ConfirmSas
  | SetMuted bool
  | EndCall string bool

text \<open>The peer and the call the handlers of an engine were attached for, and whether it is the current one.\<close>

definition handlers :: "nat \<Rightarrow> call_mgr \<Rightarrow> (string \<times> string) option" where
  "handlers e m = (if e < length (cm_engines m) then snd (cm_engines m ! e) else None)"

definition this_call :: "nat \<Rightarrow> call_mgr \<Rightarrow> bool" where
  "this_call e m \<longleftrightarrow> (case (handlers e m, cm_current m) of
      (Some (peer, cid), Some c) \<Rightarrow> ci_callId c = cid | _ \<Rightarrow> False)"

fun call_step :: "noble \<Rightarrow> call_options \<Rightarrow> call_event \<Rightarrow> call_mgr \<Rightarrow> call_mgr" where
  "call_step N opts (PlaceCall peer supports idBytes secret now) m = placeCall opts peer supports idBytes secret now m"
| "call_step N opts (AnswerCall supports) m = answerCall opts supports m"
| "call_step N opts (Signalled peer p now) m = handleSignal peer p now m"
| "call_step N opts (Resume i r now) m =
     (if i < length (cm_pending m)
      then resume N opts (cm_pending m ! i) r now (m\<lparr>cm_pending := take i (cm_pending m) @ drop (Suc i) (cm_pending m)\<rparr>)
      else m)"
| "call_step N opts (LocalCandidate e candidate) m =
     (case handlers e m of None \<Rightarrow> m | Some (peer, cid) \<Rightarrow>
        await CandidateSent (emit (ESignal peer (PCallIce cid candidate)) m))"
| "call_step N opts (EngineConnected e) m = (if this_call e m then setState Connected id m else m)"
| "call_step N opts (EngineDisconnected e) m = (if this_call e m then endCall ''disconnected'' False m else m)"
| "call_step N opts ConfirmSas m = confirmSas m"
| "call_step N opts (SetMuted b) m = on_engine (\<lambda>e. ESetMuted e b) m"
| "call_step N opts (EndCall reason notify) m = endCall reason notify m"

abbreviation call_run :: "noble \<Rightarrow> call_options \<Rightarrow> call_event list \<Rightarrow> call_mgr \<Rightarrow> call_mgr" where
  "call_run N opts evs m \<equiv> fold (call_step N opts) evs m"

section \<open>Invariants over every interleaving\<close>

definition supported :: "call_mgr \<Rightarrow> nat \<Rightarrow> bool" where
  "supported m e \<longleftrightarrow> e < length (cm_engines m) \<and> fst (cm_engines m ! e)"

fun media_engine :: "call_effect \<Rightarrow> nat option" where
  "media_engine (ECreateOffer e) = Some e"
| "media_engine (ECreateAnswer e sdp) = Some e"
| "media_engine (EAcceptAnswer e sdp) = Some e"
| "media_engine (EInstallKeys e a b) = Some e"
| "media_engine _ = None"

fun is_answer :: "call_effect \<Rightarrow> bool" where
  "is_answer (ESignal peer (PCallAnswer cid sdp fp)) = True"
| "is_answer _ = False"

text \<open>The call an info is about, and the infos a continuation still reads.\<close>

definition call_of :: "call_info \<Rightarrow> string \<times> string" where
  "call_of c = (ci_callId c, ci_peerAddress c)"

fun cont_calls :: "cont \<Rightarrow> call_info list" where
  "cont_calls (AnswerCreated c) = [c]"
| "cont_calls (AnswerInstalled c c' sdp fp) = [c, c']"
| "cont_calls (CallerInstalled c) = [c]"
| "cont_calls _ = []"

text \<open>The calls a run places or is offered.\<close>

fun started_call :: "call_event \<Rightarrow> (string \<times> string) set" where
  "started_call (PlaceCall peer supports idBytes secret now) = {(toHex idBytes, peer)}"
| "started_call (Signalled peer (PCallOffer cid secret sdp fp) now) = {(cid, peer)}"
| "started_call _ = {}"

abbreviation started_calls :: "call_event list \<Rightarrow> (string \<times> string) set" where
  "started_calls evs \<equiv> \<Union> (set (map started_call evs))"

text \<open>
  The last two effects of a log (newest first) show the words of a call of \<open>S\<close>; every answer
  of a log is for a call of \<open>S\<close> and comes directly after such words.
\<close>

fun words_shown :: "(string \<times> string) set \<Rightarrow> call_effect list \<Rightarrow> bool" where
  "words_shown S (EStateChange w # ESasAvailable w' # l) = (w = w' \<and> ci_sas w \<noteq> None \<and> call_of w \<in> S)"
| "words_shown S _ = False"

fun answers_shown_rev :: "(string \<times> string) set \<Rightarrow> call_effect list \<Rightarrow> bool" where
  "answers_shown_rev S [] = True"
| "answers_shown_rev S (ESignal peer (PCallAnswer cid sdp fp) # l) =
     ((cid, peer) \<in> S \<and> words_shown S l \<and> answers_shown_rev S l)"
| "answers_shown_rev S (x # l) = answers_shown_rev S l"

definition answers_shown :: "(string \<times> string) set \<Rightarrow> call_effect list \<Rightarrow> bool" where
  "answers_shown S l = answers_shown_rev S (rev l)"

lemma answers_shown_snoc [simp]:
  "answers_shown S []"
  "\<not> is_answer x \<Longrightarrow> answers_shown S (l @ [x]) = answers_shown S l"
  "\<not> is_answer x \<Longrightarrow> \<not> is_answer y \<Longrightarrow> answers_shown S (l @ [x, y]) = answers_shown S l"
proof -
  have cons: "answers_shown_rev S (x # l) = answers_shown_rev S l" if "\<not> is_answer x" for x l
    using that by (induction S "x # l" rule: answers_shown_rev.induct) auto
  show "answers_shown S []" by (simp add: answers_shown_def)
  show "\<not> is_answer x \<Longrightarrow> answers_shown S (l @ [x]) = answers_shown S l"
    "\<not> is_answer x \<Longrightarrow> \<not> is_answer y \<Longrightarrow> answers_shown S (l @ [x, y]) = answers_shown S l"
    by (simp_all add: answers_shown_def cons)
qed

lemma answers_shown_after_words:
  assumes "answers_shown S l" and "ci_sas w \<noteq> None" and "call_of w \<in> S" and "(cid, peer) \<in> S"
  shows "answers_shown S (l @ [ESasAvailable w, EStateChange w, ESignal peer (PCallAnswer cid sdp fp)])"
  using assms by (simp add: answers_shown_def)

text \<open>What it says of one answer of the log.\<close>

lemma answers_shown_at:
  assumes "answers_shown S (pre @ ESignal peer (PCallAnswer cid sdp fp) # post)"
  shows "(cid, peer) \<in> S \<and> (\<exists>pre' w. pre = pre' @ [ESasAvailable w, EStateChange w] \<and> ci_sas w \<noteq> None \<and> call_of w \<in> S)"
proof -
  have tail: "answers_shown_rev S (xs @ l) \<Longrightarrow> answers_shown_rev S l" for xs l
    by (induction S xs rule: answers_shown_rev.induct) auto
  have words: "\<exists>l' w. l = EStateChange w # ESasAvailable w # l' \<and> ci_sas w \<noteq> None \<and> call_of w \<in> S" if "words_shown S l" for l
    using that by (induction S l rule: words_shown.induct) auto
  have a: "(cid, peer) \<in> S" "words_shown S (rev pre)"
    using tail[of "rev post" "ESignal peer (PCallAnswer cid sdp fp) # rev pre"] assms by (simp_all add: answers_shown_def)
  from words[OF a(2)] obtain l' w where "rev pre = EStateChange w # ESasAvailable w # l'" "ci_sas w \<noteq> None" "call_of w \<in> S"
    by blast
  moreover from this(1) have "pre = rev l' @ [ESasAvailable w, EStateChange w]" by (simp add: rev_eq_Cons_iff)
  ultimately show ?thesis using a(1) by blast
qed

definition call_safe :: "(string \<times> string) set \<Rightarrow> call_options \<Rightarrow> call_mgr \<Rightarrow> bool" where
  "call_safe S opts m \<longleftrightarrow> answers_shown S (cm_log m) \<and>
     (\<forall>c. cm_current m = Some c \<longrightarrow> call_of c \<in> S) \<and>
     (\<forall>k \<in> set (cm_pending m). \<forall>c \<in> set (cont_calls k). call_of c \<in> S) \<and>
     (require_frames opts \<longrightarrow> (\<forall>e. cm_engine m = Some e \<longrightarrow> supported m e) \<and>
        (\<forall>x \<in> set (cm_log m). \<forall>e. media_engine x = Some e \<longrightarrow> supported m e))"

lemma call_safe_emit [simp]:
  "call_safe S opts m \<Longrightarrow> cm_log m = l \<Longrightarrow> \<not> is_answer x \<Longrightarrow> media_engine x = None \<Longrightarrow>
   call_safe S opts (m\<lparr>cm_log := l @ [x]\<rparr>)"
  by (auto simp: call_safe_def supported_def)

lemma call_safe_await [simp]:
  "call_safe S opts m \<Longrightarrow> cm_pending m = p \<Longrightarrow> \<forall>c \<in> set (cont_calls k). call_of c \<in> S \<Longrightarrow>
   call_safe S opts (m\<lparr>cm_pending := p @ [k]\<rparr>)"
  by (auto simp: call_safe_def supported_def)

lemma on_engine_pending [simp]: "cm_pending (on_engine f m) = cm_pending m"
  by (simp add: on_engine_def split: option.split)

lemma call_safe_fields [simp]:
  "call_safe S opts (m\<lparr>cm_keys := k\<rparr>) = call_safe S opts m"
  "call_safe S opts (m\<lparr>cm_mediaSecret := s\<rparr>) = call_safe S opts m"
  "call_safe S opts (m\<lparr>cm_localFingerprint := f\<rparr>) = call_safe S opts m"
  "call_safe S opts (m\<lparr>cm_remoteFingerprint := f\<rparr>) = call_safe S opts m"
  "call_safe S opts (m\<lparr>cm_pendingOfferSdp := f\<rparr>) = call_safe S opts m"
  "call_safe S opts (m\<lparr>cm_heap := h\<rparr>) = call_safe S opts m"
  "call_safe S opts m \<Longrightarrow> call_safe S opts (m\<lparr>cm_engine := None\<rparr>)"
  by (simp_all add: call_safe_def supported_def)

lemma call_safe_current [simp]:
  "call_safe S opts m \<Longrightarrow> call_of c \<in> S \<Longrightarrow> call_safe S opts (m\<lparr>cm_current := Some c\<rparr>)"
  by (simp add: call_safe_def supported_def)

lemma call_safe_currentD: "call_safe S opts m \<Longrightarrow> cm_current m = Some c \<Longrightarrow> call_of c \<in> S"
  by (simp add: call_safe_def)

lemma call_safe_taken:
  assumes "call_safe S opts m" and "i < length (cm_pending m)"
  shows "call_safe S opts (m\<lparr>cm_pending := take i (cm_pending m) @ drop (Suc i) (cm_pending m)\<rparr>)"
    "\<forall>c \<in> set (cont_calls (cm_pending m ! i)). call_of c \<in> S"
  using assms set_take_subset[of i "cm_pending m"] set_drop_subset[of "Suc i" "cm_pending m"] nth_mem[OF assms(2)]
  by (auto simp: call_safe_def supported_def)

lemma call_of_same [simp]:
  "call_of (c\<lparr>ci_sas := s\<rparr>) = call_of c" "call_of (c\<lparr>ci_sasDigits := d\<rparr>) = call_of c" "call_of (c\<lparr>ci_state := st\<rparr>) = call_of c"
  "call_of (c\<lparr>ci_sasConfirmed := b\<rparr>) = call_of c" "call_of (c\<lparr>ci_endedAt := t\<rparr>) = call_of c" "call_of (c\<lparr>ci_endReason := r\<rparr>) = call_of c"
  "call_of (new_call cid peer dir st now) = (cid, peer)"
  by (simp_all add: call_of_def new_call_def)

lemma call_safe_here:
  assumes "call_safe S opts m" and "cm_engine m = Some e" and "\<not> is_answer x" and "media_engine x = Some e \<or> media_engine x = None"
  shows "call_safe S opts (emit x m)"
  using assms by (auto simp: call_safe_def supported_def)

lemma call_safe_on_engine:
  assumes "call_safe S opts m" and "\<And>e. \<not> is_answer (f e)" and "\<And>e. media_engine (f e) = Some e \<or> media_engine (f e) = None"
  shows "call_safe S opts (on_engine f m)"
proof (cases "cm_engine m")
  case (Some e)
  then show ?thesis using call_safe_here[OF assms(1) Some assms(2,3)] by (simp add: on_engine_def)
qed (simp add: on_engine_def assms(1))

lemma call_safe_setState:
  "call_safe S opts m \<Longrightarrow> (\<And>c. call_of (extra c) = call_of c) \<Longrightarrow> call_safe S opts (setState st extra m)"
  by (cases "cm_current m") (auto simp: setState_def Let_def call_safe_currentD)

text \<open>Installed keys leave the words of the call on top of the log.\<close>

lemma call_safe_keys_installed:
  assumes "call_safe S opts m" and "keys_installed c m = Some m'" and "call_of c \<in> S"
  shows "call_safe S opts m'" "\<exists>w l. cm_log m' = l @ [ESasAvailable w, EStateChange w] \<and> answers_shown S l \<and> ci_sas w \<noteq> None \<and> call_of w \<in> S"
  using assms by (auto simp: keys_installed_def Let_def call_safe_def supported_def split: option.splits)

lemma call_safe_end_close: "call_safe S opts m \<Longrightarrow> call_safe S opts (end_close r m)"
  by (simp add: end_close_def call_safe_on_engine)

lemma call_safe_endCall: "call_safe S opts m \<Longrightarrow> call_safe S opts (endCall r n m)"
  by (cases "cm_current m") (simp_all add: endCall_def call_safe_end_close)

lemma call_safe_derive:
  assumes "call_safe S opts m" and "\<And>c. call_of c \<in> S \<Longrightarrow> \<forall>c' \<in> set (cont_calls (k c)). call_of c' \<in> S"
  shows "call_safe S opts (deriveAndInstallKeys N opts role k m)"
  using assms call_safe_currentD[OF assms(1)]
  by (auto simp: deriveAndInstallKeys_def call_safe_on_engine split: option.split sum.split)

lemma call_safe_end_closed: "call_safe S opts m \<Longrightarrow> call_safe S opts (end_closed r now m)"
  unfolding end_closed_def by (rule call_safe_setState) simp_all

lemma call_safe_create:
  "call_safe S opts m \<Longrightarrow> call_safe S opts (m\<lparr>cm_engines := cm_engines m @ [x]\<rparr>)"
  by (fastforce simp: call_safe_def supported_def nth_append)

lemma call_safe_attach: "e < length (cm_engines m) \<Longrightarrow> call_safe S opts (attachEngineHandlers e p c m) = call_safe S opts m"
  by (auto simp: call_safe_def supported_def attachEngineHandlers_def nth_list_update)

text \<open>A call that gets the engine just created and asks it for an offer or an answer.\<close>

lemma call_safe_engine:
  assumes "call_safe S opts m" and "require_frames opts \<longrightarrow> s" and "\<not> is_answer x" and "media_engine x = Some (length (cm_engines m))"
  shows "call_safe S opts (emit x (m\<lparr>cm_engines := cm_engines m @ [(s, h)], cm_engine := Some (length (cm_engines m))\<rparr>))"
proof -
  have "call_safe S opts (m\<lparr>cm_engines := cm_engines m @ [(s, h)]\<rparr>)" by (rule call_safe_create[OF assms(1)])
  then show ?thesis using assms(2-) by (auto simp: call_safe_def supported_def nth_append)
qed

lemma call_safe_place:
  "call_safe S opts m \<Longrightarrow> (toHex i, peer) \<in> S \<Longrightarrow> call_safe S opts (placeCall opts peer s i secret now m)"
  using call_safe_create[of S opts m "(s, None)"]
    call_safe_engine[of S opts m s "ECreateOffer (length (cm_engines m))" "Some (peer, toHex i)"]
  by (auto simp: placeCall_def Let_def create_engine_def attachEngineHandlers_def call_safe_def supported_def)

lemma call_safe_answerCall: "call_safe S opts m \<Longrightarrow> call_safe S opts (answerCall opts s m)"
  using call_safe_create[of S opts m "(s, None)"]
    call_safe_engine[of S opts m s "ECreateAnswer (length (cm_engines m)) (the (cm_pendingOfferSdp m))"
      "Some (ci_peerAddress (the (cm_current m)), ci_callId (the (cm_current m)))"]
  by (cases "cm_current m")
    (auto simp: answerCall_def Let_def create_engine_def attachEngineHandlers_def call_safe_def supported_def)

lemma call_safe_answer_installed:
  assumes "call_safe S opts m" and "call_of c \<in> S" and "call_of c' \<in> S"
  shows "call_safe S opts (answer_installed c c' sdp fp m)"
proof (cases "keys_installed c' m")
  case (Some m')
  note k = call_safe_keys_installed[OF assms(1) Some assms(3)]
  obtain w l where "cm_log m' = l @ [ESasAvailable w, EStateChange w]" "answers_shown S l" "ci_sas w \<noteq> None" "call_of w \<in> S"
    using k(2) by blast
  then have "answers_shown S (cm_log m' @ [ESignal (ci_peerAddress c) (PCallAnswer (ci_callId c) sdp fp)])"
    using answers_shown_after_words[of S l w "ci_callId c" "ci_peerAddress c" sdp fp] assms(2) by (simp add: call_of_def)
  with k(1) show ?thesis by (auto simp: answer_installed_def Some call_safe_def supported_def)
qed (simp add: answer_installed_def assms(1))

lemma call_safe_caller_installed:
  "call_safe S opts m \<Longrightarrow> call_of c \<in> S \<Longrightarrow> call_safe S opts (caller_installed c m)"
  using call_safe_keys_installed(1) by (auto simp: caller_installed_def intro!: call_safe_setState split: option.split)

lemma call_safe_resume:
  assumes "call_safe S opts m" and "\<forall>c \<in> set (cont_calls k). call_of c \<in> S"
  shows "call_safe S opts (resume N opts k r now m)"
proof -
  have "call_safe S opts (place_sent m)" "call_safe S opts (place_offered p i b s f m)" for p i b s f
    using assms by (auto simp: place_sent_def place_offered_def call_safe_def supported_def split: option.split)
  moreover have "call_safe S opts (answer_created N opts c s f m)" if "call_of c \<in> S" for c s f
    unfolding answer_created_def using assms that by (intro call_safe_derive) simp_all
  moreover have "call_safe S opts (deriveAndInstallKeys N opts Caller CallerInstalled m)"
    using assms by (intro call_safe_derive) simp_all
  moreover note call_safe_answer_installed[OF assms(1)] call_safe_end_close[OF assms(1)]
    call_safe_caller_installed[OF assms(1)] call_safe_end_closed[OF assms(1)] call_safe_setState[OF assms(1)]
  ultimately show ?thesis using assms by (cases k; cases r) simp_all
qed

lemma call_safe_onOffer:
  "call_safe S opts m \<Longrightarrow> (c, peer) \<in> S \<Longrightarrow> call_safe S opts (onOffer peer c secret sdp fp now m)"
  by (auto simp: onOffer_def Let_def split: sum.split)

lemma call_safe_onAnswer: "call_safe S opts m \<Longrightarrow> call_safe S opts (onAnswer peer c sdp fp m)"
  by (auto simp: onAnswer_def call_safe_on_engine split: option.split)

lemma call_safe_signal:
  "call_safe S opts m \<Longrightarrow> started_call (Signalled peer p now) \<subseteq> S \<Longrightarrow> call_safe S opts (handleSignal peer p now m)"
  by (cases p) (auto simp: call_safe_onOffer call_safe_onAnswer intro!: call_safe_on_engine call_safe_endCall)

lemma call_safe_confirm: "call_safe S opts m \<Longrightarrow> call_safe S opts (confirmSas m)"
  by (auto simp: confirmSas_def Let_def call_safe_currentD split: option.split)

lemma call_safe_step:
  assumes "call_safe S opts m" and "started_call ev \<subseteq> S"
  shows "call_safe S opts (call_step N opts ev m)"
proof (cases ev)
  case (Resume i r now)
  then show ?thesis using call_safe_taken[OF assms(1), of i] assms(1) by (auto intro: call_safe_resume)
qed (use assms in \<open>auto simp: call_safe_place call_safe_answerCall call_safe_signal call_safe_endCall call_safe_confirm
      intro!: call_safe_on_engine call_safe_setState split: option.split\<close>)

lemma call_safe_run:
  "call_safe S opts m \<Longrightarrow> started_calls evs \<subseteq> S \<Longrightarrow> call_safe S opts (call_run N opts evs m)"
  by (induction evs arbitrary: m) (auto simp: call_safe_step)

lemma call_safe_new: "started_calls evs \<subseteq> S \<Longrightarrow> call_safe S opts (call_run N opts evs new_call_mgr)"
  by (rule call_safe_run) (simp_all add: call_safe_def new_call_mgr_def answers_shown_def)


section \<open>A call is set up\<close>

definition ready :: "call_mgr \<Rightarrow> bool" where
  "ready m \<longleftrightarrow> \<not> active (cm_current m) \<and> cm_pending m = []"

lemma active_new_call [simp]: "st \<noteq> Ended \<Longrightarrow> active (Some (new_call c p d st now))"
  by (simp add: active_def new_call_def)

text \<open>The caller up to the offer, and from the answer on.\<close>

lemma caller_offers:
  assumes "ready m" and "m1 = call_run N opts [PlaceCall peer True idb secret t, Resume 0 (RSdp sdp fp) t'] m"
  shows "cm_current m1 = Some (new_call (toHex idb) peer Outgoing RingingOutgoing t)"
    "cm_mediaSecret m1 = Some (length (cm_heap m))" "cm_heap m1 = cm_heap m @ [secret]" "cm_localFingerprint m1 = Some fp"
    "cm_pending m1 = [PlaceSent]" "cm_engine m1 = Some (length (cm_engines m))"
    "cm_log m1 = cm_log m @ [ECreateOffer (length (cm_engines m)), ESignal peer (PCallOffer (toHex idb) (toBase64Url secret) sdp fp)]"
  using assms by (simp_all add: ready_def placeCall_def create_engine_def attachEngineHandlers_def Let_def
      place_offered_def createCallSecrets_def)

lemma caller_connects:
  assumes "cm_current m = Some c" and "ci_callId c = cid" and "ci_peerAddress c = peer" and "cm_pending m = [PlaceSent]"
    and "cm_mediaSecret m = Some b" and "cm_heap m ! b = secret" and "cm_localFingerprint m = Some local" and "local \<noteq> ''''"
    and "fp \<noteq> ''''" and "resolvePeerIdentity opts peer = Some pid" and "cm_engine m = Some e"
    and "deriveCallKeys N (key_params opts pid Caller c secret local fp) Caller = Inr keys"
    and "m1 = call_run N opts [Resume 0 RDone t, Signalled peer (PCallAnswer cid sdp fp) t, Resume 0 RDone t, Resume 0 RDone t] m"
  shows "cm_current m1 = Some (c\<lparr>ci_sas := Some (sas keys), ci_sasDigits := Some (sasDigits keys), ci_state := Connecting\<rparr>)"
    "cm_keys m1 = Some keys" "EInstallKeys e (sendKey keys) (receiveKey keys) \<in> set (cm_log m1)"
  using assms by (simp_all add: place_sent_def onAnswer_def on_engine_def deriveAndInstallKeys_def truthy_str_def
      caller_installed_def keys_installed_def setState_def Let_def)

text \<open>The callee, from the offer to the answer sent.\<close>

lemma callee_answers:
  assumes "ready m" and "sdp \<noteq> ''''" and "fp \<noteq> ''''" and "local \<noteq> ''''" and "resolvePeerIdentity opts peer = Some pid"
    and "deriveCallKeys N (key_params opts pid Callee (new_call cid peer Incoming RingingIncoming t) secret local fp) Callee = Inr keys"
    and "m1 = call_run N opts [Signalled peer (PCallOffer cid (toBase64Url secret) sdp fp) t, AnswerCall True,
      Resume 0 (RSdp sdp' local) t, Resume 0 RDone t, Resume 0 RDone t] m"
  shows "cm_current m1 = Some ((new_call cid peer Incoming RingingIncoming t)\<lparr>ci_sas := Some (sas keys), ci_sasDigits := Some (sasDigits keys), ci_state := Connecting\<rparr>)"
    "cm_keys m1 = Some keys" "EInstallKeys (length (cm_engines m)) (sendKey keys) (receiveKey keys) \<in> set (cm_log m1)"
    "ESignal peer (PCallAnswer cid sdp' local) \<in> set (cm_log m1)"
proof -
  let ?c = "new_call cid peer Incoming RingingIncoming t"
  have c: "ci_callId ?c = cid" "ci_peerAddress ?c = peer" "ci_state ?c = RingingIncoming" by (simp_all add: new_call_def)
  show "cm_current m1 = Some (?c\<lparr>ci_sas := Some (sas keys), ci_sasDigits := Some (sasDigits keys), ci_state := Connecting\<rparr>)"
    "cm_keys m1 = Some keys" "EInstallKeys (length (cm_engines m)) (sendKey keys) (receiveKey keys) \<in> set (cm_log m1)"
    "ESignal peer (PCallAnswer cid sdp' local) \<in> set (cm_log m1)"
    using assms c by (simp_all add: ready_def onOffer_def answerCall_def create_engine_def attachEngineHandlers_def Let_def
        answer_created_def deriveAndInstallKeys_def truthy_str_def on_engine_def answer_installed_def keys_installed_def setState_def)
qed

lemma key_params_sides:
  assumes "selfIdentity oc = pidc" and "selfIdentity oe = pide" and "ci_callId c = ci_callId c'"
  shows "key_params oc pide Caller c secret lc le = key_params oe pidc Callee c' secret le lc"
  using assms by (simp add: key_params_def)

text \<open>C20
  A call set up without interference ends with both parties connected under matching keys: the
  caller's offer reaches the callee, the callee's answer the caller; each one's send key is the
  other's receive key and is installed in its engine, and both see the same words and digits.
\<close>

theorem call_established:
  assumes "library_ok N" and "ready A" and "ready B"
    and "resolvePeerIdentity oc bob = Some (selfIdentity oe)" and "resolvePeerIdentity oe alice = Some (selfIdentity oc)"
    and "call_fits (key_params oc (selfIdentity oe) Caller (new_call (toHex idb) bob Outgoing RingingOutgoing t) secret fpA fpB)"
    and "sdpA \<noteq> ''''" and "fpA \<noteq> ''''" and "fpB \<noteq> ''''"
    and "A1 = call_run N oc [PlaceCall bob True idb secret t, Resume 0 (RSdp sdpA fpA) t] A"
    and "offer = PCallOffer (toHex idb) (toBase64Url secret) sdpA fpA"
    and "B1 = call_run N oe [Signalled alice offer t', AnswerCall True, Resume 0 (RSdp sdpB fpB) t', Resume 0 RDone t', Resume 0 RDone t'] B"
    and "answer = PCallAnswer (toHex idb) sdpB fpB"
    and "A2 = call_run N oc [Resume 0 RDone t, Signalled bob answer t, Resume 0 RDone t, Resume 0 RDone t] A1"
  shows "ESignal bob offer \<in> set (cm_log A1) \<and> ESignal alice answer \<in> set (cm_log B1) \<and>
    (\<exists>ca cb ka kb. cm_current A2 = Some ca \<and> cm_current B1 = Some cb \<and> ci_state ca = Connecting \<and> ci_state cb = Connecting \<and>
      cm_keys A2 = Some ka \<and> cm_keys B1 = Some kb \<and> sendKey ka = receiveKey kb \<and> receiveKey ka = sendKey kb \<and>
      ci_sas ca = Some (sas ka) \<and> ci_sas cb = ci_sas ca \<and> ci_sasDigits cb = ci_sasDigits ca \<and>
      EInstallKeys (length (cm_engines A)) (sendKey ka) (receiveKey ka) \<in> set (cm_log A2) \<and>
      EInstallKeys (length (cm_engines B)) (sendKey kb) (receiveKey kb) \<in> set (cm_log B1))"
proof -
  let ?ca = "new_call (toHex idb) bob Outgoing RingingOutgoing t" and ?cb = "new_call (toHex idb) alice Incoming RingingIncoming t'"
  let ?p = "key_params oc (selfIdentity oe) Caller ?ca secret fpA fpB"
  have p: "?p = key_params oe (selfIdentity oc) Callee ?cb secret fpB fpA"
    by (rule key_params_sides) (simp_all add: new_call_def)
  obtain ka kb where k: "deriveCallKeys N ?p Caller = Inr ka" "deriveCallKeys N ?p Callee = Inr kb"
    "sendKey ka = receiveKey kb" "receiveKey ka = sendKey kb" "sas ka = sas kb" "sasDigits ka = sasDigits kb"
    using deriveCallKeys_total[OF library_okD(9)[OF assms(1)] assms(6)] by fastforce
  note a = caller_offers[OF assms(2) assms(10)]
  have buf: "cm_heap A1 ! length (cm_heap A) = secret" by (simp add: a(3))
  note b = callee_answers[OF assms(3,7,8,9,5) k(2)[unfolded p] assms(12)[unfolded assms(11)]]
  have c: "ci_callId ?ca = toHex idb" "ci_peerAddress ?ca = bob" by (simp_all add: new_call_def)
  note d = caller_connects[OF a(1) c a(5,2) buf a(4) assms(8,9,4) a(6) k(1) assms(14)[unfolded assms(13)]]
  show ?thesis using a(7) b d k(3-6) assms(11,13) by simp
qed

definition demo_options :: "private_identity \<Rightarrow> private_identity \<Rightarrow> call_options" where
  "demo_options me peer = \<lparr>selfIdentity = publicIdentityOf me, resolvePeerIdentity = (\<lambda>a. Some (publicIdentityOf peer)),
     requireFrameEncryption = None\<rparr>"

lemma demo_params_fit:
  "call_fits (key_params (demo_options demo_alice demo_bob) (selfIdentity (demo_options demo_bob demo_alice)) Caller
     (new_call (toHex [1]) ''bob'' Outgoing RingingOutgoing 5) [2, 3] ''fpA'' ''fpB'')"
proof -
  have "length (signingPublicKey (publicIdentityOf demo_alice)) = 32" "length (signingPublicKey (publicIdentityOf demo_bob)) = 32"
    using demo_identities_ok by (auto simp: identity_ok_def verifyIdentityBinding_iff)
  then show ?thesis
    using utf8_length[of "toHex [1]"] utf8_length[of "''fpA''"] utf8_length[of "''fpB''"]
    by (simp add: call_fits_def key_params_def demo_options_def new_call_def fits_len_def length_toHex)
qed

text \<open>The callee's side of the demonstration call: it is offered, accepted and answered.\<close>

definition demo_callee_events :: "call_event list" where
  "demo_callee_events = [Signalled ''alice'' (PCallOffer (toHex [1]) (toBase64Url [2, 3]) ''sdp'' ''fpA'') 7, AnswerCall True,
     Resume 0 (RSdp ''sdp2'' ''fpB'') 7, Resume 0 RDone 7, Resume 0 RDone 7]"

lemma demo_callee:
  assumes "m = call_run demo_library (demo_options demo_bob demo_alice) demo_callee_events new_call_mgr"
  shows "\<exists>c. cm_current m = Some c \<and> ci_state c = Connecting" "ESignal ''alice'' (PCallAnswer (toHex [1]) ''sdp2'' ''fpB'') \<in> set (cm_log m)"
    "\<exists>a b. EInstallKeys 0 a b \<in> set (cm_log m)"
proof -
  let ?oc = "demo_options demo_alice demo_bob" and ?oe = "demo_options demo_bob demo_alice"
  have r: "ready new_call_mgr" by (simp add: ready_def new_call_mgr_def active_def)
  have "key_params ?oc (selfIdentity ?oe) Caller (new_call (toHex [1]) ''bob'' Outgoing RingingOutgoing 5) [2, 3] ''fpA'' ''fpB''
      = key_params ?oe (selfIdentity ?oc) Callee (new_call (toHex [1]) ''alice'' Incoming RingingIncoming 7) [2, 3] ''fpB'' ''fpA''"
    by (rule key_params_sides) (simp_all add: new_call_def)
  then obtain k where k: "deriveCallKeys demo_library (key_params ?oe (selfIdentity ?oc) Callee
      (new_call (toHex [1]) ''alice'' Incoming RingingIncoming 7) [2, 3] ''fpB'' ''fpA'') Callee = Inr k"
    using deriveCallKeys_total[OF library_okD(9)[OF demo_library_ok] demo_params_fit] by fastforce
  have o: "resolvePeerIdentity ?oe ''alice'' = Some (selfIdentity ?oc)" by (simp add: demo_options_def)
  note b = callee_answers[where cid = "toHex [1]" and secret = "[2, 3]" and sdp = "''sdp''" and sdp' = "''sdp2''" and t = 7,
      OF r _ _ _ o k assms[unfolded demo_callee_events_def]]
  show "\<exists>c. cm_current m = Some c \<and> ci_state c = Connecting" using b(1) by simp
  show "ESignal ''alice'' (PCallAnswer (toHex [1]) ''sdp2'' ''fpB'') \<in> set (cm_log m)" using b(4) by simp
  show "\<exists>a b. EInstallKeys 0 a b \<in> set (cm_log m)" using b(3) by (auto simp: new_call_mgr_def)
qed


theorem call_established_witness:
  "\<exists>A2 B1 ka kb. A2 = call_run demo_library (demo_options demo_alice demo_bob)
      [PlaceCall ''bob'' True [1] [2, 3] 5, Resume 0 (RSdp ''sdp'' ''fpA'') 5, Resume 0 RDone 5,
       Signalled ''bob'' (PCallAnswer (toHex [1]) ''sdp2'' ''fpB'') 5, Resume 0 RDone 5, Resume 0 RDone 5] new_call_mgr \<and>
    B1 = call_run demo_library (demo_options demo_bob demo_alice)
      [Signalled ''alice'' (PCallOffer (toHex [1]) (toBase64Url [2, 3]) ''sdp'' ''fpA'') 7, AnswerCall True,
       Resume 0 (RSdp ''sdp2'' ''fpB'') 7, Resume 0 RDone 7, Resume 0 RDone 7] new_call_mgr \<and>
    cm_keys A2 = Some ka \<and> cm_keys B1 = Some kb \<and> sendKey ka = receiveKey kb"
proof -
  let ?oc = "demo_options demo_alice demo_bob" and ?oe = "demo_options demo_bob demo_alice"
  have r: "ready new_call_mgr" by (simp add: ready_def new_call_mgr_def active_def)
  have o: "resolvePeerIdentity ?oc ''bob'' = Some (selfIdentity ?oe)" "resolvePeerIdentity ?oe ''alice'' = Some (selfIdentity ?oc)"
    by (simp_all add: demo_options_def)
  have ne: "''sdp'' \<noteq> ''''" "''fpA'' \<noteq> ''''" "''fpB'' \<noteq> ''''" by simp_all
  from call_established[OF demo_library_ok r r o demo_params_fit ne refl refl refl refl refl, of "''sdp2''" 7]
  show ?thesis by (auto simp del: call_step.simps)
qed

section \<open>What goes wrong\<close>

text \<open>
  A call hung up while its offer is being created still rings. Whichever of the two finishes
  first, the hangup is sent before the offer; if the engine is closed first, the offer carries
  a media secret of zeros, because its buffer has been wiped. A callee that gets the two in this
  order ignores the hangup of a call it does not know, and then rings for a call that is over.
\<close>

lemma cancelled_call_still_rings:
  assumes "ready m" and "hangup = PCallHangup (toHex idb) reason"
    and "cm_current B = None" and "fromBase64Url s = Inr secret'"
  shows "(\<exists>pre mid c. cm_log (call_run N opts [PlaceCall peer True idb secret t, EndCall reason True, Resume 0 (RSdp sdp fp) t,
        Resume 0 r t, Resume 1 RDone t] m) =
      pre @ [ESignal peer hangup, ESignal peer (PCallOffer (toHex idb) (toBase64Url secret) sdp fp)] @ mid @ [EStateChange c] \<and>
      ci_state c = Ended) \<and>
    (\<exists>pre mid. cm_log (call_run N opts [PlaceCall peer True idb secret t, EndCall reason True, Resume 1 r t,
        Resume 1 RDone t, Resume 0 (RSdp sdp fp) t] m) =
      pre @ [ESignal peer hangup] @ mid @ [ESignal peer (PCallOffer (toHex idb) (toBase64Url (replicate (length secret) 0)) sdp fp)]) \<and>
    (\<exists>c. cm_current (call_run N opts' [Signalled caller hangup t', Signalled caller (PCallOffer (toHex idb) s sdp fp) t'] B) = Some c \<and>
      ci_callId c = toHex idb \<and> ci_state c = RingingIncoming)"
proof (intro conjI)
  let ?e = "length (cm_engines m)"
  let ?c = "new_call (toHex idb) peer Outgoing RingingOutgoing t"
  have c: "ci_callId ?c = toHex idb" "ci_peerAddress ?c = peer" "ci_state ?c = RingingOutgoing" by (simp_all add: new_call_def)
  note defs = placeCall_def create_engine_def attachEngineHandlers_def Let_def place_offered_def createCallSecrets_def
    endCall_def end_close_def on_engine_def end_closed_def setState_def wipe_buffer_def zeroed_def
  have "cm_log (call_run N opts [PlaceCall peer True idb secret t, EndCall reason True, Resume 0 (RSdp sdp fp) t,
        Resume 0 r t, Resume 1 RDone t] m) = (cm_log m @ [ECreateOffer ?e]) @
      [ESignal peer hangup, ESignal peer (PCallOffer (toHex idb) (toBase64Url secret) sdp fp)] @ [ECloseEngine ?e] @
      [EStateChange (?c\<lparr>ci_state := Ended, ci_endedAt := Some t, ci_endReason := Some reason\<rparr>)]"
    using assms(1,2) c by (simp add: ready_def defs)
  then show "\<exists>pre mid c. cm_log (call_run N opts [PlaceCall peer True idb secret t, EndCall reason True, Resume 0 (RSdp sdp fp) t,
        Resume 0 r t, Resume 1 RDone t] m) =
      pre @ [ESignal peer hangup, ESignal peer (PCallOffer (toHex idb) (toBase64Url secret) sdp fp)] @ mid @ [EStateChange c] \<and>
      ci_state c = Ended"
    by (intro exI conjI) (assumption, simp)
  have "cm_log (call_run N opts [PlaceCall peer True idb secret t, EndCall reason True, Resume 1 r t,
        Resume 1 RDone t, Resume 0 (RSdp sdp fp) t] m) =
      (cm_log m @ [ECreateOffer ?e]) @ [ESignal peer hangup] @
      [ECloseEngine ?e, EStateChange (?c\<lparr>ci_state := Ended, ci_endedAt := Some t, ci_endReason := Some reason\<rparr>)] @
      [ESignal peer (PCallOffer (toHex idb) (toBase64Url (replicate (length secret) 0)) sdp fp)]"
    using assms(1,2) c by (simp add: ready_def defs)
  then show "\<exists>pre mid. cm_log (call_run N opts [PlaceCall peer True idb secret t, EndCall reason True, Resume 1 r t,
        Resume 1 RDone t, Resume 0 (RSdp sdp fp) t] m) =
      pre @ [ESignal peer hangup] @ mid @ [ESignal peer (PCallOffer (toHex idb) (toBase64Url (replicate (length secret) 0)) sdp fp)]"
    by (intro exI)
  show "\<exists>c. cm_current (call_run N opts' [Signalled caller hangup t', Signalled caller (PCallOffer (toHex idb) s sdp fp) t'] B) = Some c \<and>
      ci_callId c = toHex idb \<and> ci_state c = RingingIncoming"
    using assms(2-4) by (simp add: onOffer_def active_def Let_def) (simp add: new_call_def)
qed

text \<open>
  A new answer during a confirmed call, on an engine that accepts it, replaces the keys and the
  words but keeps the confirmation, which the user gave for other words.
\<close>

lemma confirmation_survives_rekey:
  assumes "cm_current m = Some c" and "ci_sasConfirmed c" and "cm_pending m = []" and "cm_mediaSecret m = Some b"
    and "cm_localFingerprint m = Some local" and "local \<noteq> ''''" and "fp \<noteq> ''''"
    and "resolvePeerIdentity opts (ci_peerAddress c) = Some pid"
    and "deriveCallKeys N (key_params opts pid Caller c (cm_heap m ! b) local fp) Caller = Inr keys"
  shows "\<exists>c'. cm_current (call_run N opts [Signalled (ci_peerAddress c) (PCallAnswer (ci_callId c) sdp fp) t,
      Resume 0 RDone t, Resume 0 RDone t] m) = Some c' \<and> ci_sas c' = Some (sas keys) \<and> ci_sasConfirmed c'"
  using assms by (simp add: onAnswer_def on_engine_def deriveAndInstallKeys_def truthy_str_def caller_installed_def
      keys_installed_def setState_def Let_def split: option.split)

text \<open>
  An offer whose secret is no base64url throws after the call has been recorded: nothing is
  announced, but every later call is refused and every offer declined as busy.
\<close>

lemma malformed_offer_jams:
  assumes "\<not> active (cm_current m)" and "fromBase64Url s = Inl e"
    and "m1 = call_step N opts (Signalled peer (PCallOffer cid s sdp fp) t) m"
  shows "cm_log m1 = cm_log m @ [EThrow e] \<and> call_step N opts (PlaceCall p True i secret t') m1 = emit (EThrow OtherError) m1"
  using assms by (simp add: onOffer_def Let_def placeCall_def)

text \<open>
  \<open>answerCall\<close> does not look at the current call again when the engine's answer arrives. If the
  first call was hung up meanwhile and a second one rings, keys are derived for the second call
  and, with no engine, installed nowhere; its words are shown, the first caller gets the answer,
  and the second call, which nobody accepted, is reported as connecting.
\<close>

lemma answer_shows_other_words:
  assumes "ready m" and "sdp \<noteq> ''''" and "fp2 \<noteq> ''''" and "local \<noteq> ''''" and "resolvePeerIdentity opts b = Some pid"
    and "deriveCallKeys N (key_params opts pid Callee (new_call i2 b Incoming RingingIncoming t) s2 local fp2) Callee = Inr keys"
    and "m1 = call_run N opts [Signalled a (PCallOffer i1 (toBase64Url s1) sdp fp1) t, AnswerCall True,
      Signalled a (PCallHangup i1 reason) t, Resume 1 RDone t,
      Signalled b (PCallOffer i2 (toBase64Url s2) sdp2 fp2) t,
      Resume 0 (RSdp sdp' local) t, Resume 0 RDone t, Resume 0 RDone t] m"
  shows "\<exists>l w. cm_log m1 = l @ [ESasAvailable w, EStateChange w, ESignal a (PCallAnswer i1 sdp' local), EStateChange (w\<lparr>ci_state := Connecting\<rparr>)] \<and>
    call_of w = (i2, b) \<and> ci_sas w = Some (sas keys) \<and> cm_current m1 = Some (w\<lparr>ci_state := Connecting\<rparr>) \<and> cm_engine m1 = None"
proof -
  let ?c1 = "new_call i1 a Incoming RingingIncoming t" and ?c2 = "new_call i2 b Incoming RingingIncoming t"
  have c: "ci_callId ?c1 = i1" "ci_peerAddress ?c1 = a" "ci_state ?c1 = RingingIncoming"
    "ci_callId ?c2 = i2" "ci_peerAddress ?c2 = b" by (simp_all add: new_call_def)
  show ?thesis
    using assms c by (simp add: ready_def onOffer_def answerCall_def create_engine_def attachEngineHandlers_def Let_def
        answer_created_def deriveAndInstallKeys_def truthy_str_def on_engine_def answer_installed_def keys_installed_def
        setState_def endCall_def end_close_def end_closed_def wipe_buffer_def active_def nth_append call_of_def)
qed

end
