(* ===== verification/App_Actions.thy ===== *)
theory App_Actions
  imports Veil_Prelude
begin

text \<open>
  Methods with effects: an action is a function from the state to a result, or an error, and the
  next state. A sequence of actions stops at the first error and keeps what was changed before,
  as an async method does that throws. Triples say what an action guarantees of the state it
  returns in and of the one it throws in; \<open>act_rules\<close> has one rule per combinator.
\<close>

section \<open>Actions\<close>

text \<open>A step on a state that returns a value or throws; the state changes either way.\<close>

type_synonym ('a, 's) act = "'s \<Rightarrow> 'a result \<times> 's"

definition act_return :: "'a \<Rightarrow> ('a, 's) act" where
  "act_return x s = (Inr x, s)"

definition act_throw :: "error \<Rightarrow> ('a, 's) act" where
  "act_throw e s = (Inl e, s)"

definition act_bind :: "('a, 's) act \<Rightarrow> ('a \<Rightarrow> ('b, 's) act) \<Rightarrow> ('b, 's) act" where
  "act_bind f g s = (case f s of (Inl e, s') \<Rightarrow> (Inl e, s') | (Inr x, s') \<Rightarrow> g x s')"

definition act_lift :: "'a result \<Rightarrow> ('a, 's) act" where
  "act_lift r s = (r, s)"

definition act_modify :: "('s \<Rightarrow> 's) \<Rightarrow> (unit, 's) act" where
  "act_modify f s = (Inr (), f s)"

definition act_read :: "('s \<Rightarrow> 'a) \<Rightarrow> ('a, 's) act" where
  "act_read f s = (Inr (f s), s)"

text \<open>\<open>for (const x of xs)\<close>.\<close>

fun act_each :: "('b \<Rightarrow> (unit, 's) act) \<Rightarrow> 'b list \<Rightarrow> (unit, 's) act" where
  "act_each f [] = act_return ()"
| "act_each f (x # xs) = act_bind (f x) (\<lambda>_. act_each f xs)"

text \<open>A field of an object that must be defined.\<close>

definition act_some :: "'a option \<Rightarrow> ('a, 's) act" where
  "act_some x = (case x of None \<Rightarrow> act_throw OtherError | Some y \<Rightarrow> act_return y)"

definition act_try :: "('a, 's) act \<Rightarrow> (error \<Rightarrow> ('a, 's) act) \<Rightarrow> ('a, 's) act" where
  "act_try f h s = (case f s of (Inl e, s') \<Rightarrow> h e s' | (Inr x, s') \<Rightarrow> (Inr x, s'))"

lemmas act_defs = act_return_def act_throw_def act_bind_def act_lift_def act_modify_def act_read_def

lemma act_bind_simps [simp]:
  "act_bind (act_return x) g = g x"
  "act_bind (act_throw e) g = act_throw e"
  "act_bind (act_bind f g) h = act_bind f (\<lambda>x. act_bind (g x) h)"
  by (auto simp: act_defs fun_eq_iff split: sum.splits prod.splits)

section \<open>Triples\<close>

definition triple :: "('s \<Rightarrow> bool) \<Rightarrow> ('a, 's) act \<Rightarrow> ('a \<Rightarrow> 's \<Rightarrow> bool) \<Rightarrow> ('s \<Rightarrow> bool) \<Rightarrow> bool" where
  "triple P f Q E \<longleftrightarrow> (\<forall>s. P s \<longrightarrow> (case f s of (Inr x, s') \<Rightarrow> Q x s' | (Inl e, s') \<Rightarrow> E s'))"

abbreviation keeps :: "('s \<Rightarrow> bool) \<Rightarrow> ('a, 's) act \<Rightarrow> bool" where
  "keeps P f \<equiv> triple P f (\<lambda>x. P) P"

named_theorems act_rules \<open>triples of the combinators\<close>

lemma tripleD: "triple P f Q E \<Longrightarrow> P s \<Longrightarrow> f s = (Inr x, s') \<Longrightarrow> Q x s'"
  by (auto simp: triple_def)

lemma keeps_iff: "keeps P f \<longleftrightarrow> (\<forall>s. P s \<longrightarrow> P (snd (f s)))"
  by (auto simp: triple_def case_prod_unfold split: sum.splits)

lemma keepsD: "keeps P f \<Longrightarrow> P s \<Longrightarrow> P (snd (f s))"
  by (simp add: keeps_iff)

lemma keepsI: "(\<And>s. P s \<Longrightarrow> P (snd (f s))) \<Longrightarrow> keeps P f"
  by (simp add: keeps_iff)

lemma triple_bind:
  "triple P f R E \<Longrightarrow> (\<And>x. triple (R x) (g x) Q E) \<Longrightarrow> triple P (act_bind f g) Q E"
  by (fastforce simp: triple_def act_bind_def split: prod.splits sum.splits)

lemma keeps_bind [act_rules]: "keeps P f \<Longrightarrow> (\<And>x. keeps P (g x)) \<Longrightarrow> keeps P (act_bind f g)"
  by (rule triple_bind)

lemma triple_weaken:
  assumes "triple P' f Q' E'" and "\<And>s. P s \<Longrightarrow> P' s" and "\<And>x s. Q' x s \<Longrightarrow> Q x s" and "\<And>s. E' s \<Longrightarrow> E s"
  shows "triple P f Q E"
  using assms by (fastforce simp: triple_def split: prod.splits sum.splits)

lemma triple_seq:
  "keeps P f \<Longrightarrow> (\<And>x. triple P (g x) Q E) \<Longrightarrow> (\<And>s. P s \<Longrightarrow> E s) \<Longrightarrow> triple P (act_bind f g) Q E"
  by (rule triple_bind[where R = "\<lambda>_. P"], rule triple_weaken[where P' = P and Q' = "\<lambda>_. P" and E' = P]) auto

lemma triple_after: "triple P f (\<lambda>_. J) J \<Longrightarrow> P s \<Longrightarrow> J (snd (f s))"
  by (auto simp: triple_def case_prod_unfold split: sum.splits)

lemma triple_return: "(\<And>s. P s \<Longrightarrow> Q x s) \<Longrightarrow> triple P (act_return x) Q E"
  by (simp add: triple_def act_return_def)

lemma triple_throw: "(\<And>s. P s \<Longrightarrow> E s) \<Longrightarrow> triple P (act_throw e) Q E"
  by (simp add: triple_def act_throw_def)

lemma triple_read: "triple P (act_read f) (\<lambda>x s. P s \<and> x = f s) E"
  by (simp add: triple_def act_read_def)

lemma triple_if: "(c \<Longrightarrow> triple P f Q E) \<Longrightarrow> (\<not> c \<Longrightarrow> triple P g Q E) \<Longrightarrow> triple P (if c then f else g) Q E"
  by simp

lemma triple_option:
  "(x = None \<Longrightarrow> triple P f Q E) \<Longrightarrow> (\<And>y. x = Some y \<Longrightarrow> triple P (g y) Q E) \<Longrightarrow>
   triple P (case x of None \<Rightarrow> f | Some y \<Rightarrow> g y) Q E"
  by (cases x) simp_all

lemma keeps_pure:
  assumes "C \<Longrightarrow> keeps P f"
  shows "triple (\<lambda>s. P s \<and> C) f (\<lambda>x s. P s \<and> C) P"
proof (cases C)
  case True
  with assms have "keeps P f" by simp
  then show ?thesis using True by simp
qed (simp add: triple_def)

lemma keeps_pureD: "(C \<Longrightarrow> keeps P f) \<Longrightarrow> triple (\<lambda>s. P s \<and> C) f (\<lambda>x. P) P"
  by (cases C) (simp_all add: triple_def)

text \<open>Preservation: what reads, returns or throws keeps every predicate.\<close>

lemma keeps_basic [act_rules]:
  "keeps P (act_return x)" "keeps P (act_throw e)" "keeps P (act_lift r)" "keeps P (act_read f)" "keeps P (act_some y)"
  by (auto simp: triple_def act_defs act_some_def split: sum.splits option.splits)

lemma keeps_modify [act_rules]: "(\<And>s. P s \<Longrightarrow> P (f s)) \<Longrightarrow> keeps P (act_modify f)"
  by (simp add: triple_def act_modify_def)

lemma keeps_try [act_rules]: "keeps P f \<Longrightarrow> (\<And>e. keeps P (h e)) \<Longrightarrow> keeps P (act_try f h)"
  unfolding keeps_iff by (simp add: act_try_def case_prod_unfold split: sum.split)

lemma keeps_each [act_rules]: "(\<And>x. keeps P (f x)) \<Longrightarrow> keeps P (act_each f xs)"
proof (induction xs)
  case (Cons x xs)
  have "keeps P (act_bind (f x) (\<lambda>_. act_each f xs))" by (rule triple_bind[OF Cons.prems Cons.IH[OF Cons.prems]])
  then show ?case by simp
qed (simp add: keeps_basic)

lemma keeps_if [act_rules]: "(c \<Longrightarrow> keeps P f) \<Longrightarrow> (\<not> c \<Longrightarrow> keeps P g) \<Longrightarrow> keeps P (if c then f else g)"
  by simp

lemma keeps_option [act_rules]:
  "(x = None \<Longrightarrow> keeps P f) \<Longrightarrow> (\<And>y. x = Some y \<Longrightarrow> keeps P (g y)) \<Longrightarrow>
    keeps P (case x of None \<Rightarrow> f | Some y \<Rightarrow> g y)"
  by (cases x) simp_all

lemma keeps_pair [act_rules]: "(\<And>a b. keeps P (f a b)) \<Longrightarrow> keeps P (case x of (a, b) \<Rightarrow> f a b)"
  by (cases x) simp

lemma keeps_let [act_rules]: "(\<And>x. keeps P (f x)) \<Longrightarrow> keeps P (let x = t in f x)"
  by simp

end
