(* ===== verification/App_Relay.thy ===== *)
theory App_Relay
  imports Relay_Server App_Actions
begin

text \<open>
  The relay client: apps/mobile/src/core/relayClient.ts. The transport is a parameter: a function
  from a request and the state of the network to a response, or a rejection, and the next state.
  It is arbitrary wherever the client must not trust the relay, and the relay of Relay_Server
  where the two are composed. A response body without the field that is read is a body built
  by another constructor.
\<close>

section \<open>The client\<close>

type_synonym 'w transport = "request \<Rightarrow> 'w \<Rightarrow> response result \<times> 'w"

record 'w relay_client =
  rc_token :: "string option"
  rc_tokenExpiresAt :: int
  rc_net :: 'w

definition new_client :: "'w \<Rightarrow> 'w relay_client" where
  "new_client w = \<lparr>rc_token = None, rc_tokenExpiresAt = 0, rc_net = w\<rparr>"

definition request :: "'w transport \<Rightarrow> request \<Rightarrow> (response, 'w relay_client) act" where
  "request T r c = (case T r (rc_net c) of (x, w) \<Rightarrow> (x, c\<lparr>rc_net := w\<rparr>))"

definition expectJson :: "response \<Rightarrow> (body, 's) act" where
  "expectJson r = (if fst r < 200 \<or> 300 \<le> fst r then act_throw OtherError else act_return (snd r))"

text \<open>A request whose body is read.\<close>

definition exchange_body :: "'w transport \<Rightarrow> request \<Rightarrow> (body, 'w relay_client) act" where
  "exchange_body T r = act_bind (request T r) expectJson"

definition authHeaders :: "(string, 'w relay_client) act" where
  "authHeaders = act_bind (act_read rc_token) (\<lambda>t.
     if \<not> truthy t then act_throw OtherError else act_return (''Bearer '' @ the t))"

text \<open>The published keys are undefined only before the first rotation; then reading them throws.\<close>

definition register :: "'w transport \<Rightarrow> public_identity \<Rightarrow> published_prekeys \<Rightarrow> (string option, 'w relay_client) act" where
  "register T i keys = (case (pub_signedPreKey keys, pub_signedKemPreKey keys) of
      (Some s, Some k) \<Rightarrow>
        act_bind (exchange_body T (PostAccounts (Some
          \<lparr>rb_identity = Some (encodeIdentity i), rb_signedPreKey = Some (encodeSignedPreKey s),
           rb_signedKemPreKey = Some (encodeSignedPreKey k),
           rb_oneTimePreKeys = Some (map (Some \<circ> encodeOneTimePreKey) (pub_oneTimePreKeys keys)),
           rb_oneTimeKemPreKeys = Some (map (Some \<circ> encodeOneTimePreKey) (pub_oneTimeKemPreKeys keys))\<rparr>)))
        (\<lambda>b. act_return (case b of RAddress a \<Rightarrow> Some a | _ \<Rightarrow> None))
    | _ \<Rightarrow> act_throw OtherError)"

definition client_authenticate ::
  "noble \<Rightarrow> 'w transport \<Rightarrow> int \<Rightarrow> private_identity \<Rightarrow> string \<Rightarrow> (string option, 'w relay_client) act" where
  "client_authenticate N T now i address = act_bind (act_read (\<lambda>c. (rc_token c, rc_tokenExpiresAt c))) (\<lambda>(t, x).
     if truthy t \<and> x > now + 60000 then act_return t
     else act_bind (exchange_body T (PostChallenge (Some address))) (\<lambda>b. case b of
         RChallenge chal _ \<Rightarrow>
           act_bind (act_lift (fromBase64Url chal)) (\<lambda>c.
           act_bind (act_lift (sign N (secretKey (signing i)) (challengeTranscript address c))) (\<lambda>signature.
           act_bind (exchange_body T (PostAuth (Some address) (Some chal) (Some (toBase64Url signature)))) (\<lambda>b.
           let (t, x) = (case b of RToken t x \<Rightarrow> (Some t, x) | _ \<Rightarrow> (None, 0)) in
           act_bind (act_modify (\<lambda>c. c\<lparr>rc_token := t, rc_tokenExpiresAt := x\<rparr>)) (\<lambda>_. act_return t))))
       | _ \<Rightarrow> act_throw OtherError))"

definition fetchBundle :: "'w transport \<Rightarrow> string \<Rightarrow> (prekey_bundle, 'w relay_client) act" where
  "fetchBundle T address = act_bind (exchange_body T (GetKeys address)) (\<lambda>b. case b of
      RBundle r \<Rightarrow> act_lift (decodeBundle r)
    | _ \<Rightarrow> act_throw OtherError)"

text \<open>The \<open>ip\<close> of the request is filled in by the network.\<close>

definition client_send :: "'w transport \<Rightarrow> sealed_envelope \<Rightarrow> (unit, 'w relay_client) act" where
  "client_send T envelope = (let w = encodeEnvelope envelope in
     if length (we_ciphertext w) > maxEnvelopeBytes then act_throw OtherError
     else act_bind (exchange_body T (PostMessages '''' (Some
         \<lparr>eb_recipient = Some (we_recipient w), eb_ephemeralPublicKey = we_ephemeralPublicKey w,
          eb_ciphertext = Some (we_ciphertext w)\<rparr>))) (\<lambda>_. act_return ()))"

definition fetchMessages :: "'w transport \<Rightarrow> (delivered_message list, 'w relay_client) act" where
  "fetchMessages T = act_bind authHeaders (\<lambda>h.
     act_bind (exchange_body T (GetMessages (Some h))) (\<lambda>b. case b of
       RMessages ms \<Rightarrow> act_return ms
     | _ \<Rightarrow> act_throw OtherError))"

definition client_acknowledge :: "'w transport \<Rightarrow> string list \<Rightarrow> (unit, 'w relay_client) act" where
  "client_acknowledge T ids = (if ids = [] then act_return ()
     else act_bind authHeaders (\<lambda>h.
       act_bind (exchange_body T (PostAcknowledge (Some h) (Some ids))) (\<lambda>_. act_return ())))"

text \<open>None when the body has no counts, which then compare as smaller than no number.\<close>

definition preKeyCount :: "'w transport \<Rightarrow> ((nat \<times> nat) option, 'w relay_client) act" where
  "preKeyCount T = act_bind authHeaders (\<lambda>h.
     act_bind (exchange_body T (GetKeyCount (Some h))) (\<lambda>b.
       act_return (case b of RCounts a b \<Rightarrow> Some (a, b) | _ \<Rightarrow> None)))"

definition uploadPreKeys :: "'w transport \<Rightarrow> one_time_prekey list \<times> one_time_prekey list \<Rightarrow> (unit, 'w relay_client) act" where
  "uploadPreKeys T keys = act_bind authHeaders (\<lambda>h.
     act_bind (exchange_body T (PostKeys (Some h) (Some
       \<lparr>ub_signedPreKey = None, ub_signedKemPreKey = None,
        ub_oneTimePreKeys = Some (map (Some \<circ> encodeOneTimePreKey) (fst keys)),
        ub_oneTimeKemPreKeys = Some (map (Some \<circ> encodeOneTimePreKey) (snd keys))\<rparr>))) (\<lambda>_. act_return ()))"

section \<open>The relay as a network\<close>

text \<open>The clock and the random bytes the relay reads per request, and its state.\<close>

type_synonym relay_net = "(nat \<Rightarrow> env) \<times> relay_state"

fun with_ip :: "string \<Rightarrow> request \<Rightarrow> request" where
  "with_ip ip (PostMessages _ b) = PostMessages ip b"
| "with_ip ip r = r"

definition relay_transport :: "noble \<Rightarrow> string \<Rightarrow> relay_net transport" where
  "relay_transport N ip r net = (case route N (fst net 0) (with_ip ip r) (snd net) of
     (response, s) \<Rightarrow> (Inr response, (\<lambda>i. fst net (Suc i), s)))"

end
