(* ===== verification/App_Storage.thy ===== *)
theory App_Storage
  imports App_Types App_Policies Veil_Protocol
begin

text \<open>
  The encrypted local store: apps/mobile/src/core/storage.ts. \<open>EncryptedCollection\<close> over the
  in-memory database and secret store of that file. A collection is generic in the type of its
  values: \<open>to\<close> is the object the app hands to \<open>JSON.stringify\<close>, \<open>of\<close> the typed view of what
  \<open>JSON.parse\<close> returns. Nonces are arguments. The promises of the in-memory stores resolve at
  once, so every operation is a function of the database.
\<close>

section \<open>In-memory stores\<close>

type_synonym database = "(string, (string, bytes) jsmap) jsmap"

definition db_collection :: "string \<Rightarrow> database \<Rightarrow> (string, bytes) jsmap \<times> database" where
  "db_collection name db = (case js_get db name of
      Some c \<Rightarrow> (c, db)
    | None \<Rightarrow> ([], js_set name [] db))"

definition db_get :: "string \<Rightarrow> string \<Rightarrow> database \<Rightarrow> bytes option \<times> database" where
  "db_get name i db = (let (c, db) = db_collection name db in (js_get c i, db))"

definition db_put :: "string \<Rightarrow> string \<Rightarrow> bytes \<Rightarrow> database \<Rightarrow> database" where
  "db_put name i b db = (let (c, db) = db_collection name db in js_set name (js_set i b c) db)"

definition db_delete :: "string \<Rightarrow> string \<Rightarrow> database \<Rightarrow> database" where
  "db_delete name i db = (let (c, db) = db_collection name db in js_set name (js_delete i c) db)"

definition db_list :: "string \<Rightarrow> database \<Rightarrow> (string \<times> bytes) list \<times> database" where
  "db_list name db = db_collection name db"

definition db_clear :: "database \<Rightarrow> database" where
  "db_clear db = []"

type_synonym secret_store = "(string, string) jsmap"

definition secret_get :: "string \<Rightarrow> secret_store \<Rightarrow> string option" where
  "secret_get k s = js_get s k"

definition secret_set :: "string \<Rightarrow> string \<Rightarrow> secret_store \<Rightarrow> secret_store" where
  "secret_set k v s = js_set k v s"

definition secret_delete :: "string \<Rightarrow> secret_store \<Rightarrow> secret_store" where
  "secret_delete k s = js_delete k s"

section \<open>Encrypted collections\<close>

record 'a collection =
  col_name :: string
  col_to :: "'a \<Rightarrow> json"
  col_of :: "json \<Rightarrow> 'a option"

definition recordId :: "'a collection \<Rightarrow> string \<Rightarrow> string" where
  "recordId col i = col_name col @ ''/'' @ i"

text \<open>Decrypting and parsing one row.\<close>

definition open_row :: "noble \<Rightarrow> vault \<Rightarrow> 'a collection \<Rightarrow> string \<Rightarrow> bytes \<Rightarrow> 'a result" where
  "open_row N v col i stored = rbind (decryptRecord N v (recordId col i) stored) (\<lambda>plaintext.
     case Option.bind (Option.bind (utf8_decode plaintext) json_parse) (col_of col) of
       None \<Rightarrow> Inl OtherError
     | Some x \<Rightarrow> Inr x)"

definition ec_get :: "noble \<Rightarrow> vault \<Rightarrow> 'a collection \<Rightarrow> string \<Rightarrow> database \<Rightarrow> 'a option result \<times> database" where
  "ec_get N v col i db = (let (stored, db) = db_get (col_name col) i db in
     (case stored of None \<Rightarrow> Inr None | Some b \<Rightarrow> rbind (open_row N v col i b) (\<lambda>x. Inr (Some x)), db))"

definition ec_put :: "noble \<Rightarrow> vault \<Rightarrow> 'a collection \<Rightarrow> bytes \<Rightarrow> string \<Rightarrow> 'a \<Rightarrow> database \<Rightarrow> unit result \<times> database" where
  "ec_put N v col nonce i x db =
     (let plaintext = utf8_encode (json_text (col_to col x)) in
      case encryptRecord N nonce v (recordId col i) plaintext of
        Inl e \<Rightarrow> (Inl e, db)
      | Inr ciphertext \<Rightarrow> (Inr (), db_put (col_name col) i ciphertext db))"

definition ec_delete :: "'a collection \<Rightarrow> string \<Rightarrow> database \<Rightarrow> database" where
  "ec_delete col i db = db_delete (col_name col) i db"

text \<open>The rows that open, and the identifiers reported to \<open>onCorrupt\<close>.\<close>

fun open_rows :: "noble \<Rightarrow> vault \<Rightarrow> 'a collection \<Rightarrow> (string \<times> bytes) list \<Rightarrow> (string \<times> 'a) list \<times> string list" where
  "open_rows N v col [] = ([], [])"
| "open_rows N v col ((i, b) # rows) = (let (out, corrupt) = open_rows N v col rows in
     case open_row N v col i b of Inl e \<Rightarrow> (out, i # corrupt) | Inr x \<Rightarrow> ((i, x) # out, corrupt))"

definition ec_all :: "noble \<Rightarrow> vault \<Rightarrow> 'a collection \<Rightarrow> database \<Rightarrow> ((string \<times> 'a) list \<times> string list) \<times> database" where
  "ec_all N v col db = (let (rows, db) = db_list (col_name col) db in (open_rows N v col rows, db))"

section \<open>The collections of the app\<close>

definition opt_member :: "string \<Rightarrow> int option \<Rightarrow> (string \<times> json) list" where
  "opt_member k x = (case x of None \<Rightarrow> [] | Some n \<Rightarrow> [(k, JNum n)])"

definition num_member :: "(string \<times> json) list \<Rightarrow> string \<Rightarrow> int option" where
  "num_member ms k = (case js_get ms k of Some (JNum n) \<Rightarrow> Some n | _ \<Rightarrow> None)"

text \<open>A member that may be absent: None where it is present with another type.\<close>

definition maybe_num :: "(string \<times> json) list \<Rightarrow> string \<Rightarrow> int option option" where
  "maybe_num ms k = (case js_get ms k of None \<Rightarrow> Some None | Some (JNum n) \<Rightarrow> Some (Some n) | _ \<Rightarrow> None)"

fun verification_name :: "verification_state \<Rightarrow> string" where
  "verification_name Unverified = ''unverified''"
| "verification_name Verified = ''verified''"
| "verification_name Changed = ''changed''"

fun status_name :: "message_status \<Rightarrow> string" where
  "status_name Pending = ''pending''"
| "status_name Sent = ''sent''"
| "status_name Delivered = ''delivered''"
| "status_name Read = ''read''"
| "status_name Failed = ''failed''"

fun direction_name :: "message_direction \<Rightarrow> string" where
  "direction_name Outgoing = ''outgoing''"
| "direction_name Incoming = ''incoming''"

text \<open>The value of an enumeration with a given name.\<close>

definition named :: "('a \<Rightarrow> string) \<Rightarrow> 'a list \<Rightarrow> string \<Rightarrow> 'a option" where
  "named f xs s = List.find (\<lambda>x. f x = s) xs"

fun members_of :: "json \<Rightarrow> (string \<times> json) list" where
  "members_of (JObj ms) = ms"
| "members_of v = []"

definition contact_json :: "contact \<Rightarrow> json" where
  "contact_json c = JObj ([(''address'', JStr (ct_address c)), (''displayName'', JStr (ct_displayName c)),
     (''identityKey'', JStr (ct_identityKey c)), (''verification'', JStr (verification_name (ct_verification c)))] @
     opt_member ''identityChangedAt'' (ct_identityChangedAt c))"

definition contact_of :: "json \<Rightarrow> contact option" where
  "contact_of v = (let ms = members_of v in
     case (str_member ms ''address'', str_member ms ''displayName'', str_member ms ''identityKey'',
       Option.bind (str_member ms ''verification'') (named verification_name [Unverified, Verified, Changed]),
       maybe_num ms ''identityChangedAt'') of
     (Some a, Some d, Some k, Some s, Some t) \<Rightarrow> Some \<lparr>ct_address = a, ct_displayName = d, ct_identityKey = k,
        ct_verification = s, ct_identityChangedAt = t\<rparr>
   | _ \<Rightarrow> None)"

definition message_json :: "app_message \<Rightarrow> json" where
  "message_json m = JObj ([(''id'', JStr (msg_id m)), (''conversationAddress'', JStr (msg_conversationAddress m)),
     (''direction'', JStr (direction_name (msg_direction m))), (''body'', JStr (msg_body m)),
     (''timestamp'', JNum (msg_timestamp m)), (''status'', JStr (status_name (msg_status m)))] @
     opt_member ''expiresAt'' (msg_expiresAt m))"

definition message_of :: "json \<Rightarrow> app_message option" where
  "message_of v = (let ms = members_of v in
     case (str_member ms ''id'', str_member ms ''conversationAddress'',
       Option.bind (str_member ms ''direction'') (named direction_name [Outgoing, Incoming]),
       str_member ms ''body'', num_member ms ''timestamp'',
       Option.bind (str_member ms ''status'') (named status_name [Pending, Sent, Delivered, Read, Failed]),
       maybe_num ms ''expiresAt'') of
     (Some i, Some a, Some d, Some b, Some t, Some s, Some x) \<Rightarrow> Some \<lparr>msg_id = i, msg_conversationAddress = a,
        msg_direction = d, msg_body = b, msg_timestamp = t, msg_status = s, msg_expiresAt = x\<rparr>
   | _ \<Rightarrow> None)"

definition conversation_json :: "conversation \<Rightarrow> json" where
  "conversation_json c = JObj [(''address'', JStr (cv_address c)), (''lastMessageAt'', JNum (cv_lastMessageAt c)),
     (''lastMessagePreview'', JStr (cv_lastMessagePreview c)), (''unreadCount'', JNum (cv_unreadCount c)),
     (''disappearAfterSeconds'', JNum (cv_disappearAfterSeconds c))]"

definition conversation_of :: "json \<Rightarrow> conversation option" where
  "conversation_of v = (let ms = members_of v in
     case (str_member ms ''address'', num_member ms ''lastMessageAt'', str_member ms ''lastMessagePreview'',
       num_member ms ''unreadCount'', num_member ms ''disappearAfterSeconds'') of
     (Some a, Some t, Some p, Some u, Some d) \<Rightarrow> Some \<lparr>cv_address = a, cv_lastMessageAt = t,
        cv_lastMessagePreview = p, cv_unreadCount = u, cv_disappearAfterSeconds = d\<rparr>
   | _ \<Rightarrow> None)"

text \<open>\<open>StoredSession\<close> holds the peer's identity with its keys as base64url text.\<close>

definition stored_session_json :: "wire_identity \<Rightarrow> json" where
  "stored_session_json w = JObj [(''peerIdentity'', JObj [(''signingPublicKey'', JStr (w_signingPublicKey w)),
     (''exchangePublicKey'', JStr (w_exchangePublicKey w)), (''exchangeKeySignature'', JStr (w_exchangeKeySignature w))])]"

definition stored_session_of :: "json \<Rightarrow> wire_identity option" where
  "stored_session_of v = (case js_get (members_of v) ''peerIdentity'' of None \<Rightarrow> None
   | Some p \<Rightarrow> (let ms = members_of p in
     case (str_member ms ''signingPublicKey'', str_member ms ''exchangePublicKey'', str_member ms ''exchangeKeySignature'') of
     (Some a, Some b, Some c) \<Rightarrow> Some \<lparr>w_signingPublicKey = a, w_exchangePublicKey = b, w_exchangeKeySignature = c\<rparr>
   | _ \<Rightarrow> None))"

definition pairing_json :: "pairing_state \<Rightarrow> json" where
  "pairing_json p = JObj [(''peerAddress'', JStr (ps_peerAddress p)), (''peerIdentityKey'', JStr (ps_peerIdentityKey p)),
     (''pairedAt'', JNum (ps_pairedAt p)), (''displayName'', JStr (ps_displayName p))]"

definition pairing_of :: "json \<Rightarrow> pairing_state option" where
  "pairing_of v = (let ms = members_of v in
     case (str_member ms ''peerAddress'', str_member ms ''peerIdentityKey'', num_member ms ''pairedAt'', str_member ms ''displayName'') of
     (Some a, Some k, Some t, Some d) \<Rightarrow> Some \<lparr>ps_peerAddress = a, ps_peerIdentityKey = k, ps_pairedAt = t, ps_displayName = d\<rparr>
   | _ \<Rightarrow> None)"

definition contacts_collection :: "contact collection" where
  "contacts_collection = \<lparr>col_name = ''contacts'', col_to = contact_json, col_of = contact_of\<rparr>"

definition conversations_collection :: "conversation collection" where
  "conversations_collection = \<lparr>col_name = ''conversations'', col_to = conversation_json, col_of = conversation_of\<rparr>"

definition messages_collection :: "app_message collection" where
  "messages_collection = \<lparr>col_name = ''messages'', col_to = message_json, col_of = message_of\<rparr>"

definition sessions_collection :: "wire_identity collection" where
  "sessions_collection = \<lparr>col_name = ''sessions'', col_to = stored_session_json, col_of = stored_session_of\<rparr>"

definition pairing_collection :: "pairing_state collection" where
  "pairing_collection = \<lparr>col_name = ''pairing'', col_to = pairing_json, col_of = pairing_of\<rparr>"

section \<open>A collection is a map\<close>

text \<open>What the store needs of a type: its values are JSON that reads back as themselves.\<close>

locale stored_type =
  fixes col :: "'a collection"
  assumes text_ok: "json_ok (col_to col x)"
    and reads_back: "col_of col (col_to col x) = Some x"

datatype 'a col_op =
    Put string 'a bytes
  | Get string
  | Remove string
  | ListAll
  | ForeignPut string string bytes
  | ForeignRemove string string

datatype 'a col_out = Done | Got "'a option" | Listed "(string \<times> 'a) list" "string list" | Failure error

fun ec_step :: "noble \<Rightarrow> vault \<Rightarrow> 'a collection \<Rightarrow> 'a col_op \<Rightarrow> database \<Rightarrow> 'a col_out \<times> database" where
  "ec_step N v col (Put i x nonce) db = (case ec_put N v col nonce i x db of
     (Inl e, db) \<Rightarrow> (Failure e, db) | (Inr _, db) \<Rightarrow> (Done, db))"
| "ec_step N v col (Get i) db = (case ec_get N v col i db of
     (Inl e, db) \<Rightarrow> (Failure e, db) | (Inr x, db) \<Rightarrow> (Got x, db))"
| "ec_step N v col (Remove i) db = (Done, ec_delete col i db)"
| "ec_step N v col ListAll db = (case ec_all N v col db of ((l, c), db) \<Rightarrow> (Listed l c, db))"
| "ec_step N v col (ForeignPut name i b) db = (Done, db_put name i b db)"
| "ec_step N v col (ForeignRemove name i) db = (Done, db_delete name i db)"

text \<open>The specification: a map in order of insertion.\<close>

fun map_step :: "'a col_op \<Rightarrow> (string, 'a) jsmap \<Rightarrow> 'a col_out \<times> (string, 'a) jsmap" where
  "map_step (Put i x nonce) m = (Done, js_set i x m)"
| "map_step (Get i) m = (Got (js_get m i), m)"
| "map_step (Remove i) m = (Done, js_delete i m)"
| "map_step ListAll m = (Listed m [], m)"
| "map_step (ForeignPut name i b) m = (Done, m)"
| "map_step (ForeignRemove name i) m = (Done, m)"

fun outputs :: "('op \<Rightarrow> 's \<Rightarrow> 'out \<times> 's) \<Rightarrow> 'op list \<Rightarrow> 's \<Rightarrow> 'out list" where
  "outputs step [] s = []"
| "outputs step (op # ops) s = (case step op s of (out, s') \<Rightarrow> out # outputs step ops s')"

text \<open>Nonces have their length and foreign operations stay foreign.\<close>

fun op_ok :: "string \<Rightarrow> 'a col_op \<Rightarrow> bool" where
  "op_ok name (Put i x nonce) = (length nonce = 24)"
| "op_ok name (ForeignPut other i b) = (other \<noteq> name)"
| "op_ok name (ForeignRemove other i) = (other \<noteq> name)"
| "op_ok name _ = True"

definition rows_in :: "string \<Rightarrow> database \<Rightarrow> (string \<times> bytes) list" where
  "rows_in name db = fst (db_collection name db)"

definition row_of :: "noble \<Rightarrow> vault \<Rightarrow> 'a collection \<Rightarrow> string \<times> bytes \<Rightarrow> string \<times> 'a \<Rightarrow> bool" where
  "row_of N v col r e \<longleftrightarrow> fst r = fst e \<and> open_row N v col (fst r) (snd r) = Inr (snd e)"

lemma row_of_pair [simp]: "row_of N v col (i, b) (j, x) \<longleftrightarrow> i = j \<and> open_row N v col i b = Inr x"
  by (simp add: row_of_def)

definition stores :: "noble \<Rightarrow> vault \<Rightarrow> 'a collection \<Rightarrow> database \<Rightarrow> (string, 'a) jsmap \<Rightarrow> bool" where
  "stores N v col db m \<longleftrightarrow> list_all2 (row_of N v col) (rows_in (col_name col) db) m"

lemma rows_simps [simp]:
  "rows_in name (db_put name i b db) = js_set i b (rows_in name db)"
  "rows_in name (db_delete name i db) = js_delete i (rows_in name db)"
  "other \<noteq> name \<Longrightarrow> rows_in name (db_put other i b db) = rows_in name db"
  "other \<noteq> name \<Longrightarrow> rows_in name (db_delete other i db) = rows_in name db"
  "rows_in name (snd (db_collection name' db)) = rows_in name db"
  "fst (db_get name i db) = js_get (rows_in name db) i"
  "rows_in name (snd (db_get name i db)) = rows_in name db"
  by (auto simp: rows_in_def db_put_def db_delete_def db_get_def db_collection_def Let_def split: option.splits)

lemma row_get: "list_all2 (row_of N v col) rs m \<Longrightarrow>
    (case js_get rs i of None \<Rightarrow> js_get m i = None | Some b \<Rightarrow> \<exists>x. js_get m i = Some x \<and> open_row N v col i b = Inr x)"
  by (induction rule: list_all2_induct) (auto split: option.splits)

lemma row_set: "list_all2 (row_of N v col) rs m \<Longrightarrow> open_row N v col i b = Inr x \<Longrightarrow>
    list_all2 (row_of N v col) (js_set i b rs) (js_set i x m)"
  by (induction rule: list_all2_induct) auto

lemma row_delete: "list_all2 (row_of N v col) rs m \<Longrightarrow> list_all2 (row_of N v col) (js_delete i rs) (js_delete i m)"
  by (induction rule: list_all2_induct) auto

lemma row_all: "list_all2 (row_of N v col) rs m \<Longrightarrow> open_rows N v col rs = (m, [])"
  by (induction rule: list_all2_induct) auto

context stored_type
begin

lemma put_opens:
  assumes "library_ok N" and "length nonce = 24"
  shows "\<exists>b. encryptRecord N nonce v (recordId col i) (utf8_encode (json_text (col_to col x))) = Inr b \<and>
    open_row N v col i b = Inr x"
proof -
  obtain b where "encryptRecord N nonce v (recordId col i) (utf8_encode (json_text (col_to col x))) = Inr b"
    "decryptRecord N v (recordId col i) b = Inr (utf8_encode (json_text (col_to col x)))"
    using record_roundtrip[OF assms, of v "recordId col i" "utf8_encode (json_text (col_to col x))"] by blast
  then show ?thesis using json_bytes_roundtrip[OF text_ok] by (auto simp: open_row_def reads_back)
qed

lemma step_refines:
  assumes "library_ok N" and "op_ok (col_name col) op" and "stores N v col db m"
  shows "fst (ec_step N v col op db) = fst (map_step op m) \<and>
    stores N v col (snd (ec_step N v col op db)) (snd (map_step op m))"
proof (cases op)
  case (Put i x nonce)
  then obtain b where "encryptRecord N nonce v (recordId col i) (utf8_encode (json_text (col_to col x))) = Inr b"
    "open_row N v col i b = Inr x" using put_opens[OF assms(1)] assms(2) by fastforce
  then show ?thesis using assms(3) by (simp add: Put ec_put_def stores_def row_set)
next
  case (Get i)
  show ?thesis using assms(3) row_get[of N v col "rows_in (col_name col) db" m i]
    by (auto simp: Get ec_get_def stores_def case_prod_unfold Let_def split: option.splits)
next
  case (Remove i)
  then show ?thesis using assms(3) by (simp add: ec_delete_def stores_def row_delete)
next
  case ListAll
  have "open_rows N v col (rows_in (col_name col) db) = (m, [])" using assms(3) row_all by (auto simp: stores_def)
  then show ?thesis using assms(3)
    by (simp add: ListAll ec_all_def db_list_def stores_def case_prod_unfold Let_def flip: rows_in_def)
next
  case (ForeignPut name i b)
  then show ?thesis using assms by (simp add: stores_def)
next
  case (ForeignRemove name i)
  then show ?thesis using assms by (simp add: stores_def)
qed

lemma runs_as_map:
  assumes "library_ok N" and "\<forall>op \<in> set ops. op_ok (col_name col) op" and "stores N v col db m"
  shows "outputs (ec_step N v col) ops db = outputs map_step ops m"
  using assms(2,3)
proof (induction ops arbitrary: db m)
  case (Cons op ops)
  then show ?case using step_refines[OF assms(1), of op v db m] by (auto simp: case_prod_unfold)
qed simp

end

text \<open>The five collections of the messenger are such types.\<close>

lemmas typed_readers = str_member_def num_member_def maybe_num_def opt_member_def named_def

interpretation contact_rows: stored_type contacts_collection
proof
  fix x show "json_ok (col_to contacts_collection x)"
    by (cases "ct_identityChangedAt x") (simp_all add: contacts_collection_def contact_json_def opt_member_def)
  show "col_of contacts_collection (col_to contacts_collection x) = Some x"
    by (cases "ct_identityChangedAt x"; cases "ct_verification x")
      (simp_all add: contacts_collection_def contact_json_def contact_of_def typed_readers)
qed

interpretation message_rows: stored_type messages_collection
proof
  fix x show "json_ok (col_to messages_collection x)"
    by (cases "msg_expiresAt x") (simp_all add: messages_collection_def message_json_def opt_member_def)
  show "col_of messages_collection (col_to messages_collection x) = Some x"
    by (cases "msg_expiresAt x"; cases "msg_status x"; cases "msg_direction x")
      (simp_all add: messages_collection_def message_json_def message_of_def typed_readers)
qed

interpretation conversation_rows: stored_type conversations_collection
  by unfold_locales (simp_all add: conversations_collection_def conversation_json_def conversation_of_def typed_readers)

interpretation session_rows: stored_type sessions_collection
  by unfold_locales (simp_all add: sessions_collection_def stored_session_json_def stored_session_of_def typed_readers)

interpretation pairing_rows: stored_type pairing_collection
  by unfold_locales (simp_all add: pairing_collection_def pairing_json_def pairing_of_def typed_readers)

text \<open>Whatever was done to the rows: those that open are listed in order, the others reported.\<close>

lemma corrupt_rows_reported:
  "fst (ec_all N v col db) = (List.map_filter (\<lambda>(i, b). case open_row N v col i b of Inl e \<Rightarrow> None | Inr x \<Rightarrow> Some (i, x))
      (rows_in (col_name col) db), [i. (i, b) \<leftarrow> rows_in (col_name col) db, \<exists>e. open_row N v col i b = Inl e])"
proof -
  have "open_rows N v col rs = (List.map_filter (\<lambda>(i, b). case open_row N v col i b of Inl e \<Rightarrow> None | Inr x \<Rightarrow> Some (i, x)) rs,
      [i. (i, b) \<leftarrow> rs, \<exists>e. open_row N v col i b = Inl e])" for rs
    by (induction N v col rs rule: open_rows.induct) (auto simp: List.map_filter_simps split: sum.splits prod.splits)
  then show ?thesis by (simp add: ec_all_def db_list_def rows_in_def case_prod_unfold Let_def)
qed

text \<open>C30
  An encrypted collection is a map: over any run of writes, reads, deletions and listings,
  whatever is done meanwhile to the other collections of the database, it answers exactly as a
  map in order of insertion would, and no row is ever reported as corrupt. Each of the five
  collections of the messenger is one.
\<close>

theorem collection_refines_map:
  assumes "library_ok N" and "stored_type col" and "\<forall>op \<in> set ops. op_ok (col_name col) op"
  shows "outputs (ec_step N v col) ops [] = outputs map_step ops [] \<and>
    stored_type contacts_collection \<and> stored_type messages_collection \<and> stored_type conversations_collection \<and>
    stored_type sessions_collection \<and> stored_type pairing_collection"
proof -
  have "stores N v col [] []" by (simp add: stores_def rows_in_def db_collection_def)
  from stored_type.runs_as_map[OF assms(2,1,3) this] contact_rows.stored_type_axioms message_rows.stored_type_axioms
    conversation_rows.stored_type_axioms session_rows.stored_type_axioms pairing_rows.stored_type_axioms
  show ?thesis by blast
qed

definition demo_conversation :: conversation where
  "demo_conversation = \<lparr>cv_address = ''bob'', cv_lastMessageAt = 5, cv_lastMessagePreview = ''hi'', cv_unreadCount = 1,
     cv_disappearAfterSeconds = 0\<rparr>"

theorem collection_refines_map_witness:
  "outputs (ec_step demo_library \<lparr>dataKey = replicate 32 7\<rparr> conversations_collection)
     [Put ''bob'' demo_conversation (replicate 24 1), ForeignPut ''messages'' ''bob'' [0], Get ''bob'', ListAll, Remove ''bob'', Get ''bob''] [] =
   [Done, Done, Got (Some demo_conversation), Listed [(''bob'', demo_conversation)] [], Done, Got None]"
proof -
  have "\<forall>op \<in> set [Put ''bob'' demo_conversation (replicate 24 1), ForeignPut ''messages'' ''bob'' [0], Get ''bob'', ListAll, Remove ''bob'', Get ''bob''].
      op_ok (col_name conversations_collection) op"
    by (simp add: conversations_collection_def)
  from collection_refines_map[OF demo_library_ok conversation_rows.stored_type_axioms this, of "\<lparr>dataKey = replicate 32 7\<rparr>"]
  show ?thesis by simp
qed

section \<open>Writing after the lock\<close>

text \<open>
  \<open>lockVault\<close> wipes the key and leaves the vault usable: whatever is still written through it is
  encrypted under a key everyone knows.
\<close>

lemma lockVault_key: "length (dataKey v) = 32 \<Longrightarrow> lockVault v = \<lparr>dataKey = replicate 32 0\<rparr>"
  by (cases v) (simp add: lockVault_def zeroed_def)

text \<open>C32
  A write after the lock is readable by anyone who has the database: a value put into any of the
  collections through a locked vault, as a message that is still being processed is, succeeds,
  and opens with the key of 32 zero bytes, whatever the passphrase and the key were.
\<close>

theorem locked_writes_are_public:
  assumes "library_ok N" and "stored_type col" and "length (dataKey v) = 32" and "length nonce = 24"
  shows "\<exists>db'. ec_put N (lockVault v) col nonce i x db = (Inr (), db') \<and>
    fst (ec_get N \<lparr>dataKey = replicate 32 0\<rparr> col i db') = Inr (Some x)"
proof -
  obtain b where b: "encryptRecord N nonce (lockVault v) (recordId col i) (utf8_encode (json_text (col_to col x))) = Inr b"
    "open_row N (lockVault v) col i b = Inr x"
    using stored_type.put_opens[OF assms(2,1,4)] by blast
  then show ?thesis by (simp add: ec_put_def ec_get_def case_prod_unfold Let_def flip: lockVault_key[OF assms(3)])
qed

theorem locked_writes_are_public_witness:
  "\<exists>db. ec_put demo_library (lockVault \<lparr>dataKey = replicate 32 7\<rparr>) conversations_collection (replicate 24 1) ''bob'' demo_conversation [] = (Inr (), db) \<and>
    fst (ec_get demo_library \<lparr>dataKey = replicate 32 0\<rparr> conversations_collection ''bob'' db) = Inr (Some demo_conversation)"
  by (rule locked_writes_are_public[OF demo_library_ok conversation_rows.stored_type_axioms]) simp_all

end
