(* ===== verification/App_Messenger.thy ===== *)
theory App_Messenger
  imports App_Relay App_Storage Veil_Correctness
begin

text \<open>
  The messenger: apps/mobile/src/core/messenger.ts. Its collections are the maps that
  App_Storage shows the encrypted ones to be; its promises resolve before the next call is made,
  so a method is one action on the state. Clock and random bytes are streams in the state, the
  events raised are logged. A payload whose members do not have their declared types, which the
  code casts unchecked, ends in an exception here.
\<close>

section \<open>State\<close>

datatype messenger_mode = PairedMode | OpenMode

datatype messenger_event =
    OnMessage app_message
  | OnConversationChanged conversation
  | OnContactChanged contact
  | OnIdentityChanged string
  | OnBlocked refusal
  | OnCallPayload string payload
  | OnTyping string bool

record messenger_options =
  mo_mode :: "messenger_mode option"
  mo_sendReceipts :: bool
  mo_sendTypingIndicators :: bool

record 'w messenger =
  mg_identity :: "private_identity option"
  mg_preKeys :: "prekey_store option"
  mg_address :: "string option"
  mg_sessions :: "(string, session) jsmap"
  mg_contacts :: "(string, contact) jsmap"
  mg_conversations :: "(string, conversation) jsmap"
  mg_messages :: "(string, app_message) jsmap"
  mg_sessionMeta :: "(string, wire_identity) jsmap"
  mg_pairingStore :: "(string, pairing_state) jsmap"
  mg_pairing :: "pairing_state option"
  mg_pins :: "(string, bytes) jsmap"
  mg_client :: "'w relay_client"
  mg_secrets :: secret_store
  mg_clock :: "nat \<Rightarrow> int"
  mg_random :: "nat \<Rightarrow> fresh"
  mg_events :: "messenger_event list"
  mg_options :: messenger_options

type_synonym ('a, 'w) step = "('a, 'w messenger) act"

definition new_messenger ::
  "messenger_options \<Rightarrow> 'w \<Rightarrow> secret_store \<Rightarrow> (nat \<Rightarrow> int) \<Rightarrow> (nat \<Rightarrow> fresh) \<Rightarrow> 'w messenger" where
  "new_messenger opts w secrets clock rnd = \<lparr>mg_identity = None, mg_preKeys = None, mg_address = None,
     mg_sessions = [], mg_contacts = [], mg_conversations = [], mg_messages = [], mg_sessionMeta = [],
     mg_pairingStore = [], mg_pairing = None, mg_pins = [], mg_client = new_client w, mg_secrets = secrets,
     mg_clock = clock, mg_random = rnd, mg_events = [], mg_options = opts\<rparr>"

definition paired :: "'w messenger \<Rightarrow> bool" where
  "paired m \<longleftrightarrow> (case mo_mode (mg_options m) of None \<Rightarrow> True | Some md \<Rightarrow> md = PairedMode)"

section \<open>What the methods are built from\<close>

definition now_ms :: "(int, 'w) step" where
  "now_ms m = (Inr (mg_clock m 0), m\<lparr>mg_clock := \<lambda>i. mg_clock m (Suc i)\<rparr>)"

definition draws :: "nat \<Rightarrow> (nat \<Rightarrow> fresh, 'w) step" where
  "draws n m = (Inr (mg_random m), m\<lparr>mg_random := \<lambda>i. mg_random m (n + i)\<rparr>)"

definition notify :: "messenger_event \<Rightarrow> (unit, 'w) step" where
  "notify e = act_modify (\<lambda>m. m\<lparr>mg_events := mg_events m @ [e]\<rparr>)"

definition on_client :: "('a, 'w relay_client) act \<Rightarrow> ('a, 'w) step" where
  "on_client f m = (case f (mg_client m) of (r, c) \<Rightarrow> (r, m\<lparr>mg_client := c\<rparr>))"

definition get_identity :: "(private_identity, 'w) step" where
  "get_identity = act_bind (act_read mg_identity) act_some"

definition get_preKeys :: "(prekey_store, 'w) step" where
  "get_preKeys = act_bind (act_read mg_preKeys) act_some"

definition put_contact :: "string \<Rightarrow> contact \<Rightarrow> (unit, 'w) step" where
  "put_contact i c = act_modify (\<lambda>m. m\<lparr>mg_contacts := js_set i c (mg_contacts m)\<rparr>)"

definition get_contact :: "string \<Rightarrow> (contact option, 'w) step" where
  "get_contact i = act_read (\<lambda>m. js_get (mg_contacts m) i)"

definition put_conversation :: "string \<Rightarrow> conversation \<Rightarrow> (unit, 'w) step" where
  "put_conversation i c = act_modify (\<lambda>m. m\<lparr>mg_conversations := js_set i c (mg_conversations m)\<rparr>)"

definition put_message :: "string \<Rightarrow> app_message \<Rightarrow> (unit, 'w) step" where
  "put_message i x = act_modify (\<lambda>m. m\<lparr>mg_messages := js_set i x (mg_messages m)\<rparr>)"

definition delete_message :: "string \<Rightarrow> (unit, 'w) step" where
  "delete_message i = act_modify (\<lambda>m. m\<lparr>mg_messages := js_delete i (mg_messages m)\<rparr>)"

definition put_meta :: "string \<Rightarrow> public_identity \<Rightarrow> (unit, 'w) step" where
  "put_meta i x = act_modify (\<lambda>m. m\<lparr>mg_sessionMeta := js_set i (encodeIdentity x) (mg_sessionMeta m)\<rparr>)"

definition put_session :: "string \<Rightarrow> session \<Rightarrow> (unit, 'w) step" where
  "put_session i x = act_modify (\<lambda>m. m\<lparr>mg_sessions := js_set i x (mg_sessions m)\<rparr>)"

definition put_pin :: "string \<Rightarrow> bytes \<Rightarrow> (unit, 'w) step" where
  "put_pin i k = act_modify (\<lambda>m. m\<lparr>mg_pins := js_set i k (mg_pins m)\<rparr>)"

definition set_pairing :: "pairing_state \<Rightarrow> (unit, 'w) step" where
  "set_pairing p = act_modify (\<lambda>m. m\<lparr>mg_pairingStore := js_set ''peer'' p (mg_pairingStore m), mg_pairing := Some p\<rparr>)"

definition SECRET_IDENTITY_SIGNING :: string where "SECRET_IDENTITY_SIGNING = ''veil.identity.signing''"
definition SECRET_IDENTITY_EXCHANGE :: string where "SECRET_IDENTITY_EXCHANGE = ''veil.identity.exchange''"
definition SECRET_IDENTITY_BINDING :: string where "SECRET_IDENTITY_BINDING = ''veil.identity.binding''"
definition PREKEY_LOW_WATER :: nat where "PREKEY_LOW_WATER = 20"

definition put_secret :: "string \<Rightarrow> string \<Rightarrow> (unit, 'w) step" where
  "put_secret k v = act_modify (\<lambda>m. m\<lparr>mg_secrets := secret_set k v (mg_secrets m)\<rparr>)"

section \<open>Conversations\<close>

definition touchConversation :: "string \<Rightarrow> string \<Rightarrow> int \<Rightarrow> (unit, 'w) step" where
  "touchConversation address preview unreadDelta =
     act_bind (act_read (\<lambda>m. js_get (mg_conversations m) address)) (\<lambda>existing.
     act_bind now_ms (\<lambda>t.
     let c = (case existing of Some c \<Rightarrow> c
           | None \<Rightarrow> \<lparr>cv_address = address, cv_lastMessageAt = 0, cv_lastMessagePreview = '''', cv_unreadCount = 0,
               cv_disappearAfterSeconds = 0\<rparr>);
         c = c\<lparr>cv_lastMessageAt := t, cv_lastMessagePreview := slice 0 120 preview,
               cv_unreadCount := max 0 (cv_unreadCount c + unreadDelta)\<rparr>
     in act_bind (put_conversation address c) (\<lambda>_. notify (OnConversationChanged c))))"

definition with_conversation :: "string \<Rightarrow> (conversation \<Rightarrow> conversation) \<Rightarrow> (unit, 'w) step" where
  "with_conversation address f =
     act_bind (act_read (\<lambda>m. js_get (mg_conversations m) address)) (\<lambda>c. case c of
       None \<Rightarrow> act_return ()
     | Some c \<Rightarrow> act_bind (put_conversation address (f c)) (\<lambda>_. notify (OnConversationChanged (f c))))"

definition setDisappearTimer :: "string \<Rightarrow> int \<Rightarrow> (unit, 'w) step" where
  "setDisappearTimer address seconds = with_conversation address (\<lambda>c. c\<lparr>cv_disappearAfterSeconds := seconds\<rparr>)"

definition markRead :: "string \<Rightarrow> (unit, 'w) step" where
  "markRead address = with_conversation address (\<lambda>c. c\<lparr>cv_unreadCount := 0\<rparr>)"

definition listConversations :: "(conversation list, 'w) step" where
  "listConversations = act_read (\<lambda>m. sort_key (\<lambda>c. - cv_lastMessageAt c) (map snd (mg_conversations m)))"

section \<open>Identity and sessions\<close>

definition store_identity :: "private_identity \<Rightarrow> (unit, 'w) step" where
  "store_identity i =
     act_bind (put_secret SECRET_IDENTITY_SIGNING (toBase64Url (secretKey (signing i)))) (\<lambda>_.
     act_bind (put_secret SECRET_IDENTITY_EXCHANGE (toBase64Url (secretKey (exchange i)))) (\<lambda>_.
     put_secret SECRET_IDENTITY_BINDING (toBase64Url (bindingSignature i))))"

definition set_identity :: "private_identity \<Rightarrow> (unit, 'w) step" where
  "set_identity i = act_modify (\<lambda>m. m\<lparr>mg_identity := Some i\<rparr>)"

definition load_identity :: "noble \<Rightarrow> (bool, 'w) step" where
  "load_identity N =
     act_bind (act_read (\<lambda>m. (secret_get SECRET_IDENTITY_SIGNING (mg_secrets m),
       secret_get SECRET_IDENTITY_EXCHANGE (mg_secrets m), secret_get SECRET_IDENTITY_BINDING (mg_secrets m)))) (\<lambda>(a, b, c).
     act_bind (draws 2) (\<lambda>fs.
     if truthy a \<and> truthy b \<and> truthy c then
       act_bind (act_lift (fromBase64Url (the a))) (\<lambda>a.
       act_bind (act_lift (fromBase64Url (the b))) (\<lambda>b.
       act_bind (act_lift (fromBase64Url (the c))) (\<lambda>c.
       act_bind (act_lift (restoreIdentity N (a, snd (fs 0)) (b, snd (fs 1)) c)) (\<lambda>i.
       act_bind (set_identity i) (\<lambda>_. act_return False)))))
     else
       act_bind (act_lift (createIdentity N (fs 0) (fs 1))) (\<lambda>i.
       act_bind (set_identity i) (\<lambda>_.
       act_bind (store_identity i) (\<lambda>_. act_return True)))))"

definition initialise :: "noble \<Rightarrow> 'w transport \<Rightarrow> (string \<times> bool, 'w) step" where
  "initialise N T =
     act_bind (load_identity N) (\<lambda>created.
     act_bind get_identity (\<lambda>i.
     act_bind (draws (2 + 2 * ONE_TIME_PREKEY_TARGET)) (\<lambda>fs.
     act_bind (act_lift (new_store N (fs 0) (fs 1) (\<lambda>k. fs (2 + k)) (\<lambda>k. fs (2 + ONE_TIME_PREKEY_TARGET + k)) i)) (\<lambda>store.
     act_bind (act_modify (\<lambda>m. m\<lparr>mg_preKeys := Some store\<rparr>)) (\<lambda>_.
     act_bind (act_lift (addressOf N (publicIdentityOf i))) (\<lambda>address.
     act_bind (act_modify (\<lambda>m. m\<lparr>mg_address := Some address, mg_pairing := js_get (mg_pairingStore m) ''peer''\<rparr>)) (\<lambda>_.
     act_bind (on_client (register T (publicIdentityOf i) (published store))) (\<lambda>_.
     act_bind now_ms (\<lambda>t.
     act_bind (on_client (client_authenticate N T t i address)) (\<lambda>_.
     act_return (address, created)))))))))))"

definition exportIdentityBackup :: "(string, 'w) step" where
  "exportIdentityBackup = act_bind get_identity (\<lambda>i. act_return (json_text (JObj
     [(''version'', JNum 1), (''signing'', JStr (toBase64Url (secretKey (signing i)))),
      (''exchange'', JStr (toBase64Url (secretKey (exchange i)))), (''binding'', JStr (toBase64Url (bindingSignature i)))])))"

definition new_contact :: "string \<Rightarrow> string \<Rightarrow> verification_state \<Rightarrow> contact" where
  "new_contact address key st = \<lparr>ct_address = address, ct_displayName = slice 0 8 address, ct_identityKey = key,
     ct_verification = st, ct_identityChangedAt = None\<rparr>"

definition save_contact :: "string \<Rightarrow> contact \<Rightarrow> (unit, 'w) step" where
  "save_contact address c = act_bind (put_contact address c) (\<lambda>_. notify (OnContactChanged c))"

text \<open>A pinned key that changed: the contact is marked and the user warned.\<close>

definition flag_change :: "string \<Rightarrow> contact \<Rightarrow> (unit, 'w) step" where
  "flag_change address c = act_bind now_ms (\<lambda>t.
     act_bind (save_contact address (c\<lparr>ct_verification := Changed, ct_identityChangedAt := Some t\<rparr>)) (\<lambda>_.
     notify (OnIdentityChanged address)))"

definition open_session :: "noble \<Rightarrow> 'w transport \<Rightarrow> string \<Rightarrow> (session, 'w) step" where
  "open_session N T peer =
     act_bind (on_client (fetchBundle T peer)) (\<lambda>bundle.
     act_bind (get_contact peer) (\<lambda>contact.
     let presented = toBase64Url (signingPublicKey (identity bundle)) in
     act_bind (case contact of
         Some c \<Rightarrow> if ct_identityKey c \<noteq> presented
           then act_bind (flag_change peer c) (\<lambda>_. act_throw (IdentityChangedError (ct_identityKey c) presented))
           else act_return ()
       | None \<Rightarrow> act_return ()) (\<lambda>_.
     act_bind get_identity (\<lambda>i.
     act_bind (draws 3) (\<lambda>fs.
     act_bind (act_lift (startSession N (fs 0) (fst (fs 1)) (fs 2) i bundle None)) (\<lambda>s.
     act_bind (put_session peer s) (\<lambda>_.
     act_bind (if contact = None then save_contact peer (new_contact peer presented Unverified) else act_return ()) (\<lambda>_.
     act_bind (put_meta peer (identity bundle)) (\<lambda>_. act_return s)))))))))"

definition ensureSession :: "noble \<Rightarrow> 'w transport \<Rightarrow> string \<Rightarrow> (session, 'w) step" where
  "ensureSession N T peer =
     act_bind (act_read (\<lambda>m. (paired m, mg_pairing m))) (\<lambda>(locked, pairing).
     if locked \<and> decideOutbound pairing peer \<noteq> None then act_throw OtherError
     else act_bind (act_read (\<lambda>m. js_get (mg_sessions m) peer)) (\<lambda>existing. case existing of
         Some s \<Rightarrow> act_return s
       | None \<Rightarrow> open_session N T peer))"

definition startConversation :: "noble \<Rightarrow> 'w transport \<Rightarrow> string \<Rightarrow> (unit, 'w) step" where
  "startConversation N T peer = act_bind (ensureSession N T peer) (\<lambda>_. touchConversation peer '''' 0)"

definition rememberPeer :: "string \<Rightarrow> public_identity \<Rightarrow> (unit, 'w) step" where
  "rememberPeer peer i =
     (let presented = toBase64Url (signingPublicKey i) in
     act_bind (act_read (\<lambda>m. js_get (mg_sessionMeta m) peer)) (\<lambda>existing.
     act_bind (if existing = None then put_meta peer i else act_return ()) (\<lambda>_.
     act_bind (get_contact peer) (\<lambda>contact. case contact of
       None \<Rightarrow> save_contact peer (new_contact peer presented Unverified)
     | Some c \<Rightarrow> if ct_identityKey c \<noteq> presented \<and> ct_verification c \<noteq> Changed then flag_change peer c
         else act_return ()))))"

section \<open>Sending\<close>

definition encrypt_for :: "noble \<Rightarrow> fresh \<Rightarrow> private_identity \<Rightarrow> string \<Rightarrow> session \<Rightarrow> bytes \<Rightarrow> (sealed_envelope, 'w) step" where
  "encrypt_for N f i peer s plaintext m = (case encryptMessage N f i s plaintext of
     (r, s') \<Rightarrow> (r, m\<lparr>mg_sessions := js_set peer s' (mg_sessions m)\<rparr>))"

definition sendPayload :: "noble \<Rightarrow> 'w transport \<Rightarrow> string \<Rightarrow> payload \<Rightarrow> (unit, 'w) step" where
  "sendPayload N T peer p =
     act_bind (ensureSession N T peer) (\<lambda>s.
     act_bind get_identity (\<lambda>i.
     act_bind (draws 1) (\<lambda>fs.
     act_bind (encrypt_for N (fs 0) i peer s (encodePayload p)) (\<lambda>envelope.
     on_client (client_send T envelope)))))"

text \<open>\<open>n ? now() + n * 1000 : undefined\<close>, with the clock read only for the former.\<close>

definition expiry :: "int option \<Rightarrow> (int option, 'w) step" where
  "expiry n = (if n = None \<or> n = Some 0 then act_return None
     else act_bind now_ms (\<lambda>t. act_return (Some (t + the n * 1000))))"

definition sendText :: "noble \<Rightarrow> 'w transport \<Rightarrow> string \<Rightarrow> string \<Rightarrow> int option \<Rightarrow> (app_message, 'w) step" where
  "sendText N T peer body expires =
     act_bind (draws 1) (\<lambda>fs.
     act_bind now_ms (\<lambda>t.
     act_bind (expiry expires) (\<lambda>x.
     let msg = \<lparr>msg_id = toHex (take 12 (fst (fs 0))), msg_conversationAddress = peer, msg_direction = Outgoing,
           msg_body = body, msg_timestamp = t, msg_status = Pending, msg_expiresAt = x\<rparr>;
         failed = msg\<lparr>msg_status := Failed\<rparr>; sent = msg\<lparr>msg_status := Sent\<rparr> in
     act_bind (put_message (msg_id msg) msg) (\<lambda>_.
     act_bind (notify (OnMessage msg)) (\<lambda>_.
     act_bind (act_try (sendPayload N T peer (PText (msg_id msg) body (if expires = Some 0 then None else expires)))
       (\<lambda>e. act_bind (put_message (msg_id msg) failed) (\<lambda>_.
            act_bind (notify (OnMessage failed)) (\<lambda>_. act_throw e)))) (\<lambda>_.
     act_bind (put_message (msg_id msg) sent) (\<lambda>_.
     act_bind (touchConversation peer body 0) (\<lambda>_.
     act_bind (notify (OnMessage sent)) (\<lambda>_. act_return sent)))))))))"

definition sendCallPayload :: "noble \<Rightarrow> 'w transport \<Rightarrow> string \<Rightarrow> payload \<Rightarrow> (unit, 'w) step" where
  "sendCallPayload N T peer p = sendPayload N T peer p"

definition sendTyping :: "noble \<Rightarrow> 'w transport \<Rightarrow> string \<Rightarrow> bool \<Rightarrow> (unit, 'w) step" where
  "sendTyping N T peer b = act_bind (act_read (\<lambda>m. mo_sendTypingIndicators (mg_options m))) (\<lambda>on.
     if \<not> on then act_return () else sendPayload N T peer (PTyping b))"

definition sendReceipt :: "noble \<Rightarrow> 'w transport \<Rightarrow> string \<Rightarrow> string list \<Rightarrow> receipt \<Rightarrow> (unit, 'w) step" where
  "sendReceipt N T peer ids r = act_bind (act_read (\<lambda>m. mo_sendReceipts (mg_options m))) (\<lambda>on.
     if \<not> on \<or> ids = [] then act_return () else sendPayload N T peer (PReceipt ids r))"

section \<open>Receiving\<close>

text \<open>
  The session found by \<open>lookupSession\<close> is changed in place by the decryption, also when it
  throws or its result is discarded; so is the prekey store.
\<close>

definition decrypt_delivered ::
  "noble \<Rightarrow> fresh \<Rightarrow> private_identity \<Rightarrow> sealed_envelope \<Rightarrow> prekey_store \<Rightarrow> (decrypted_message, 'w) step" where
  "decrypt_delivered N f i envelope store m =
     (case decryptEnvelope store_resolver N f i envelope (js_get (mg_sessions m)) (js_get (mg_pins m)) store of
        (r, mutated, store') \<Rightarrow>
          (r, m\<lparr>mg_preKeys := Some store',
               mg_sessions := (case (mutated, open_checked N i envelope (js_get (mg_pins m))) of
                  (Some s, Inr (_, address)) \<Rightarrow> js_set address s (mg_sessions m)
                | _ \<Rightarrow> mg_sessions m)\<rparr>))"

fun status_of :: "receipt \<Rightarrow> message_status" where
  "status_of ReceiptDelivered = Delivered"
| "status_of ReceiptRead = Read"

definition apply_receipt :: "receipt \<Rightarrow> string \<Rightarrow> (unit, 'w) step" where
  "apply_receipt r i = act_bind (act_read (\<lambda>m. js_get (mg_messages m) i)) (\<lambda>x. case x of
     None \<Rightarrow> act_return ()
   | Some msg \<Rightarrow> if msg_direction msg \<noteq> Outgoing then act_return ()
       else let msg = msg\<lparr>msg_status := status_of r\<rparr> in
         act_bind (put_message i msg) (\<lambda>_. notify (OnMessage msg)))"

fun onPayload :: "noble \<Rightarrow> 'w transport \<Rightarrow> string \<Rightarrow> payload \<Rightarrow> (unit, 'w) step" where
  "onPayload N T peer (PText i body expires) =
     act_bind now_ms (\<lambda>t.
     act_bind (expiry expires) (\<lambda>x.
     let msg = \<lparr>msg_id = i, msg_conversationAddress = peer, msg_direction = Incoming, msg_body = body,
           msg_timestamp = t, msg_status = Delivered, msg_expiresAt = x\<rparr> in
     act_bind (put_message i msg) (\<lambda>_.
     act_bind (touchConversation peer body 1) (\<lambda>_.
     act_bind (notify (OnMessage msg)) (\<lambda>_.
     sendReceipt N T peer [i] ReceiptDelivered)))))"
| "onPayload N T peer (PReceipt ids r) = act_each (apply_receipt r) ids"
| "onPayload N T peer (PTyping b) = notify (OnTyping peer b)"
| "onPayload N T peer (PCallOffer a b c d) = notify (OnCallPayload peer (PCallOffer a b c d))"
| "onPayload N T peer (PCallAnswer a b c) = notify (OnCallPayload peer (PCallAnswer a b c))"
| "onPayload N T peer (PCallIce a b) = notify (OnCallPayload peer (PCallIce a b))"
| "onPayload N T peer (PCallHangup a b) = notify (OnCallPayload peer (PCallHangup a b))"

text \<open>The decision of the pairing lock on a decrypted message.\<close>

definition inbound_decision :: "string \<Rightarrow> public_identity \<Rightarrow> 'w messenger \<Rightarrow> refusal option" where
  "inbound_decision peer i m =
     (if paired m then decideInbound (mg_pairing m) peer (toBase64Url (signingPublicKey i)) else None)"

definition accept_delivered ::
  "noble \<Rightarrow> 'w transport \<Rightarrow> string \<Rightarrow> decrypted_message \<Rightarrow> (bool, 'w) step" where
  "accept_delivered N T peer d =
     act_bind (put_session peer (dm_session d)) (\<lambda>_.
     act_bind (rememberPeer peer (senderIdentity d)) (\<lambda>_.
     act_bind (act_lift (decodePayload (dm_plaintext d))) (\<lambda>v.
     act_bind (act_some (payload_of v)) (\<lambda>p.
     act_bind (onPayload N T peer p) (\<lambda>_. act_return True)))))"

definition process_delivered :: "noble \<Rightarrow> 'w transport \<Rightarrow> wire_envelope \<Rightarrow> (bool, 'w) step" where
  "process_delivered N T w =
     act_bind (act_lift (decodeEnvelope w)) (\<lambda>envelope.
     act_bind get_identity (\<lambda>i.
     act_bind get_preKeys (\<lambda>store.
     act_bind (draws 1) (\<lambda>fs.
     act_bind (decrypt_delivered N (fs 0) i envelope store) (\<lambda>d.
     act_bind (act_lift (addressOf N (senderIdentity d))) (\<lambda>peer.
     act_bind (act_read (inbound_decision peer (senderIdentity d))) (\<lambda>decision. case decision of
         Some r \<Rightarrow> act_bind (notify (OnBlocked r)) (\<lambda>_. act_return False)
       | None \<Rightarrow> accept_delivered N T peer d)))))))"

definition report_failure :: "error \<Rightarrow> (bool, 'w) step" where
  "report_failure e = (case e of
     IdentityChangedError _ presented \<Rightarrow> act_bind (notify (OnIdentityChanged presented)) (\<lambda>_. act_return False)
   | _ \<Rightarrow> act_return False)"

definition handleDelivered :: "noble \<Rightarrow> 'w transport \<Rightarrow> delivered_message \<Rightarrow> (string \<times> bool, 'w) step" where
  "handleDelivered N T d = act_bind (act_try (process_delivered N T (dm_envelope d)) report_failure)
     (\<lambda>ok. act_return (dm_id d, ok))"

fun handle_all :: "noble \<Rightarrow> 'w transport \<Rightarrow> delivered_message list \<Rightarrow> ((string \<times> bool) list, 'w) step" where
  "handle_all N T [] = act_return []"
| "handle_all N T (d # ds) = act_bind (handleDelivered N T d) (\<lambda>r.
     act_bind (handle_all N T ds) (\<lambda>rs. act_return (r # rs)))"

definition replenishPreKeysIfNeeded :: "noble \<Rightarrow> 'w transport \<Rightarrow> (bool, 'w) step" where
  "replenishPreKeysIfNeeded N T =
     act_bind (act_try (act_bind (on_client (preKeyCount T)) (\<lambda>c. act_return (Some c))) (\<lambda>_. act_return None)) (\<lambda>counts.
     case counts of None \<Rightarrow> act_return False
     | Some c \<Rightarrow>
        if (case c of None \<Rightarrow> False | Some (a, b) \<Rightarrow> PREKEY_LOW_WATER \<le> a \<and> PREKEY_LOW_WATER \<le> b) then act_return False
        else act_bind get_preKeys (\<lambda>store.
          act_bind (draws 200) (\<lambda>fs.
          let (keys, store') = replenishOneTimePreKeys N fs (\<lambda>k. fs (100 + k)) 100 store in
          act_bind (act_modify (\<lambda>m. m\<lparr>mg_preKeys := Some store'\<rparr>)) (\<lambda>_.
          act_bind (on_client (uploadPreKeys T keys)) (\<lambda>_. act_return True)))))"

definition sync :: "noble \<Rightarrow> 'w transport \<Rightarrow> (nat \<times> nat, 'w) step" where
  "sync N T =
     act_bind (on_client (fetchMessages T)) (\<lambda>queued.
     act_bind (handle_all N T queued) (\<lambda>results.
     act_bind (on_client (client_acknowledge T (map fst results))) (\<lambda>_.
     act_bind (replenishPreKeysIfNeeded N T) (\<lambda>_.
     act_return (length queued, length (filter (\<lambda>r. \<not> snd r) results))))))"

section \<open>Contacts and verification\<close>

definition listContacts :: "(contact list, 'w) step" where
  "listContacts = act_read (\<lambda>m. map snd (mg_contacts m))"

definition messenger_identity :: "string \<Rightarrow> (public_identity option, 'w) step" where
  "messenger_identity address = act_bind (act_read (\<lambda>m. js_get (mg_sessionMeta m) address)) (\<lambda>w. case w of
     None \<Rightarrow> act_return None
   | Some w \<Rightarrow> act_bind (act_lift (decodeIdentity w)) (\<lambda>i. act_return (Some i)))"

definition safetyNumberWith :: "noble \<Rightarrow> string \<Rightarrow> (string option, 'w) step" where
  "safetyNumberWith N address = act_bind (messenger_identity address) (\<lambda>i. case i of
     None \<Rightarrow> act_return None
   | Some i \<Rightarrow> act_bind get_identity (\<lambda>self.
       act_bind (act_lift (safetyNumber N (publicIdentityOf self) i)) (\<lambda>n. act_return (Some n))))"

definition verificationCode :: "(string, 'w) step" where
  "verificationCode = act_bind get_identity (\<lambda>i.
     act_bind (act_lift (verificationQrPayload (publicIdentityOf i))) (\<lambda>b. act_return (toBase64Url b)))"

definition addContactFromCode :: "noble \<Rightarrow> string \<Rightarrow> (string, 'w) step" where
  "addContactFromCode N input =
     act_bind (act_lift (fromBase64Url input)) (\<lambda>b.
     act_bind (act_lift (parseVerificationQrPayload N b)) (\<lambda>i.
     act_bind (act_lift (addressOf N i)) (\<lambda>peer.
     act_bind (act_read mg_address) (\<lambda>own.
     if own = Some peer then act_throw OtherError else
     act_bind (put_meta peer i) (\<lambda>_.
     act_bind (get_contact peer) (\<lambda>existing.
     let key = toBase64Url (signingPublicKey i);
         c = (case existing of Some c \<Rightarrow> c | None \<Rightarrow> new_contact peer key Verified);
         c = c\<lparr>ct_identityKey := key, ct_verification := Verified, ct_identityChangedAt := None\<rparr> in
     act_bind (put_contact peer c) (\<lambda>_.
     act_bind (put_pin peer (signingPublicKey i)) (\<lambda>_.
     act_bind (notify (OnContactChanged c)) (\<lambda>_.
     act_bind (touchConversation peer '''' 0) (\<lambda>_. act_return peer))))))))))"

definition markVerified :: "string \<Rightarrow> (unit, 'w) step" where
  "markVerified address = act_bind (get_contact address) (\<lambda>c. case c of
     None \<Rightarrow> act_throw OtherError
   | Some c \<Rightarrow> let c = c\<lparr>ct_verification := Verified, ct_identityChangedAt := None\<rparr> in
       act_bind (put_contact address c) (\<lambda>_.
       act_bind (act_lift (fromBase64Url (ct_identityKey c))) (\<lambda>k.
       act_bind (put_pin address k) (\<lambda>_. notify (OnContactChanged c)))))"

definition acceptIdentityChange :: "'w transport \<Rightarrow> string \<Rightarrow> (unit, 'w) step" where
  "acceptIdentityChange T address = act_bind (get_contact address) (\<lambda>c. case c of
     None \<Rightarrow> act_return ()
   | Some c \<Rightarrow>
       act_bind (act_modify (\<lambda>m. m\<lparr>mg_sessions := js_delete address (mg_sessions m),
         mg_pins := js_delete address (mg_pins m), mg_sessionMeta := js_delete address (mg_sessionMeta m)\<rparr>)) (\<lambda>_.
       act_bind (on_client (fetchBundle T address)) (\<lambda>bundle.
       save_contact address (c\<lparr>ct_identityKey := toBase64Url (signingPublicKey (identity bundle)),
         ct_verification := Unverified\<rparr>))))"

definition renameContact :: "string \<Rightarrow> string \<Rightarrow> (unit, 'w) step" where
  "renameContact address name = act_bind (get_contact address) (\<lambda>c. case c of
     None \<Rightarrow> act_return ()
   | Some c \<Rightarrow> save_contact address (c\<lparr>ct_displayName := name\<rparr>))"

definition load_pin :: "contact \<Rightarrow> (unit, 'w) step" where
  "load_pin c = (if ct_verification c = Verified
     then act_bind (act_lift (fromBase64Url (ct_identityKey c))) (put_pin (ct_address c)) else act_return ())"

definition loadPins :: "(unit, 'w) step" where
  "loadPins = act_bind listContacts (act_each load_pin)"

section \<open>History\<close>

definition expired :: "int \<Rightarrow> app_message \<Rightarrow> bool" where
  "expired now m = (case msg_expiresAt m of None \<Rightarrow> False | Some x \<Rightarrow> x \<le> now)"

fun sweep_history :: "string \<Rightarrow> int \<Rightarrow> (string \<times> app_message) list \<Rightarrow> (app_message list, 'w) step" where
  "sweep_history address now [] = act_return []"
| "sweep_history address now ((i, x) # rows) =
     (if msg_conversationAddress x \<noteq> address then sweep_history address now rows
      else if expired now x then act_bind (delete_message i) (\<lambda>_. sweep_history address now rows)
      else act_bind (sweep_history address now rows) (\<lambda>live. act_return (x # live)))"

definition history :: "string \<Rightarrow> (app_message list, 'w) step" where
  "history address =
     act_bind (act_read mg_messages) (\<lambda>rows.
     act_bind now_ms (\<lambda>now.
     act_bind (sweep_history address now rows) (\<lambda>live. act_return (sort_key msg_timestamp live))))"

definition delete_of :: "string \<Rightarrow> string \<times> app_message \<Rightarrow> (unit, 'w) step" where
  "delete_of address row = (if msg_conversationAddress (snd row) = address then delete_message (fst row) else act_return ())"

definition deleteConversation :: "string \<Rightarrow> (unit, 'w) step" where
  "deleteConversation address =
     act_bind (act_read mg_messages) (\<lambda>rows.
     act_bind (act_each (delete_of address) rows) (\<lambda>_.
     act_modify (\<lambda>m. m\<lparr>mg_conversations := js_delete address (mg_conversations m),
       mg_sessionMeta := js_delete address (mg_sessionMeta m), mg_sessions := js_delete address (mg_sessions m)\<rparr>)))"

fun sweep_expired :: "int \<Rightarrow> (string \<times> app_message) list \<Rightarrow> nat \<Rightarrow> (nat, 'w) step" where
  "sweep_expired now [] removed = act_return removed"
| "sweep_expired now ((i, x) # rows) removed =
     (if expired now x then act_bind (delete_message i) (\<lambda>_. sweep_expired now rows (removed + 1))
      else sweep_expired now rows removed)"

definition purgeExpired :: "(nat, 'w) step" where
  "purgeExpired = act_bind now_ms (\<lambda>now. act_bind (act_read mg_messages) (\<lambda>rows. sweep_expired now rows 0))"

section \<open>Pairing\<close>

definition pairedPeer :: "(pairing_state option, 'w) step" where
  "pairedPeer = act_read mg_pairing"

definition pairWithCode :: "noble \<Rightarrow> string \<Rightarrow> string \<Rightarrow> (pairing_state, 'w) step" where
  "pairWithCode N input name = act_bind pairedPeer (\<lambda>p.
     if p \<noteq> None then act_throw OtherError else
     act_bind (addContactFromCode N input) (\<lambda>peer.
     act_bind (get_contact peer) (\<lambda>c.
     act_bind (act_some c) (\<lambda>c.
     act_bind now_ms (\<lambda>t.
     act_bind (act_lift (createPairing peer (ct_identityKey c) name t)) (\<lambda>p.
     act_bind (set_pairing p) (\<lambda>_. act_return p)))))))"

definition unpair :: "(unit, 'w) step" where
  "unpair = act_bind pairedPeer (\<lambda>p.
     act_bind (case p of
         None \<Rightarrow> act_return ()
       | Some p \<Rightarrow> act_bind (deleteConversation (ps_peerAddress p)) (\<lambda>_.
           act_modify (\<lambda>m. m\<lparr>mg_pins := js_delete (ps_peerAddress p) (mg_pins m),
             mg_contacts := js_delete (ps_peerAddress p) (mg_contacts m)\<rparr>))) (\<lambda>_.
     act_modify (\<lambda>m. m\<lparr>mg_pairingStore := js_delete ''peer'' (mg_pairingStore m), mg_pairing := None\<rparr>)))"

definition renamePairedPeer :: "string \<Rightarrow> (unit, 'w) step" where
  "renamePairedPeer name = act_bind pairedPeer (\<lambda>p. case p of
     None \<Rightarrow> act_return ()
   | Some p \<Rightarrow> act_bind (set_pairing (p\<lparr>ps_displayName := name\<rparr>)) (\<lambda>_. renameContact (ps_peerAddress p) name))"

definition liveSessions :: "(session list, 'w) step" where
  "liveSessions = act_read (\<lambda>m. map snd (mg_sessions m))"

section \<open>Every method\<close>

datatype messenger_call =
    Initialise
  | SetDisappearTimer string int
  | StartConversation string
  | AddContactFromCode string
  | SendText string string "int option"
  | SendCallPayload string payload
  | SendTyping string bool
  | SendReceipt string "string list" receipt
  | HandleDelivered delivered_message
  | Sync
  | ReplenishPreKeys
  | MarkVerified string
  | AcceptIdentityChange string
  | RenameContact string string
  | LoadPins
  | History string
  | MarkRead string
  | DeleteConversation string
  | PairWithCode string string
  | Unpair
  | RenamePairedPeer string
  | PurgeExpired

text \<open>The state after a call, whether it returns or throws. The other methods only read.\<close>

abbreviation after :: "('a, 's) act \<Rightarrow> 's \<Rightarrow> 's" where
  "after f s \<equiv> snd (f s)"

fun messenger_step :: "noble \<Rightarrow> 'w transport \<Rightarrow> messenger_call \<Rightarrow> 'w messenger \<Rightarrow> 'w messenger" where
  "messenger_step N T Initialise = after (initialise N T)"
| "messenger_step N T (SetDisappearTimer a n) = after (setDisappearTimer a n)"
| "messenger_step N T (StartConversation a) = after (startConversation N T a)"
| "messenger_step N T (AddContactFromCode s) = after (addContactFromCode N s)"
| "messenger_step N T (SendText a b x) = after (sendText N T a b x)"
| "messenger_step N T (SendCallPayload a p) = after (sendCallPayload N T a p)"
| "messenger_step N T (SendTyping a b) = after (sendTyping N T a b)"
| "messenger_step N T (SendReceipt a ids r) = after (sendReceipt N T a ids r)"
| "messenger_step N T (HandleDelivered d) = after (handleDelivered N T d)"
| "messenger_step N T Sync = after (sync N T)"
| "messenger_step N T ReplenishPreKeys = after (replenishPreKeysIfNeeded N T)"
| "messenger_step N T (MarkVerified a) = after (markVerified a)"
| "messenger_step N T (AcceptIdentityChange a) = after (acceptIdentityChange T a)"
| "messenger_step N T (RenameContact a n) = after (renameContact a n)"
| "messenger_step N T LoadPins = after loadPins"
| "messenger_step N T (History a) = after (history a)"
| "messenger_step N T (MarkRead a) = after (markRead a)"
| "messenger_step N T (DeleteConversation a) = after (deleteConversation a)"
| "messenger_step N T (PairWithCode s n) = after (pairWithCode N s n)"
| "messenger_step N T Unpair = after unpair"
| "messenger_step N T (RenamePairedPeer n) = after (renamePairedPeer n)"
| "messenger_step N T PurgeExpired = after purgeExpired"

abbreviation messenger_run :: "noble \<Rightarrow> 'w transport \<Rightarrow> messenger_call list \<Rightarrow> 'w messenger \<Rightarrow> 'w messenger" where
  "messenger_run N T calls m \<equiv> fold (messenger_step N T) calls m"

end
