(* ===== verification/App_Lock.thy ===== *)
theory App_Lock
  imports App_Messenger
begin

text \<open>
  The pairing lock of the messenger over every run of its methods, with an arbitrary relay: one
  preservation lemma per method, on the triples of App_Actions.
\<close>

section \<open>The invariant\<close>

fun incoming_peer :: "messenger_event \<Rightarrow> string option" where
  "incoming_peer (OnMessage x) = (if msg_direction x = Incoming then Some (msg_conversationAddress x) else None)"
| "incoming_peer (OnCallPayload a p) = Some a"
| "incoming_peer (OnTyping a b) = Some a"
| "incoming_peer _ = None"

abbreviation peer_of :: "pairing_state option \<Rightarrow> string option" where
  "peer_of p \<equiv> map_option ps_peerAddress p"

text \<open>
  Paired with \<open>p\<close>, the stored pairing being \<open>st\<close>: sessions with its peer only, and since there
  were \<open>k\<close> events and the messages \<open>M\<close>, incoming traffic of \<open>q\<close> only.
\<close>

definition lock ::
  "pairing_state option \<Rightarrow> pairing_state option \<Rightarrow> string option \<Rightarrow> nat \<Rightarrow> (string \<times> app_message) set \<Rightarrow> 'w messenger \<Rightarrow> bool" where
  "lock p st q k M m \<longleftrightarrow> paired m \<and> mg_pairing m = p \<and> js_get (mg_pairingStore m) ''peer'' = st \<and>
     (\<forall>a \<in> fst ` set (mg_sessions m). peer_of p = Some a) \<and>
     k \<le> length (mg_events m) \<and> (\<forall>e \<in> set (drop k (mg_events m)). \<forall>a. incoming_peer e = Some a \<longrightarrow> q = Some a) \<and>
     (\<forall>(i, x) \<in> set (mg_messages m). msg_direction x = Incoming \<longrightarrow> (i, x) \<in> M \<or> q = Some (msg_conversationAddress x))"

lemma keeps_read_bind: "(\<And>s. P s \<Longrightarrow> keeps P (g (f s))) \<Longrightarrow> keeps P (act_bind (act_read f) g)"
  by (simp add: keeps_iff act_bind_def act_read_def)

lemma set_update: "e \<in> set (js_set k v m) \<Longrightarrow> e = (k, v) \<or> e \<in> set m"
  by (induction m) (auto split: if_splits)

lemma set_delete: "set (js_delete k m) \<subseteq> set m"
  by (auto simp: AList.delete_eq)

text \<open>Actions on other fields, and those that respect the lock.\<close>

lemma lock_fields [simp]:
  "lock p st q k M (m\<lparr>mg_contacts := a\<rparr>) = lock p st q k M m"
  "lock p st q k M (m\<lparr>mg_conversations := b\<rparr>) = lock p st q k M m"
  "lock p st q k M (m\<lparr>mg_sessionMeta := c\<rparr>) = lock p st q k M m"
  "lock p st q k M (m\<lparr>mg_pins := d\<rparr>) = lock p st q k M m"
  "lock p st q k M (m\<lparr>mg_client := e\<rparr>) = lock p st q k M m"
  "lock p st q k M (m\<lparr>mg_secrets := f\<rparr>) = lock p st q k M m"
  "lock p st q k M (m\<lparr>mg_clock := g\<rparr>) = lock p st q k M m"
  "lock p st q k M (m\<lparr>mg_random := h\<rparr>) = lock p st q k M m"
  "lock p st q k M (m\<lparr>mg_identity := i\<rparr>) = lock p st q k M m"
  "lock p st q k M (m\<lparr>mg_preKeys := j\<rparr>) = lock p st q k M m"
  "lock p st q k M (m\<lparr>mg_address := l\<rparr>) = lock p st q k M m"
  by (simp_all add: lock_def paired_def)

lemma lock_session: "lock p st q k M m \<Longrightarrow> a \<in> fst ` set (mg_sessions m) \<or> peer_of p = Some a \<Longrightarrow>
    lock p st q k M (m\<lparr>mg_sessions := js_set a s (mg_sessions m)\<rparr>)"
  by (auto simp: lock_def paired_def js_keys_set)

lemma lock_event: "lock p st q k M m \<Longrightarrow> incoming_peer e = None \<or> q = incoming_peer e \<Longrightarrow>
    lock p st q k M (m\<lparr>mg_events := mg_events m @ [e]\<rparr>)"
  by (auto simp: lock_def paired_def)

lemma lock_message:
  "lock p st q k M m \<Longrightarrow> msg_direction x = Incoming \<Longrightarrow> q = Some (msg_conversationAddress x) \<Longrightarrow>
    lock p st q k M (m\<lparr>mg_messages := js_set i x (mg_messages m)\<rparr>)"
  "lock p st q k M m \<Longrightarrow> msg_direction x = Outgoing \<Longrightarrow> lock p st q k M (m\<lparr>mg_messages := js_set i x (mg_messages m)\<rparr>)"
  by (auto simp: lock_def paired_def dest!: set_update)

lemma lock_delete:
  "lock p st q k M m \<Longrightarrow> lock p st q k M (m\<lparr>mg_messages := js_delete i (mg_messages m)\<rparr>)"
  "lock p st q k M m \<Longrightarrow> lock p st q k M (m\<lparr>mg_sessions := js_delete a (mg_sessions m)\<rparr>)"
  using set_delete[of i "mg_messages m"] by (auto simp: lock_def paired_def js_keys_delete)

lemma lock_drop:
  "lock p st q k M m \<Longrightarrow> ss = mg_sessions m \<Longrightarrow> lock p st q k M (m\<lparr>mg_sessions := js_delete a ss\<rparr>)"
  by (simp add: lock_delete)

lemma lock_basic [act_rules]:
  "keeps (lock p st q k M) now_ms" "keeps (lock p st q k M) (draws n)"
  "keeps (lock p st q k M) (put_contact a c)" "keeps (lock p st q k M) (get_contact a)"
  "keeps (lock p st q k M) (put_conversation a v)" "keeps (lock p st q k M) (put_meta a i)"
  "keeps (lock p st q k M) (put_pin a b)" "keeps (lock p st q k M) (put_secret a x)"
  "keeps (lock p st q k M) (delete_message a)" "keeps (lock p st q k M) get_identity" "keeps (lock p st q k M) get_preKeys"
  "keeps (lock p st q k M) (set_identity idt)" "keeps (lock p st q k M) (on_client f)"
  by (auto simp: keeps_iff now_ms_def draws_def put_contact_def get_contact_def put_conversation_def put_meta_def
      put_pin_def put_secret_def delete_message_def get_identity_def get_preKeys_def set_identity_def on_client_def
      act_defs act_some_def lock_delete split: prod.split option.split)

lemma lock_notify: "incoming_peer e = None \<or> q = incoming_peer e \<Longrightarrow> keeps (lock p st q k M) (notify e)"
  by (simp add: keeps_iff notify_def act_modify_def lock_event)

lemma lock_notify_quiet [act_rules]:
  "keeps (lock p st q k M) (notify (OnConversationChanged v))" "keeps (lock p st q k M) (notify (OnContactChanged c))"
  "keeps (lock p st q k M) (notify (OnIdentityChanged a))" "keeps (lock p st q k M) (notify (OnBlocked r))"
  by (simp_all add: lock_notify)

section \<open>Methods\<close>

lemma lock_touch [act_rules]: "keeps (lock p st q k M) (touchConversation a v n)"
  unfolding touchConversation_def by (intro act_rules)

lemma lock_with_conversation [act_rules]: "keeps (lock p st q k M) (with_conversation a f)"
  unfolding with_conversation_def by (intro act_rules)

lemma lock_contact_ops [act_rules]:
  "keeps (lock p st q k M) (save_contact a c)" "keeps (lock p st q k M) (flag_change a c)"
  "keeps (lock p st q k M) (rememberPeer a i)"
  unfolding save_contact_def flag_change_def rememberPeer_def by (intro act_rules; simp)+

lemma lock_open_session:
  assumes "peer_of p = Some a"
  shows "keeps (lock p st q k M) (open_session N T a)"
proof -
  have [act_rules]: "keeps (lock p st q k M) (put_session a s)" for s
    using assms by (simp add: keeps_iff put_session_def act_modify_def lock_session)
  show ?thesis unfolding open_session_def by (intro act_rules)
qed

text \<open>A session is only opened, and only written to, with the peer.\<close>

lemma lock_ensure:
  "triple (lock p st q k M) (ensureSession N T a) (\<lambda>s m. lock p st q k M m \<and> peer_of p = Some a) (lock p st q k M)"
  unfolding triple_def
proof (intro allI impI)
  fix m :: "'a messenger" assume l: "lock p st q k M m"
  then have m: "paired m" "mg_pairing m = p" by (simp_all add: lock_def)
  show "case ensureSession N T a m of (Inr s, m') \<Rightarrow> lock p st q k M m' \<and> peer_of p = Some a | (Inl e, m') \<Rightarrow> lock p st q k M m'"
  proof (cases "peer_of p = Some a")
    case True
    have "lock p st q k M (snd (open_session N T a m))" by (rule keepsD[OF lock_open_session[OF True] l])
    moreover have "decideOutbound p a = None" using True by (auto simp: decideOutbound_def split: option.split)
    ultimately show ?thesis using True l
      by (auto simp: ensureSession_def act_defs m case_prod_unfold split: sum.split option.split)
  next
    case False
    then have "decideOutbound p a \<noteq> None" by (auto simp: decideOutbound_def split: option.split)
    then show ?thesis using l by (simp add: ensureSession_def act_defs m)
  qed
qed

lemma lock_encrypt: "peer_of p = Some a \<Longrightarrow> keeps (lock p st q k M) (encrypt_for N f i a s b)"
  by (simp add: keeps_iff encrypt_for_def lock_session split: prod.split)

lemma lock_sendPayload [act_rules]: "keeps (lock p st q k M) (sendPayload N T a x)"
  unfolding sendPayload_def
  by (rule triple_bind[OF lock_ensure], rule keeps_pureD) (intro act_rules lock_encrypt, assumption)

lemma lock_startConversation [act_rules]: "keeps (lock p st q k M) (startConversation N T a)"
  unfolding startConversation_def
  by (rule triple_bind[OF lock_ensure], rule keeps_pureD) (rule lock_touch)

lemma lock_expiry [act_rules]: "keeps (lock p st q k M) (expiry n)"
  unfolding expiry_def by (intro act_rules)

lemma lock_put_outgoing: "msg_direction x = Outgoing \<Longrightarrow> keeps (lock p st q k M) (put_message i x)"
  by (simp add: keeps_iff put_message_def act_modify_def lock_message)

lemma lock_put_incoming:
  "msg_direction x = Incoming \<Longrightarrow> q = Some (msg_conversationAddress x) \<Longrightarrow> keeps (lock p st q k M) (put_message i x)"
  by (simp add: keeps_iff put_message_def act_modify_def lock_message)

lemma lock_sending [act_rules]:
  "keeps (lock p st q k M) (sendText N T a b x)" "keeps (lock p st q k M) (sendCallPayload N T a y)"
  "keeps (lock p st q k M) (sendTyping N T a v)" "keeps (lock p st q k M) (sendReceipt N T a ids r)"
  unfolding sendText_def sendCallPayload_def sendTyping_def sendReceipt_def Let_def
  by (intro act_rules lock_put_outgoing lock_notify; simp)+

lemma lock_receipt [act_rules]: "keeps (lock p st q k M) (apply_receipt r i)"
  unfolding apply_receipt_def Let_def by (intro act_rules lock_put_outgoing lock_notify) simp_all

lemma lock_onPayload:
  assumes "q = Some a"
  shows "keeps (lock p st q k M) (onPayload N T a x)"
  using assms by (cases x) (auto simp: Let_def intro!: act_rules lock_put_incoming lock_notify)

lemma lock_accept:
  assumes "peer_of p = Some a" and "q = Some a"
  shows "keeps (lock p st q k M) (accept_delivered N T a d)"
  unfolding accept_delivered_def
  by (intro act_rules lock_onPayload[OF assms(2)]) (simp add: keeps_iff put_session_def act_modify_def lock_session assms)

text \<open>Only a session that exists is changed in place.\<close>

lemma mutated_existing:
  assumes "decryptEnvelope R N f i env lookup pins s = (r, Some t, s')" and "open_checked N i env pins = Inr (opened, a)"
  shows "lookup a \<noteq> None"
  using assms by (auto simp: decryptEnvelope_def decrypt_opened_def decrypt_new_def same_handshake_def Let_def
      split: if_splits sum.splits option.splits prod.splits)

lemma lock_decrypt [act_rules]: "keeps (lock p st q k M) (decrypt_delivered N f i env store)"
proof (rule keepsI)
  fix m assume m: "lock p st q k M m"
  obtain r t s' where d: "decryptEnvelope store_resolver N f i env (js_get (mg_sessions m)) (js_get (mg_pins m)) store = (r, t, s')"
    by (metis prod.exhaust)
  show "lock p st q k M (snd (decrypt_delivered N f i env store m))"
  proof (cases "\<exists>s opened a. t = Some s \<and> open_checked N i env (js_get (mg_pins m)) = Inr (opened, a)")
    case True
    then obtain s opened a where t: "t = Some s" "open_checked N i env (js_get (mg_pins m)) = Inr (opened, a)" by blast
    from mutated_existing[OF d[unfolded t(1)] t(2)] have "js_get (mg_sessions m) a \<noteq> None" .
    then have "a \<in> fst ` set (mg_sessions m)" by (auto dest: map_of_SomeD intro: rev_image_eqI)
    from lock_session[of p st q k M "m\<lparr>mg_preKeys := Some s'\<rparr>" a s] this m show ?thesis by (simp add: decrypt_delivered_def d t)
  next
    case False
    then have "mg_preKeys (snd (decrypt_delivered N f i env store m)) = Some s' \<and>
        snd (decrypt_delivered N f i env store m) = m\<lparr>mg_preKeys := Some s', mg_sessions := mg_sessions m\<rparr>"
      by (auto simp: decrypt_delivered_def d split: option.split sum.split)
    then show ?thesis using m by simp
  qed
qed

lemma lock_decision:
  "lock p st q k M m \<Longrightarrow> inbound_decision a i m = None \<Longrightarrow> peer_of p = Some a"
  by (auto simp: lock_def inbound_decision_def decideInbound_def split: option.splits if_splits)

lemma lock_handle:
  assumes "q = peer_of p"
  shows "keeps (lock p st q k M) (handleDelivered N T d)"
proof -
  have "keeps (lock p st q k M) (case inbound_decision a i m of Some r \<Rightarrow> act_bind (notify (OnBlocked r)) (\<lambda>_. act_return False)
      | None \<Rightarrow> accept_delivered N T a x)" if "lock p st q k M m" for a i m x
    using lock_decision[OF that] assms by (auto intro!: act_rules lock_accept split: option.split)
  then have decided: "keeps (lock p st q k M) (act_bind (act_read (inbound_decision a i)) (\<lambda>dec. case dec of
      Some r \<Rightarrow> act_bind (notify (OnBlocked r)) (\<lambda>_. act_return False) | None \<Rightarrow> accept_delivered N T a x))" for a i x
    by (rule keeps_read_bind)
  show ?thesis
    unfolding handleDelivered_def process_delivered_def report_failure_def
    by (intro decided act_rules) (auto intro!: act_rules split: error.split)
qed

lemma lock_handle_all: "q = peer_of p \<Longrightarrow> keeps (lock p st q k M) (handle_all N T ds)"
  by (induction ds) (auto intro!: act_rules lock_handle)

lemma lock_set_preKeys [act_rules]: "keeps (lock p st q k M) (act_modify (\<lambda>m. m\<lparr>mg_preKeys := Some s\<rparr>))"
  by (rule keeps_modify) simp

lemma lock_replenish [act_rules]: "keeps (lock p st q k M) (replenishPreKeysIfNeeded N T)"
  unfolding replenishPreKeysIfNeeded_def by (intro act_rules)

lemma lock_sync: "q = peer_of p \<Longrightarrow> keeps (lock p st q k M) (sync N T)"
  unfolding sync_def by (intro act_rules lock_handle_all)

lemma lock_contacts [act_rules]:
  "keeps (lock p st q k M) (addContactFromCode N s)" "keeps (lock p st q k M) (markVerified a)"
  "keeps (lock p st q k M) (renameContact a n)" "keeps (lock p st q k M) loadPins" "keeps (lock p st q k M) listContacts"
  unfolding addContactFromCode_def markVerified_def renameContact_def loadPins_def listContacts_def load_pin_def Let_def
  by (intro act_rules; assumption)+

lemma lock_accept_change [act_rules]: "keeps (lock p st q k M) (acceptIdentityChange T a)"
  unfolding acceptIdentityChange_def by (intro act_rules) (simp add: lock_drop)

lemma lock_history [act_rules]:
  "keeps (lock p st q k M) (sweep_history a t rows)" "keeps (lock p st q k M) (sweep_expired t rows n)"
  by (induction rows arbitrary: n) (auto intro!: act_rules)

lemma lock_histories [act_rules]:
  "keeps (lock p st q k M) (history a)" "keeps (lock p st q k M) purgeExpired" "keeps (lock p st q k M) (deleteConversation a)"
  unfolding history_def purgeExpired_def deleteConversation_def delete_of_def
  by (intro act_rules; simp add: lock_drop)+

lemma lock_conversations [act_rules]:
  "keeps (lock p st q k M) (setDisappearTimer a n)" "keeps (lock p st q k M) (markRead a)"
  unfolding setDisappearTimer_def markRead_def by (intro act_rules)+

section \<open>Methods that change the pairing\<close>

lemma keeps_or:
  assumes "keeps P f" and "keeps Q f"
  shows "keeps (\<lambda>m. P m \<or> Q m) f"
  using assms by (auto simp: keeps_iff)

lemma lock_load [act_rules]: "keeps (lock p st q k M) (load_identity N)"
  unfolding load_identity_def store_identity_def by (intro act_rules)

lemma lock_initialise:
  assumes "lock p st q k M m" and "p \<noteq> None \<Longrightarrow> st = p"
  shows "lock p st q k M (after (initialise N T) m) \<or> lock st st q k M (after (initialise N T) m)"
proof -
  let ?J = "\<lambda>m. lock p st q k M m \<or> lock st st q k M m"
  have load: "?J (m\<lparr>mg_address := Some a, mg_pairing := js_get (mg_pairingStore m) ''peer''\<rparr>)" if "?J m" for m a
    using that assms(2) by (cases p) (auto simp: lock_def paired_def)
  have [act_rules]: "keeps ?J (act_modify (\<lambda>m. m\<lparr>mg_address := Some a, mg_pairing := js_get (mg_pairingStore m) ''peer''\<rparr>))"
    for a by (rule keeps_modify) (rule load)
  have "keeps ?J (initialise N T)" unfolding initialise_def by (intro act_rules keeps_or)
  from keepsD[OF this] assms(1) show ?thesis by simp
qed

lemma lock_pair:
  assumes "lock None st q k M m"
  shows "lock None st q k M (after (pairWithCode N s n) m) \<or> (\<exists>p. lock (Some p) (Some p) q k M (after (pairWithCode N s n) m))"
proof -
  let ?J = "\<lambda>m. lock None st q k M m \<or> (\<exists>p. lock (Some p) (Some p) q k M m)"
  have set: "triple (lock None st q k M) (act_bind (set_pairing p) (\<lambda>_. act_return p)) (\<lambda>_. ?J) ?J" for p
    by (auto simp: triple_def set_pairing_def act_defs lock_def paired_def)
  have "triple (lock None st q k M) (pairWithCode N s n) (\<lambda>_. ?J) ?J"
    unfolding pairWithCode_def pairedPeer_def
    by (intro set triple_seq act_rules triple_if triple_throw) simp_all
  from triple_after[OF this assms] show ?thesis .
qed

text \<open>Deleting a conversation never fails; the messages left are those of other conversations.\<close>

definition others :: "string \<Rightarrow> (string \<times> app_message) list \<Rightarrow> (string, app_message) jsmap \<Rightarrow> (string, app_message) jsmap" where
  "others a rows M = fold (\<lambda>r M. if msg_conversationAddress (snd r) = a then js_delete (fst r) M else M) rows M"

lemma delete_each: "act_each (delete_of a) rows m = (Inr (), m\<lparr>mg_messages := others a rows (mg_messages m)\<rparr>)"
  by (induction rows arbitrary: m) (simp_all add: act_defs delete_of_def delete_message_def others_def)

lemma deleteConversation_eq:
  "deleteConversation a m = (Inr (), m\<lparr>mg_messages := others a (mg_messages m) (mg_messages m),
     mg_conversations := js_delete a (mg_conversations m), mg_sessionMeta := js_delete a (mg_sessionMeta m),
     mg_sessions := js_delete a (mg_sessions m)\<rparr>)"
  by (simp add: deleteConversation_def act_bind_def act_read_def act_modify_def delete_each)

lemma unpair_eq:
  "unpair m = (Inr (), case mg_pairing m of
      None \<Rightarrow> m\<lparr>mg_pairingStore := js_delete ''peer'' (mg_pairingStore m), mg_pairing := None\<rparr>
    | Some p \<Rightarrow> let a = ps_peerAddress p in m\<lparr>mg_messages := others a (mg_messages m) (mg_messages m),
        mg_conversations := js_delete a (mg_conversations m), mg_sessionMeta := js_delete a (mg_sessionMeta m),
        mg_sessions := js_delete a (mg_sessions m), mg_pins := js_delete a (mg_pins m),
        mg_contacts := js_delete a (mg_contacts m),
        mg_pairingStore := js_delete ''peer'' (mg_pairingStore m), mg_pairing := None\<rparr>)"
  by (simp add: unpair_def pairedPeer_def act_bind_def act_read_def act_modify_def act_return_def deleteConversation_eq Let_def
      split: option.split)

lemma others_subset: "set (others a rows M) \<subseteq> set M"
proof (induction rows arbitrary: M)
  case (Cons r rows)
  have "others a (r # rows) M = others a rows (if msg_conversationAddress (snd r) = a then js_delete (fst r) M else M)"
    by (simp add: others_def)
  then show ?case using Cons[of "js_delete (fst r) M"] Cons[of M] set_delete[of "fst r" M] by (auto split: if_splits)
qed (simp add: others_def)

lemma only_key: "\<forall>a \<in> fst ` set m. a = x \<Longrightarrow> js_delete x m = []"
  by (induction m) auto

lemma lock_unpair:
  assumes "lock p st q k M m"
  shows "lock None None q k M (after unpair m)"
proof (cases p)
  case None
  have "mg_sessions m = []" using assms None by (cases "mg_sessions m") (auto simp: lock_def)
  then show ?thesis using assms None by (simp add: lock_def paired_def unpair_eq)
next
  case (Some x)
  have "js_delete (ps_peerAddress x) (mg_sessions m) = []"
    using assms Some by (intro only_key) (auto simp: lock_def)
  then show ?thesis using assms Some others_subset[of "ps_peerAddress x" "mg_messages m" "mg_messages m"]
    by (auto simp: lock_def paired_def unpair_eq Let_def)
qed

lemma lock_rename:
  assumes "lock p st q k M m"
  shows "\<exists>p' st'. lock p' st' q k M (after (renamePairedPeer n) m) \<and> (p' = p \<and> st' = st \<or> st' = p')"
proof (cases p)
  case None
  then show ?thesis using assms by (auto simp: renamePairedPeer_def pairedPeer_def act_defs lock_def)
next
  case (Some x)
  let ?x = "x\<lparr>ps_displayName := n\<rparr>"
  have "mg_pairing m = Some x" using assms Some by (simp add: lock_def)
  moreover have "lock (Some ?x) (Some ?x) q k M (after (set_pairing ?x) m)"
    using assms Some by (auto simp: lock_def paired_def set_pairing_def act_modify_def)
  from keepsD[OF lock_contacts(3) this, of "ps_peerAddress x" n]
  have "lock (Some ?x) (Some ?x) q k M (after (renameContact (ps_peerAddress x) n) (after (set_pairing ?x) m))" .
  ultimately have "lock (Some ?x) (Some ?x) q k M (after (renamePairedPeer n) m)"
    by (simp add: renamePairedPeer_def pairedPeer_def act_bind_def act_read_def set_pairing_def act_modify_def)
  then show ?thesis by blast
qed

section \<open>Every run\<close>

text \<open>Some pairing locks the state, and it is the stored one if there is one.\<close>

definition locked :: "string option \<Rightarrow> nat \<Rightarrow> (string \<times> app_message) set \<Rightarrow> 'w messenger \<Rightarrow> bool" where
  "locked q k M m \<longleftrightarrow> (\<exists>p st. lock p st q k M m \<and> (p \<noteq> None \<longrightarrow> st = p))"

lemma locked_keeps: "(\<And>p st. keeps (lock p st q k M) f) \<Longrightarrow> locked q k M m \<Longrightarrow> locked q k M (after f m)"
  unfolding locked_def using keepsD by fastforce

lemma locked_step:
  assumes "locked q k M m" and "q = peer_of (mg_pairing m)"
  shows "locked q k M (messenger_step N T c m)"
proof -
  obtain p st where l: "lock p st q k M m" "p \<noteq> None \<longrightarrow> st = p" "q = peer_of p"
    using assms by (auto simp: locked_def lock_def)
  show ?thesis
  proof (cases c)
    case Initialise
    from lock_initialise[OF l(1), of N T] l(2) show ?thesis by (auto simp: Initialise locked_def)
  next
    case (HandleDelivered d)
    from keepsD[OF lock_handle[OF l(3), of st k M N T d] l(1)] l(2) show ?thesis by (auto simp: HandleDelivered locked_def)
  next
    case Sync
    from keepsD[OF lock_sync[OF l(3), of st k M N T] l(1)] l(2) show ?thesis by (auto simp: Sync locked_def)
  next
    case (PairWithCode s n)
    show ?thesis
    proof (cases p)
      case None
      from lock_pair[OF l(1)[unfolded None], of N s n] show ?thesis by (auto simp: PairWithCode locked_def)
    next
      case (Some x)
      then have "mg_pairing m = Some x" using l(1) by (simp add: lock_def)
      then have "messenger_step N T c m = m" by (simp add: PairWithCode pairWithCode_def pairedPeer_def act_defs)
      then show ?thesis using assms(1) by simp
    qed
  next
    case Unpair
    from lock_unpair[OF l(1)] show ?thesis by (auto simp: Unpair locked_def)
  next
    case (RenamePairedPeer n)
    from lock_rename[OF l(1), of n] l(2) show ?thesis by (auto simp: RenamePairedPeer locked_def)
  qed (auto intro!: locked_keeps[OF _ assms(1)] act_rules)
qed

lemma locked_rebase: "locked q k M m \<Longrightarrow> locked q' (length (mg_events m)) (set (mg_messages m)) m"
  by (auto simp: locked_def lock_def)

lemma locked_run:
  assumes "paired m" and "mg_sessions m = []" and "mg_pairing m = None"
  shows "\<exists>q k M. locked q k M (messenger_run N T calls m)"
proof -
  have "locked None (length (mg_events m)) (set (mg_messages m)) m"
    using assms by (auto simp: locked_def lock_def)
  then show ?thesis
  proof (induction calls arbitrary: m rule: rev_induct)
    case (snoc c calls)
    let ?m = "messenger_run N T calls m"
    obtain q k M where "locked q k M ?m" using snoc by blast
    from locked_step[OF locked_rebase[OF this] refl, of N T c] show ?case by auto
  qed auto
qed

text \<open>C28
  The pairing lock. A device in the two-person mode, whatever its owner calls and whatever the
  relay answers, at every moment holds sessions with its paired peer only; a further call
  raises message, call and typing events of that peer only, and stores incoming messages of
  that peer only.
\<close>

theorem paired_traffic_only:
  assumes "paired m0" and "mg_sessions m0 = []" and "mg_pairing m0 = None"
    and "m = messenger_run N T calls m0" and "m' = messenger_step N T c m"
  shows "(\<forall>a \<in> set (js_keys (mg_sessions m)). peer_of (mg_pairing m) = Some a) \<and>
    (\<forall>e \<in> set (drop (length (mg_events m)) (mg_events m')). \<forall>a. incoming_peer e = Some a \<longrightarrow> peer_of (mg_pairing m) = Some a) \<and>
    (\<forall>(i, x) \<in> set (mg_messages m'). msg_direction x = Incoming \<longrightarrow>
      (i, x) \<in> set (mg_messages m) \<or> peer_of (mg_pairing m) = Some (msg_conversationAddress x))"
proof -
  obtain q k M where "locked q k M m" using locked_run[OF assms(1-3)] assms(4) by blast
  from this locked_step[OF locked_rebase[OF this] refl, of N T c] show ?thesis
    unfolding assms(5) by (auto simp: locked_def lock_def)
qed

definition demo_device :: "messenger_mode option \<Rightarrow> relay_net messenger" where
  "demo_device md = new_messenger \<lparr>mo_mode = md, mo_sendReceipts = False, mo_sendTypingIndicators = False\<rparr>
     (\<lambda>i. \<lparr>e_now = 0, e_now2 = 0, e_random = [word_of_nat i]\<rparr>, buildRelay None) [] (\<lambda>i. int i) demo_fresh"

theorem paired_traffic_only_witness:
  "\<not> (\<exists>a. a \<in> set (js_keys (mg_sessions (messenger_run demo_library (relay_transport demo_library ''ip'')
      [Initialise, StartConversation ''eve'', Sync] (demo_device None)))) \<and>
     peer_of (mg_pairing (messenger_run demo_library (relay_transport demo_library ''ip'')
      [Initialise, StartConversation ''eve'', Sync] (demo_device None))) \<noteq> Some a)"
proof -
  have "paired (demo_device None)" "mg_sessions (demo_device None) = []" "mg_pairing (demo_device None) = None"
    by (simp_all add: demo_device_def new_messenger_def paired_def)
  from paired_traffic_only[OF this refl refl, of demo_library "relay_transport demo_library ''ip''" "[Initialise, StartConversation ''eve'', Sync]"]
  show ?thesis by blast
qed

end
