(* ===== verification/App_Trust.thy ===== *)
theory App_Trust
  imports App_Lock
begin

text \<open>
  Who may mark a contact as verified, and who may change its key: a rule on contacts that the
  changes the messenger makes on its own respect is kept by every method but those by which the
  user decides.
\<close>

section \<open>Rules on contacts\<close>

text \<open>Every contact obeys \<open>ok\<close>, and those of \<open>D\<close> exist.\<close>

definition all_ok :: "(string \<Rightarrow> contact \<Rightarrow> bool) \<Rightarrow> string set \<Rightarrow> (string, contact) jsmap \<Rightarrow> bool" where
  "all_ok ok D C \<longleftrightarrow> (\<forall>a c. js_get C a = Some c \<longrightarrow> ok a c) \<and> (\<forall>a \<in> D. js_get C a \<noteq> None)"

abbreviation obeys :: "(string \<Rightarrow> contact \<Rightarrow> bool) \<Rightarrow> string set \<Rightarrow> 'w messenger \<Rightarrow> bool" where
  "obeys ok D m \<equiv> all_ok ok D (mg_contacts m)"

text \<open>The rule allows renaming and flagging a contact, and a new unverified one.\<close>

definition stable :: "(string \<Rightarrow> contact \<Rightarrow> bool) \<Rightarrow> string set \<Rightarrow> bool" where
  "stable ok D \<longleftrightarrow> (\<forall>a c. ok a c \<longrightarrow> (\<forall>n. ok a (c\<lparr>ct_displayName := n\<rparr>)) \<and>
       (\<forall>t. ok a (c\<lparr>ct_verification := Changed, ct_identityChangedAt := Some t\<rparr>))) \<and>
     (\<forall>a k. a \<notin> D \<longrightarrow> ok a (new_contact a k Unverified))"

lemma put_obeys: "obeys ok D m \<Longrightarrow> ok a c \<Longrightarrow> all_ok ok D (js_set a c (mg_contacts m))"
  by (auto simp: all_ok_def)

lemma obeys_basic [act_rules]:
  "keeps (obeys ok D) now_ms" "keeps (obeys ok D) (draws n)" "keeps (obeys ok D) (notify e)"
  "keeps (obeys ok D) (put_conversation a v)" "keeps (obeys ok D) (put_meta a i)"
  "keeps (obeys ok D) (put_pin a b)" "keeps (obeys ok D) (put_secret a x)" "keeps (obeys ok D) (delete_message a)"
  "keeps (obeys ok D) get_identity" "keeps (obeys ok D) get_preKeys" "keeps (obeys ok D) (set_identity idt)"
  "keeps (obeys ok D) (on_client f)" "keeps (obeys ok D) (put_session a s)" "keeps (obeys ok D) (put_message j y)"
  "keeps (obeys ok D) (encrypt_for N g pid a s b)" "keeps (obeys ok D) (decrypt_delivered N g pid env store)"
  "keeps (obeys ok D) (set_pairing p)" "keeps (obeys ok D) (get_contact a)"
  by (auto simp: keeps_iff now_ms_def draws_def notify_def put_conversation_def put_meta_def put_pin_def put_secret_def
      delete_message_def get_identity_def get_preKeys_def set_identity_def on_client_def put_session_def put_message_def
      encrypt_for_def decrypt_delivered_def set_pairing_def get_contact_def act_defs act_some_def
      split: prod.split option.split)

lemma obeys_put: "ok a c \<Longrightarrow> keeps (obeys ok D) (put_contact a c)"
  by (simp add: keeps_iff put_contact_def act_modify_def put_obeys)

lemma obeys_save: "ok a c \<Longrightarrow> keeps (obeys ok D) (save_contact a c)"
  unfolding save_contact_def by (intro act_rules obeys_put)

text \<open>A contact that was read obeys the rule.\<close>

lemma obeys_get:
  assumes "a \<notin> D \<Longrightarrow> keeps (obeys ok D) (g None)" and "\<And>c. ok a c \<Longrightarrow> keeps (obeys ok D) (g (Some c))"
  shows "keeps (obeys ok D) (act_bind (get_contact a) g)"
  unfolding get_contact_def
proof (rule keeps_read_bind, goal_cases)
  case (1 s)
  have "js_get (mg_contacts s) a = None \<Longrightarrow> a \<notin> D" "js_get (mg_contacts s) a = Some c \<Longrightarrow> ok a c" for c
    using 1 by (auto simp: all_ok_def)
  then show ?case
    using assms by (cases "js_get (mg_contacts s) a") simp_all
qed

lemma obeys_flag: "stable ok D \<Longrightarrow> ok a c \<Longrightarrow> keeps (obeys ok D) (flag_change a c)"
  unfolding flag_change_def by (intro act_rules obeys_save) (simp add: stable_def)

lemma obeys_new: "stable ok D \<Longrightarrow> a \<notin> D \<Longrightarrow> keeps (obeys ok D) (save_contact a (new_contact a k Unverified))"
  by (rule obeys_save) (simp add: stable_def)

section \<open>Methods\<close>

lemma obeys_conversations [act_rules]:
  "keeps (obeys ok D) (touchConversation a v n)" "keeps (obeys ok D) (setDisappearTimer a i)" "keeps (obeys ok D) (markRead a)"
  unfolding touchConversation_def setDisappearTimer_def markRead_def with_conversation_def by (intro act_rules)+

lemma obeys_remember: "stable ok D \<Longrightarrow> keeps (obeys ok D) (rememberPeer a i)"
  unfolding rememberPeer_def by (intro obeys_get act_rules) (auto intro: obeys_new obeys_flag)

lemma obeys_open: "stable ok D \<Longrightarrow> keeps (obeys ok D) (open_session N T a)"
  unfolding open_session_def Let_def
  by (intro obeys_get act_rules) (auto intro: obeys_new obeys_flag)

lemma obeys_ensure: "stable ok D \<Longrightarrow> keeps (obeys ok D) (ensureSession N T a)"
  unfolding ensureSession_def by (intro act_rules obeys_open)

lemma obeys_payload: "stable ok D \<Longrightarrow> keeps (obeys ok D) (sendPayload N T a x)"
  unfolding sendPayload_def by (intro act_rules obeys_ensure)

lemma obeys_expiry [act_rules]: "keeps (obeys ok D) (expiry n)"
  unfolding expiry_def by (intro act_rules)

lemma obeys_sending:
  assumes "stable ok D"
  shows "keeps (obeys ok D) (sendText N T a b x)" "keeps (obeys ok D) (sendCallPayload N T a y)"
    "keeps (obeys ok D) (sendTyping N T a v)" "keeps (obeys ok D) (sendReceipt N T a ids r)"
    "keeps (obeys ok D) (startConversation N T a)"
  unfolding sendText_def sendCallPayload_def sendTyping_def sendReceipt_def startConversation_def Let_def
  by (intro act_rules obeys_payload obeys_ensure assms)+

lemma obeys_receipt [act_rules]: "keeps (obeys ok D) (apply_receipt r i)"
  unfolding apply_receipt_def Let_def by (intro act_rules)

lemma obeys_onPayload: "stable ok D \<Longrightarrow> keeps (obeys ok D) (onPayload N T a x)"
  by (cases x) (auto simp: Let_def intro!: act_rules obeys_sending)

lemma obeys_handle: "stable ok D \<Longrightarrow> keeps (obeys ok D) (handleDelivered N T d)"
  unfolding handleDelivered_def process_delivered_def report_failure_def accept_delivered_def
  by (intro act_rules obeys_remember obeys_onPayload) (auto intro!: act_rules split: error.split)

lemma obeys_handle_all: "stable ok D \<Longrightarrow> keeps (obeys ok D) (handle_all N T ds)"
  by (induction ds) (auto intro!: act_rules obeys_handle)

lemma obeys_modify [act_rules]: "(\<And>m. mg_contacts (f m) = mg_contacts m) \<Longrightarrow> keeps (obeys ok D) (act_modify f)"
  by (rule keeps_modify) simp

lemma obeys_replenish [act_rules]: "keeps (obeys ok D) (replenishPreKeysIfNeeded N T)"
  unfolding replenishPreKeysIfNeeded_def by (intro act_rules) simp

lemma obeys_sync: "stable ok D \<Longrightarrow> keeps (obeys ok D) (sync N T)"
  unfolding sync_def by (intro act_rules obeys_handle_all)

lemma obeys_rename: "stable ok D \<Longrightarrow> keeps (obeys ok D) (renameContact a n)"
  unfolding renameContact_def by (intro obeys_get) (simp_all add: keeps_basic obeys_save stable_def)

lemma obeys_pins [act_rules]: "keeps (obeys ok D) loadPins"
  unfolding loadPins_def listContacts_def load_pin_def by (intro act_rules)

lemma obeys_history [act_rules]:
  "keeps (obeys ok D) (sweep_history a t rows)" "keeps (obeys ok D) (sweep_expired t rows n)"
  by (induction rows arbitrary: n) (auto intro!: act_rules)

lemma obeys_histories [act_rules]:
  "keeps (obeys ok D) (history a)" "keeps (obeys ok D) purgeExpired" "keeps (obeys ok D) (deleteConversation a)"
  unfolding history_def purgeExpired_def deleteConversation_def delete_of_def by (intro act_rules; simp)+

lemma obeys_initialise [act_rules]: "keeps (obeys ok D) (initialise N T)"
  unfolding initialise_def load_identity_def store_identity_def by (intro act_rules; simp)

section \<open>Verification is the user's\<close>

text \<open>The call reads a code that carries this key for this address.\<close>

definition from_code :: "noble \<Rightarrow> messenger_call \<Rightarrow> string \<Rightarrow> string \<Rightarrow> bool" where
  "from_code N c a k \<longleftrightarrow> (\<exists>s b i. (c = AddContactFromCode s \<or> (\<exists>n. c = PairWithCode s n)) \<and>
     fromBase64Url s = Inr b \<and> parseVerificationQrPayload N b = Inr i \<and> addressOf N i = Inr a \<and>
     k = toBase64Url (signingPublicKey i))"

text \<open>A contact as a call may leave it, the contacts having been \<open>C\<close>.\<close>

definition trusted :: "noble \<Rightarrow> messenger_call \<Rightarrow> (string, contact) jsmap \<Rightarrow> string \<Rightarrow> contact \<Rightarrow> bool" where
  "trusted N c C a x \<longleftrightarrow>
     (ct_verification x = Verified \<longrightarrow> from_code N c a (ct_identityKey x) \<or>
       (\<exists>y. js_get C a = Some y \<and> ct_identityKey y = ct_identityKey x \<and> (ct_verification y = Verified \<or> c = MarkVerified a))) \<and>
     (\<forall>y. js_get C a = Some y \<longrightarrow> ct_identityKey y = ct_identityKey x \<or> from_code N c a (ct_identityKey x) \<or>
       (c = AcceptIdentityChange a \<and> ct_verification x \<noteq> Verified))"

lemma trusted_stable: "stable (trusted N c C) {a. js_get C a \<noteq> None}"
  by (auto simp: stable_def trusted_def new_contact_def)

lemma trusted_start: "obeys (trusted N c (mg_contacts m)) {a. js_get (mg_contacts m) a \<noteq> None} m"
  by (auto simp: all_ok_def trusted_def)

lemma keeps_lift_bind: "(\<And>x. r = Inr x \<Longrightarrow> keeps P (g x)) \<Longrightarrow> keeps P (act_bind (act_lift r) g)"
  by (cases r) (simp_all add: keeps_iff act_bind_def act_lift_def)

lemma trusted_code:
  assumes "c = AddContactFromCode s \<or> c = PairWithCode s n"
  shows "keeps (obeys (trusted N c C) D) (addContactFromCode N s)"
proof -
  have "trusted N c C a (x\<lparr>ct_identityKey := toBase64Url (signingPublicKey i), ct_verification := Verified, ct_identityChangedAt := None\<rparr>)"
    if "fromBase64Url s = Inr b" "parseVerificationQrPayload N b = Inr i" "addressOf N i = Inr a" for b i a x
    using that assms by (auto simp: trusted_def from_code_def)
  then show ?thesis
    unfolding addContactFromCode_def Let_def by (intro keeps_lift_bind act_rules obeys_put) assumption+
qed

lemma trusted_pair: "keeps (obeys (trusted N (PairWithCode s n) C) D) (pairWithCode N s n)"
  unfolding pairWithCode_def pairedPeer_def by (intro act_rules trusted_code) simp

lemma trusted_mark:
  "obeys (trusted N (MarkVerified a) (mg_contacts m)) {a. js_get (mg_contacts m) a \<noteq> None} (after (markVerified a) m)"
proof (cases "js_get (mg_contacts m) a")
  case None
  then have "after (markVerified a) m = m" by (simp add: markVerified_def get_contact_def act_defs)
  then show ?thesis using trusted_start by simp
next
  case (Some y)
  let ?y = "y\<lparr>ct_verification := Verified, ct_identityChangedAt := None\<rparr>"
  have "trusted N (MarkVerified a) (mg_contacts m) a ?y" using Some by (auto simp: trusted_def)
  then have "keeps (obeys (trusted N (MarkVerified a) (mg_contacts m)) {a. js_get (mg_contacts m) a \<noteq> None})
      (act_bind (put_contact a ?y) (\<lambda>_. act_bind (act_lift (fromBase64Url (ct_identityKey ?y))) (\<lambda>k.
        act_bind (put_pin a k) (\<lambda>_. notify (OnContactChanged ?y)))))"
    by (intro act_rules obeys_put)
  from keepsD[OF this trusted_start] Some show ?thesis
    by (simp add: markVerified_def get_contact_def act_bind_def[of "act_read _"] act_read_def Let_def)
qed

lemma trusted_accept:
  assumes "D = {a. js_get C a \<noteq> None}"
  shows "keeps (obeys (trusted N (AcceptIdentityChange a) C) D) (acceptIdentityChange T a)"
  unfolding acceptIdentityChange_def assms
  by (intro obeys_get act_rules obeys_save) (auto simp: trusted_def from_code_def)

lemma trusted_step:
  assumes "js_get (mg_contacts (messenger_step N T c m)) a = Some x"
  shows "trusted N c (mg_contacts m) a x"
proof (cases "c = Unpair")
  case True
  then have "js_get (mg_contacts m) a = Some x"
    using assms by (auto simp: unpair_eq Let_def split: option.splits if_splits)
  then show ?thesis by (auto simp: trusted_def)
next
  case False
  let ?D = "{a. js_get (mg_contacts m) a \<noteq> None}"
  define P where "P = trusted N c (mg_contacts m)"
  define D where "D = ?D"
  note st = trusted_stable[of N c "mg_contacts m", folded P_def D_def]
    and start = trusted_start[of N c m, folded P_def D_def]
  note rules = act_rules obeys_sending[OF st] obeys_handle[OF st] obeys_sync[OF st] obeys_rename[OF st]
  have "obeys P D (messenger_step N T c m)"
  proof (cases c)
    case (MarkVerified b)
    then show ?thesis unfolding P_def D_def using trusted_mark by simp
  next
    case (AddContactFromCode s)
    have "keeps (obeys P D) (addContactFromCode N s)"
      unfolding P_def AddContactFromCode by (rule trusted_code[OF disjI1[OF refl]])
    from keepsD[OF this start] show ?thesis by (simp add: AddContactFromCode)
  next
    case (PairWithCode s n)
    have "keeps (obeys P D) (pairWithCode N s n)"
      unfolding P_def PairWithCode by (rule trusted_pair)
    from keepsD[OF this start] show ?thesis by (simp add: PairWithCode)
  next
    case (AcceptIdentityChange b)
    have "keeps (obeys P D) (acceptIdentityChange T b)"
      unfolding P_def AcceptIdentityChange by (rule trusted_accept[OF D_def])
    from keepsD[OF this start] show ?thesis by (simp add: AcceptIdentityChange)
  next
    case (RenamePairedPeer n)
    have "keeps (obeys P D) (renamePairedPeer n)"
      unfolding renamePairedPeer_def pairedPeer_def by (intro rules)
    from keepsD[OF this start] show ?thesis by (simp add: RenamePairedPeer)
  qed (use False in \<open>auto intro!: keepsD[where P = "obeys P D", OF _ start] rules\<close>)
  with assms show ?thesis by (auto simp: all_ok_def P_def)
qed

text \<open>C29
  Trust is the user's decision. Whatever call is made and whatever the relay answers, a contact
  that is verified afterwards shows a key it showed verified before, or that the user just
  confirmed, or that a scanned code carries for this very address; and the key of a contact only
  changes by such a code or by accepting the change, which leaves the contact unverified.
\<close>

theorem verified_only_by_user:
  assumes "m' = messenger_step N T c m" and "js_get (mg_contacts m') a = Some x"
  shows "(ct_verification x = Verified \<longrightarrow> from_code N c a (ct_identityKey x) \<or>
      (\<exists>y. js_get (mg_contacts m) a = Some y \<and> ct_identityKey y = ct_identityKey x \<and>
        (ct_verification y = Verified \<or> c = MarkVerified a))) \<and>
    (\<forall>y. js_get (mg_contacts m) a = Some y \<longrightarrow> ct_identityKey y = ct_identityKey x \<or>
      from_code N c a (ct_identityKey x) \<or> (c = AcceptIdentityChange a \<and> ct_verification x \<noteq> Verified))"
  using trusted_step[of N T c m a x] assms by (simp add: trusted_def)

definition demo_contact :: contact where
  "demo_contact = new_contact ''bob'' ''AAAA'' Unverified"

theorem verified_only_by_user_witness:
  "\<exists>x. js_get (mg_contacts (messenger_step demo_library (relay_transport demo_library ''ip'') (MarkVerified ''bob'')
      ((demo_device None)\<lparr>mg_contacts := [(''bob'', demo_contact)]\<rparr>))) ''bob'' = Some x \<and>
    ct_verification x = Verified \<and> ct_identityKey x = ''AAAA''"
proof -
  let ?m = "(demo_device None)\<lparr>mg_contacts := [(''bob'', demo_contact)]\<rparr>"
  let ?m' = "messenger_step demo_library (relay_transport demo_library ''ip'') (MarkVerified ''bob'') ?m"
  have "\<exists>x. js_get (mg_contacts ?m') ''bob'' = Some x \<and> ct_verification x = Verified"
    by (cases "fromBase64Url (ct_identityKey demo_contact)")
      (simp_all add: markVerified_def get_contact_def act_defs put_contact_def put_pin_def notify_def Let_def)
  then obtain x where x: "js_get (mg_contacts ?m') ''bob'' = Some x" "ct_verification x = Verified" by blast
  have "\<not> from_code demo_library (MarkVerified ''bob'') ''bob'' k" for k by (simp add: from_code_def)
  with verified_only_by_user[OF refl x(1)] x show ?thesis by (auto simp: demo_contact_def new_contact_def)
qed

end
