(* ===== verification/App_Delivery.thy ===== *)
theory App_Delivery
  imports App_Trust Relay_Safety
begin

text \<open>
  A text from one device to another: what \<open>sendText\<close> of messenger.ts posts, the modelled relay
  queues and the other device's \<open>sync\<close> stores.
\<close>

section \<open>The size of an envelope\<close>

lemma sealEnvelope_size:
  assumes lib: "library_ok N" and f: "length (fst f) = 32" and a: "identity_ok N alice"
    and s: "sealEnvelope N f (sign N (secretKey (signing alice))) (publicIdentityOf alice) recipient kind payload = Inr env"
  shows "length (se_ephemeralPublicKey env) = 32" "length (se_ciphertext env) = length payload + 229"
proof -
  note l = library_okD[OF lib]
  from s obtain t pf inner key nonce where *: "sign N (secretKey (signing alice)) t = Inr pf"
    "encode_inner (publicIdentityOf alice) pf kind payload = Inr inner"
    "aeadEncrypt N key nonce inner [] = Inr (se_ciphertext env)"
    "se_ephemeralPublicKey env = publicKey (generateDhKeyPair N f)"
    by (auto simp: sealEnvelope_def rbind_eq_Inr Let_def case_prod_unfold)
  have "length pf = 64" using *(1) l(5) a by (simp add: sign_Inr identity_ok_def ed25519_sized_def)
  moreover have "length (publicKey (signing alice)) = 32" "length (publicKey (exchange alice)) = 32"
    "length (bindingSignature alice) = 64"
    using a verify_key_lengths[of N "publicIdentityOf alice"] by (simp_all add: identity_ok_def)
  ultimately have "length inner = length payload + 213"
    using *(2) by (auto simp: encode_inner_eq split: if_splits)
  then show "length (se_ciphertext env) = length payload + 229"
    using *(3) l(8) by (simp add: aead_eq_Inr aead_correct_def)
  show "length (se_ephemeralPublicKey env) = 32"
    using *(4) l(2) generate_pairs(1)[OF f] by simp
qed

lemma message_payload_size:
  assumes "message_payload pending body = Inr payload"
    and "\<forall>p. pending = Some p \<longrightarrow> length (pre_ephemeralPublicKey p) = 32 \<and> length (pre_kemCiphertext p) = 1568"
  shows "length payload \<le> length body + 1630"
proof (cases pending)
  case (Some p)
  with assms obtain e where e: "encodePreamble p = Inr e" "w_run [w_fixed e, w_bytes body] = Inr payload"
    by (auto simp: message_payload_def rbind_eq_Inr)
  then have "length e = 1626" using assms(2) Some by (auto simp: encodePreamble_eq length_image_ids split: if_splits)
  with e(2) show ?thesis
    using w_run_writes[of "[w_fixed e, w_bytes body]" "[(True, e), (fits_len body, image_bytes body)]"]
    by (auto simp: writes_fixed writes_bytes split: if_splits)
qed (use assms in \<open>simp add: message_payload_def\<close>)

lemma encryptMessage_size:
  assumes lib: "library_ok N" and f: "length (fst f) = 32" and a: "identity_ok N alice"
    and e: "encryptMessage N f alice s plaintext = (Inr env, s')"
    and st: "length (publicKey (sending (ratchet s))) = 32"
    and pre: "\<forall>p. pendingPreKey s = Some p \<longrightarrow> length (pre_ephemeralPublicKey p) = 32 \<and> length (pre_kemCiphertext p) = 1568"
  shows "length (se_ephemeralPublicKey env) = 32" "0 < length (se_ciphertext env)"
    "4 * length (se_ciphertext env) \<le> 5 * length plaintext + 8400"
proof -
  obtain padded m body payload where *: "pad plaintext = Inr padded" "fst (ratchetEncrypt N (ratchet s) padded) = Inr m"
    "encodeRatchetMessage m = Inr body" "message_payload (pendingPreKey s) body = Inr payload"
    "sealEnvelope N f (sign N (secretKey (signing alice))) (publicIdentityOf alice) (peerIdentity s)
       (if pendingPreKey s \<noteq> None then PAYLOAD_PREKEY else PAYLOAD_RATCHET) payload = Inr env"
    using e by (auto simp: encryptMessage_def Let_def case_prod_unfold rbind_eq_Inr split: sum.splits)
  from *(2) have "rm_header m = \<lparr>ratchetPublicKey = publicKey (sending (ratchet s)),
      previousChainLength = previousSentCount (ratchet s), messageNumber = sentCount (ratchet s)\<rparr> \<and>
    (\<exists>k n ad. aeadEncrypt N k n padded ad = Inr (rm_ciphertext m))"
    by (auto simp: ratchetEncrypt_def Let_def case_prod_unfold rbind_eq_Inr split: option.splits) blast
  then have m: "length (ratchetPublicKey (rm_header m)) = 32" "length (rm_ciphertext m) = length padded + 16"
    using st library_okD(8)[OF lib] by (auto simp: aead_eq_Inr aead_correct_def)
  then have "length body = length padded + 64"
    using *(3) by (auto simp: encodeRatchetMessage_eq image_message_def split: if_splits)
  moreover have "length padded = 128 \<or> 4 * length padded \<le> 5 * length plaintext + 3"
    using bucket_overhead_lemma[OF length_pad[OF *(1)]] by (simp add: MIN_BUCKET_def)
  moreover note message_payload_size[OF *(4) pre] sealEnvelope_size[OF lib f a *(5)]
  ultimately show "length (se_ephemeralPublicKey env) = 32" "0 < length (se_ciphertext env)"
    "4 * length (se_ciphertext env) \<le> 5 * length plaintext + 8400" by linarith+
qed

section \<open>Sending\<close>

lemma act_bind_ok: "f s = (Inr x, s') \<Longrightarrow> act_bind f g s = g x s'"
  by (simp add: act_bind_def)

text \<open>The sender has no session with the address, and neither its contact nor its lock object.\<close>

definition sender_ready :: "noble \<Rightarrow> private_identity \<Rightarrow> string \<Rightarrow> bytes \<Rightarrow> 'w messenger \<Rightarrow> bool" where
  "sender_ready N alice b key m \<longleftrightarrow> mg_identity m = Some alice \<and> js_get (mg_sessions m) b = None \<and>
     (\<forall>c. js_get (mg_contacts m) b = Some c \<longrightarrow> ct_identityKey c = toBase64Url key) \<and>
     (\<not> paired m \<or> decideOutbound (mg_pairing m) b = None) \<and> (\<forall>i. length (fst (mg_random m i)) = 32)"

lemma ensureSession_opens:
  assumes ready: "sender_ready N alice b (signingPublicKey (identity bundle)) m"
    and fetch: "fetchBundle T b (mg_client m) = (Inr bundle, c1)"
    and start: "startSession N (mg_random m 0) (fst (mg_random m 1)) (mg_random m 2) alice bundle None = Inr sess"
  shows "\<exists>m1. ensureSession N T b m = (Inr sess, m1) \<and> mg_identity m1 = Some alice \<and> mg_client m1 = c1 \<and>
    mg_random m1 = (\<lambda>i. mg_random m (3 + i))"
proof -
  note r = ready[unfolded sender_ready_def]
  have gate: "ensureSession N T b m = open_session N T b m"
    using r by (auto simp: ensureSession_def act_defs)
  have chk: "(case js_get (mg_contacts m) b of
      Some c \<Rightarrow> if ct_identityKey c \<noteq> toBase64Url (signingPublicKey (identity bundle))
        then act_bind (flag_change b c) (\<lambda>_. act_throw (IdentityChangedError (ct_identityKey c) (toBase64Url (signingPublicKey (identity bundle)))))
        else act_return () | None \<Rightarrow> act_return ()) = act_return ()"
    using r by (auto split: option.splits)
  show ?thesis
    unfolding gate open_session_def Let_def
    using r fetch start chk
    by (auto simp: act_bind_ok on_client_def get_contact_def act_read_def get_identity_def act_some_def act_return_def
        draws_def act_lift_def put_session_def act_modify_def save_contact_def put_contact_def notify_def put_meta_def
        act_bind_def[of "act_read _"] act_bind_def[of "on_client _"] act_bind_def[of "draws _"]
        act_bind_def[of "act_modify _"] act_bind_def[of "act_lift _"])
qed

lemma sendPayload_sends:
  assumes ready: "sender_ready N alice b (signingPublicKey (identity bundle)) m"
    and fetch: "fetchBundle T b (mg_client m) = (Inr bundle, c1)"
    and start: "startSession N (mg_random m 0) (fst (mg_random m 1)) (mg_random m 2) alice bundle None = Inr sess"
    and enc: "encryptMessage N (mg_random m 3) alice sess (encodePayload p) = (Inr env, sess')"
    and post: "client_send T env c1 = (Inr (), c2)"
  shows "\<exists>m'. sendPayload N T b p m = (Inr (), m') \<and> mg_client m' = c2"
proof -
  obtain m1 where m1: "ensureSession N T b m = (Inr sess, m1)" "mg_identity m1 = Some alice" "mg_client m1 = c1"
    "mg_random m1 = (\<lambda>i. mg_random m (3 + i))"
    using ensureSession_opens[OF ready fetch start] by blast
  then show ?thesis using enc post
    by (simp add: sendPayload_def act_bind_ok[where f = "ensureSession N T b", OF m1(1)] get_identity_def act_bind_def act_read_def act_some_def act_return_def
        draws_def encrypt_for_def on_client_def)
qed

text \<open>The identifier of the next text, and the payload it travels in.\<close>

definition next_text :: "'w messenger \<Rightarrow> string \<Rightarrow> int option \<Rightarrow> payload" where
  "next_text m body x = PText (toHex (take 12 (fst (mg_random m 0)))) body (if x = Some 0 then None else x)"

text \<open>A body of 6000 characters always fits.\<close>

lemma text_size: "length (encodePayload (PText i body None)) \<le> 200 + 12 * (length i + length body)"
proof -
  have c: "length (json_char c) \<le> 6" for c by (simp add: json_char_def)
  have "length (concat (map json_char s)) \<le> 6 * length s" for s
    using c by (induction s) (auto intro: add_mono le_trans)
  then have "length (json_string s) \<le> 6 * length s + 2" for s by (simp add: json_string_def)
  from this[of i] this[of body] have "length (json_text (payload_json (PText i body None))) \<le> 100 + 6 * (length i + length body)"
    by (simp add: json_string_def json_char_def)
  then show ?thesis using utf8_length[of "json_text (payload_json (PText i body None))"] by (simp add: encodePayload_def)
qed

lemma touchConversation_ok:
  "\<exists>k. touchConversation a p d m = (Inr (), k) \<and> mg_client k = mg_client m \<and> mg_messages k = mg_messages m \<and>
     mg_options k = mg_options m"
  by (simp add: touchConversation_def put_conversation_def notify_def now_ms_def act_defs Let_def)

lemma expiry_ok:
  "\<exists>t. expiry x m = (Inr (if x = None \<or> x = Some 0 then None else Some (mg_clock m 0 + the x * 1000)), m\<lparr>mg_clock := t\<rparr>)"
proof (cases "x = None \<or> x = Some 0")
  case True
  show ?thesis by (rule exI[of _ "mg_clock m"], simp only: True if_True) (simp add: expiry_def True act_return_def)
next
  case False
  show ?thesis
    by (rule exI[of _ "\<lambda>i. mg_clock m (Suc i)"], simp only: False if_False expiry_def) (simp add: act_bind_def now_ms_def act_return_def)
qed

lemma sendText_sends:
  assumes ready: "sender_ready N alice b (signingPublicKey (identity bundle)) m"
    and fetch: "fetchBundle T b (mg_client m) = (Inr bundle, c1)"
    and start: "startSession N (mg_random m 1) (fst (mg_random m 2)) (mg_random m 3) alice bundle None = Inr sess"
    and enc: "encryptMessage N (mg_random m 4) alice sess (encodePayload (next_text m body x)) = (Inr env, sess')"
    and post: "client_send T env c1 = (Inr (), c2)"
  shows "\<exists>msg m'. sendText N T b body x m = (Inr msg, m') \<and> msg_id msg = toHex (take 12 (fst (mg_random m 0))) \<and>
    msg_body msg = body \<and> msg_status msg = Sent \<and> mg_client m' = c2"
proof -
  have go: "\<exists>m'. sendPayload N T b (next_text m body x) k = (Inr (), m') \<and> mg_client m' = c2"
    if "mg_identity k = mg_identity m" "mg_sessions k = mg_sessions m" "mg_contacts k = mg_contacts m"
      "paired k = paired m" "mg_pairing k = mg_pairing m" "mg_client k = mg_client m"
      "mg_random k = (\<lambda>i. mg_random m (Suc i))" for k
  proof (rule sendPayload_sends)
    show "sender_ready N alice b (signingPublicKey (identity bundle)) k" using ready that by (simp add: sender_ready_def)
    show "fetchBundle T b (mg_client k) = (Inr bundle, c1)" using fetch that by simp
    show "startSession N (mg_random k 0) (fst (mg_random k 1)) (mg_random k 2) alice bundle None = Inr sess"
      using start that by (simp add: numeral_2_eq_2 numeral_3_eq_3)
    show "encryptMessage N (mg_random k 3) alice sess (encodePayload (next_text m body x)) = (Inr env, sess')"
      using enc that by (simp add: eval_nat_numeral)
    show "client_send T env c1 = (Inr (), c2)" by (rule post)
  qed
  let ?id = "toHex (take 12 (fst (mg_random m 0)))"
  let ?m1 = "m\<lparr>mg_random := \<lambda>i. mg_random m (1 + i), mg_clock := \<lambda>i. mg_clock m (Suc i)\<rparr>"
  obtain y t where y: "expiry x ?m1 = (Inr y, ?m1\<lparr>mg_clock := t\<rparr>)" using expiry_ok[of x ?m1] by blast
  let ?msg = "\<lparr>msg_id = ?id, msg_conversationAddress = b, msg_direction = Outgoing, msg_body = body,
      msg_timestamp = mg_clock m 0, msg_status = Pending, msg_expiresAt = y\<rparr>"
  let ?m2 = "?m1\<lparr>mg_clock := t, mg_messages := js_set ?id ?msg (mg_messages m), mg_events := mg_events m @ [OnMessage ?msg]\<rparr>"
  obtain m3 where m3: "sendPayload N T b (next_text m body x) ?m2 = (Inr (), m3)" "mg_client m3 = c2"
    using go[of ?m2] by (auto simp: paired_def)
  obtain m4 where m4: "touchConversation b body 0 (m3\<lparr>mg_messages := js_set ?id (?msg\<lparr>msg_status := Sent\<rparr>) (mg_messages m3)\<rparr>) = (Inr (), m4)"
    "mg_client m4 = mg_client m3"
    using touchConversation_ok[of b body 0 "m3\<lparr>mg_messages := js_set ?id (?msg\<lparr>msg_status := Sent\<rparr>) (mg_messages m3)\<rparr>"] by auto
  let ?sent = "?msg\<lparr>msg_status := Sent\<rparr>" and ?failed = "?msg\<lparr>msg_status := Failed\<rparr>"
  let ?attempt = "act_try (sendPayload N T b (next_text m body x))
    (\<lambda>e. act_bind (put_message ?id ?failed) (\<lambda>_. act_bind (notify (OnMessage ?failed)) (\<lambda>_. act_throw e)))"
  let ?rest = "act_bind (put_message ?id ?sent) (\<lambda>_. act_bind (touchConversation b body 0) (\<lambda>_.
    act_bind (notify (OnMessage ?sent)) (\<lambda>_. act_return ?sent)))"
  have put: "act_bind (put_message i z) g k = g () (k\<lparr>mg_messages := js_set i z (mg_messages k)\<rparr>)"
    "act_bind (notify ev) g k = g () (k\<lparr>mg_events := mg_events k @ [ev]\<rparr>)"
    for i z ev and g :: "unit \<Rightarrow> (app_message, 'a) step" and k
    by (simp_all add: act_bind_def put_message_def notify_def act_modify_def)
  have "sendText N T b body x m = act_bind ?attempt (\<lambda>_. ?rest) ?m2"
    by (simp add: sendText_def act_bind_def[of "draws _"] act_bind_def[of now_ms] act_bind_def[of "expiry _"]
        draws_def now_ms_def y[simplified] put Let_def next_text_def del: act_bind_simps)
  also have "\<dots> = ?rest m3"
    by (rule act_bind_ok) (simp only: act_try_def m3 prod.case sum.case)
  also have "\<dots> = (Inr ?sent, m4\<lparr>mg_events := mg_events m4 @ [OnMessage ?sent]\<rparr>)"
    using act_bind_ok[of "touchConversation b body 0", OF m4(1), where g = "\<lambda>_. act_bind (notify (OnMessage ?sent)) (\<lambda>_. act_return ?sent)"]
    by (simp add: put act_return_def del: act_bind_simps)
  finally show ?thesis using m3(2) m4(2) by simp
qed

section \<open>Receiving\<close>

lemma rememberPeer_ok:
  "\<exists>k. rememberPeer a i m = (Inr (), k) \<and> mg_client k = mg_client m \<and> mg_options k = mg_options m \<and>
     mg_sessions k = mg_sessions m"
  by (auto simp: rememberPeer_def Let_def act_defs get_contact_def put_meta_def save_contact_def put_contact_def
      notify_def flag_change_def now_ms_def split: option.splits)

lemma onPayload_text_ok:
  assumes "\<not> mo_sendReceipts (mg_options m)"
  shows "\<exists>k msg. onPayload N T a (PText i body x) m = (Inr (), k) \<and> mg_client k = mg_client m \<and>
    js_get (mg_messages k) i = Some msg \<and> msg_id msg = i \<and> msg_conversationAddress msg = a \<and>
    msg_direction msg = Incoming \<and> msg_body msg = body \<and> msg_status msg = Delivered"
proof -
  let ?m1 = "m\<lparr>mg_clock := \<lambda>i. mg_clock m (Suc i)\<rparr>"
  obtain y t where y: "expiry x ?m1 = (Inr y, ?m1\<lparr>mg_clock := t\<rparr>)" using expiry_ok[of x ?m1] by blast
  let ?msg = "\<lparr>msg_id = i, msg_conversationAddress = a, msg_direction = Incoming, msg_body = body,
      msg_timestamp = mg_clock m 0, msg_status = Delivered, msg_expiresAt = y\<rparr>"
  let ?m2 = "?m1\<lparr>mg_clock := t, mg_messages := js_set i ?msg (mg_messages m)\<rparr>"
  obtain k where k: "touchConversation a body 1 ?m2 = (Inr (), k)" "mg_client k = mg_client m"
    "mg_messages k = js_set i ?msg (mg_messages m)" "mg_options k = mg_options m"
    using touchConversation_ok[of a body 1 ?m2] by auto
  have put: "act_bind (put_message i z) g k = g () (k\<lparr>mg_messages := js_set i z (mg_messages k)\<rparr>)"
    "act_bind (notify ev) g k = g () (k\<lparr>mg_events := mg_events k @ [ev]\<rparr>)"
    for i z ev and g :: "unit \<Rightarrow> (unit, 'a) step" and k
    by (simp_all add: act_bind_def put_message_def notify_def act_modify_def)
  have "onPayload N T a (PText i body x) m =
      act_bind (touchConversation a body 1) (\<lambda>_. act_bind (notify (OnMessage ?msg)) (\<lambda>_. sendReceipt N T a [i] ReceiptDelivered)) ?m2"
    by (simp add: act_bind_def[of now_ms] act_bind_def[of "expiry _"] now_ms_def y[simplified] put Let_def del: act_bind_simps)
  also have "\<dots> = sendReceipt N T a [i] ReceiptDelivered (k\<lparr>mg_events := mg_events k @ [OnMessage ?msg]\<rparr>)"
    by (simp only: act_bind_ok[of "touchConversation a body 1", OF k(1)] put)
  also have "\<dots> = (Inr (), k\<lparr>mg_events := mg_events k @ [OnMessage ?msg]\<rparr>)"
    using assms k(4) by (simp add: sendReceipt_def act_defs)
  finally show ?thesis using k(2,3) by simp
qed

lemma handleDelivered_text:
  assumes i: "mg_identity m = Some bob" and s: "mg_preKeys m = Some s"
    and w: "decodeEnvelope (dm_envelope d) = Inr env"
    and dec: "decryptEnvelope store_resolver N (mg_random m 0) bob env (js_get (mg_sessions m)) (js_get (mg_pins m)) s =
      (Inr \<lparr>senderIdentity = alice, dm_plaintext = encodePayload (PText j body x), dm_session = new, isNewSession = v\<rparr>, t, s')"
    and a: "addressOf N alice = Inr a" and lock: "inbound_decision a alice m = None"
    and off: "\<not> mo_sendReceipts (mg_options m)"
  shows "\<exists>k msg. handleDelivered N T d m = (Inr (dm_id d, True), k) \<and> mg_client k = mg_client m \<and>
    js_get (mg_messages k) j = Some msg \<and> msg_id msg = j \<and> msg_conversationAddress msg = a \<and>
    msg_direction msg = Incoming \<and> msg_body msg = body \<and> msg_status msg = Delivered"
proof -
  let ?r = "\<lparr>senderIdentity = alice, dm_plaintext = encodePayload (PText j body x), dm_session = new, isNewSession = v\<rparr>"
  obtain k1 where k1: "decrypt_delivered N (mg_random m 0) bob env s (m\<lparr>mg_random := \<lambda>i. mg_random m (1 + i)\<rparr>) = (Inr ?r, k1)"
    "mg_client k1 = mg_client m" "mg_options k1 = mg_options m" "mg_pairing k1 = mg_pairing m"
    using dec by (auto simp: decrypt_delivered_def)
  obtain k2 where k2: "rememberPeer a alice (k1\<lparr>mg_sessions := js_set a new (mg_sessions k1)\<rparr>) = (Inr (), k2)"
    "mg_client k2 = mg_client m" "mg_options k2 = mg_options m"
    using rememberPeer_ok[of a alice "k1\<lparr>mg_sessions := js_set a new (mg_sessions k1)\<rparr>"] k1 by auto
  have "\<not> mo_sendReceipts (mg_options k2)" using off k2(3) by simp
  from onPayload_text_ok[OF this, of N T a j body x] obtain k3 msg where
    k3: "onPayload N T a (PText j body x) k2 = (Inr (), k3)" "mg_client k3 = mg_client k2"
    "js_get (mg_messages k3) j = Some msg" "msg_id msg = j" "msg_conversationAddress msg = a"
    "msg_direction msg = Incoming" "msg_body msg = body" "msg_status msg = Delivered" by blast
  have "accept_delivered N T a ?r k1 = (Inr True, k3)"
    using k2(1) k3(1) by (simp add: accept_delivered_def act_bind_def put_session_def act_modify_def act_lift_def
        payload_view act_some_def act_return_def del: onPayload.simps payload_json.simps)
  moreover have "inbound_decision a alice k1 = None"
    using lock k1(3,4) by (auto simp: inbound_decision_def paired_def split: if_splits)
  ultimately have "process_delivered N T (dm_envelope d) m = (Inr True, k3)"
    using i s w k1(1) a
    by (simp add: process_delivered_def act_bind_def act_lift_def get_identity_def get_preKeys_def act_read_def act_some_def
        act_return_def draws_def)
  then show ?thesis using k2(2) k3 by (auto simp: handleDelivered_def act_bind_def act_try_def act_return_def)
qed

section \<open>Through the relay\<close>

lemma post_over_relay:
  assumes net: "rc_net c = (es, s)" and allow: "fst (allow (e_now (es 0)) ip (rs_limiter s))"
    and acct: "getAccount (recipientAddress env) (rs_store s) = Some acct" and ne: "recipientAddress env \<noteq> ''''"
    and size: "length (se_ephemeralPublicKey env) = 32" "0 < length (se_ciphertext env)"
      "4 * length (se_ciphertext env) \<le> 5 * n + 8400" "n \<le> 76000"
  shows "\<exists>s1 m. client_send (relay_transport N ip) env c = (Inr (), c\<lparr>rc_net := (\<lambda>i. es (Suc i), s1)\<rparr>) \<and>
    rs_auth s1 = rs_auth s \<and> decodeEnvelope (dm_envelope (deliveryOf m)) = Inr env \<and>
    queued (recipientAddress env) (rs_store s1) = newest (queued (recipientAddress env) (rs_store s) @ [m])"
proof -
  have small: "(4 * length (se_ciphertext env) + 2) div 3 \<le> maxEnvelopeBytes" using size(3,4) by (simp add: maxEnvelopeBytes_def)
  have ne2: "se_ephemeralPublicKey env \<noteq> []" "se_ciphertext env \<noteq> []" using size(1,2) by auto
  let ?m = "\<lparr>qm_id = toHex (e_random (es 0)), qm_envelope = encodeEnvelope env, qm_receivedAt = e_now (es 0)\<rparr>"
  obtain s1 where s1: "postMessages (es 0) ip (Some (body_of env)) s = ((200, RAccepted), s1)" "rs_auth s1 = rs_auth s"
    "queued (recipientAddress env) (rs_store s1) = newest (queued (recipientAddress env) (rs_store s) @ [?m])"
    using post_queues[where e = "es 0", OF allow acct ne ne2 small] by blast
  have "client_send (relay_transport N ip) env c = (Inr (), c\<lparr>rc_net := (\<lambda>i. es (Suc i), s1)\<rparr>)"
    using small s1(1) net
    by (simp add: client_send_def Let_def body_of_def encodeEnvelope_def length_toBase64Url exchange_body_def
        act_bind_def request_def relay_transport_def expectJson_def act_return_def)
  moreover have "decodeEnvelope (dm_envelope (deliveryOf ?m)) = Inr env" by (simp add: deliveryOf_def)
  ultimately show ?thesis using s1(2,3) by blast
qed

lemma fetch_over_relay:
  assumes "rc_net c = (es, s)" and "rc_token c = Some tok" and "tok \<noteq> ''''" and "b \<noteq> ''''"
    and "resolve (e_now (es 0)) (Some tok) (rs_auth s) = (Some b, rs_auth s)"
  shows "fetchMessages (relay_transport N ip) c =
    (Inr (map deliveryOf (queued b (rs_store s))), c\<lparr>rc_net := (\<lambda>i. es (Suc i), s)\<rparr>)"
proof -
  have "getMessages (es 0) (Some (''Bearer '' @ tok)) s = ((200, RMessages (map deliveryOf (queued b (rs_store s)))), s)"
    by (simp only: getMessages_def requireAuth_bearer[OF assms(5)]) (simp add: truthy_def assms(4))
  then show ?thesis
    using assms(1,2,3) by (simp add: fetchMessages_def authHeaders_def act_bind_def act_read_def truthy_def act_return_def
        exchange_body_def request_def relay_transport_def expectJson_def)
qed

lemma acknowledge_over_relay:
  assumes "rc_net c = (es, s)" and "rc_token c = Some tok" and "tok \<noteq> ''''" and "b \<noteq> ''''" and "ids \<noteq> []"
    and "resolve (e_now (es 0)) (Some tok) (rs_auth s) = (Some b, rs_auth s)"
  shows "\<exists>s'. client_acknowledge (relay_transport N ip) ids c = (Inr (), c\<lparr>rc_net := (\<lambda>i. es (Suc i), s')\<rparr>) \<and>
    queued b (rs_store s') = filter (\<lambda>m. qm_id m \<notin> set ids) (queued b (rs_store s))"
proof -
  let ?s' = "s\<lparr>rs_store := snd (acknowledge b ids (rs_store s))\<rparr>"
  have "\<exists>n. postAcknowledge (es 0) (Some (''Bearer '' @ tok)) (Some ids) s = ((200, RRemoved n), ?s')"
    by (simp only: postAcknowledge_def requireAuth_bearer[OF assms(6)]) (simp add: truthy_def assms(4) Let_def case_prod_unfold)
  then have "client_acknowledge (relay_transport N ip) ids c = (Inr (), c\<lparr>rc_net := (\<lambda>i. es (Suc i), ?s')\<rparr>)"
    using assms(1,2,3,5) by (auto simp: client_acknowledge_def authHeaders_def act_bind_def act_read_def truthy_def act_return_def
        exchange_body_def request_def relay_transport_def expectJson_def)
  moreover have "queued b (snd (acknowledge b ids (rs_store s))) = filter (\<lambda>m. qm_id m \<notin> set ids) (queued b (rs_store s))"
    using mail.box_ack[of b ids "rs_store s" b] by (simp add: mailbox_def)
  ultimately show ?thesis by auto
qed

text \<open>Topping up prekeys touches neither the messages of the device nor the queues of the relay.\<close>

lemma queued_update [simp]: "queued b (updatePreKeys a u s) = queued b s"
  by (simp add: queued_def updatePreKeys_def Let_def split: option.splits)

lemma requireAuth_store [simp]: "rs_store (snd (requireAuth e h s)) = rs_store s"
  by (simp add: requireAuth_def Let_def case_prod_unfold split: option.split)

lemma queued_key_routes:
  "queued b (rs_store (snd (getKeyCount e h s))) = queued b (rs_store s)"
  "queued b (rs_store (snd (postKeys N e h body s))) = queued b (rs_store s)"
  by (simp_all add: getKeyCount_def postKeys_def Let_def case_prod_unfold split: option.split sum.split)

lemma request_keeps_queue:
  assumes "\<And>e s. queued b (rs_store (snd (route N e (with_ip ip r) s))) = queued b (rs_store s)"
  shows "keeps (\<lambda>c. queued b (rs_store (snd (rc_net c))) = q) (request (relay_transport N ip) r)"
  using assms by (simp add: keeps_iff request_def relay_transport_def case_prod_unfold)

lemma client_keeps_queue:
  "keeps (\<lambda>c. queued b (rs_store (snd (rc_net c))) = q) (preKeyCount (relay_transport N ip))"
  "keeps (\<lambda>c. queued b (rs_store (snd (rc_net c))) = q) (uploadPreKeys (relay_transport N ip) keys)"
  unfolding preKeyCount_def uploadPreKeys_def authHeaders_def exchange_body_def expectJson_def
  by (intro act_rules request_keeps_queue; simp add: queued_key_routes)+

lemma replenish_keeps:
  "keeps (\<lambda>m. js_get (mg_messages m) j = x \<and> queued b (rs_store (snd (rc_net (mg_client m)))) = q)
     (replenishPreKeysIfNeeded N (relay_transport N ip))"
proof -
  let ?P = "\<lambda>m. js_get (mg_messages m) j = x \<and> queued b (rs_store (snd (rc_net (mg_client m)))) = q"
  have client: "keeps ?P (on_client f)" if "keeps (\<lambda>c. queued b (rs_store (snd (rc_net c))) = q) f" for f :: "('b, relay_net relay_client) act"
    using that by (simp add: keeps_iff on_client_def case_prod_unfold)
  have basic: "keeps ?P (draws n)" "keeps ?P get_preKeys" for n
    by (simp_all add: keeps_iff draws_def get_preKeys_def act_defs act_some_def split: option.split)
  show ?thesis
    unfolding replenishPreKeysIfNeeded_def
    by (intro act_rules basic client client_keeps_queue) simp_all
qed

text \<open>A device whose transport is at a given state of the network.\<close>

definition connect :: "'w \<Rightarrow> 'w messenger \<Rightarrow> 'w messenger" where
  "connect w m = m\<lparr>mg_client := (mg_client m)\<lparr>rc_net := w\<rparr>\<rparr>"

lemma connect_decision: "inbound_decision a i (connect w n) = inbound_decision a i n"
  by (simp add: connect_def inbound_decision_def paired_def)

lemma sync_one:
  assumes net: "rc_net (mg_client n) = (es, s)" and tok: "rc_token (mg_client n) = Some tok" "tok \<noteq> ''''" "b \<noteq> ''''"
    and auth: "\<And>i. resolve (e_now (es i)) (Some tok) (rs_auth s) = (Some b, rs_auth s)"
    and box: "queued b (rs_store s) = [q]"
    and handled: "\<And>w. \<exists>k msg. handleDelivered N (relay_transport N ip) (deliveryOf q) (connect w n) = (Inr (qm_id q, True), k) \<and>
      mg_client k = mg_client (connect w n) \<and> js_get (mg_messages k) j = Some msg \<and> Q msg"
  shows "\<exists>msg. js_get (mg_messages (after (sync N (relay_transport N ip)) n)) j = Some msg \<and> Q msg \<and>
    queued b (rs_store (snd (rc_net (mg_client (after (sync N (relay_transport N ip)) n))))) = []"
proof -
  let ?T = "relay_transport N ip"
  let ?n1 = "connect (\<lambda>i. es (Suc i), s) n"
  obtain k msg where k: "handleDelivered N ?T (deliveryOf q) ?n1 = (Inr (qm_id q, True), k)" "mg_client k = mg_client ?n1"
    "js_get (mg_messages k) j = Some msg" "Q msg" using handled by blast
  have "rc_net (mg_client k) = (\<lambda>i. es (Suc i), s)" "rc_token (mg_client k) = Some tok"
    using k(2) tok(1) by (simp_all add: connect_def)
  from acknowledge_over_relay[OF this tok(2,3), of "[qm_id q]"] auth[of 1] obtain s' where
    s': "client_acknowledge ?T [qm_id q] (mg_client k) = (Inr (), (mg_client k)\<lparr>rc_net := (\<lambda>i. es (Suc (Suc i)), s')\<rparr>)"
    "queued b (rs_store s') = []" using box by auto
  define k2 where "k2 = k\<lparr>mg_client := (mg_client k)\<lparr>rc_net := (\<lambda>i. es (Suc (Suc i)), s')\<rparr>\<rparr>"
  have f: "fetchMessages ?T (mg_client n) = (Inr [deliveryOf q], (mg_client n)\<lparr>rc_net := (\<lambda>i. es (Suc i), s)\<rparr>)"
    using fetch_over_relay[OF net tok auth] box by simp
  have "after (sync N ?T) n = after (replenishPreKeysIfNeeded N ?T) k2"
    using k(1) s'(1)
    by (simp add: sync_def act_bind_def on_client_def f connect_def[symmetric] act_return_def k2_def case_prod_unfold
        split: sum.split)
  moreover have "js_get (mg_messages k2) j = Some msg \<and> queued b (rs_store (snd (rc_net (mg_client k2)))) = []"
    using k(3) s'(2) by (simp add: k2_def)
  ultimately show ?thesis using keepsD[OF replenish_keeps, of k2 j "Some msg" b "[]" N ip] k(4) by simp
qed

lemma encryptMessage_recipient:
  assumes "encryptMessage N f i s p = (Inr env, s')"
  shows "addressOf N (peerIdentity s) = Inr (recipientAddress env)"
  using assms by (auto simp: encryptMessage_def Let_def case_prod_unfold rbind_eq_Inr split: sum.splits dest!: seal_fields)

section \<open>End to end\<close>

text \<open>
  The receiver has no session with the sender's address yet, holds the secrets of the bundle, has
  pinned no other key for the address, is not locked to someone else, and sends no receipts (the
  default).
\<close>

definition receiver_ready ::
  "private_identity \<Rightarrow> prekey_store \<Rightarrow> string \<Rightarrow> public_identity \<Rightarrow> 'w messenger \<Rightarrow> bool" where
  "receiver_ready bob store a alice n \<longleftrightarrow> mg_identity n = Some bob \<and> mg_preKeys n = Some store \<and> js_get (mg_sessions n) a = None \<and>
     (js_get (mg_pins n) a = None \<or> js_get (mg_pins n) a = Some (signingPublicKey alice)) \<and>
     inbound_decision a alice n = None \<and> \<not> mo_sendReceipts (mg_options n) \<and> (\<forall>i. length (fst (mg_random n i)) = 32)"

lemma text_posted:
  assumes "library_ok N" and "identity_ok N alice" and "identity_ok N bob"
    and "addressOf N (publicIdentityOf bob) = Inr b"
    and "sender_ready N alice b (publicKey (signing bob)) m"
    and "length (encodePayload (next_text m body x)) \<le> 76000"
    and "fetchBundle (relay_transport N ip) b (mg_client m) = (Inr bundle, c)"
    and "secrets_match N bob spk kem otk okem bundle" and "verifyPreKeyBundle N bundle = Inr ()"
    and "\<forall>k. oneTimePreKey bundle = Some k \<longrightarrow> fits_u32 (otk_id k)"
    and "\<forall>k. oneTimeKemPreKey bundle = Some k \<longrightarrow> fits_u32 (otk_id k)"
    and "rc_net c = (es, s)" and "fst (allow (e_now (es 0)) ip (rs_limiter s))"
    and "getAccount b (rs_store s) = Some acct" and "queued b (rs_store s) = []" and "b \<noteq> ''''"
  shows "\<exists>msg m' sess env sess' s1 q. sendText N (relay_transport N ip) b body x m = (Inr msg, m') \<and>
    msg_id msg = toHex (take 12 (fst (mg_random m 0))) \<and> msg_status msg = Sent \<and>
    mg_client m' = c\<lparr>rc_net := (\<lambda>i. es (Suc i), s1)\<rparr> \<and> rs_auth s1 = rs_auth s \<and>
    decodeEnvelope (dm_envelope (deliveryOf q)) = Inr env \<and> queued b (rs_store s1) = [q] \<and>
    startSession N (mg_random m 1) (fst (mg_random m 2)) (mg_random m 3) alice bundle None = Inr sess \<and>
    encryptMessage N (mg_random m 4) alice sess (encodePayload (next_text m body x)) = (Inr env, sess')"
proof -
  let ?p = "next_text m body x" and ?id = "toHex (take 12 (fst (mg_random m 0)))"
  have r: "length (fst (mg_random m i)) = 32" for i using assms(5) by (simp add: sender_ready_def)
  have id: "identity bundle = publicIdentityOf bob" using assms(8) by (simp add: secrets_match_def)
  obtain sess p where start: "startSession N (mg_random m 1) (fst (mg_random m 2)) (mg_random m 3) alice bundle None = Inr sess"
    "pendingPreKey sess = Some p"
    "length (pre_ephemeralPublicKey p) = 32 \<and> length (pre_kemCiphertext p) = 1568 \<and> ids_fit (pre_keyIds p)"
    "peerIdentity sess = publicIdentityOf bob" "sendingChainKey (ratchet sess) \<noteq> None"
    "sending (ratchet sess) = generateDhKeyPair N (mg_random m 3)" "sentCount (ratchet sess) = 0" "previousSentCount (ratchet sess) = 0"
    using startSession_total[OF assms(1,2,3) r r assms(8,9,10,11) disjI1[OF refl]] by blast
  have pk: "length (publicKey (sending (ratchet sess))) = 32"
    using start(6) library_okD(2)[OF assms(1)] generate_pairs(1)[OF r] by simp
  have "\<exists>env s'. encryptMessage N (mg_random m 4) alice sess (encodePayload ?p) = (Inr env, s')"
    using start pk assms(3,6) by (intro encryptMessage_total[OF assms(1) r assms(2), where rpair = "exchange bob"])
      (simp_all add: identity_ok_def)
  then obtain env s' where enc: "encryptMessage N (mg_random m 4) alice sess (encodePayload ?p) = (Inr env, s')" by blast
  note size = encryptMessage_size[OF assms(1) r assms(2) enc pk] encryptMessage_recipient[OF enc]
  have to: "recipientAddress env = b" using size(4) start(4) assms(4) by simp
  obtain s1 q where post: "client_send (relay_transport N ip) env c = (Inr (), c\<lparr>rc_net := (\<lambda>i. es (Suc i), s1)\<rparr>)"
    "rs_auth s1 = rs_auth s" "decodeEnvelope (dm_envelope (deliveryOf q)) = Inr env"
    "queued b (rs_store s1) = newest (queued b (rs_store s) @ [q])"
    using post_over_relay[OF assms(12,13), of env acct "length (encodePayload ?p)" N] size start(2,3) to assms(16) assms(6,14)
    by (simp del: length_greater_0_conv) blast
  then have box: "queued b (rs_store s1) = [q]" by (simp add: assms(15) newest_small maxQueueLength_def)
  obtain msg m' where sent: "sendText N (relay_transport N ip) b body x m = (Inr msg, m')" "msg_id msg = ?id"
    "msg_status msg = Sent" "mg_client m' = c\<lparr>rc_net := (\<lambda>i. es (Suc i), s1)\<rparr>"
    using sendText_sends[OF _ assms(7) start(1) enc post(1)] assms(5) id by auto
  show ?thesis using sent post(2,3) box start(1) enc by blast
qed

text \<open>C2
  A text arrives. A device that has never spoken to the recipient, and is not locked to someone
  else, sends a text over the modelled relay, which serves the recipient's own bundle, knows the
  recipient and holds nothing else for it: \<open>sendText\<close> reports the text sent, the recipient's next
  \<open>sync\<close> stores it under the same identifier as incoming from the sender's address, and the relay
  no longer holds it. The payload may have up to 76000 bytes.
\<close>

theorem text_delivered:
  assumes "library_ok N" and "identity_ok N alice" and "identity_ok N bob"
    and "addressOf N (publicIdentityOf alice) = Inr a" and "addressOf N (publicIdentityOf bob) = Inr b"
    and "sender_ready N alice b (publicKey (signing bob)) m"
    and "length (encodePayload (next_text m body x)) \<le> 76000"
    and "fetchBundle (relay_transport N ip) b (mg_client m) = (Inr bundle, c)"
    and "secrets_match N bob spk kem otk okem bundle" and "verifyPreKeyBundle N bundle = Inr ()"
    and "\<forall>k. oneTimePreKey bundle = Some k \<longrightarrow> fits_u32 (otk_id k)"
    and "\<forall>k. oneTimeKemPreKey bundle = Some k \<longrightarrow> fits_u32 (otk_id k)"
    and "rc_net c = (es, s)" and "fst (allow (e_now (es 0)) ip (rs_limiter s))"
    and "getAccount b (rs_store s) = Some acct" and "queued b (rs_store s) = []"
    and "receiver_ready bob store a (publicIdentityOf alice) n"
    and "resolver_holds store_resolver store bundle spk kem otk okem"
    and "rc_token (mg_client n) = Some tok" and "tok \<noteq> ''''"
    and "\<forall>i. resolve (e_now (es i)) (Some tok) (rs_auth s) = (Some b, rs_auth s)"
  shows "\<exists>msg m' n' rcv. sendText N (relay_transport N ip) b body x m = (Inr msg, m') \<and> msg_status msg = Sent \<and>
    n' = after (sync N (relay_transport N ip2)) (connect (rc_net (mg_client m')) n) \<and>
    js_get (mg_messages n') (msg_id msg) = Some rcv \<and> msg_body rcv = body \<and> msg_conversationAddress rcv = a \<and>
    msg_direction rcv = Incoming \<and> queued b (rs_store (snd (rc_net (mg_client n')))) = []"
proof -
  let ?p = "next_text m body x" and ?id = "toHex (take 12 (fst (mg_random m 0)))"
  have r: "length (fst (mg_random m i)) = 32" for i using assms(6) by (simp add: sender_ready_def)
  have "b \<noteq> ''''" using address_exists[OF assms(1,3)] assms(5) by auto
  obtain msg m' sess env sess' s1 q where sent: "sendText N (relay_transport N ip) b body x m = (Inr msg, m')" "msg_id msg = ?id"
    "msg_status msg = Sent" "mg_client m' = c\<lparr>rc_net := (\<lambda>i. es (Suc i), s1)\<rparr>"
    and post: "rs_auth s1 = rs_auth s" "decodeEnvelope (dm_envelope (deliveryOf q)) = Inr env"
    and box: "queued b (rs_store s1) = [q]"
    and start: "startSession N (mg_random m 1) (fst (mg_random m 2)) (mg_random m 3) alice bundle None = Inr sess"
    and enc: "encryptMessage N (mg_random m 4) alice sess (encodePayload ?p) = (Inr env, sess')"
    using text_posted[OF assms(1,2,3,5-16) \<open>b \<noteq> ''''\<close>] by blast
  have n: "mg_identity n = Some bob" "mg_preKeys n = Some store" "js_get (mg_sessions n) a = None" "\<not> mo_sendReceipts (mg_options n)"
    "inbound_decision a (publicIdentityOf alice) n = None" "length (fst (mg_random n 0)) = 32"
    "js_get (mg_pins n) a = None \<or> js_get (mg_pins n) a = Some (publicKey (signing alice))"
    using assms(17) by (simp_all add: receiver_ready_def)
  obtain new s2 where dec: "decryptEnvelope store_resolver N (mg_random n 0) bob env (js_get (mg_sessions n)) (js_get (mg_pins n)) store =
      (Inr \<lparr>senderIdentity = publicIdentityOf alice, dm_plaintext = encodePayload ?p, dm_session = new, isNewSession = True\<rparr>, None, s2)"
    using first_message_at[where pinned = "js_get (mg_pins n)" and lookup = "js_get (mg_sessions n)",
        OF assms(1,2,3) r r r n(6) assms(9,18) start enc assms(4) n(7)] n(3)
    by (auto simp: same_handshake_def)
  let ?Q = "\<lambda>rcv. msg_body rcv = body \<and> msg_conversationAddress rcv = a \<and> msg_direction rcv = Incoming"
  let ?w = "rc_net (mg_client m')"
  have handled: "\<exists>k rcv. handleDelivered N (relay_transport N ip2) (deliveryOf q) (connect w n) = (Inr (qm_id q, True), k) \<and>
      mg_client k = mg_client (connect w n) \<and> js_get (mg_messages k) ?id = Some rcv \<and> ?Q rcv" for w
  proof -
    have c: "mg_identity (connect w n) = Some bob" "mg_preKeys (connect w n) = Some store"
      "inbound_decision a (publicIdentityOf alice) (connect w n) = None" "\<not> mo_sendReceipts (mg_options (connect w n))"
      using n by (simp_all add: connect_decision) (simp_all add: connect_def)
    have fields: "mg_random (connect w n) = mg_random n" "mg_sessions (connect w n) = mg_sessions n" "mg_pins (connect w n) = mg_pins n"
      by (simp_all add: connect_def)
    have "decryptEnvelope store_resolver N (mg_random (connect w n) 0) bob env (js_get (mg_sessions (connect w n)))
        (js_get (mg_pins (connect w n))) store = (Inr \<lparr>senderIdentity = publicIdentityOf alice,
          dm_plaintext = encodePayload (PText ?id body (if x = Some 0 then None else x)), dm_session = new, isNewSession = True\<rparr>, None, s2)"
      using dec unfolding fields next_text_def .
    from handleDelivered_text[OF c(1,2) post(2) this assms(4) c(3,4), of "relay_transport N ip2"]
    obtain k rcv where "handleDelivered N (relay_transport N ip2) (deliveryOf q) (connect w n) = (Inr (dm_id (deliveryOf q), True), k)"
      "mg_client k = mg_client (connect w n)" "js_get (mg_messages k) ?id = Some rcv" "?Q rcv" by blast
    moreover have "dm_id (deliveryOf q) = qm_id q" by (simp add: deliveryOf_def)
    ultimately show ?thesis by metis
  qed
  have w: "rc_net (mg_client (connect ?w n)) = (\<lambda>i. es (Suc i), s1)" "rc_token (mg_client (connect ?w n)) = Some tok"
    using sent(4) assms(19) by (simp_all add: connect_def)
  have again: "connect w (connect ?w n) = connect w n" for w by (simp add: connect_def)
  have "\<exists>rcv. js_get (mg_messages (after (sync N (relay_transport N ip2)) (connect ?w n))) ?id = Some rcv \<and> ?Q rcv \<and>
    queued b (rs_store (snd (rc_net (mg_client (after (sync N (relay_transport N ip2)) (connect ?w n)))))) = []"
  proof (rule sync_one[OF w assms(20) \<open>b \<noteq> ''''\<close> _ box])
    show "resolve (e_now (es (Suc i))) (Some tok) (rs_auth s1) = (Some b, rs_auth s1)" for i
      using assms(21) post(1) by simp
  qed (simp only: again handled)
  with sent(1,2,3) show ?thesis by metis
qed

section \<open>The hypotheses can hold\<close>

definition demo_plain_bundle :: prekey_bundle where
  "demo_plain_bundle = demo_bundle\<lparr>oneTimePreKey := None\<rparr>"

lemma demo_plain_match:
  "secrets_match demo_library demo_bob (snd demo_spk) (snd demo_kem) None None demo_plain_bundle"
  "resolver_holds store_resolver demo_store demo_plain_bundle (snd demo_spk) (snd demo_kem) None None"
  "verifyPreKeyBundle demo_library demo_plain_bundle = Inr ()"
proof -
  show "secrets_match demo_library demo_bob (snd demo_spk) (snd demo_kem) None None demo_plain_bundle"
    using demo_match(1) by (auto simp: secrets_match_def demo_plain_bundle_def demo_bundle_def)
  show "resolver_holds store_resolver demo_store demo_plain_bundle (snd demo_spk) (snd demo_kem) None None"
    using demo_match(2) by (auto simp: resolver_holds_def demo_plain_bundle_def demo_bundle_def)
  show "verifyPreKeyBundle demo_library demo_plain_bundle = Inr ()"
  proof -
    obtain p kp q kq where k: "demo_spk = (p, kp)" "demo_kem = (q, kq)" by (metis prod.exhaust)
    from created_prekeys[OF demo_library_ok demo_identities_ok(2) demo_fresh_length demo_keys[unfolded k]]
    have "verifyPreKeyBundle demo_library \<lparr>identity = publicIdentityOf demo_bob, signedPreKey = p, signedKemPreKey = q,
      oneTimePreKey = None, oneTimeKemPreKey = None\<rparr> = Inr ()" by blast
    then show ?thesis unfolding demo_plain_bundle_def demo_bundle_def k fst_conv using k by (simp add: demo_bundle_def)
  qed
qed

lemma demo_text_small: "length (encodePayload (next_text m ''hi'' None)) \<le> 76000"
  using text_size[of "toHex (take 12 (fst (mg_random m 0)))" "''hi''"] by (simp add: next_text_def length_toHex)

text \<open>Two devices in open mode, and the relay Bob is online at.\<close>

abbreviation demo_world :: "relay_state \<Rightarrow> relay_net" where
  "demo_world s \<equiv> (\<lambda>i. demo_env, s)"

definition demo_sender :: "relay_state \<Rightarrow> relay_net messenger" where
  "demo_sender s = (demo_device (Some OpenMode))\<lparr>mg_identity := Some demo_alice, mg_client := new_client (demo_world s)\<rparr>"

definition demo_receiver :: "string \<Rightarrow> relay_net messenger" where
  "demo_receiver t = (demo_device (Some OpenMode))\<lparr>mg_identity := Some demo_bob, mg_preKeys := Some demo_store,
     mg_client := (new_client (demo_world (buildRelay None)))\<lparr>rc_token := Some t\<rparr>\<rparr>"

lemma demo_fetch:
  assumes "getAccount b (rs_store s) = Some (signed_account b (publicIdentityOf demo_bob) (fst demo_spk) (fst demo_kem))"
  shows "\<exists>st. fetchBundle (relay_transport demo_library ip) b (mg_client (demo_sender s)) =
      (Inr demo_plain_bundle, new_client (demo_world (s\<lparr>rs_store := st\<rparr>))) \<and>
    getAccount b st = getAccount b (rs_store s) \<and> queues st = queues (rs_store s)"
proof -
  let ?st = "snd (takeOneTimePreKeys b (rs_store s))"
  have "bundle_response demo_plain_bundle = \<lparr>br_identity = encodeIdentity (publicIdentityOf demo_bob),
      br_signedPreKey = encodeSignedPreKey (fst demo_spk), br_signedKemPreKey = encodeSignedPreKey (fst demo_kem),
      br_oneTimePreKey = None, br_oneTimeKemPreKey = None\<rparr>"
    by (simp add: bundle_response_def demo_plain_bundle_def demo_bundle_def)
  moreover have tk: "js_get (accounts (rs_store s)) b = Some (signed_account b (publicIdentityOf demo_bob) (fst demo_spk) (fst demo_kem))"
    using assms by (simp add: getAccount_def)
  ultimately have get: "getKeys b s = ((200, RBundle (bundle_response demo_plain_bundle)), s\<lparr>rs_store := ?st\<rparr>)"
    using assms by (simp add: getKeys_def Let_def takeOneTimePreKeys_def signed_account_def shift_def)
  have "fetchBundle (relay_transport demo_library ip) b (mg_client (demo_sender s)) =
      (Inr demo_plain_bundle, new_client (demo_world (s\<lparr>rs_store := ?st\<rparr>)))"
    by (simp add: fetchBundle_def exchange_body_def act_bind_def request_def relay_transport_def demo_sender_def new_client_def
        get expectJson_def act_return_def act_lift_def)
  moreover have "getAccount b ?st = getAccount b (rs_store s) \<and> queues ?st = queues (rs_store s)"
    using tk by (simp add: takeOneTimePreKeys_def signed_account_def shift_def getAccount_def)
  ultimately show ?thesis by blast
qed



theorem text_delivered_witness:
  "\<exists>b s t msg m' n' rcv. addressOf demo_library (publicIdentityOf demo_bob) = Inr b \<and> relay_reach demo_library s \<and>
    sendText demo_library (relay_transport demo_library ''ip'') b ''hi'' None (demo_sender s) = (Inr msg, m') \<and> msg_status msg = Sent \<and>
    n' = after (sync demo_library (relay_transport demo_library ''ip'')) (connect (rc_net (mg_client m')) (demo_receiver t)) \<and>
    js_get (mg_messages n') (msg_id msg) = Some rcv \<and> msg_body rcv = ''hi'' \<and> msg_direction rcv = Incoming"
proof -
  obtain b s t where o: "relay_reach demo_library s" "addressOf demo_library (publicIdentityOf demo_bob) = Inr b" "b \<noteq> ''''"
    "getAccount b (rs_store s) = Some (signed_account b (publicIdentityOf demo_bob) (fst demo_spk) (fst demo_kem))"
    "resolve 0 (Some t) (rs_auth s) = (Some b, rs_auth s)" "rs_limiter s = new_limiter 120 60000" "queued b (rs_store s) = []"
    using demo_online by blast
  obtain a where a: "addressOf demo_library (publicIdentityOf demo_alice) = Inr a"
    using address_exists[OF demo_library_ok demo_identities_ok(1)] by blast
  obtain st where f: "fetchBundle (relay_transport demo_library ''ip'') b (mg_client (demo_sender s)) =
      (Inr demo_plain_bundle, new_client (demo_world (s\<lparr>rs_store := st\<rparr>)))"
    "getAccount b st = getAccount b (rs_store s)" "queues st = queues (rs_store s)" using demo_fetch[OF o(4)] by blast
  have t: "t \<noteq> ''''" using o(5) by (auto simp: resolve_def)
  have s: "sender_ready demo_library demo_alice b (publicKey (signing demo_bob)) (demo_sender s)"
    by (simp add: sender_ready_def demo_sender_def demo_device_def new_messenger_def paired_def)
  have r: "receiver_ready demo_bob demo_store a (publicIdentityOf demo_alice) (demo_receiver t)"
    by (simp add: receiver_ready_def demo_receiver_def demo_device_def new_messenger_def paired_def inbound_decision_def)
  have "\<exists>msg m' n' rcv. sendText demo_library (relay_transport demo_library ''ip'') b ''hi'' None (demo_sender s) = (Inr msg, m') \<and> msg_status msg = Sent \<and>
    n' = after (sync demo_library (relay_transport demo_library ''ip'')) (connect (rc_net (mg_client m')) (demo_receiver t)) \<and>
    js_get (mg_messages n') (msg_id msg) = Some rcv \<and> msg_body rcv = ''hi'' \<and> msg_conversationAddress rcv = a \<and>
    msg_direction rcv = Incoming \<and> queued b (rs_store (snd (rc_net (mg_client n')))) = []"
  proof (rule text_delivered[OF demo_library_ok demo_identities_ok a o(2) s demo_text_small f(1) demo_plain_match(1,3) _ _ _ _ _ _ r demo_plain_match(2) _ t])
    show "rc_net (new_client (demo_world (s\<lparr>rs_store := st\<rparr>))) = demo_world (s\<lparr>rs_store := st\<rparr>)" by (simp add: new_client_def)
    show "fst (allow (e_now demo_env) ''ip'' (rs_limiter (s\<lparr>rs_store := st\<rparr>)))" using o(6) by (simp add: allow_def new_limiter_def Let_def)
    show "getAccount b (rs_store (s\<lparr>rs_store := st\<rparr>)) = Some (signed_account b (publicIdentityOf demo_bob) (fst demo_spk) (fst demo_kem))"
      using f(2) o(4) by simp
    show "queued b (rs_store (s\<lparr>rs_store := st\<rparr>)) = []" using f(3) o(7) by (simp add: queued_def)
    show "rc_token (mg_client (demo_receiver t)) = Some t" by (simp add: demo_receiver_def)
    show "\<forall>i. resolve (e_now demo_env) (Some t) (rs_auth (s\<lparr>rs_store := st\<rparr>)) = (Some b, rs_auth (s\<lparr>rs_store := st\<rparr>))"
      using o(5) by simp
  qed (simp_all add: demo_plain_bundle_def demo_bundle_def)
  with o(1,2) show ?thesis by blast
qed

end
