(* ===== verification/App_Pairing.thy ===== *)
theory App_Pairing
  imports App_Delivery
begin

text \<open>
  Pairing, and where the trust in a key comes from: what scanning a code establishes, what the
  key of a contact is worth that only the relay vouched for, and what a refused stranger leaves
  behind. For messenger.ts and pairing.ts.
\<close>

section \<open>Scanning a shown\<close>

lemma verificationCode_eq:
  assumes "mg_identity n = Some bob" and "verifyIdentityBinding N (publicIdentityOf bob) = Inr True"
    and "verificationCode n = (r, n')"
  shows "\<exists>b. r = Inr (toBase64Url b) \<and> n' = n \<and> parseVerificationQrPayload N b = Inr (publicIdentityOf bob)"
  using payload_of_identity[OF assms(2)] assms(1,3)
  by (auto simp: verificationCode_def get_identity_def act_defs act_some_def)

lemma pairWithCode_eq:
  assumes m: "mg_pairing m = None" "mg_address m \<noteq> Some b" and shown: "parseVerificationQrPayload N payload = Inr i"
    and b: "addressOf N i = Inr b" "b \<noteq> ''''" and key: "signingPublicKey i \<noteq> []"
  shows "\<exists>p c m'. pairWithCode N (toBase64Url payload) name m = (Inr p, m') \<and> mg_pairing m' = Some p \<and>
    js_get (mg_pairingStore m') ''peer'' = Some p \<and> ps_peerAddress p = b \<and>
    ps_peerIdentityKey p = toBase64Url (signingPublicKey i) \<and> js_get (mg_contacts m') b = Some c \<and>
    ct_verification c = Verified \<and> ct_identityKey c = toBase64Url (signingPublicKey i) \<and>
    js_get (mg_pins m') b = Some (signingPublicKey i) \<and> js_get (mg_sessionMeta m') b = Some (encodeIdentity i)"
proof -
  have "toBase64Url (signingPublicKey i) \<noteq> ''''" using key by (simp add: toBase64Url_empty)
  with assms show ?thesis
    by (auto simp: pairWithCode_def pairedPeer_def addContactFromCode_def act_defs act_some_def put_meta_def get_contact_def
        put_contact_def put_pin_def notify_def touchConversation_def put_conversation_def now_ms_def set_pairing_def
        createPairing_def Let_def)
qed

text \<open>C33
  Pairing by code. The code one device shows pairs another one with exactly its identity: the
  pairing, its stored copy, the pinned key and a verified contact all carry the key of the code,
  the identity for safety numbers and calls is the other device's, from then on traffic of this
  address with this key only is let in, and pairing again is refused without an effect. A device
  refuses its own code.
\<close>

theorem pairing_established:
  assumes "library_ok N" and "identity_ok N bob" and "addressOf N (publicIdentityOf bob) = Inr b"
    and "mg_identity n = Some bob" and "verificationCode n = (Inr shown, n')"
    and "mg_pairing m = None" and "mg_address m \<noteq> Some b"
  shows "(\<exists>p c m'. pairWithCode N shown name m = (Inr p, m') \<and> mg_pairing m' = Some p \<and>
      js_get (mg_pairingStore m') ''peer'' = Some p \<and> js_get (mg_contacts m') b = Some c \<and>
      ct_verification c = Verified \<and> ct_identityKey c = toBase64Url (publicKey (signing bob)) \<and>
      js_get (mg_pins m') b = Some (publicKey (signing bob)) \<and>
      messenger_identity b m' = (Inr (Some (publicIdentityOf bob)), m') \<and>
      (\<forall>a k. decideInbound (mg_pairing m') a k = None \<longleftrightarrow> a = b \<and> k = toBase64Url (publicKey (signing bob))) \<and>
      (\<forall>again other. pairWithCode N again other m' = (Inl OtherError, m'))) \<and>
    (mg_address n = Some b \<longrightarrow> mg_pairing n = None \<longrightarrow> pairWithCode N shown name n = (Inl OtherError, n))"
proof -
  have v: "verifyIdentityBinding N (publicIdentityOf bob) = Inr True" using assms(2) by (simp add: identity_ok_def)
  obtain payload where shown: "shown = toBase64Url payload" "parseVerificationQrPayload N payload = Inr (publicIdentityOf bob)"
    using verificationCode_eq[OF assms(4) v assms(5)] by auto
  have "b \<noteq> ''''" using address_exists[OF assms(1,2)] assms(3) by auto
  moreover have "signingPublicKey (publicIdentityOf bob) \<noteq> []" using verify_key_lengths(1)[OF v] by auto
  ultimately obtain p c m' where p: "pairWithCode N shown name m = (Inr p, m')" "mg_pairing m' = Some p"
    "js_get (mg_pairingStore m') ''peer'' = Some p" "ps_peerAddress p = b" "ps_peerIdentityKey p = toBase64Url (publicKey (signing bob))"
    "js_get (mg_contacts m') b = Some c" "ct_verification c = Verified" "ct_identityKey c = toBase64Url (publicKey (signing bob))"
    "js_get (mg_pins m') b = Some (publicKey (signing bob))" "js_get (mg_sessionMeta m') b = Some (encodeIdentity (publicIdentityOf bob))"
    using pairWithCode_eq[OF assms(6,7) shown(2) assms(3), of name] shown(1) by auto
  have "messenger_identity b m' = (Inr (Some (publicIdentityOf bob)), m')"
    using p(10) by (simp add: messenger_identity_def act_defs)
  moreover have "decideInbound (mg_pairing m') a k = None \<longleftrightarrow> a = b \<and> k = toBase64Url (publicKey (signing bob))" for a k
    using p(2,4,5) by (simp add: decideInbound_def)
  moreover have "pairWithCode N again other m' = (Inl OtherError, m')" for again other
    using p(2) by (simp add: pairWithCode_def pairedPeer_def act_defs)
  moreover have "mg_address n = Some b \<longrightarrow> mg_pairing n = None \<longrightarrow> pairWithCode N shown name n = (Inl OtherError, n)"
    using shown assms(3) by (simp add: pairWithCode_def pairedPeer_def addContactFromCode_def act_defs)
  ultimately show ?thesis using p by blast
qed

theorem pairing_established_witness:
  "\<exists>b shown p m'. addressOf demo_library (publicIdentityOf demo_bob) = Inr b \<and>
    verificationCode (demo_receiver ''t'') = (Inr shown, demo_receiver ''t'') \<and>
    pairWithCode demo_library shown ''Bob'' (demo_device None) = (Inr p, m') \<and> mg_pairing m' = Some p \<and>
    js_get (mg_pins m') b = Some (publicKey (signing demo_bob))"
proof -
  obtain b where b: "addressOf demo_library (publicIdentityOf demo_bob) = Inr b"
    using address_exists[OF demo_library_ok demo_identities_ok(2)] by blast
  have i: "mg_identity (demo_receiver ''t'') = Some demo_bob" by (simp add: demo_receiver_def)
  have v: "verifyIdentityBinding demo_library (publicIdentityOf demo_bob) = Inr True"
    using demo_identities_ok(2) by (simp add: identity_ok_def)
  obtain shown where c: "verificationCode (demo_receiver ''t'') = (Inr shown, demo_receiver ''t'')"
    using verificationCode_eq[OF i v surjective_pairing] by (metis prod.collapse)
  have "mg_pairing (demo_device None) = None" "mg_address (demo_device None) \<noteq> Some b"
    by (simp_all add: demo_device_def new_messenger_def)
  from pairing_established[OF demo_library_ok demo_identities_ok(2) b i c this, of "''Bob''", THEN conjunct1]
  obtain p m' where "pairWithCode demo_library shown ''Bob'' (demo_device None) = (Inr p, m')" "mg_pairing m' = Some p"
    "js_get (mg_pins m') b = Some (publicKey (signing demo_bob))" by (elim exE conjE) (rule that)
  with b c show ?thesis by (intro exI conjI)
qed

section \<open>A stranger at the lock\<close>

lemma handleDelivered_blocked:
  assumes i: "mg_identity m = Some bob" and s: "mg_preKeys m = Some s"
    and w: "decodeEnvelope (dm_envelope d) = Inr env"
    and dec: "decryptEnvelope store_resolver N (mg_random m 0) bob env (js_get (mg_sessions m)) (js_get (mg_pins m)) s = (Inr x, None, s')"
    and a: "addressOf N (senderIdentity x) = Inr a" and lock: "inbound_decision a (senderIdentity x) m = Some r"
  shows "\<exists>k. handleDelivered N T d m = (Inr (dm_id d, False), k) \<and> mg_preKeys k = Some s' \<and>
    mg_sessions k = mg_sessions m \<and> mg_contacts k = mg_contacts m \<and> mg_messages k = mg_messages m \<and>
    mg_events k = mg_events m @ [OnBlocked r]"
proof -
  obtain k1 where k1: "decrypt_delivered N (mg_random m 0) bob env s (m\<lparr>mg_random := \<lambda>i. mg_random m (1 + i)\<rparr>) = (Inr x, k1)"
    "mg_preKeys k1 = Some s'" "mg_sessions k1 = mg_sessions m" "mg_contacts k1 = mg_contacts m" "mg_messages k1 = mg_messages m"
    "mg_events k1 = mg_events m" "mg_options k1 = mg_options m" "mg_pairing k1 = mg_pairing m"
    using dec by (auto simp: decrypt_delivered_def)
  have "inbound_decision a (senderIdentity x) k1 = Some r"
    using lock k1(7,8) by (auto simp: inbound_decision_def paired_def split: if_splits)
  then have "process_delivered N T (dm_envelope d) m = (Inr False, k1\<lparr>mg_events := mg_events k1 @ [OnBlocked r]\<rparr>)"
    using i s w k1(1) a
    by (simp add: process_delivered_def act_bind_def act_lift_def get_identity_def get_preKeys_def act_read_def act_some_def
        act_return_def draws_def notify_def act_modify_def)
  then show ?thesis using k1 by (simp add: handleDelivered_def act_bind_def act_try_def act_return_def)
qed

text \<open>C34
  A stranger gets through to the keys. A paired device that is sent a first message by somebody
  other than its peer, against the bundle the relay serves to anyone, raises a quiet event,
  answers that the message was not taken, and keeps sessions, contacts and messages; but its
  prekey store has changed: the secret of its current signed prekey is all zeros, so the handshake
  of the peer against that prekey fails from then on.
\<close>

theorem stranger_spoils_prekeys:
  assumes "library_ok N" and "identity_ok N eve" and "identity_ok N bob"
    and "length (fst f1) = 32" "length (fst f2) = 32" "length (fst f3) = 32" "length (fst (mg_random n 0)) = 32"
    and "secrets_match N bob spk kem otk okem bundle" and "resolver_holds store_resolver store bundle spk kem otk okem"
    and "startSession N f1 coins f2 eve bundle pin = Inr sess" and "encryptMessage N f3 eve sess plaintext = (Inr env, sess')"
    and "addressOf N (publicIdentityOf eve) = Inr e" and "decodeEnvelope (dm_envelope d) = Inr env"
    and "mg_identity n = Some bob" and "mg_preKeys n = Some store"
    and "js_get (mg_sessions n) e = None" and "js_get (mg_pins n) e = None"
    and "paired n" and "mg_pairing n = Some p" and "ps_peerAddress p \<noteq> e"
  shows "\<exists>k store'. handleDelivered N T d n = (Inr (dm_id d, False), k) \<and> mg_preKeys k = Some store' \<and>
    js_get (signedPreKeys store') (spk_id (signedPreKey bundle)) = Some (spk\<lparr>secretKey := replicate 32 0\<rparr>) \<and>
    mg_sessions k = mg_sessions n \<and> mg_contacts k = mg_contacts n \<and> mg_messages k = mg_messages n \<and>
    mg_events k = mg_events n @ [OnBlocked Stranger]"
proof -
  have "\<not> same_handshake (js_get (mg_sessions n) e) (the (pendingPreKey sess))" using assms(16) by (simp add: same_handshake_def)
  from first_message_at[where pinned = "js_get (mg_pins n)" and lookup = "js_get (mg_sessions n)",
      OF assms(1-12) disjI1[OF assms(17)] this]
  obtain new bs where d: "decryptEnvelope store_resolver N (mg_random n 0) bob env (js_get (mg_sessions n)) (js_get (mg_pins n)) store =
      (Inr \<lparr>senderIdentity = publicIdentityOf eve, dm_plaintext = plaintext, dm_session = new, isNewSession = True\<rparr>,
       None, consume_named store_resolver (pre_keyIds (the (pendingPreKey sess))) (res_wiped store_resolver bs store))"
    and bs: "skbuf spk \<in> set bs" by blast
  have "res_signedPreKey store_resolver store (spk_id (signedPreKey bundle)) = Some spk"
    using assms(9) by (simp add: resolver_holds_def)
  from store.signed_prekey_wiped[OF this bs, of "pre_keyIds (the (pendingPreKey sess))"]
  have zero: "js_get (signedPreKeys (consume_named store_resolver (pre_keyIds (the (pendingPreKey sess))) (res_wiped store_resolver bs store)))
      (spk_id (signedPreKey bundle)) = Some (spk\<lparr>secretKey := replicate 32 0\<rparr>)"
    using assms(8) by (auto simp: zeroed_def secrets_match_def dh_pair_def)
  have "inbound_decision e (publicIdentityOf eve) n = Some Stranger"
    using assms(18-20) by (auto simp: inbound_decision_def decideInbound_def)
  from handleDelivered_blocked[OF assms(14,15,13) d, of e Stranger T] assms(12) this zero show ?thesis by auto
qed

section \<open>A key only the relay vouched for\<close>

text \<open>C35
  Accepting a changed key trusts the relay. On a device paired in person, when the peer is shown
  as changed and the change is accepted, whatever identity the relay then serves under the peer's
  address, its own included, becomes the contact's key, and the next session, and with it the next
  text, is opened to that identity: the outgoing side of the pairing lock looks at the address
  only, and nothing checks that the key hashes to it.
\<close>

theorem accepted_key_is_the_relays:
  assumes "library_ok N" and "identity_ok N alice" and "identity_ok N eve"
    and "mg_identity m = Some alice" and "\<forall>i. length (fst (mg_random m i)) = 32"
    and "paired m" and "mg_pairing m = Some p" and "ps_peerAddress p = b" and "js_get (mg_contacts m) b = Some c"
    and "fetchBundle T b (mg_client m) = (Inr bundle, c1)" and "fetchBundle T b c1 = (Inr bundle', c2)"
    and "identity bundle = publicIdentityOf eve" and "secrets_match N eve spk kem otk okem bundle'"
    and "verifyPreKeyBundle N bundle' = Inr ()"
    and "\<forall>k. oneTimePreKey bundle' = Some k \<longrightarrow> fits_u32 (otk_id k)"
    and "\<forall>k. oneTimeKemPreKey bundle' = Some k \<longrightarrow> fits_u32 (otk_id k)"
  shows "\<exists>m1 m2 sess. acceptIdentityChange T b m = (Inr (), m1) \<and> ensureSession N T b m1 = (Inr sess, m2) \<and>
    peerIdentity sess = publicIdentityOf eve \<and> mg_pairing m1 = Some p"
proof -
  let ?c = "c\<lparr>ct_identityKey := toBase64Url (publicKey (signing eve)), ct_verification := Unverified\<rparr>"
  obtain m1 where m1: "acceptIdentityChange T b m = (Inr (), m1)" "mg_client m1 = c1" "mg_identity m1 = Some alice"
    "js_get (mg_sessions m1) b = None" "js_get (mg_contacts m1) b = Some ?c" "paired m1" "mg_pairing m1 = Some p" "mg_random m1 = mg_random m"
    using assms(4,6,7,9,10,12)
    by (auto simp: acceptIdentityChange_def act_defs get_contact_def on_client_def save_contact_def put_contact_def notify_def paired_def)
  have id: "identity bundle' = publicIdentityOf eve" using assms(13) by (simp add: secrets_match_def)
  have ready: "sender_ready N alice b (signingPublicKey (identity bundle')) m1"
    using m1 assms(5,8) id by (simp add: sender_ready_def decideOutbound_def)
  have f: "length (fst (mg_random m1 i)) = 32" for i using assms(5) m1(8) by simp
  obtain sess where s: "startSession N (mg_random m1 0) (fst (mg_random m1 1)) (mg_random m1 2) alice bundle' None = Inr sess"
    "peerIdentity sess = publicIdentityOf eve"
    using startSession_total[OF assms(1,2,3) f f assms(13,14,15,16) disjI1[OF refl]] by blast
  have "fetchBundle T b (mg_client m1) = (Inr bundle', c2)" using m1(2) assms(11) by simp
  from ensureSession_opens[OF ready this s(1)] m1(1,7) s(2) show ?thesis by blast
qed

section \<open>The hypotheses can hold\<close>

definition demo_pairing :: pairing_state where
  "demo_pairing = \<lparr>ps_peerAddress = ''peer'', ps_peerIdentityKey = ''key'', ps_pairedAt = 0, ps_displayName = ''Peer''\<rparr>"

definition demo_delivery :: delivered_message where
  "demo_delivery = deliveryOf \<lparr>qm_id = ''m'', qm_envelope = encodeEnvelope demo_envelope, qm_receivedAt = 0\<rparr>"

lemma demo_address_long: "addressOf demo_library i = Inr a \<Longrightarrow> a \<noteq> ''peer''"
proof
  assume "addressOf demo_library i = Inr a" and "a = ''peer''"
  moreover have h: "length (sha256 demo_library b) = 32" for b
    using library_okD(10)[OF demo_library_ok] by (simp add: hash_sized_def)
  ultimately have "\<exists>b. toBase32 (take 16 (sha256 demo_library b)) = ''peer''"
    by (intro exI[of _ "utf8_encode ''Veil/v1/Address'' @ signingPublicKey i"])
      (simp add: addressOf_def addressOfKey_def hash256_def slice_def ADDRESS_BYTES_def split: if_splits)
  then obtain b where "toBase32 (take 16 (sha256 demo_library b)) = ''peer''" by blast
  then have "length (toBase32 (take 16 (sha256 demo_library b))) = length ''peer''" by (rule arg_cong)
  with h[of b] show False by (simp add: length_toBase32)
qed

theorem stranger_spoils_prekeys_witness:
  "\<exists>n k store'. paired n \<and> mg_pairing n = Some demo_pairing \<and>
    handleDelivered demo_library (relay_transport demo_library ''ip'') demo_delivery n = (Inr (''m'', False), k) \<and>
    mg_preKeys k = Some store' \<and>
    js_get (signedPreKeys store') (spk_id (signedPreKey demo_bundle)) = Some ((snd demo_spk)\<lparr>secretKey := replicate 32 0\<rparr>)"
proof -
  let ?n = "(demo_device None)\<lparr>mg_identity := Some demo_bob, mg_preKeys := Some demo_store, mg_pairing := Some demo_pairing\<rparr>"
  obtain e where e: "addressOf demo_library (publicIdentityOf demo_alice) = Inr e"
    using address_exists[OF demo_library_ok demo_identities_ok(1)] by blast
  have n: "length (fst (mg_random ?n 0)) = 32" "mg_identity ?n = Some demo_bob" "mg_preKeys ?n = Some demo_store"
    "js_get (mg_sessions ?n) e = None" "js_get (mg_pins ?n) e = None" "paired ?n" "mg_pairing ?n = Some demo_pairing"
    "ps_peerAddress demo_pairing \<noteq> e"
    using demo_address_long[OF e] by (auto simp: demo_device_def new_messenger_def paired_def demo_pairing_def)
  have d: "decodeEnvelope (dm_envelope demo_delivery) = Inr demo_envelope" "dm_id demo_delivery = ''m''"
    by (simp_all add: demo_delivery_def deliveryOf_def)
  obtain sess' where s: "encryptMessage demo_library (demo_fresh 11) demo_alice demo_session [104, 105] = (Inr demo_envelope, sess')"
    using demo_session(2) by blast
  from stranger_spoils_prekeys[where n = ?n and T = "relay_transport demo_library ''ip''", OF demo_library_ok demo_identities_ok demo_fresh_length demo_fresh_length
      demo_fresh_length n(1) demo_match(1,2) demo_session(1) s e d(1) n(2-8)]
  obtain k store' where "handleDelivered demo_library (relay_transport demo_library ''ip'') demo_delivery ?n = (Inr (''m'', False), k)"
    "mg_preKeys k = Some store'"
    "js_get (signedPreKeys store') (spk_id (signedPreKey demo_bundle)) = Some ((snd demo_spk)\<lparr>secretKey := replicate 32 0\<rparr>)"
    unfolding d(2) by blast
  with n(6,7) show ?thesis by blast
qed

text \<open>A relay that serves Bob's bundle under every address.\<close>

definition demo_liar :: "relay_net transport" where
  "demo_liar r w = (Inr (200, RBundle (bundle_response demo_plain_bundle)), w)"

lemma demo_liar_fetch: "fetchBundle demo_liar b c = (Inr demo_plain_bundle, c)"
  by (simp add: fetchBundle_def exchange_body_def act_bind_def request_def demo_liar_def expectJson_def act_return_def act_lift_def)

theorem accepted_key_is_the_relays_witness:
  "\<exists>m m1 m2 sess. paired m \<and> mg_pairing m = Some demo_pairing \<and>
    acceptIdentityChange demo_liar ''peer'' m = (Inr (), m1) \<and> ensureSession demo_library demo_liar ''peer'' m1 = (Inr sess, m2) \<and>
    peerIdentity sess = publicIdentityOf demo_bob \<and> addressOf demo_library (publicIdentityOf demo_bob) \<noteq> Inr ''peer''"
proof -
  let ?m = "(demo_device None)\<lparr>mg_identity := Some demo_alice, mg_pairing := Some demo_pairing, mg_contacts := [(''peer'', demo_contact)]\<rparr>"
  have m: "mg_identity ?m = Some demo_alice" "\<forall>i. length (fst (mg_random ?m i)) = 32" "paired ?m"
    "mg_pairing ?m = Some demo_pairing" "ps_peerAddress demo_pairing = ''peer''" "js_get (mg_contacts ?m) ''peer'' = Some demo_contact"
    by (simp_all add: demo_device_def new_messenger_def paired_def demo_pairing_def)
  have "\<exists>m1 m2 sess. acceptIdentityChange demo_liar ''peer'' ?m = (Inr (), m1) \<and>
      ensureSession demo_library demo_liar ''peer'' m1 = (Inr sess, m2) \<and>
      peerIdentity sess = publicIdentityOf demo_bob \<and> mg_pairing m1 = Some demo_pairing"
    by (rule accepted_key_is_the_relays[OF demo_library_ok demo_identities_ok m demo_liar_fetch demo_liar_fetch _ demo_plain_match(1,3)])
      (simp_all add: demo_plain_bundle_def demo_bundle_def)
  moreover have "addressOf demo_library (publicIdentityOf demo_bob) \<noteq> Inr ''peer''" using demo_address_long by blast
  ultimately show ?thesis using m(3,4) by blast
qed

end
