(* ===== verification/App_History.thy ===== *)
theory App_History
  imports App_Trust
begin

text \<open>
  Histories and disappearing messages of messenger.ts: what \<open>history\<close>, \<open>purgeExpired\<close> and
  \<open>deleteConversation\<close> return and leave behind, against filters over the stored messages; and the
  maps of the messenger stay maps.
\<close>

section \<open>The maps have one entry per key\<close>

definition maps_ok :: "'w messenger \<Rightarrow> bool" where
  "maps_ok m \<longleftrightarrow> js_ok (mg_messages m) \<and> js_ok (mg_contacts m) \<and> js_ok (mg_conversations m) \<and>
     js_ok (mg_sessions m) \<and> js_ok (mg_pins m)"

lemma maps_basic [act_rules]:
  "keeps maps_ok now_ms" "keeps maps_ok (draws n)" "keeps maps_ok (notify e)"
  "keeps maps_ok (put_conversation a v)" "keeps maps_ok (put_meta a i)" "keeps maps_ok (put_contact a c)"
  "keeps maps_ok (put_pin a b)" "keeps maps_ok (put_secret a x)" "keeps maps_ok (delete_message a)"
  "keeps maps_ok get_identity" "keeps maps_ok get_preKeys" "keeps maps_ok (set_identity idt)"
  "keeps maps_ok (on_client f)" "keeps maps_ok (put_session a s)" "keeps maps_ok (put_message j y)"
  "keeps maps_ok (encrypt_for N g pid a s b)" "keeps maps_ok (decrypt_delivered N g pid env store)"
  "keeps maps_ok (set_pairing p)" "keeps maps_ok (get_contact a)"
  by (auto simp: maps_ok_def keeps_iff now_ms_def draws_def notify_def put_conversation_def put_meta_def put_pin_def put_secret_def
      delete_message_def get_identity_def get_preKeys_def set_identity_def on_client_def put_session_def put_message_def
      encrypt_for_def decrypt_delivered_def set_pairing_def get_contact_def put_contact_def act_defs act_some_def
      split: prod.split option.split sum.split)

lemma maps_save [act_rules]: "keeps maps_ok (save_contact a c)" "keeps maps_ok (flag_change a c)"
  unfolding save_contact_def flag_change_def by (intro act_rules)+

lemma maps_conversations [act_rules]:
  "keeps maps_ok (touchConversation a v n)" "keeps maps_ok (setDisappearTimer a i)" "keeps maps_ok (markRead a)"
  unfolding touchConversation_def setDisappearTimer_def markRead_def with_conversation_def by (intro act_rules)+

lemma maps_session [act_rules]:
  "keeps maps_ok (rememberPeer a i)" "keeps maps_ok (open_session N T a)" "keeps maps_ok (ensureSession N T a)"
  "keeps maps_ok (sendPayload N T a x)" "keeps maps_ok (expiry y)"
  unfolding rememberPeer_def open_session_def ensureSession_def sendPayload_def expiry_def by (intro act_rules)+

lemma maps_sending [act_rules]:
  "keeps maps_ok (sendText N T a b x)" "keeps maps_ok (sendCallPayload N T a y)" "keeps maps_ok (sendTyping N T a v)"
  "keeps maps_ok (sendReceipt N T a ids r)" "keeps maps_ok (startConversation N T a)" "keeps maps_ok (apply_receipt r i)"
  unfolding sendText_def sendCallPayload_def sendTyping_def sendReceipt_def startConversation_def apply_receipt_def Let_def
  by (intro act_rules)+

lemma maps_receiving [act_rules]:
  "keeps maps_ok (onPayload N T a x)" "keeps maps_ok (handleDelivered N T d)"
proof -
  show "keeps maps_ok (onPayload N T a x)" for a x by (cases x) (auto simp: Let_def intro!: act_rules)
  then show "keeps maps_ok (handleDelivered N T d)"
    unfolding handleDelivered_def process_delivered_def report_failure_def accept_delivered_def
    by (intro act_rules) (auto intro!: act_rules split: error.split)
qed

lemma maps_handle_all [act_rules]: "keeps maps_ok (handle_all N T ds)"
  by (induction ds) (auto intro!: act_rules)

lemma maps_modify: "(\<And>m. maps_ok m \<Longrightarrow> maps_ok (f m)) \<Longrightarrow> keeps maps_ok (act_modify f)"
  by (rule keeps_modify)

lemma maps_sync [act_rules]: "keeps maps_ok (replenishPreKeysIfNeeded N T)" "keeps maps_ok (sync N T)"
proof -
  show "keeps maps_ok (replenishPreKeysIfNeeded N T)"
    unfolding replenishPreKeysIfNeeded_def by (intro act_rules) (simp add: maps_ok_def)
  then show "keeps maps_ok (sync N T)" unfolding sync_def by (intro act_rules)
qed

lemma maps_sweeps [act_rules]: "keeps maps_ok (sweep_history a t rows)" "keeps maps_ok (sweep_expired t rows n)"
  by (induction rows arbitrary: n) (auto intro!: act_rules)

lemma maps_rest [act_rules]:
  "keeps maps_ok (history a)" "keeps maps_ok purgeExpired" "keeps maps_ok (deleteConversation a)"
  "keeps maps_ok (initialise N T)" "keeps maps_ok (addContactFromCode N s)" "keeps maps_ok (markVerified a)"
  "keeps maps_ok (acceptIdentityChange T a)" "keeps maps_ok (renameContact a n)" "keeps maps_ok loadPins"
  unfolding history_def purgeExpired_def deleteConversation_def delete_of_def initialise_def load_identity_def
    store_identity_def addContactFromCode_def markVerified_def acceptIdentityChange_def renameContact_def loadPins_def
    listContacts_def load_pin_def Let_def
  by (intro act_rules; simp add: maps_ok_def)+

lemma maps_pairing [act_rules]:
  "keeps maps_ok (pairWithCode N s n)" "keeps maps_ok unpair" "keeps maps_ok (renamePairedPeer n)"
  unfolding pairWithCode_def unpair_def renamePairedPeer_def pairedPeer_def
  by (intro act_rules; simp add: maps_ok_def)+

lemma maps_step: "maps_ok m \<Longrightarrow> maps_ok (messenger_step N T c m)"
  by (cases c) (auto intro: keepsD act_rules)

lemma maps_run: "maps_ok m \<Longrightarrow> maps_ok (messenger_run N T calls m)"
  by (induction calls arbitrary: m) (simp_all add: maps_step)

lemma maps_new: "maps_ok (new_messenger opts w secrets clock rnd)"
  by (simp add: maps_ok_def new_messenger_def js_ok_def)

section \<open>Sweeping\<close>

text \<open>What a sweep removes and what it leaves, for the messages \<open>P\<close> selects.\<close>

definition removed :: "(string \<times> app_message \<Rightarrow> bool) \<Rightarrow> (string \<times> app_message) list \<Rightarrow> (string, app_message) jsmap \<Rightarrow> (string, app_message) jsmap" where
  "removed P rows M = fold (\<lambda>r M. if P r then js_delete (fst r) M else M) rows M"

lemma removed_filter: "js_ok M \<Longrightarrow> removed P M M = filter (\<lambda>r. \<not> P r) M"
proof -
  assume ok: "js_ok M"
  have "removed P rows K = filter (\<lambda>r. \<not> (\<exists>s \<in> set rows. P s \<and> fst s = fst r)) K" for rows K
  proof (induction rows arbitrary: K)
    case (Cons s rows)
    then show ?case by (auto simp: removed_def AList.delete_eq case_prod_unfold intro!: filter_cong)
  qed (simp add: removed_def)
  moreover have "(\<exists>s \<in> set M. P s \<and> fst s = fst r) \<longleftrightarrow> P r" if "r \<in> set M" for r
  proof -
    have "s = r" if "s \<in> set M" "fst s = fst r" for s
      using ok that \<open>r \<in> set M\<close> by (auto simp: js_ok_def distinct_map dest: inj_onD)
    then show ?thesis using that by auto
  qed
  ultimately show ?thesis by (simp only: cong: filter_cong)
qed

text \<open>A row is due for deletion when \<open>history\<close> of its conversation runs after its expiry.\<close>

abbreviation due :: "string \<Rightarrow> int \<Rightarrow> string \<times> app_message \<Rightarrow> bool" where
  "due a t r \<equiv> msg_conversationAddress (snd r) = a \<and> expired t (snd r)"

lemma sweep_history_eq:
  "sweep_history a t rows m = (Inr [x \<leftarrow> map snd rows. msg_conversationAddress x = a \<and> \<not> expired t x],
     m\<lparr>mg_messages := removed (due a t) rows (mg_messages m)\<rparr>)"
proof (induction rows arbitrary: m)
  case (Cons r rows)
  then show ?case by (cases r) (simp add: act_defs delete_message_def removed_def)
qed (simp add: act_defs removed_def)

lemma sweep_expired_eq:
  "sweep_expired t rows n m = (Inr (n + length (filter (\<lambda>r. expired t (snd r)) rows)),
     m\<lparr>mg_messages := removed (\<lambda>r. expired t (snd r)) rows (mg_messages m)\<rparr>)"
proof (induction rows arbitrary: n m)
  case (Cons r rows)
  then show ?case by (cases r) (simp add: act_defs delete_message_def removed_def)
qed (simp add: act_defs removed_def)

section \<open>Histories\<close>

lemma history_eq:
  assumes "js_ok (mg_messages m)"
  shows "history a m = (Inr (sort_key msg_timestamp [x \<leftarrow> map snd (mg_messages m). msg_conversationAddress x = a \<and> \<not> expired (mg_clock m 0) x]),
    m\<lparr>mg_clock := \<lambda>i. mg_clock m (Suc i), mg_messages := filter (\<lambda>r. \<not> due a (mg_clock m 0) r) (mg_messages m)\<rparr>)"
  by (simp add: history_def act_bind_def act_read_def now_ms_def sweep_history_eq act_return_def removed_filter[OF assms])

lemma purge_eq:
  assumes "js_ok (mg_messages m)"
  shows "purgeExpired m = (Inr (length (filter (\<lambda>r. expired (mg_clock m 0) (snd r)) (mg_messages m))),
    m\<lparr>mg_clock := \<lambda>i. mg_clock m (Suc i), mg_messages := filter (\<lambda>r. \<not> expired (mg_clock m 0) (snd r)) (mg_messages m)\<rparr>)"
  by (simp add: purgeExpired_def act_bind_def act_read_def now_ms_def sweep_expired_eq removed_filter[OF assms])

text \<open>C40
  Disappearing messages. In every state a device can reach, the history of a conversation is
  exactly its messages that have not expired, by time and, at equal times, in the order they
  were stored; reading it deletes exactly the expired ones of that conversation. The sweep deletes
  exactly the expired ones of all conversations and returns their number.
\<close>

theorem history_correct:
  assumes "m = messenger_run N T calls (new_messenger opts w secrets clock rnd)"
  shows "(\<exists>live. history a m = (Inr live, m\<lparr>mg_clock := \<lambda>i. mg_clock m (Suc i),
        mg_messages := filter (\<lambda>r. \<not> due a (mg_clock m 0) r) (mg_messages m)\<rparr>) \<and>
      sorted (map msg_timestamp live) \<and>
      (\<forall>t. [x \<leftarrow> live. msg_timestamp x = t] = [x \<leftarrow> map snd (mg_messages m). msg_timestamp x = t \<and>
         msg_conversationAddress x = a \<and> \<not> expired (mg_clock m 0) x])) \<and>
    purgeExpired m = (Inr (length (filter (\<lambda>r. expired (mg_clock m 0) (snd r)) (mg_messages m))),
      m\<lparr>mg_clock := \<lambda>i. mg_clock m (Suc i), mg_messages := filter (\<lambda>r. \<not> expired (mg_clock m 0) (snd r)) (mg_messages m)\<rparr>)"
proof -
  have ok: "js_ok (mg_messages m)"
    using maps_run[OF maps_new, of N T calls opts w secrets clock rnd] by (simp add: assms maps_ok_def)
  let ?live = "[x \<leftarrow> map snd (mg_messages m). msg_conversationAddress x = a \<and> \<not> expired (mg_clock m 0) x]"
  have "[x \<leftarrow> sort_key msg_timestamp ?live. msg_timestamp x = t] = [x \<leftarrow> map snd (mg_messages m). msg_timestamp x = t \<and>
         msg_conversationAddress x = a \<and> \<not> expired (mg_clock m 0) x]" for t
    using sort_key_stable[of msg_timestamp t ?live] by (simp add: conj_commute conj_left_commute)
  with history_eq[OF ok, of a] purge_eq[OF ok] show ?thesis by (intro conjI exI[of _ "sort_key msg_timestamp ?live"]) simp_all
qed

theorem history_correct_witness:
  "\<exists>m live. m = messenger_run demo_library (relay_transport demo_library ''ip'') [SendText ''bob'' ''hi'' (Some 5)] (demo_device (Some OpenMode)) \<and>
    fst (history ''bob'' m) = Inr live \<and> sorted (map msg_timestamp live) \<and>
    fst (purgeExpired m) = Inr (length (filter (\<lambda>r. expired (mg_clock m 0) (snd r)) (mg_messages m)))"
proof -
  let ?m = "messenger_run demo_library (relay_transport demo_library ''ip'') [SendText ''bob'' ''hi'' (Some 5)] (demo_device (Some OpenMode))"
  have "?m = messenger_run demo_library (relay_transport demo_library ''ip'') [SendText ''bob'' ''hi'' (Some 5)]
    (new_messenger \<lparr>mo_mode = Some OpenMode, mo_sendReceipts = False, mo_sendTypingIndicators = False\<rparr>
     (\<lambda>i. \<lparr>e_now = 0, e_now2 = 0, e_random = [word_of_nat i]\<rparr>, buildRelay None) [] (\<lambda>i. int i) demo_fresh)"
    by (simp only: demo_device_def)
  note h = history_correct[OF this, of "''bob''"]
  from h[THEN conjunct1] obtain live where live: "fst (history ''bob'' ?m) = Inr live" "sorted (map msg_timestamp live)"
    by (elim exE conjE) (rule that, simp_all only: fst_conv)
  have "fst (purgeExpired ?m) = Inr (length (filter (\<lambda>r. expired (mg_clock ?m 0) (snd r)) (mg_messages ?m)))"
    unfolding h[THEN conjunct2] fst_conv ..
  with live show ?thesis by (intro exI conjI) (rule refl)
qed

end
