(* ===== verification/App_Sqlite.thy ===== *)
theory App_Sqlite
  imports App_Storage "HOL-Library.Multiset"
begin

text \<open>
  The database on the device: apps/mobile/src/platform/database.ts. SQLite is a parameter, an
  engine that runs one of the statements of that file; \<open>sqlite_ok\<close> is what the SQL of those
  statements says. \<open>blob_store\<close> is the \<open>Database\<close> interface of core/storage.ts as a contract,
  which both databases of the app keep.
\<close>

section \<open>The contract of the interface\<close>

text \<open>
  \<open>holds d (collection, id)\<close> is the stored value. The rows of \<open>list\<close> come in an order the
  interface leaves open.
\<close>

locale blob_store =
  fixes get :: "string \<Rightarrow> string \<Rightarrow> 'd \<Rightarrow> bytes option \<times> 'd"
    and put :: "string \<Rightarrow> string \<Rightarrow> bytes \<Rightarrow> 'd \<Rightarrow> 'd"
    and delete :: "string \<Rightarrow> string \<Rightarrow> 'd \<Rightarrow> 'd"
    and rows :: "string \<Rightarrow> 'd \<Rightarrow> (string \<times> bytes) list \<times> 'd"
    and clear :: "'d \<Rightarrow> 'd"
    and valid :: "'d \<Rightarrow> bool"
    and holds :: "'d \<Rightarrow> string \<times> string \<rightharpoonup> bytes"
  assumes get_law: "valid d \<Longrightarrow> get c i d = (v, d') \<Longrightarrow> valid d' \<and> holds d' = holds d \<and> v = holds d (c, i)"
    and put_law: "valid d \<Longrightarrow> valid (put c i b d) \<and> holds (put c i b d) = (holds d)((c, i) \<mapsto> b)"
    and delete_law: "valid d \<Longrightarrow> valid (delete c i d) \<and> holds (delete c i d) = (holds d)((c, i) := None)"
    and rows_law: "valid d \<Longrightarrow> rows c d = (rs, d') \<Longrightarrow>
      valid d' \<and> holds d' = holds d \<and> distinct (map fst rs) \<and> map_of rs = (\<lambda>i. holds d (c, i))"
    and clear_law: "valid d \<Longrightarrow> valid (clear d) \<and> holds (clear d) = Map.empty"

text \<open>The calls a client of the interface makes, and their answers.\<close>

datatype db_op = DbGet string string | DbPut string string bytes | DbDelete string string | DbList string | DbClear

datatype db_answer = Value "bytes option" | Rows "(string \<times> bytes) list" | Nothing

fun db_same :: "db_answer \<Rightarrow> db_answer \<Rightarrow> bool" where
  "db_same (Rows rs) (Rows ss) = (mset rs = mset ss)"
| "db_same a b = (a = b)"

fun call_db :: "(string \<Rightarrow> string \<Rightarrow> 'd \<Rightarrow> bytes option \<times> 'd) \<Rightarrow> (string \<Rightarrow> string \<Rightarrow> bytes \<Rightarrow> 'd \<Rightarrow> 'd) \<Rightarrow>
    (string \<Rightarrow> string \<Rightarrow> 'd \<Rightarrow> 'd) \<Rightarrow> (string \<Rightarrow> 'd \<Rightarrow> (string \<times> bytes) list \<times> 'd) \<Rightarrow> ('d \<Rightarrow> 'd) \<Rightarrow> db_op \<Rightarrow> 'd \<Rightarrow> db_answer \<times> 'd" where
  "call_db g p e l z (DbGet c i) d = map_prod Value id (g c i d)"
| "call_db g p e l z (DbPut c i b) d = (Nothing, p c i b d)"
| "call_db g p e l z (DbDelete c i) d = (Nothing, e c i d)"
| "call_db g p e l z (DbList c) d = map_prod Rows id (l c d)"
| "call_db g p e l z DbClear d = (Nothing, z d)"

fun call_all :: "('op \<Rightarrow> 'd \<Rightarrow> 'a \<times> 'd) \<Rightarrow> 'op list \<Rightarrow> 'd \<Rightarrow> 'a list" where
  "call_all f [] d = []"
| "call_all f (x # xs) d = (let (a, d') = f x d in a # call_all f xs d')"

text \<open>What the contract fixes: the answer of a call, up to the order of rows, and the rows after it.\<close>

fun db_effect :: "db_op \<Rightarrow> (string \<times> string \<rightharpoonup> bytes) \<Rightarrow> string \<times> string \<rightharpoonup> bytes" where
  "db_effect (DbPut c i b) h = h((c, i) \<mapsto> b)"
| "db_effect (DbDelete c i) h = h((c, i) := None)"
| "db_effect DbClear h = Map.empty"
| "db_effect _ h = h"

fun db_right :: "db_op \<Rightarrow> (string \<times> string \<rightharpoonup> bytes) \<Rightarrow> db_answer \<Rightarrow> bool" where
  "db_right (DbGet c i) h a = (a = Value (h (c, i)))"
| "db_right (DbList c) h a = (\<exists>rs. a = Rows rs \<and> distinct (map fst rs) \<and> map_of rs = (\<lambda>i. h (c, i)))"
| "db_right _ h a = (a = Nothing)"

lemma same_rows: "distinct (map fst rs) \<Longrightarrow> distinct (map fst ss) \<Longrightarrow> map_of rs = map_of ss \<Longrightarrow> mset rs = mset ss"
proof -
  assume d: "distinct (map fst rs)" "distinct (map fst ss)" and m: "map_of rs = map_of ss"
  have "(k, v) \<in> set rs \<longleftrightarrow> (k, v) \<in> set ss" for k v
    using map_of_eq_Some_iff[OF d(1), of k v] map_of_eq_Some_iff[OF d(2), of k v] by (simp only: m)
  then have s: "set rs = set ss" by (simp add: set_eq_iff)
  have "distinct rs" "distinct ss" using d by (simp_all add: distinct_map)
  then show ?thesis using s by (simp add: set_eq_iff_mset_eq_distinct)
qed

lemma right_same: "db_right op h a \<Longrightarrow> db_right op h b \<Longrightarrow> db_same a b"
  by (cases op) (auto intro!: same_rows)

context blob_store
begin

lemma call_right:
  assumes "valid d" and "call_db get put delete rows clear op d = (a, d')"
  shows "valid d' \<and> holds d' = db_effect op (holds d) \<and> db_right op (holds d) a"
proof (cases op)
  case (DbGet c i)
  obtain v d'' where g: "get c i d = (v, d'')" by fastforce
  show ?thesis using assms(2) DbGet g get_law[OF assms(1) g] by simp
next
  case (DbList c)
  obtain rs d'' where g: "rows c d = (rs, d'')" by fastforce
  show ?thesis using assms(2) DbList g rows_law[OF assms(1) g] by auto
qed (use assms(2) put_law[OF assms(1)] delete_law[OF assms(1)] clear_law[OF assms(1)] in auto)

end

lemma stores_agree:
  assumes "blob_store g p e l z valid holds" and "blob_store g' p' e' l' z' valid' holds'"
    and "valid d" and "valid' d'" and "holds d = holds' d'"
  shows "list_all2 db_same (call_all (call_db g p e l z) ops d) (call_all (call_db g' p' e' l' z') ops d')"
  using assms(3-5)
proof (induction ops arbitrary: d d')
  case (Cons op ops)
  obtain a e1 b e2 where c: "call_db g p e l z op d = (a, e1)" "call_db g' p' e' l' z' op d' = (b, e2)" by fastforce
  note r = blob_store.call_right[OF assms(1) Cons.prems(1) c(1)] blob_store.call_right[OF assms(2) Cons.prems(2) c(2)]
  have "db_same a b" using r Cons.prems(3) by (metis right_same)
  with r Cons show ?case by (simp add: c)
qed simp

section \<open>The database in memory\<close>

definition mem_valid :: "database \<Rightarrow> bool" where
  "mem_valid db \<longleftrightarrow> (\<forall>name. js_ok (rows_in name db))"

definition mem_holds :: "database \<Rightarrow> string \<times> string \<rightharpoonup> bytes" where
  "mem_holds db = (\<lambda>(c, i). js_get (rows_in c db) i)"

lemma rows_in_put: "rows_in name (db_put c i b db) = (if name = c then js_set i b (rows_in c db) else rows_in name db)"
  by (metis rows_simps(1,3))

lemma rows_in_delete: "rows_in name (db_delete c i db) = (if name = c then js_delete i (rows_in c db) else rows_in name db)"
  by (metis rows_simps(2,4))

lemma rows_in_clear: "rows_in name (db_clear db) = []"
  by (simp add: rows_in_def db_clear_def db_collection_def)

lemma rows_in_get: "rows_in name (snd (db_get c i db)) = rows_in name db"
  by (simp add: db_get_def case_prod_unfold Let_def)

interpretation memory: blob_store db_get db_put db_delete db_list db_clear mem_valid mem_holds
proof
  fix c i v and b :: bytes and d d' :: database and rs
  assume d: "mem_valid d"
  show "mem_valid (db_put c i b d) \<and> mem_holds (db_put c i b d) = (mem_holds d)((c, i) \<mapsto> b)"
    using d by (auto simp: mem_valid_def mem_holds_def rows_in_put fun_eq_iff)
  show "mem_valid (db_delete c i d) \<and> mem_holds (db_delete c i d) = (mem_holds d)((c, i) := None)"
    using d by (auto simp: mem_valid_def mem_holds_def rows_in_delete fun_eq_iff)
  show "mem_valid (db_clear d) \<and> mem_holds (db_clear d) = Map.empty"
    by (auto simp: mem_valid_def mem_holds_def rows_in_clear js_ok_def)
  show "mem_valid d' \<and> mem_holds d' = mem_holds d \<and> v = mem_holds d (c, i)" if "db_get c i d = (v, d')"
    using d that rows_simps(6)[of c i d] rows_in_get[of name c i d for name] by (simp add: mem_valid_def mem_holds_def)
  show "mem_valid d' \<and> mem_holds d' = mem_holds d \<and> distinct (map fst rs) \<and> map_of rs = (\<lambda>i. mem_holds d (c, i))"
    if "db_list c d = (rs, d')"
  proof -
    have "rs = rows_in c d" "\<And>name. rows_in name d' = rows_in name d"
      using that rows_simps(5)[of name c d for name] by (simp_all add: db_list_def rows_in_def)
    then show ?thesis using d by (simp add: mem_valid_def mem_holds_def js_ok_def)
  qed
qed

section \<open>The database on SQLite\<close>

record record_row =
  row_collection :: string
  row_id :: string
  row_value :: bytes

text \<open>The statements of the file, with their parameters bound.\<close>

datatype statement =
    CreateRecords
  | SelectValue string string
  | InsertOrReplace string string bytes
  | DeleteRecord string string
  | SelectCollection string
  | DeleteRecords
  | Vacuum

record 'f sqlite =
  run_statement :: "statement \<Rightarrow> 'f \<Rightarrow> record_row list \<times> 'f"

definition sq_open :: "'f sqlite \<Rightarrow> 'f \<Rightarrow> 'f" where
  "sq_open E f = snd (run_statement E CreateRecords f)"

definition sq_get :: "'f sqlite \<Rightarrow> string \<Rightarrow> string \<Rightarrow> 'f \<Rightarrow> bytes option \<times> 'f" where
  "sq_get E c i f = (let (rows, f) = run_statement E (SelectValue c i) f in
     (case rows of [] \<Rightarrow> None | row # _ \<Rightarrow> Some (row_value row), f))"

definition sq_put :: "'f sqlite \<Rightarrow> string \<Rightarrow> string \<Rightarrow> bytes \<Rightarrow> 'f \<Rightarrow> 'f" where
  "sq_put E c i v f = snd (run_statement E (InsertOrReplace c i v) f)"

definition sq_delete :: "'f sqlite \<Rightarrow> string \<Rightarrow> string \<Rightarrow> 'f \<Rightarrow> 'f" where
  "sq_delete E c i f = snd (run_statement E (DeleteRecord c i) f)"

definition sq_list :: "'f sqlite \<Rightarrow> string \<Rightarrow> 'f \<Rightarrow> (string \<times> bytes) list \<times> 'f" where
  "sq_list E c f = (let (rows, f) = run_statement E (SelectCollection c) f in
     (map (\<lambda>row. (row_id row, row_value row)) rows, f))"

definition sq_clear :: "'f sqlite \<Rightarrow> 'f \<Rightarrow> 'f" where
  "sq_clear E f = (let f = snd (run_statement E DeleteRecords f) in snd (run_statement E Vacuum f))"

text \<open>
  The SQL of the statements over a table whose primary key is (collection, id): \<open>table f\<close> is the
  set of its rows, by key. A result has one row per key, in an order SQL leaves open.
\<close>

definition result_of :: "(string \<times> string \<rightharpoonup> bytes) \<Rightarrow> (string \<Rightarrow> string \<Rightarrow> bool) \<Rightarrow> record_row list \<Rightarrow> bool" where
  "result_of t P rows \<longleftrightarrow> distinct (map (\<lambda>r. (row_collection r, row_id r)) rows) \<and>
     (\<forall>r. r \<in> set rows \<longleftrightarrow> P (row_collection r) (row_id r) \<and> t (row_collection r, row_id r) = Some (row_value r))"

definition sqlite_ok :: "'f sqlite \<Rightarrow> ('f \<Rightarrow> string \<times> string \<rightharpoonup> bytes) \<Rightarrow> bool" where
  "sqlite_ok E table \<longleftrightarrow> (\<forall>f c i v.
     table (snd (run_statement E CreateRecords f)) = table f \<and>
     table (snd (run_statement E (SelectValue c i) f)) = table f \<and>
     result_of (table f) (\<lambda>c' i'. c' = c \<and> i' = i) (fst (run_statement E (SelectValue c i) f)) \<and>
     table (snd (run_statement E (InsertOrReplace c i v) f)) = (table f)((c, i) \<mapsto> v) \<and>
     table (snd (run_statement E (DeleteRecord c i) f)) = (table f)((c, i) := None) \<and>
     table (snd (run_statement E (SelectCollection c) f)) = table f \<and>
     result_of (table f) (\<lambda>c' i'. c' = c) (fst (run_statement E (SelectCollection c) f)) \<and>
     table (snd (run_statement E DeleteRecords f)) = Map.empty \<and>
     table (snd (run_statement E Vacuum f)) = table f)"

lemma result_one: "result_of t (\<lambda>c' i'. c' = c \<and> i' = i) rows \<Longrightarrow>
    (case rows of [] \<Rightarrow> None | row # _ \<Rightarrow> Some (row_value row)) = t (c, i)"
proof (cases rows)
  case Nil
  assume "result_of t (\<lambda>c' i'. c' = c \<and> i' = i) rows"
  then have "t (c, i) \<noteq> Some v" for v
    using Nil by (auto simp: result_of_def dest: spec[of _ "\<lparr>row_collection = c, row_id = i, row_value = v\<rparr>"])
  then show ?thesis using Nil by (cases "t (c, i)") auto
next
  case (Cons r rs)
  assume "result_of t (\<lambda>c' i'. c' = c \<and> i' = i) rows"
  then have "\<forall>x. x \<in> set rows \<longleftrightarrow> row_collection x = c \<and> row_id x = i \<and> t (row_collection x, row_id x) = Some (row_value x)"
    by (auto simp: result_of_def)
  from this[rule_format, of r] have "t (c, i) = Some (row_value r)" using Cons by auto
  then show ?thesis using Cons by simp
qed

lemma result_collection:
  assumes "result_of t (\<lambda>c' i'. c' = c) rows"
  defines "rs \<equiv> map (\<lambda>row. (row_id row, row_value row)) rows"
  shows "distinct (map fst rs) \<and> map_of rs = (\<lambda>i. t (c, i))"
proof
  have one: "row_collection r = c" if "r \<in> set rows" for r using assms(1) that by (auto simp: result_of_def)
  have "map (\<lambda>r. (row_collection r, row_id r)) rows = map (Pair c) (map fst rs)"
    using one by (simp add: rs_def)
  then have "distinct (map (Pair c) (map fst rs))" using assms(1) by (simp only: result_of_def)
  then show d: "distinct (map fst rs)" by (simp only: distinct_map)
  have "(i, v) \<in> set rs \<longleftrightarrow> t (c, i) = Some v" for i v
  proof -
    have "(i, v) \<in> set rs \<longleftrightarrow> \<lparr>row_collection = c, row_id = i, row_value = v\<rparr> \<in> set rows"
    proof
      assume "(i, v) \<in> set rs"
      then obtain r where r: "r \<in> set rows" "row_id r = i" "row_value r = v" by (auto simp: rs_def)
      with one[OF r(1)] have "r = \<lparr>row_collection = c, row_id = i, row_value = v\<rparr>" by (cases r) simp
      with r show "\<lparr>row_collection = c, row_id = i, row_value = v\<rparr> \<in> set rows" by simp
    qed (force simp: rs_def)
    then show ?thesis using assms(1) by (simp add: result_of_def)
  qed
  then show "map_of rs = (\<lambda>i. t (c, i))"
    using d by (metis (no_types, lifting) ext map_of_eq_Some_iff not_Some_eq)
qed

lemma sqlite_store:
  assumes "sqlite_ok E table"
  shows "blob_store (sq_get E) (sq_put E) (sq_delete E) (sq_list E) (sq_clear E) (\<lambda>f. True) table"
proof
  fix c i v and b :: bytes and d d' rs
  show "True \<and> table (sq_put E c i b d) = (table d)((c, i) \<mapsto> b)"
    and "True \<and> table (sq_delete E c i d) = (table d)((c, i) := None)" and "True \<and> table (sq_clear E d) = Map.empty"
    using assms by (simp_all add: sq_put_def sq_delete_def sq_clear_def sqlite_ok_def)
  show "True \<and> table d' = table d \<and> v = table d (c, i)" if "sq_get E c i d = (v, d')"
    using that assms result_one[of "table d" c i "fst (run_statement E (SelectValue c i) d)"]
    by (auto simp: sq_get_def sqlite_ok_def case_prod_unfold Let_def)
  show "True \<and> table d' = table d \<and> distinct (map fst rs) \<and> map_of rs = (\<lambda>i. table d (c, i))" if "sq_list E c d = (rs, d')"
    using that assms result_collection[of "table d" c "fst (run_statement E (SelectCollection c) d)"]
    by (auto simp: sq_list_def sqlite_ok_def case_prod_unfold Let_def)
qed

text \<open>C31
  The tests run on the database the device has. Started on an empty file, SqliteDatabase answers
  every sequence of calls as InMemoryDatabase does, one by one, except that the rows of \<open>list\<close> may
  come in another order.
\<close>

theorem sqlite_as_memory:
  assumes "sqlite_ok E table" and "table f = Map.empty"
  shows "list_all2 db_same
    (call_all (call_db (sq_get E) (sq_put E) (sq_delete E) (sq_list E) (sq_clear E)) ops (sq_open E f))
    (call_all (call_db db_get db_put db_delete db_list db_clear) ops [])"
proof (rule stores_agree[OF sqlite_store[OF assms(1)] memory.blob_store_axioms])
  show "mem_valid []" by (simp add: mem_valid_def rows_in_def db_collection_def js_ok_def)
  show "table (sq_open E f) = mem_holds []"
    using assms by (auto simp: sq_open_def sqlite_ok_def mem_holds_def rows_in_def db_collection_def)
qed simp

text \<open>An engine: the rows under their keys, the latest first.\<close>

type_synonym row_file = "(string \<times> string, bytes) jsmap"

definition selected :: "(string \<Rightarrow> string \<Rightarrow> bool) \<Rightarrow> row_file \<Rightarrow> record_row list" where
  "selected P f = map (\<lambda>((c, i), v). \<lparr>row_collection = c, row_id = i, row_value = v\<rparr>)
     (filter (\<lambda>((c, i), v). P c i) (AList.clearjunk f))"

fun demo_engine :: "statement \<Rightarrow> row_file \<Rightarrow> record_row list \<times> row_file" where
  "demo_engine (SelectValue c i) f = (selected (\<lambda>c' i'. c' = c \<and> i' = i) f, f)"
| "demo_engine (SelectCollection c) f = (selected (\<lambda>c' i'. c' = c) f, f)"
| "demo_engine (InsertOrReplace c i v) f = ([], ((c, i), v) # f)"
| "demo_engine (DeleteRecord c i) f = ([], js_delete (c, i) f)"
| "demo_engine DeleteRecords f = ([], [])"
| "demo_engine _ f = ([], f)"

lemma selected_result: "result_of (map_of f) P (selected P f)"
proof -
  let ?f = "AList.clearjunk f"
  have d: "distinct (map fst ?f)" by (simp add: distinct_clearjunk)
  have keys: "map (\<lambda>r. (row_collection r, row_id r)) (selected P f) = map fst (filter (\<lambda>((c, i), v). P c i) ?f)"
    by (simp add: selected_def case_prod_unfold comp_def)
  have "r \<in> set (selected P f) \<longleftrightarrow> P (row_collection r) (row_id r) \<and> ((row_collection r, row_id r), row_value r) \<in> set ?f" for r
    by (cases r) (force simp: selected_def)
  then show ?thesis
    using d by (simp add: result_of_def keys distinct_map_filter map_of_clearjunk flip: map_of_eq_Some_iff[OF d])
qed

lemma demo_engine_ok: "sqlite_ok \<lparr>run_statement = demo_engine\<rparr> map_of"
  by (simp add: sqlite_ok_def selected_result delete_conv')

theorem sqlite_as_memory_witness:
  "sqlite_ok \<lparr>run_statement = demo_engine\<rparr> map_of \<and> list_all2 db_same
    (call_all (call_db (sq_get \<lparr>run_statement = demo_engine\<rparr>) (sq_put \<lparr>run_statement = demo_engine\<rparr>) (sq_delete \<lparr>run_statement = demo_engine\<rparr>)
       (sq_list \<lparr>run_statement = demo_engine\<rparr>) (sq_clear \<lparr>run_statement = demo_engine\<rparr>))
      [DbPut ''m'' ''a'' [1], DbPut ''m'' ''b'' [2], DbPut ''m'' ''a'' [3], DbList ''m'', DbClear, DbGet ''m'' ''a''] (sq_open \<lparr>run_statement = demo_engine\<rparr> []))
    [Nothing, Nothing, Nothing, Rows [(''a'', [3]), (''b'', [2])], Nothing, Value None]"
proof -
  let ?ops = "[DbPut ''m'' ''a'' [1], DbPut ''m'' ''b'' [2], DbPut ''m'' ''a'' [3], DbList ''m'', DbClear, DbGet ''m'' ''a'']"
  have "call_all (call_db db_get db_put db_delete db_list db_clear) ?ops [] =
      [Nothing, Nothing, Nothing, Rows [(''a'', [3]), (''b'', [2])], Nothing, Value None]"
    by (simp add: db_get_def db_put_def db_list_def db_clear_def db_collection_def)
  with sqlite_as_memory[OF demo_engine_ok, of "[]" ?ops] demo_engine_ok show ?thesis by (simp only: map_of.simps(1) simp_thms)
qed

end
