(* ===== verification/Spec2Isabelle.thy ===== *)
theory Spec2Isabelle
  imports Veil_Correctness Veil_CallKeys Veil_SafetyNumber Veil_Vault Relay_Safety App_Shell App_Transport App_Media App_Gradle
    App_Policies App_Calls App_Pairing App_History App_Sqlite
begin

text \<open>
  A verification development for Veil, an end-to-end encrypted messenger with voice calls. The
  paths below are relative to the repository; the crypto library is packages/crypto/src, the wire
  contract packages/protocol/src, the relay packages/relay/src, the app apps/mobile.

  \<^bold>\<open>The program.\<close> Two devices talk through a relay they do not trust. An identity is a signing
  and an exchange key; its address is a hash of the signing key. To write to an address, a device
  fetches a prekey bundle from the relay, verifies it, runs a hybrid handshake (PQXDH) and keeps
  a Double Ratchet session; each message is padded, encrypted by the ratchet and sealed in an
  envelope that hides its sender. The relay keeps accounts, one-time prekeys and queues of sealed
  envelopes, and hands a queue to whoever proves the identity key of its address. The app keeps
  contacts, conversations, messages and sessions encrypted under a passphrase (the vault), pins
  the key of every contact, may be paired with one single peer, and sets up calls whose frames are
  encrypted end to end and whose keys two people compare by four words.

  \<^bold>\<open>Shared theories.\<close> Veil_Prelude: bytes, the error classes of errors.ts, results of code that may
  throw (\<open>error + 'a\<close>), JavaScript's \<open>Map\<close> as an association list in insertion order (\<open>jsmap\<close>).
  App_Actions: methods with effects (a function from the state to a result or an error and the
  next state, which keeps what was changed before a throw) and triples over them (\<open>act_rules\<close>).
  App_Json: \<open>JSON.stringify\<close>, \<open>JSON.parse\<close>, \<open>TextEncoder\<close>, \<open>trim\<close>. Veil_Instance: a concrete, insecure
  library and two parties over it, on which the witnesses evaluate.

  \<^bold>\<open>The crypto library.\<close> Each theory follows one file, with a definition per function of it.
  \<^item> Veil_Wire (wire.ts): \<open>Writer\<close>, \<open>Reader\<close>, hex, base32. The locales \<open>wire_codec\<close> and those that
    extend it say what a codec promises, and every codec of the program interprets them.
  \<^item> Veil_Primitives (primitives.ts, kdf.ts), Veil_Padding (padding.ts), Veil_Identity (identity.ts),
    Veil_Pqxdh (pqxdh.ts), Veil_Ratchet (doubleRatchet.ts), Veil_Envelope (envelope.ts),
    Veil_PreKeyStore (preKeyStore.ts, the locale \<open>prekey_resolver\<close> for the interface that sessions
    call), Veil_Session (session.ts).
  \<^item> Veil_Sframe (sframe.ts), Veil_CallKeys and Veil_Sas (callKeys.ts), Veil_SafetyNumber
    (safetyNumber.ts), Veil_Vault (vault.ts).
  \<^item> Veil_Delivery: with honest keys, starting a session and encrypting do not fail. Veil_Correctness:
    the properties that span these files: delivery in any order with losses, replay, bounds on
    skipped keys, authenticity of the sender, single use of one-time prekeys, padding, and the
    defect that a forged header turns the ratchet (so that replay is refused on the current
    chain only).

  \<^bold>\<open>Wire contract and relay.\<close> Veil_Base64 and Veil_Protocol (packages/protocol/src/index.ts);
  Relay_Store (store.ts, with mailboxes and key pools as locales), Relay_RateLimit (rateLimit.ts),
  Relay_Auth (auth.ts), Relay_Server (validate.ts, relay.ts: one record \<open>relay_state\<close>, every route,
  every frame of a socket from its text on, the timer). Relay_Safety: what holds after every run
  of the relay, a trace of requests, frames, closings and ticks; a token or a connection is worth
  what the trace shows it was earned by.

  \<^bold>\<open>The app.\<close>
  \<^item> App_Types (core/types.ts), App_Storage (core/storage.ts: an encrypted collection refines a map,
    the locale \<open>stored_type\<close> per type of row), App_Sqlite (platform/database.ts: the \<open>Database\<close>
    interface as the locale \<open>blob_store\<close>, kept by both databases), App_Keystore
    (platform/secureStore.ts, random.ts), App_Policies (core/lockPolicy.ts, unlockPolicy.ts,
    pairing.ts, display.ts, platform/screenSecurity.ts).
  \<^item> App_Relay (core/relayClient.ts) over any transport, App_Messenger (core/messenger.ts: one record
    \<open>messenger\<close>, every method an action on it). App_Lock: the pairing lock over every run of
    methods. App_Trust: who may verify a contact or change its key. App_Delivery: a text from
    one device over the modelled relay to another. App_Pairing, App_History: pairing, trust in a
    key, histories and disappearing messages.
  \<^item> App_Calls (core/callManager.ts), App_Media (platform/webrtc.ts), App_Transport
    (platform/transport.ts), App_Shell (App.tsx), App_Screens (screens and ui/components.tsx).
  \<^item> App_Android and App_Gradle: the build plug-ins withAndroidPrivacy.js and withProguardRules.js.

  \<^bold>\<open>Conventions.\<close> Code that may throw returns its result and the state it leaves, so that what it
  changed before throwing shows. Clock readings, random bytes and the answers of the platform are
  arguments, or streams in the state. Routes of the relay and methods of the messenger run one
  after the other; the call manager and the app shell are cut at each \<open>await\<close>, their pending
  continuations resume in any order, and their invariants hold under every interleaving.
  Effects on the screen, the media engine and the network are logged or are events.

  \<^bold>\<open>Parameters.\<close> The noble cryptographic library is the record \<open>noble\<close>, an argument of everything that
  calls it; \<open>library_ok\<close> and the predicates of Veil_Primitives state its documented behaviour
  (lengths, agreement of Diffie-Hellman, correctness of signatures, KEM and AEAD), never secrecy.
  Properties about forged input say what is accepted, by which check; computational security
  is not modelled. The relay that a device talks to is an arbitrary transport, except where the
  modelled relay is composed with it. SQLite, the manifest merger, the keystore's answer across
  its two modes and the platform's \<open>createEncodedStreams\<close> are parameters of the same kind.

  \<^bold>\<open>Bounds and fuel.\<close> Lengths that the code writes in 32 or 64 bits are bounded where it bounds
  them; the codec lemmas carry \<open>fits_u32\<close> and \<open>fits_u64\<close>. Bucket sizes stay below \<open>2 ^ 50\<close>, where
  doubles are exact; the bucket loop is a \<open>while_option\<close> that is shown to end. \<open>json_parse\<close> has
  fuel twice the length of the text plus one, and \<open>cost_length\<close> shows that every printed value
  needs no more. Other loops are structural recursion or have a termination measure. The rate
  limiter's bound needs at most 100000 clients, the size of its table. Text holds
  code points below 256, numbers in JSON are exact integers.

  \<^bold>\<open>Not modelled.\<close> Fastify, HTTP parsing, TLS and process start-up (relay/src/server.ts); React
  rendering, layout, colours and the wording of notices, with screens/MyCodeScreen.tsx, which only
  lays out the lines of \<open>chunkCode\<close>; the plug-in mechanism of Expo and Gradle; WebRTC; re-exports,
  configuration, tests. Characters above 255, and the rounding of numbers to doubles, are outside
  the models of text and numbers; a socket frame with such an escape, or with an envelope member
  that is no string, is outside the model of the relay's socket (None). The replies that resume
  the app shell are arbitrary, more than its objects give. Callbacks that only pass a value to
  the platform are logged effects.
\<close>

end
